(* ===== verification/Prelude.thy ===== *)
theory Prelude
  imports Main "HOL-Library.Word"
begin

text \<open>
  Shared vocabulary of the development: the machine types, the result type of code that may
  touch memory outside an object, the combinator for the C++ idiom
  \<^verbatim>\<open>if(!f(x)) return false;\<close>, and generic lemmas on lists and words.
\<close>

section \<open>Machine types\<close>

type_synonym byte = "8 word"
type_synonym u16 = "16 word"
type_synonym u32 = "32 word"
type_synonym u64 = "64 word"
type_synonym llarp_time = "64 word"

text \<open>The byte of an ASCII character literal.\<close>

abbreviation ch :: "char \<Rightarrow> byte" where
  "ch c \<equiv> of_char c"

abbreviation str :: "string \<Rightarrow> byte list" where
  "str s \<equiv> map of_char s"

section \<open>Results of code that may fault\<close>

text \<open>
  \<open>OutOfBounds\<close> is an access outside the memory of an object (undefined behaviour in C++);
  \<open>UseAfterFree\<close> is a call on an object that was destroyed;
  \<open>Terminated\<close> is an exception that nobody catches or a call of \<^verbatim>\<open>abort\<close>, either of which ends the process;
  \<open>UndefinedConversion\<close> is a floating-point value converted to an integer type that cannot hold it;
  \<open>OutOfFuel\<close> is the model's loop bound, and every component proves a bound that is enough.
\<close>

datatype fault = OutOfBounds | OutOfFuel | UseAfterFree | Terminated | UndefinedConversion

type_synonym 'a res = "fault + 'a"

definition bind_res :: "'a res \<Rightarrow> ('a \<Rightarrow> 'b res) \<Rightarrow> 'b res" where
  "bind_res m f = (case m of Inl e \<Rightarrow> Inl e | Inr x \<Rightarrow> f x)"

lemma bind_res_Inl [simp]: "bind_res (Inl e) f = Inl e"
  by (simp add: bind_res_def)

lemma bind_res_Inr [simp]: "bind_res (Inr x) f = f x"
  by (simp add: bind_res_def)

lemma bind_res_eq_Inr_iff: "bind_res m f = Inr y \<longleftrightarrow> (\<exists>x. m = Inr x \<and> f x = Inr y)"
  by (cases m) auto

lemma bind_res_cong [fundef_cong]:
  "m = m' \<Longrightarrow> (\<And>x. m' = Inr x \<Longrightarrow> f x = g x) \<Longrightarrow> bind_res m f = bind_res m' g"
  by (cases m') auto

text \<open>
  A member function that returns \<^verbatim>\<open>bool\<close> and changes a state: the state after a
  \<^verbatim>\<open>false\<close> return is kept, since C++ does not roll it back.
\<close>

type_synonym 's action = "'s \<Rightarrow> (bool \<times> 's) res"

definition and_then :: "'s action \<Rightarrow> 's action \<Rightarrow> 's action" where
  "and_then f g s = bind_res (f s) (\<lambda>(ok, s'). if ok then g s' else Inr (False, s'))"

fun all_steps :: "'s action list \<Rightarrow> 's action" where
  "all_steps [] s = Inr (True, s)"
| "all_steps (f # fs) s = and_then f (all_steps fs) s"

lemma and_then_True [simp]: "f s = Inr (True, s') \<Longrightarrow> and_then f g s = g s'"
  by (simp add: and_then_def)

lemma and_then_False [simp]: "f s = Inr (False, s') \<Longrightarrow> and_then f g s = Inr (False, s')"
  by (simp add: and_then_def)

lemma and_then_fault [simp]: "f s = Inl e \<Longrightarrow> and_then f g s = Inl e"
  by (simp add: and_then_def)

subsection \<open>Actions that never fault\<close>

text \<open>
  \<open>safe P f\<close>: from a state with \<open>P\<close> the action returns (with \<^verbatim>\<open>true\<close> or
  \<^verbatim>\<open>false\<close>) and \<open>P\<close> holds again.
\<close>

definition safe :: "('s \<Rightarrow> bool) \<Rightarrow> 's action \<Rightarrow> bool" where
  "safe P f \<longleftrightarrow> (\<forall>s. P s \<longrightarrow> (\<exists>ok s'. f s = Inr (ok, s') \<and> P s'))"

lemma safeI: "(\<And>s. P s \<Longrightarrow> \<exists>ok s'. f s = Inr (ok, s') \<and> P s') \<Longrightarrow> safe P f"
  by (simp add: safe_def)

lemma safeE:
  assumes "safe P f" and "P s"
  obtains ok s' where "f s = Inr (ok, s')" and "P s'"
  using assms by (auto simp: safe_def)

lemma safe_and_then [intro]:
  assumes f: "safe P f" and g: "safe P g"
  shows "safe P (and_then f g)"
proof (rule safeI)
  fix s assume "P s"
  with f obtain ok s1 where 1: "f s = Inr (ok, s1)" "P s1" by (rule safeE)
  show "\<exists>ok s'. and_then f g s = Inr (ok, s') \<and> P s'"
  proof (cases ok)
    case True
    from g 1(2) obtain ok' s2 where "g s1 = Inr (ok', s2)" "P s2" by (rule safeE)
    with True 1 show ?thesis by auto
  qed (use 1 in auto)
qed

lemma safe_all_steps [intro]: "(\<And>f. f \<in> set fs \<Longrightarrow> safe P f) \<Longrightarrow> safe P (all_steps fs)"
proof (induction fs)
  case Nil
  show ?case by (auto simp: safe_def)
next
  case (Cons f fs)
  then have "safe P (and_then f (all_steps fs))" by auto
  then show ?case by (simp add: safe_def)
qed

section \<open>Lists and words\<close>

lemma take_append_exact [simp]: "length xs = n \<Longrightarrow> take n (xs @ ys) = xs"
  by simp

lemma drop_append_exact [simp]: "length xs = n \<Longrightarrow> drop n (xs @ ys) = ys"
  by simp

lemma unat_of_nat_byte: "n < 256 \<Longrightarrow> unat (of_nat n :: byte) = n"
  by (simp add: unat_of_nat)

lemma unat_byte_less [simp]: "unat (b :: byte) < 256"
  using unsigned_less [of b] by simp

lemma unat_u16_less [simp]: "unat (w :: u16) < 65536"
  using unsigned_less [of w] by simp

lemma unat_u32_less [simp]: "unat (w :: u32) < 4294967296"
  using unsigned_less [of w] by simp

lemma unat_u64_less [simp]: "unat (w :: u64) < 18446744073709551616"
  using unsigned_less [of w] by simp

end
