(* ===== verification/Buffer.thy ===== *)
theory Buffer
  imports Prelude
begin

text \<open>
  \<^verbatim>\<open>llarp_buffer_t\<close> (\<^verbatim>\<open>util/buffer.hpp\<close>, \<^verbatim>\<open>util/buffer.cpp\<close>) and the big-endian accessors of
  \<^verbatim>\<open>util/endian.hpp\<close> it uses. A buffer is a window on memory: \<open>mem\<close> holds the bytes from
  \<^verbatim>\<open>base\<close> on, \<open>cur\<close> is \<^verbatim>\<open>cur - base\<close>, and \<open>bsz\<close> is \<^verbatim>\<open>sz\<close>. A read or write at an index outside
  \<open>mem\<close> is the fault \<open>OutOfBounds\<close>. The memory may be longer than \<open>bsz\<close> (a buffer
  over part of an object).
\<close>

section \<open>The buffer and its cursor\<close>

record llarp_buffer =
  mem :: "byte list"
  cur :: nat
  bsz :: nat

definition buffer_of :: "byte list \<Rightarrow> llarp_buffer" where
  "buffer_of bs = \<lparr>mem = bs, cur = 0, bsz = length bs\<rparr>"

definition size_left :: "llarp_buffer \<Rightarrow> nat" where
  "size_left b = (let diff = cur b in if diff > bsz b then 0 else bsz b - diff)"

definition advance :: "nat \<Rightarrow> llarp_buffer \<Rightarrow> llarp_buffer" where
  "advance n b = b\<lparr>cur := cur b + n\<rparr>"

text \<open>Reading \<^verbatim>\<open>*cur\<close>, and \<^verbatim>\<open>n\<close> bytes from \<^verbatim>\<open>cur\<close>.\<close>

definition deref :: "llarp_buffer \<Rightarrow> byte res" where
  "deref b = (if cur b < length (mem b) then Inr (mem b ! cur b) else Inl OutOfBounds)"

definition load :: "nat \<Rightarrow> llarp_buffer \<Rightarrow> byte list res" where
  "load n b = (if cur b + n \<le> length (mem b) then Inr (take n (drop (cur b) (mem b)))
               else Inl OutOfBounds)"

text \<open>Writing bytes at \<^verbatim>\<open>cur\<close>; the cursor does not move.\<close>

definition store :: "byte list \<Rightarrow> llarp_buffer \<Rightarrow> llarp_buffer res" where
  "store bs b =
     (if cur b + length bs \<le> length (mem b)
      then Inr (b\<lparr>mem := take (cur b) (mem b) @ bs @ drop (cur b + length bs) (mem b)\<rparr>)
      else Inl OutOfBounds)"

section \<open>Operations\<close>

definition read_into :: "nat \<Rightarrow> llarp_buffer \<Rightarrow> (byte list option \<times> llarp_buffer) res" where
  "read_into dist b =
     (if size_left b \<ge> dist
      then bind_res (load dist b) (\<lambda>bs. Inr (Some bs, advance dist b))
      else Inr (None, b))"

definition buffer_write :: "byte list \<Rightarrow> llarp_buffer action" where
  "buffer_write bs b =
     (if size_left b \<ge> length bs
      then bind_res (store bs b) (\<lambda>b'. Inr (True, advance (length bs) b'))
      else Inr (False, b))"

text \<open>
  \<^verbatim>\<open>vsnprintf(cur, n, \<dots>)\<close> stores the first \<open>n - 1\<close> bytes of the formatted text and a
  terminating NUL when \<open>n > 0\<close>, and returns the length of the whole text.
\<close>

definition vsnprintf :: "nat \<Rightarrow> byte list \<Rightarrow> byte list" where
  "vsnprintf n txt = (if n = 0 then [] else take (n - 1) txt @ [0])"

definition writef :: "byte list \<Rightarrow> llarp_buffer action" where
  "writef txt b =
     (let toWrite = size_left b; written = length txt in
      bind_res (store (vsnprintf toWrite txt) b) (\<lambda>b'.
        if written \<le> 0 then Inr (False, b')
        else if toWrite < written then Inr (False, b')
        else Inr (True, advance written b')))"

subsection \<open>Big-endian integers\<close>

fun be_bytes :: "nat \<Rightarrow> nat \<Rightarrow> byte list" where
  "be_bytes 0 v = []"
| "be_bytes (Suc n) v = of_nat (v div 256 ^ n) # be_bytes n v"

fun be_value :: "byte list \<Rightarrow> nat" where
  "be_value [] = 0"
| "be_value (x # xs) = unat x * 256 ^ length xs + be_value xs"

definition htobe16buf :: "u16 \<Rightarrow> byte list" where
  "htobe16buf i = be_bytes 2 (unat i)"

definition htobe32buf :: "u32 \<Rightarrow> byte list" where
  "htobe32buf i = be_bytes 4 (unat i)"

definition htobe64buf :: "u64 \<Rightarrow> byte list" where
  "htobe64buf i = be_bytes 8 (unat i)"

definition bufbe16toh :: "byte list \<Rightarrow> u16" where
  "bufbe16toh bs = of_nat (be_value bs)"

definition bufbe32toh :: "byte list \<Rightarrow> u32" where
  "bufbe32toh bs = of_nat (be_value bs)"

definition bufbe64toh :: "byte list \<Rightarrow> u64" where
  "bufbe64toh bs = of_nat (be_value bs)"

definition put_uint16 :: "u16 \<Rightarrow> llarp_buffer action" where
  "put_uint16 i b =
     (if size_left b < 2 then Inr (False, b)
      else bind_res (store (htobe16buf i) b) (\<lambda>b'. Inr (True, advance 2 b')))"

definition put_uint32 :: "u32 \<Rightarrow> llarp_buffer action" where
  "put_uint32 i b =
     (if size_left b < 4 then Inr (False, b)
      else bind_res (store (htobe32buf i) b) (\<lambda>b'. Inr (True, advance 4 b')))"

definition put_uint64 :: "u64 \<Rightarrow> llarp_buffer action" where
  "put_uint64 i b =
     (if size_left b < 8 then Inr (False, b)
      else bind_res (store (htobe64buf i) b) (\<lambda>b'. Inr (True, advance 8 b')))"

definition read_uint16 :: "llarp_buffer \<Rightarrow> (u16 option \<times> llarp_buffer) res" where
  "read_uint16 b =
     (if size_left b < 2 then Inr (None, b)
      else bind_res (load 2 b) (\<lambda>bs. Inr (Some (bufbe16toh bs), advance 2 b)))"

definition read_uint32 :: "llarp_buffer \<Rightarrow> (u32 option \<times> llarp_buffer) res" where
  "read_uint32 b =
     (if size_left b < 4 then Inr (None, b)
      else bind_res (load 4 b) (\<lambda>bs. Inr (Some (bufbe32toh bs), advance 4 b)))"

definition read_uint64 :: "llarp_buffer \<Rightarrow> (u64 option \<times> llarp_buffer) res" where
  "read_uint64 b =
     (if size_left b < 8 then Inr (None, b)
      else bind_res (load 8 b) (\<lambda>bs. Inr (Some (bufbe64toh bs), advance 8 b)))"

subsection \<open>Scanning\<close>

text \<open>
  The loop of \<^verbatim>\<open>read_until\<close>: it stops at \<^verbatim>\<open>base + sz\<close>, at the delimiter, or when the result
  array is full; the byte under the cursor is read before the space in the result is
  tested. The bytes copied are returned with the buffer.
\<close>

fun read_until_loop :: "byte \<Rightarrow> nat \<Rightarrow> llarp_buffer \<Rightarrow> (byte list \<times> llarp_buffer) res" where
  "read_until_loop delim n b =
     (if cur b = bsz b then Inr ([], b)
      else bind_res (deref b) (\<lambda>c.
        if c = delim then Inr ([], b)
        else case n of
          0 \<Rightarrow> Inr ([], b)
        | Suc m \<Rightarrow> bind_res (read_until_loop delim m (advance 1 b))
                     (\<lambda>(cs, b'). Inr (c # cs, b'))))"

text \<open>The result array and the number of bytes the caller is told it holds.\<close>

definition read_until :: "byte \<Rightarrow> nat \<Rightarrow> llarp_buffer \<Rightarrow> (nat \<times> byte list \<times> llarp_buffer) res" where
  "read_until delim resultsize b =
     bind_res (read_until_loop delim resultsize b) (\<lambda>(cs, b').
       Inr (if size_left b' \<noteq> 0 then length cs else 0, cs, b'))"

text \<open>
  \<^verbatim>\<open>operator==(const llarp_buffer_t&, const char*)\<close>: the loop stops at the end of the C string
  or of the buffer, and the answer is whether the C string was used up.
\<close>

fun buffer_eq :: "llarp_buffer \<Rightarrow> byte list \<Rightarrow> bool res" where
  "buffer_eq b [] = Inr True"
| "buffer_eq b (c # cs) =
     (if cur b = bsz b then Inr False
      else bind_res (deref b) (\<lambda>x. if x \<noteq> c then Inr False else buffer_eq (advance 1 b) cs))"

declare read_until_loop.simps [simp del]

section \<open>Well-formed buffers\<close>

definition wf_buf :: "llarp_buffer \<Rightarrow> bool" where
  "wf_buf b \<longleftrightarrow> cur b \<le> bsz b \<and> bsz b \<le> length (mem b)"

text \<open>What has been written or read so far, and what is left to read.\<close>

definition consumed :: "llarp_buffer \<Rightarrow> byte list" where
  "consumed b = take (cur b) (mem b)"

definition remaining :: "llarp_buffer \<Rightarrow> byte list" where
  "remaining b = take (bsz b - cur b) (drop (cur b) (mem b))"

lemma wf_buffer_of [simp]: "wf_buf (buffer_of bs)"
  by (simp add: wf_buf_def buffer_of_def)

lemma remaining_buffer_of [simp]: "remaining (buffer_of bs) = bs"
  by (simp add: remaining_def buffer_of_def)

lemma advance_sel [simp]:
  "mem (advance n b) = mem b" "bsz (advance n b) = bsz b" "cur (advance n b) = cur b + n"
  by (simp_all add: advance_def)

lemma advance_advance [simp]: "advance m (advance n b) = advance (n + m) b"
  by (simp add: advance_def add.assoc)

lemma advance_0 [simp]: "advance 0 b = b"
  by (simp add: advance_def)

lemma size_left_wf: "wf_buf b \<Longrightarrow> size_left b = bsz b - cur b"
  by (simp add: size_left_def wf_buf_def)

lemma length_remaining: "wf_buf b \<Longrightarrow> length (remaining b) = bsz b - cur b"
  by (auto simp: remaining_def wf_buf_def min_def)

lemma size_left_remaining: "wf_buf b \<Longrightarrow> size_left b = length (remaining b)"
  by (simp add: size_left_wf length_remaining)

lemma wf_buf_advance: "wf_buf b \<Longrightarrow> n \<le> length (remaining b) \<Longrightarrow> wf_buf (advance n b)"
  by (auto simp: wf_buf_def remaining_def)

lemma remaining_advance [simp]: "remaining (advance n b) = drop n (remaining b)"
  by (simp add: remaining_def drop_take add.commute)

lemma remaining_nth: "n < length (remaining b) \<Longrightarrow> remaining b ! n = mem b ! (cur b + n)"
  by (auto simp: remaining_def)

lemma deref_remaining: "wf_buf b \<Longrightarrow> remaining b = c # cs \<Longrightarrow> deref b = Inr c"
  using remaining_nth [of 0 b] length_remaining [of b] by (auto simp: deref_def wf_buf_def)

lemma load_remaining:
  "wf_buf b \<Longrightarrow> n \<le> length (remaining b) \<Longrightarrow> load n b = Inr (take n (remaining b))"
  using length_remaining [of b] by (auto simp: load_def remaining_def wf_buf_def min_def)

lemma consumed_advance:
  "wf_buf b \<Longrightarrow> n \<le> length (remaining b) \<Longrightarrow>
     consumed (advance n b) = consumed b @ take n (remaining b)"
  using length_remaining [of b] by (auto simp: consumed_def remaining_def take_add min_def)

subsection \<open>Writers never leave the memory\<close>

lemma store_wf:
  assumes "wf_buf b" and "length bs \<le> size_left b"
  obtains b' where "store bs b = Inr b'" and "wf_buf b'" and "cur b' = cur b" and "bsz b' = bsz b"
    and "length (mem b') = length (mem b)" and "consumed b' = consumed b"
    and "take (length bs) (remaining b') = bs"
proof -
  define b' where "b' = b\<lparr>mem := take (cur b) (mem b) @ bs @ drop (cur b + length bs) (mem b)\<rparr>"
  have le: "cur b \<le> length (mem b)" "cur b + length bs \<le> bsz b" "bsz b \<le> length (mem b)"
    using assms by (auto simp: wf_buf_def size_left_def split: if_splits)
  show ?thesis
  proof (rule that)
    show "store bs b = Inr b'" using le by (simp add: store_def b'_def)
    show "wf_buf b'" using le by (auto simp: wf_buf_def b'_def)
    show "take (length bs) (remaining b') = bs" using le by (auto simp: remaining_def b'_def min_def)
  qed (use le in \<open>auto simp: b'_def consumed_def\<close>)
qed

text \<open>
  \<open>emits f bs\<close>: where more than \<open>length bs\<close> bytes are free, the writer succeeds and appends
  exactly \<open>bs\<close>. The strict bound is what \<^verbatim>\<open>vsnprintf\<close> needs for its NUL.
\<close>

definition emits :: "llarp_buffer action \<Rightarrow> byte list \<Rightarrow> bool" where
  "emits f bs \<longleftrightarrow>
     (\<forall>b. wf_buf b \<longrightarrow> length bs < size_left b \<longrightarrow>
        (\<exists>b'. f b = Inr (True, b') \<and> wf_buf b' \<and> consumed b' = consumed b @ bs \<and>
              bsz b' = bsz b \<and> cur b' = cur b + length bs))"

named_theorems emit_intros \<open>writers and the bytes they append\<close>

lemma emitsE:
  assumes "emits f bs" and "wf_buf b" and "length bs < size_left b"
  obtains b' where "f b = Inr (True, b')" and "wf_buf b'" and "consumed b' = consumed b @ bs"
    and "bsz b' = bsz b" and "cur b' = cur b + length bs"
  using assms by (auto simp: emits_def)

lemma emits_and_then:
  assumes f: "emits f xs" and g: "emits g ys"
  shows "emits (and_then f g) (xs @ ys)"
  unfolding emits_def
proof (intro allI impI)
  fix b assume wf: "wf_buf b" and sz: "length (xs @ ys) < size_left b"
  from f wf obtain b1 where b1: "f b = Inr (True, b1)" "wf_buf b1" "consumed b1 = consumed b @ xs"
    "bsz b1 = bsz b" "cur b1 = cur b + length xs"
    by (rule emitsE) (use sz in simp)
  have "length ys < size_left b1"
    using sz b1 wf by (simp add: size_left_wf)
  with g b1(2) obtain b2 where "g b1 = Inr (True, b2)" "wf_buf b2" "consumed b2 = consumed b1 @ ys"
    "bsz b2 = bsz b1" "cur b2 = cur b1 + length ys"
    by (rule emitsE)
  with b1 show "\<exists>b'. and_then f g b = Inr (True, b') \<and> wf_buf b' \<and>
      consumed b' = consumed b @ xs @ ys \<and> bsz b' = bsz b \<and> cur b' = cur b + length (xs @ ys)"
    by auto
qed

lemma emits_all_steps_Nil [emit_intros]: "emits (all_steps []) []"
  by (auto simp: emits_def)

lemma emits_all_steps_Cons [emit_intros]:
  "emits f xs \<Longrightarrow> emits (all_steps fs) ys \<Longrightarrow> emits (all_steps (f # fs)) (xs @ ys)"
  using emits_and_then [of f xs "all_steps fs" ys] by (simp add: emits_def)

lemma safe_buffer_write [intro, simp]: "safe wf_buf (buffer_write bs)"
proof (rule safeI)
  fix b assume wf: "wf_buf b"
  show "\<exists>ok b'. buffer_write bs b = Inr (ok, b') \<and> wf_buf b'"
  proof (cases "length bs \<le> size_left b")
    case True
    from wf True obtain b' where "store bs b = Inr b'" "wf_buf b'" "cur b' = cur b" "bsz b' = bsz b"
      by (rule store_wf)
    with True wf show ?thesis
      by (auto simp: buffer_write_def wf_buf_def size_left_def split: if_splits)
  qed (use wf in \<open>auto simp: buffer_write_def\<close>)
qed

lemma emits_buffer_write [emit_intros]: "emits (buffer_write bs) bs"
  unfolding emits_def
proof (intro allI impI)
  fix b assume wf: "wf_buf b" and sz: "length bs < size_left b"
  from wf sz obtain b' where b': "store bs b = Inr b'" "wf_buf b'" "cur b' = cur b" "bsz b' = bsz b"
    "consumed b' = consumed b" "take (length bs) (remaining b') = bs"
    by (meson less_imp_le store_wf)
  have n: "length bs \<le> length (remaining b')"
    using sz b' wf size_left_remaining [of b'] by (simp add: size_left_wf)
  from b' n sz show "\<exists>b'. buffer_write bs b = Inr (True, b') \<and> wf_buf b' \<and>
      consumed b' = consumed b @ bs \<and> bsz b' = bsz b \<and> cur b' = cur b + length bs"
    by (auto simp: buffer_write_def wf_buf_advance consumed_advance)
qed

text \<open>A \<^verbatim>\<open>store\<close> of the exact bytes then a move of the cursor: the shape of every integer writer.\<close>

lemma store_advance_wf:
  assumes wf: "wf_buf b" and sz: "length bs \<le> size_left b" and n: "n \<le> length bs"
  obtains b' where "store bs b = Inr b'" and "wf_buf (advance n b')"
    and "consumed (advance n b') = consumed b @ take n bs" and "bsz b' = bsz b" and "cur b' = cur b"
proof -
  from wf sz obtain b' where b': "store bs b = Inr b'" "wf_buf b'" "cur b' = cur b" "bsz b' = bsz b"
    "consumed b' = consumed b" "take (length bs) (remaining b') = bs"
    by (rule store_wf)
  have "length bs \<le> length (remaining b')"
    using sz b' wf size_left_remaining [of b'] by (simp add: size_left_wf)
  moreover from n have "take n (remaining b') = take n bs"
    using b'(6) by (metis min.absorb1 take_take)
  ultimately show ?thesis
    using that b' n by (simp add: wf_buf_advance consumed_advance)
qed

lemma length_vsnprintf: "length (vsnprintf n txt) \<le> n"
  by (auto simp: vsnprintf_def min_def)

lemma safe_writef [intro, simp]: "safe wf_buf (writef txt)"
proof (rule safeI)
  fix b assume wf: "wf_buf b"
  let ?bs = "vsnprintf (size_left b) txt"
  from wf obtain b' where b': "store ?bs b = Inr b'" "wf_buf b'" "cur b' = cur b" "bsz b' = bsz b"
    by (rule store_wf) (rule length_vsnprintf)
  have "wf_buf (advance (length txt) b')" if "length txt \<le> size_left b"
    using that b' wf by (auto simp: wf_buf_def size_left_def split: if_splits)
  with b' show "\<exists>ok b'. writef txt b = Inr (ok, b') \<and> wf_buf b'"
    by (auto simp: writef_def Let_def)
qed

lemma emits_writef [emit_intros]:
  assumes "txt \<noteq> []"
  shows "emits (writef txt) txt"
  unfolding emits_def
proof (intro allI impI)
  fix b assume wf: "wf_buf b" and sz: "length txt < size_left b"
  let ?bs = "vsnprintf (size_left b) txt"
  have bs: "?bs = txt @ [0]" using sz by (auto simp: vsnprintf_def)
  from wf obtain b' where "store ?bs b = Inr b'" "wf_buf (advance (length txt) b')"
    "consumed (advance (length txt) b') = consumed b @ take (length txt) ?bs"
    "bsz b' = bsz b" "cur b' = cur b"
    by (rule store_advance_wf [of b ?bs "length txt"]) (use sz bs in auto)
  with sz assms bs show "\<exists>b'. writef txt b = Inr (True, b') \<and> wf_buf b' \<and>
      consumed b' = consumed b @ txt \<and> bsz b' = bsz b \<and> cur b' = cur b + length txt"
    by (auto simp: writef_def Let_def)
qed

subsection \<open>Big-endian round trip\<close>

lemma length_be_bytes [simp]: "length (be_bytes n v) = n"
  by (induction n) auto

lemma unat_of_nat_byte_mod: "unat (of_nat n :: byte) = n mod 256"
  by (simp add: unat_of_nat)

lemma be_value_be_bytes: "be_value (be_bytes n v) = v mod 256 ^ n"
proof (induction n)
  case (Suc n)
  have "v mod 256 ^ Suc n = (v div 256 ^ n mod 256) * 256 ^ n + v mod 256 ^ n"
    by (metis add.commute mod_mult2_eq mult.commute power_Suc2)
  with Suc show ?case by (simp add: unat_of_nat_byte_mod)
qed simp

lemma bufbe16toh_htobe16buf [simp]: "bufbe16toh (htobe16buf i) = i"
  by (simp add: bufbe16toh_def htobe16buf_def be_value_be_bytes)

lemma bufbe32toh_htobe32buf [simp]: "bufbe32toh (htobe32buf i) = i"
  by (simp add: bufbe32toh_def htobe32buf_def be_value_be_bytes)

lemma bufbe64toh_htobe64buf [simp]: "bufbe64toh (htobe64buf i) = i"
  by (simp add: bufbe64toh_def htobe64buf_def be_value_be_bytes)

end
