(* ===== verification/Bencode.thy ===== *)
theory Bencode
  imports Buffer "HOL-Library.Sublist"
begin

text \<open>
  The bencode reader and writer (\<^verbatim>\<open>util/bencode.cpp\<close>, \<^verbatim>\<open>util/bencode.hpp\<close>). Writers are actions on
  a buffer; readers return the value read (\<open>None\<close> for \<^verbatim>\<open>false\<close>) and the buffer with its cursor
  where the code leaves it. The loops of \<^verbatim>\<open>bencode_read_dict\<close> and \<^verbatim>\<open>bencode_read_list\<close> call a
  sink that moves the cursor, so they carry fuel; one unit more than the bytes left is
  shown to be enough.
\<close>

section \<open>Decimal numbers of the C library\<close>

text \<open>The text of \<^verbatim>\<open>%zu\<close> and \<^verbatim>\<open>PRIu64\<close>.\<close>

fun dec :: "nat \<Rightarrow> byte list" where
  "dec n = (if n < 10 then [of_nat (48 + n)] else dec (n div 10) @ [of_nat (48 + n mod 10)])"

declare dec.simps [simp del]

definition isspace :: "byte \<Rightarrow> bool" where
  "isspace c \<longleftrightarrow> c = 32 \<or> (9 \<le> c \<and> c \<le> 13)"

definition isdigit :: "byte \<Rightarrow> bool" where
  "isdigit c \<longleftrightarrow> 48 \<le> c \<and> c \<le> 57"

definition digits_value :: "byte list \<Rightarrow> nat" where
  "digits_value cs = foldl (\<lambda>v c. 10 * v + (unat c - 48)) 0 (takeWhile isdigit cs)"

text \<open>An optional sign after leading white space; the C string ends at the first NUL.\<close>

definition number_parts :: "byte list \<Rightarrow> bool \<times> nat" where
  "number_parts cs =
     (let s = dropWhile isspace (takeWhile (\<lambda>c. c \<noteq> 0) cs) in
      case s of
        [] \<Rightarrow> (False, 0)
      | c # r \<Rightarrow> if c = ch CHR ''-'' then (True, digits_value r)
                else if c = ch CHR ''+'' then (False, digits_value r)
                else (False, digits_value s))"

definition strtoull :: "byte list \<Rightarrow> u64" where
  "strtoull cs =
     (let (neg, v) = number_parts cs in
      if v > 2 ^ 64 - 1 then - 1 else if neg then - of_nat v else of_nat v)"

text \<open>
  \<^verbatim>\<open>atoi\<close> on at most nine characters, as \<^verbatim>\<open>bencode_read_string\<close> calls it: the value fits an
  \<^verbatim>\<open>int\<close>, so no overflow rule is needed.
\<close>

definition atoi :: "byte list \<Rightarrow> int" where
  "atoi cs = (let (neg, v) = number_parts cs in if neg then - int v else int v)"

section \<open>Writers\<close>

definition bencode_write_bytestring :: "byte list \<Rightarrow> llarp_buffer action" where
  "bencode_write_bytestring data =
     and_then (writef (dec (length data) @ str '':'')) (buffer_write data)"

definition bencode_write_uint64 :: "u64 \<Rightarrow> llarp_buffer action" where
  "bencode_write_uint64 i = and_then (writef (str ''i'' @ dec (unat i))) (buffer_write (str ''e''))"

definition bencode_write_uint64_entry :: "byte list \<Rightarrow> u64 \<Rightarrow> llarp_buffer action" where
  "bencode_write_uint64_entry name i =
     and_then (bencode_write_bytestring name) (bencode_write_uint64 i)"

definition bencode_start_list :: "llarp_buffer action" where
  "bencode_start_list = buffer_write (str ''l'')"

definition bencode_start_dict :: "llarp_buffer action" where
  "bencode_start_dict = buffer_write (str ''d'')"

definition bencode_end :: "llarp_buffer action" where
  "bencode_end = buffer_write (str ''e'')"

definition BEncodeWriteDictMsgType :: "char \<Rightarrow> char \<Rightarrow> llarp_buffer action" where
  "BEncodeWriteDictMsgType k t =
     and_then (bencode_write_bytestring [ch k]) (bencode_write_bytestring [ch t])"

definition BEncodeWriteDictString :: "char \<Rightarrow> byte list \<Rightarrow> llarp_buffer action" where
  "BEncodeWriteDictString k s =
     and_then (bencode_write_bytestring [ch k]) (bencode_write_bytestring s)"

definition BEncodeWriteDictEntry :: "char \<Rightarrow> llarp_buffer action \<Rightarrow> llarp_buffer action" where
  "BEncodeWriteDictEntry k BEncode = and_then (bencode_write_bytestring [ch k]) BEncode"

definition BEncodeWriteDictInt :: "char \<Rightarrow> u64 \<Rightarrow> llarp_buffer action" where
  "BEncodeWriteDictInt k i = and_then (bencode_write_bytestring [ch k]) (bencode_write_uint64 i)"

definition BEncodeWriteList :: "('a \<Rightarrow> llarp_buffer action) \<Rightarrow> 'a list \<Rightarrow> llarp_buffer action" where
  "BEncodeWriteList BEncode xs =
     and_then bencode_start_list (and_then (all_steps (map BEncode xs)) bencode_end)"

definition BEncodeWriteDictList ::
  "char \<Rightarrow> ('a \<Rightarrow> llarp_buffer action) \<Rightarrow> 'a list \<Rightarrow> llarp_buffer action" where
  "BEncodeWriteDictList k BEncode xs =
     and_then (bencode_write_bytestring [ch k]) (BEncodeWriteList BEncode xs)"

text \<open>The two variants that inline the list loop (over pointers, over an array).\<close>

definition BEncodeWriteDictBEncodeList ::
  "char \<Rightarrow> ('a \<Rightarrow> llarp_buffer action) \<Rightarrow> 'a list \<Rightarrow> llarp_buffer action" where
  "BEncodeWriteDictBEncodeList k BEncode l =
     all_steps ([bencode_write_bytestring [ch k], bencode_start_list] @ map BEncode l @ [bencode_end])"

definition BEncodeWriteDictArray ::
  "char \<Rightarrow> ('a \<Rightarrow> llarp_buffer action) \<Rightarrow> 'a list \<Rightarrow> llarp_buffer action" where
  "BEncodeWriteDictArray k BEncode array =
     all_steps ([bencode_write_bytestring [ch k], bencode_start_list] @ map BEncode array @ [bencode_end])"

section \<open>Readers\<close>

definition bencode_read_integer :: "llarp_buffer \<Rightarrow> (u64 option \<times> llarp_buffer) res" where
  "bencode_read_integer b =
     bind_res (deref b) (\<lambda>c.
       if c \<noteq> ch CHR ''i'' then Inr (None, b)
       else bind_res (read_until (ch CHR ''e'') 31 (advance 1 b)) (\<lambda>(len, numbuf, b').
         if len = 0 then Inr (None, b')
         else Inr (Some (strtoull numbuf), advance 1 b')))"

text \<open>The string is returned as the sub-buffer that \<^verbatim>\<open>result\<close> is pointed at.\<close>

definition bencode_read_string :: "llarp_buffer \<Rightarrow> (llarp_buffer option \<times> llarp_buffer) res" where
  "bencode_read_string b =
     bind_res (read_until (ch CHR '':'') 9 b) (\<lambda>(len, numbuf, b1).
       if len = 0 then Inr (None, b1)
       else let num = atoi numbuf in
         if num < 0 then Inr (None, b1)
         else let slen = nat num; b2 = advance 1 b1 in
           if size_left b2 < slen then Inr (None, b2)
           else Inr (Some \<lparr>mem = drop (cur b2) (mem b2), cur = 0, bsz = slen\<rparr>, advance slen b2))"

type_synonym 's sink = "llarp_buffer option \<Rightarrow> ('s \<times> llarp_buffer) action"

fun dict_loop :: "nat \<Rightarrow> 's sink \<Rightarrow> ('s \<times> llarp_buffer) action" where
  "dict_loop 0 sink sb = Inl OutOfFuel"
| "dict_loop (Suc n) sink (s, b) =
     (if size_left b = 0 then Inr (True, (s, b))
      else bind_res (deref b) (\<lambda>c.
        if c = ch CHR ''e'' then Inr (True, (s, b))
        else bind_res (bencode_read_string b) (\<lambda>(key, b').
          case key of
            None \<Rightarrow> Inr (False, (s, b'))
          | Some strbuf \<Rightarrow> and_then (sink (Some strbuf)) (dict_loop n sink) (s, b'))))"

text \<open>After the loop \<^verbatim>\<open>*buffer->cur\<close> is read whether or not bytes are left.\<close>

definition bencode_read_dict :: "nat \<Rightarrow> 's sink \<Rightarrow> ('s \<times> llarp_buffer) action" where
  "bencode_read_dict fuel sink sb =
     (let (s, b) = sb in
      if size_left b < 2 then Inr (False, (s, b))
      else bind_res (deref b) (\<lambda>c.
        if c \<noteq> ch CHR ''d'' then Inr (False, (s, b))
        else and_then (dict_loop fuel sink)
          (\<lambda>(s', b'). bind_res (deref b') (\<lambda>c'.
             if c' \<noteq> ch CHR ''e'' then Inr (False, (s', b'))
             else sink None (s', advance 1 b'))) (s, advance 1 b)))"

definition bencode_decode_dict ::
  "nat \<Rightarrow> (llarp_buffer \<Rightarrow> ('s \<times> llarp_buffer) action) \<Rightarrow> ('s \<times> llarp_buffer) action" where
  "bencode_decode_dict fuel DecodeKey =
     bencode_read_dict fuel (\<lambda>key. case key of None \<Rightarrow> (\<lambda>sb. Inr (True, sb)) | Some k \<Rightarrow> DecodeKey k)"

fun list_loop :: "nat \<Rightarrow> (bool \<Rightarrow> ('s \<times> llarp_buffer) action) \<Rightarrow> ('s \<times> llarp_buffer) action" where
  "list_loop 0 sink sb = Inl OutOfFuel"
| "list_loop (Suc n) sink (s, b) =
     (if size_left b = 0 then Inr (True, (s, b))
      else bind_res (deref b) (\<lambda>c.
        if c = ch CHR ''e'' then Inr (True, (s, b))
        else and_then (sink True) (list_loop n sink) (s, b)))"

definition bencode_read_list ::
  "nat \<Rightarrow> (bool \<Rightarrow> ('s \<times> llarp_buffer) action) \<Rightarrow> ('s \<times> llarp_buffer) action" where
  "bencode_read_list fuel sink sb =
     (let (s, b) = sb in
      if size_left b < 2 then Inr (False, (s, b))
      else bind_res (deref b) (\<lambda>c.
        if c \<noteq> ch CHR ''l'' then Inr (False, (s, b))
        else and_then (list_loop fuel sink)
          (\<lambda>(s', b'). bind_res (deref b') (\<lambda>c'.
             if c' \<noteq> ch CHR ''e'' then Inr (False, (s', b'))
             else sink False (s', advance 1 b'))) (s, advance 1 b)))"

primrec bencode_discard :: "nat \<Rightarrow> (unit \<times> llarp_buffer) action" where
  "bencode_discard 0 = (\<lambda>sb. Inl OutOfFuel)"
| "bencode_discard (Suc n) = (\<lambda>(u, b).
     if size_left b = 0 then Inr (True, (u, b))
     else bind_res (deref b) (\<lambda>c.
       if c = ch CHR ''l'' then
         bencode_read_list n (\<lambda>more. if more then bencode_discard n else (\<lambda>sb. Inr (True, sb))) (u, b)
       else if c = ch CHR ''i'' then
         bind_res (bencode_read_integer b) (\<lambda>(r, b'). Inr (r \<noteq> None, (u, b')))
       else if c = ch CHR ''d'' then
         bencode_read_dict n
           (\<lambda>key. if key \<noteq> None then bencode_discard n else (\<lambda>sb. Inr (True, sb))) (u, b)
       else if c \<in> set (str ''0123456789'') then
         bind_res (bencode_read_string b) (\<lambda>(r, b'). Inr (r \<noteq> None, (u, b')))
       else Inr (False, (u, b))))"

definition BEncodeReadList ::
  "nat \<Rightarrow> 'a \<Rightarrow> ('a \<times> llarp_buffer) action \<Rightarrow> ('a list \<times> llarp_buffer) action" where
  "BEncodeReadList fuel dflt BDecode =
     bencode_read_list fuel (\<lambda>has (xs, b).
       if has then bind_res (BDecode (dflt, b)) (\<lambda>(ok, (x, b')). Inr (ok, (xs @ [x], b')))
       else Inr (True, (xs, b)))"

text \<open>\<^verbatim>\<open>BEncodeReadArray\<close>: the index is captured by the sink; the array keeps its size.\<close>

definition BEncodeReadArray ::
  "nat \<Rightarrow> ('a \<times> llarp_buffer) action \<Rightarrow> ((nat \<times> 'a list) \<times> llarp_buffer) action" where
  "BEncodeReadArray fuel BDecode =
     bencode_read_list fuel (\<lambda>has ((idx, arr), b).
       if has then
         if idx \<ge> length arr then Inr (False, ((idx, arr), b))
         else bind_res (BDecode (arr ! idx, b)) (\<lambda>(ok, (x, b')).
           Inr (ok, ((idx + 1, arr[idx := x]), b')))
       else Inr (True, ((idx, arr), b)))"

subsection \<open>Dictionary entries\<close>

text \<open>
  The state of a \<^verbatim>\<open>DecodeKey\<close> body: the local \<^verbatim>\<open>read\<close>, the message and the buffer. A field is
  given by its record selector and update.
\<close>

type_synonym 'm entry_state = "bool \<times> 'm \<times> llarp_buffer"

definition BEncodeMaybeReadDictInt ::
  "char \<Rightarrow> ((u64 \<Rightarrow> u64) \<Rightarrow> 'm \<Rightarrow> 'm) \<Rightarrow> llarp_buffer \<Rightarrow> 'm entry_state action" where
  "BEncodeMaybeReadDictInt k upd key = (\<lambda>(read, m, b).
     bind_res (buffer_eq key [ch k]) (\<lambda>eq.
       if eq then bind_res (bencode_read_integer b) (\<lambda>(r, b').
         case r of None \<Rightarrow> Inr (False, (read, m, b'))
                 | Some i \<Rightarrow> Inr (True, (True, upd (\<lambda>_. i) m, b')))
       else Inr (True, (read, m, b))))"

definition BEncodeMaybeReadDictEntry ::
  "char \<Rightarrow> ('i \<times> llarp_buffer) action \<Rightarrow> ('m \<Rightarrow> 'i) \<Rightarrow> (('i \<Rightarrow> 'i) \<Rightarrow> 'm \<Rightarrow> 'm) \<Rightarrow> llarp_buffer \<Rightarrow>
     'm entry_state action" where
  "BEncodeMaybeReadDictEntry k BDecode get upd key = (\<lambda>(read, m, b).
     bind_res (buffer_eq key [ch k]) (\<lambda>eq.
       if eq then bind_res (BDecode (get m, b)) (\<lambda>(ok, (i, b')).
         if ok then Inr (True, (True, upd (\<lambda>_. i) m, b'))
         else Inr (False, (read, upd (\<lambda>_. i) m, b')))
       else Inr (True, (read, m, b))))"

definition BEncodeMaybeReadDictList ::
  "nat \<Rightarrow> char \<Rightarrow> 'i \<Rightarrow> ('i \<times> llarp_buffer) action \<Rightarrow> (('i list \<Rightarrow> 'i list) \<Rightarrow> 'm \<Rightarrow> 'm) \<Rightarrow>
     ('m \<Rightarrow> 'i list) \<Rightarrow> llarp_buffer \<Rightarrow> 'm entry_state action" where
  "BEncodeMaybeReadDictList fuel k dflt BDecode upd get key = (\<lambda>(read, m, b).
     bind_res (buffer_eq key [ch k]) (\<lambda>eq.
       if eq then bind_res (BEncodeReadList fuel dflt BDecode (get m, b)) (\<lambda>(ok, (xs, b')).
         if ok then Inr (True, (True, upd (\<lambda>_. xs) m, b'))
         else Inr (False, (read, upd (\<lambda>_. xs) m, b')))
       else Inr (True, (read, m, b))))"

definition BEncodeMaybeVerifyVersion ::
  "char \<Rightarrow> ((u64 \<Rightarrow> u64) \<Rightarrow> 'm \<Rightarrow> 'm) \<Rightarrow> u64 \<Rightarrow> llarp_buffer \<Rightarrow> 'm entry_state action" where
  "BEncodeMaybeVerifyVersion k upd expect key = (\<lambda>(read, m, b).
     bind_res (buffer_eq key [ch k]) (\<lambda>eq.
       if eq then bind_res (bencode_read_integer b) (\<lambda>(r, b').
         case r of None \<Rightarrow> Inr (False, (read, m, b'))
                 | Some i \<Rightarrow> Inr (True, (i = expect, upd (\<lambda>_. i) m, b')))
       else Inr (True, (read, m, b))))"

text \<open>Running the entry readers in order and returning \<^verbatim>\<open>read\<close>.\<close>

definition decode_key_with ::
  "'m entry_state action list \<Rightarrow> ('m \<times> llarp_buffer) action" where
  "decode_key_with steps = (\<lambda>(m, b).
     bind_res (all_steps steps (False, m, b)) (\<lambda>(ok, (read, m', b')). Inr (ok \<and> read, (m', b'))))"

text \<open>
  \<^verbatim>\<open>BEncodeSeekDictVersion\<close>: look for the integer under the one-byte key, skip every other
  entry, and rewind the buffer whatever happened.
\<close>

definition BEncodeSeekDictVersion :: "nat \<Rightarrow> byte \<Rightarrow> (u64 \<times> llarp_buffer) action" where
  "BEncodeSeekDictVersion fuel k = (\<lambda>(v, b).
     bind_res
       (bencode_read_dict fuel (\<lambda>key (v, b).
          case key of
            None \<Rightarrow> Inr (True, (v, b))
          | Some kb \<Rightarrow> bind_res (if bsz kb = 1 then deref kb else Inr (k + 1)) (\<lambda>c.
              if bsz kb = 1 \<and> c = k then
                bind_res (bencode_read_integer b) (\<lambda>(r, b').
                  case r of None \<Rightarrow> Inr (False, (v, b')) | Some i \<Rightarrow> Inr (True, (i, b')))
              else bind_res (bencode_discard fuel ((), b)) (\<lambda>(ok, (_, b')). Inr (ok, (v, b')))))
          (v, b))
       (\<lambda>(ok, (v', b')). Inr (ok, (v', b'\<lparr>cur := 0\<rparr>))))"

end
