(* ===== verification/Bencode_Laws.thy ===== *)
theory Bencode_Laws
  imports Bencode
begin

text \<open>
  What the bencode component promises: the readers invert the writers, reading strings never
  leaves the memory, the loops end within the stated fuel, and \<^verbatim>\<open>bencode_discard\<close> skips exactly
  one value of the bencode grammar. The contract of a \<^verbatim>\<open>BEncode\<close>/\<^verbatim>\<open>BDecode\<close> pair is the locale
  \<open>bencode_codec\<close>; lists of such values are handled once, inside it.
\<close>

section \<open>Decimal numbers\<close>

lemma unat_digit: "d < 10 \<Longrightarrow> unat (of_nat (48 + d) :: byte) = 48 + d"
  by (rule unat_of_nat_byte) simp

lemma isdigit_iff_unat: "isdigit c \<longleftrightarrow> 48 \<le> unat c \<and> unat c \<le> 57"
  by (simp add: isdigit_def word_le_nat_alt)

lemma isdigit_digit: "d < 10 \<Longrightarrow> isdigit (of_nat (48 + d))"
  by (simp only: isdigit_iff_unat unat_digit) simp

lemma dec_not_Nil [simp]: "dec n \<noteq> []"
  by (subst dec.simps) simp

lemma isdigit_dec: "c \<in> set (dec n) \<Longrightarrow> isdigit c"
proof (induction n rule: dec.induct)
  case (1 n)
  show ?case
  proof (cases "n < 10")
    case True
    with "1.prems" show ?thesis by (subst (asm) dec.simps) (simp only: if_True list.set set_simps singleton_iff isdigit_digit)
  next
    case False
    with "1.prems" have "c \<in> set (dec (n div 10)) \<or> c = of_nat (48 + n mod 10)"
      by (subst (asm) dec.simps) auto
    with "1.IH" False isdigit_digit [of "n mod 10"] show ?thesis by auto
  qed
qed

lemma foldl_dec: "foldl (\<lambda>v c. 10 * v + (unat c - 48)) 0 (dec n) = n"
proof (induction n rule: dec.induct)
  case (1 n)
  show ?case
  proof (cases "n < 10")
    case True
    with unat_digit [of n] show ?thesis by (subst dec.simps) simp
  next
    case False
    with "1.IH" unat_digit [of "n mod 10"] show ?thesis by (subst dec.simps) simp
  qed
qed

lemma digits_value_dec [simp]: "digits_value (dec n) = n"
  using isdigit_dec [of _ n] by (simp add: digits_value_def foldl_dec takeWhile_eq_all_conv [THEN iffD2])

lemma isdigit_not:
  "isdigit c \<Longrightarrow> \<not> isspace c \<and> c \<noteq> 0 \<and> c \<noteq> 45 \<and> c \<noteq> 43 \<and> c \<noteq> 58 \<and> c \<noteq> 101 \<and>
     c \<noteq> 100 \<and> c \<noteq> 105 \<and> c \<noteq> 108"
  by (auto simp: isdigit_iff_unat isspace_def word_le_nat_alt)

lemma number_parts_dec [simp]: "number_parts (dec n) = (False, n)"
proof -
  obtain c r where cr: "dec n = c # r" by (cases "dec n") auto
  have d: "\<And>x. x \<in> set (dec n) \<Longrightarrow> isdigit x" by (rule isdigit_dec)
  have tw: "takeWhile (\<lambda>c. c \<noteq> 0) (dec n) = dec n"
    using d by (auto simp: takeWhile_eq_all_conv dest: isdigit_not)
  have dw: "dropWhile isspace (dec n) = dec n"
    using d [of c] by (simp add: cr isdigit_not)
  have "c \<noteq> 45" "c \<noteq> 43"
    using d [of c] by (auto simp: cr dest: isdigit_not)
  moreover have "dropWhile isspace (takeWhile (\<lambda>c. c \<noteq> 0) (dec n)) = c # r"
    by (metis tw dw cr)
  moreover have "digits_value (c # r) = n"
    by (simp flip: cr)
  ultimately show ?thesis
    by (simp add: number_parts_def)
qed

lemma strtoull_dec [simp]: "strtoull (dec (unat i)) = i"
proof -
  have "\<not> 18446744073709551615 < unat i"
    using unat_u64_less [of i] by linarith
  then show ?thesis by (simp add: strtoull_def)
qed

lemma atoi_dec [simp]: "atoi (dec n) = int n"
  by (simp add: atoi_def)

lemma length_dec: "n < 10 ^ Suc d \<Longrightarrow> length (dec n) \<le> Suc d"
proof (induction d arbitrary: n)
  case 0
  then show ?case by (subst dec.simps) simp
next
  case (Suc d)
  show ?case
  proof (cases "n < 10")
    case True
    then show ?thesis by (subst dec.simps) simp
  next
    case False
    from Suc.prems have "n div 10 < 10 ^ Suc d" by (simp add: less_mult_imp_div_less mult.commute)
    then have "length (dec (n div 10)) \<le> Suc d" by (rule Suc.IH)
    with False show ?thesis by (subst dec.simps) simp
  qed
qed

lemma length_dec_u64: "length (dec (unat (i :: u64))) \<le> 20"
  using length_dec [of "unat i" 19] unat_u64_less [of i] by simp

section \<open>Scanning\<close>

lemma read_until_loop_stop:
  assumes "wf_buf b" and "remaining b = cs @ delim # rest" and "delim \<notin> set cs" and "length cs \<le> n"
  shows "read_until_loop delim n b = Inr (cs, advance (length cs) b)"
  using assms
proof (induction cs arbitrary: n b)
  case Nil
  then have "cur b < bsz b" "deref b = Inr delim"
    using length_remaining [of b] by (auto intro: deref_remaining)
  then show ?case by (subst read_until_loop.simps) simp
next
  case (Cons c cs)
  then have "cur b < bsz b" "deref b = Inr c"
    using length_remaining [of b] by (auto intro: deref_remaining)
  moreover obtain m where "n = Suc m" "length cs \<le> m"
    using Cons.prems(4) by (cases n) auto
  moreover have "read_until_loop delim m (advance 1 b) = Inr (cs, advance (length cs) (advance 1 b))"
    using Cons.prems \<open>length cs \<le> m\<close> by (intro Cons.IH) (auto intro: wf_buf_advance)
  ultimately show ?case
    using Cons.prems by (subst read_until_loop.simps) auto
qed

lemma read_until_stop:
  assumes "wf_buf b" and "remaining b = cs @ delim # rest" and "delim \<notin> set cs" and "length cs \<le> n"
  shows "read_until delim n b = Inr (length cs, cs, advance (length cs) b)"
proof -
  have "wf_buf (advance (length cs) b)" using assms by (simp add: wf_buf_advance)
  then have "size_left (advance (length cs) b) \<noteq> 0"
    using assms by (simp add: size_left_remaining)
  then show ?thesis
    using assms by (simp add: read_until_def read_until_loop_stop)
qed

lemma read_until_loop_safe:
  "wf_buf b \<Longrightarrow> \<exists>cs. read_until_loop delim n b = Inr (cs, advance (length cs) b) \<and>
     wf_buf (advance (length cs) b)"
proof (induction n arbitrary: b)
  case 0
  then show ?case
    by (subst read_until_loop.simps) (auto simp: deref_def wf_buf_def)
next
  case (Suc n)
  show ?case
  proof (cases "cur b = bsz b \<or> deref b = Inr delim")
    case True
    with Suc.prems show ?thesis
      by (subst read_until_loop.simps) auto
  next
    case False
    with Suc.prems obtain c where c: "deref b = Inr c" "c \<noteq> delim" "wf_buf (advance 1 b)"
      by (auto simp: deref_def wf_buf_def split: if_splits)
    from Suc.IH [OF c(3)] obtain cs where
      "read_until_loop delim n (advance 1 b) = Inr (cs, advance (length cs) (advance 1 b))"
      "wf_buf (advance (length cs) (advance 1 b))" by blast
    with False c show ?thesis
      by (subst read_until_loop.simps) (auto intro!: exI [of _ "c # cs"])
  qed
qed

lemma read_until_safe:
  assumes "wf_buf b"
  obtains len cs where "read_until delim n b = Inr (len, cs, advance (length cs) b)"
    and "wf_buf (advance (length cs) b)" and "len = 0 \<or> len = length cs \<and> 0 < size_left (advance (length cs) b)"
  using read_until_loop_safe [OF assms, of delim n] by (auto simp: read_until_def)

section \<open>Strings and integers\<close>

definition wire_string :: "byte list \<Rightarrow> byte list" where
  "wire_string s = dec (length s) @ ch CHR '':'' # s"

definition wire_int :: "u64 \<Rightarrow> byte list" where
  "wire_int i = ch CHR ''i'' # dec (unat i) @ [ch CHR ''e'']"

text \<open>The sub-buffer \<^verbatim>\<open>bencode_read_string\<close> points its result at.\<close>

definition substring_at :: "llarp_buffer \<Rightarrow> nat \<Rightarrow> nat \<Rightarrow> llarp_buffer" where
  "substring_at b off n = \<lparr>mem = drop (cur b + off) (mem b), cur = 0, bsz = n\<rparr>"

lemma emits_write_bytestring [emit_intros]: "emits (bencode_write_bytestring s) (wire_string s)"
  using emits_and_then [OF emits_writef emits_buffer_write, of "dec (length s) @ str '':''" s]
  by (simp add: bencode_write_bytestring_def wire_string_def)

lemma emits_write_uint64 [emit_intros]: "emits (bencode_write_uint64 i) (wire_int i)"
  using emits_and_then [OF emits_writef emits_buffer_write, of "str ''i'' @ dec (unat i)" "str ''e''"]
  by (simp add: bencode_write_uint64_def wire_int_def)

lemma bencode_read_string_wire:
  assumes wf: "wf_buf b" and rem: "remaining b = wire_string s @ rest" and len: "length s < 10 ^ 9"
  defines "off \<equiv> length (dec (length s)) + 1"
  shows "bencode_read_string b =
           Inr (Some (substring_at b off (length s)), advance (length (wire_string s)) b)"
proof -
  have l: "length (dec (length s)) \<le> 9"
    using length_dec [of "length s" 8] len by simp
  have "ch CHR '':'' \<notin> set (dec (length s))"
    using isdigit_dec isdigit_not by fastforce
  with wf rem l have ru: "read_until (ch CHR '':'') 9 b =
      Inr (length (dec (length s)), dec (length s), advance (length (dec (length s))) b)"
    by (intro read_until_stop) (auto simp: wire_string_def)
  have "wf_buf (advance off b)"
    using wf rem by (auto simp: off_def wire_string_def intro: wf_buf_advance)
  then have "\<not> size_left (advance off b) < length s"
    using rem by (simp add: size_left_remaining off_def wire_string_def)
  with ru show ?thesis
    by (simp add: bencode_read_string_def substring_at_def off_def wire_string_def add.assoc Let_def)
qed

lemma take_substring_at:
  assumes "wf_buf b" and "remaining b = pre @ s @ rest" and "length pre = off"
  shows "take (length s) (mem (substring_at b off (length s))) = s"
    and "wf_buf (substring_at b off (length s))"
    and "remaining (substring_at b off (length s)) = s"
proof -
  have le: "off + length s \<le> bsz b - cur b"
    using assms length_remaining [of b] by simp
  have "take (off + length s) (remaining b) = pre @ s"
    using assms(2,3) by simp
  with le have pres: "take (off + length s) (drop (cur b) (mem b)) = pre @ s"
    by (simp add: remaining_def min_def)
  have "take (length s) (drop off (drop (cur b) (mem b))) =
      drop off (take (off + length s) (drop (cur b) (mem b)))"
    by (simp add: take_drop ac_simps)
  also have "\<dots> = s" unfolding pres using assms(3) by simp
  finally show 1: "take (length s) (mem (substring_at b off (length s))) = s"
    by (simp add: substring_at_def add.commute)
  then have "length s \<le> length (mem (substring_at b off (length s)))"
    by (metis length_take min.cobounded1)
  then show "wf_buf (substring_at b off (length s))" by (simp add: wf_buf_def substring_at_def)
  show "remaining (substring_at b off (length s)) = s"
    using 1 by (simp add: remaining_def) (simp add: substring_at_def)
qed

lemma bencode_read_integer_wire:
  assumes wf: "wf_buf b" and rem: "remaining b = wire_int i @ rest"
  shows "bencode_read_integer b = Inr (Some i, advance (length (wire_int i)) b)"
proof -
  have "deref b = Inr (ch CHR ''i'')"
    using wf rem by (auto simp: wire_int_def intro: deref_remaining)
  moreover have "ch CHR ''e'' \<notin> set (dec (unat i))"
    using isdigit_dec isdigit_not by fastforce
  then have "read_until (ch CHR ''e'') 31 (advance 1 b) =
      Inr (length (dec (unat i)), dec (unat i), advance (length (dec (unat i))) (advance 1 b))"
    using wf rem length_dec_u64 [of i]
    by (intro read_until_stop) (auto simp: wire_int_def intro: wf_buf_advance)
  ultimately show ?thesis
    by (simp add: bencode_read_integer_def wire_int_def)
qed

lemma bencode_read_string_safe:
  assumes "wf_buf b"
  obtains r b' where "bencode_read_string b = Inr (r, b')" and "wf_buf b'"
    and "\<And>k. r = Some k \<Longrightarrow> wf_buf k \<and> cur b < cur b'" and "mem b' = mem b" and "bsz b' = bsz b"
proof -
  from assms obtain len cs where ru: "read_until (ch CHR '':'') 9 b = Inr (len, cs, advance (length cs) b)"
    "wf_buf (advance (length cs) b)"
    "len = 0 \<or> len = length cs \<and> 0 < size_left (advance (length cs) b)"
    by (rule read_until_safe)
  show ?thesis
    by (rule that [of "fst (projr (bencode_read_string b))" "snd (projr (bencode_read_string b))"])
       (use ru in \<open>auto simp: bencode_read_string_def Let_def wf_buf_def size_left_def split: if_splits\<close>)
qed

lemma bencode_read_integer_safe:
  assumes "wf_buf b" and "0 < size_left b"
  obtains r b' where "bencode_read_integer b = Inr (r, b')" and "wf_buf b'"
    and "r \<noteq> None \<Longrightarrow> cur b < cur b'" and "mem b' = mem b" and "bsz b' = bsz b"
proof -
  have lt: "cur b < bsz b" "bsz b \<le> length (mem b)" and wf1: "wf_buf (advance 1 b)"
    using assms by (auto simp: wf_buf_def size_left_def split: if_splits)
  from wf1 obtain len cs where ru: "read_until (ch CHR ''e'') 31 (advance 1 b) = Inr (len, cs, advance (length cs) (advance 1 b))"
    "wf_buf (advance (length cs) (advance 1 b))"
    "len = 0 \<or> len = length cs \<and> 0 < size_left (advance (length cs) (advance 1 b))"
    by (rule read_until_safe)
  show ?thesis
    by (rule that [of "fst (projr (bencode_read_integer b))" "snd (projr (bencode_read_integer b))"])
       (use ru lt assms(1) in \<open>auto simp: bencode_read_integer_def deref_def wf_buf_def size_left_def split: if_splits\<close>)
qed

lemma buffer_eq_prefix: "wf_buf b \<Longrightarrow> buffer_eq b cs = Inr (prefix cs (remaining b))"
proof (induction cs arbitrary: b)
  case (Cons c cs)
  show ?case
  proof (cases "remaining b")
    case Nil
    with Cons.prems have "cur b = bsz b" using length_remaining [of b] by (simp add: wf_buf_def)
    with Nil show ?thesis by simp
  next
    case (Cons x xs)
    with Cons.prems have "cur b < bsz b" "deref b = Inr x" "wf_buf (advance 1 b)"
      using length_remaining [of b] by (auto intro: deref_remaining wf_buf_advance)
    moreover have "buffer_eq (advance 1 b) cs = Inr (prefix cs xs)"
      using Cons.IH [OF \<open>wf_buf (advance 1 b)\<close>] Cons by simp
    ultimately show ?thesis using Cons by auto
  qed
qed simp

section \<open>Progress and fuel\<close>

text \<open>
  \<open>shrinks m f\<close>: on a buffer with at most \<open>m\<close> bytes left, and at least one, the reader does not
  run out of fuel and a \<^verbatim>\<open>true\<close> return leaves fewer bytes.
\<close>

definition shrinks :: "nat \<Rightarrow> ('s \<times> llarp_buffer) action \<Rightarrow> bool" where
  "shrinks m f \<longleftrightarrow> (\<forall>s b. 0 < size_left b \<longrightarrow> size_left b \<le> m \<longrightarrow>
     f (s, b) \<noteq> Inl OutOfFuel \<and>
     (\<forall>s' b'. f (s, b) = Inr (True, (s', b')) \<longrightarrow> size_left b' < size_left b))"

text \<open>The same with a weak bound, for the sink a dictionary calls after each key.\<close>

definition stays :: "nat \<Rightarrow> ('s \<times> llarp_buffer) action \<Rightarrow> bool" where
  "stays m f \<longleftrightarrow> (\<forall>s b. size_left b \<le> m \<longrightarrow> f (s, b) \<noteq> Inl OutOfFuel \<and>
     (\<forall>s' b'. f (s, b) = Inr (True, (s', b')) \<longrightarrow> size_left b' \<le> size_left b))"

lemma shrinks_mono: "shrinks m f \<Longrightarrow> k \<le> m \<Longrightarrow> shrinks k f"
  by (auto simp: shrinks_def)

lemma stays_mono: "stays m f \<Longrightarrow> k \<le> m \<Longrightarrow> stays k f"
  by (auto simp: stays_def)

lemma deref_not_OutOfFuel [simp]: "deref b \<noteq> Inl OutOfFuel"
  by (simp add: deref_def)

lemma read_until_loop_fuel:
  "read_until_loop d n b \<noteq> Inl OutOfFuel \<and>
   (\<forall>cs b'. read_until_loop d n b = Inr (cs, b') \<longrightarrow> b' = advance (length cs) b)"
proof (induction n arbitrary: b)
  case 0
  show ?case by (subst (1 2) read_until_loop.simps) (auto simp: bind_res_def deref_def)
next
  case (Suc n)
  from Suc [of "advance 1 b"] show ?case
    by (subst (1 2) read_until_loop.simps)
       (cases "read_until_loop d n (advance 1 b)", auto simp: bind_res_def deref_def split: sum.splits)
qed

lemma read_until_fuel:
  "read_until d n b \<noteq> Inl OutOfFuel"
  "read_until d n b = Inr (len, cs, b') \<Longrightarrow> b' = advance (length cs) b \<and> (len \<noteq> 0 \<longrightarrow> 0 < size_left b')"
  using read_until_loop_fuel [of d n b]
  by (cases "read_until_loop d n b"; auto simp: read_until_def split: if_splits)+

lemma read_string_shrinks:
  "bencode_read_string b \<noteq> Inl OutOfFuel"
  "bencode_read_string b = Inr (Some k, b') \<Longrightarrow> size_left b' < size_left b"
proof -
  show "bencode_read_string b \<noteq> Inl OutOfFuel"
    using read_until_fuel(1) [of 58 9 b]
    by (auto simp: bencode_read_string_def bind_res_def Let_def split: sum.splits)
  assume "bencode_read_string b = Inr (Some k, b')"
  then obtain len cs b1 where "read_until 58 9 b = Inr (len, cs, b1)" "len \<noteq> 0" "cur b' > cur b1" "bsz b' = bsz b1"
    by (auto simp: bencode_read_string_def bind_res_eq_Inr_iff Let_def split: if_splits)
  with read_until_fuel(2) [of 58 9 b len cs b1] show "size_left b' < size_left b"
    by (auto simp: size_left_def Let_def split: if_splits)
qed

lemma read_integer_shrinks:
  "bencode_read_integer b \<noteq> Inl OutOfFuel"
  "bencode_read_integer b = Inr (Some i, b') \<Longrightarrow> size_left b' < size_left b"
proof -
  show "bencode_read_integer b \<noteq> Inl OutOfFuel"
    using read_until_fuel(1) [of 101 31 "advance 1 b"]
    by (auto simp: bencode_read_integer_def bind_res_def deref_def split: sum.splits)
  assume "bencode_read_integer b = Inr (Some i, b')"
  then obtain len cs b1 where "read_until 101 31 (advance 1 b) = Inr (len, cs, b1)" "len \<noteq> 0"
    "b' = advance 1 b1"
    by (auto simp: bencode_read_integer_def bind_res_eq_Inr_iff split: if_splits)
  with read_until_fuel(2) [of 101 31 "advance 1 b" len cs b1] show "size_left b' < size_left b"
    by (auto simp: size_left_def Let_def split: if_splits)
qed

lemma list_loop_fuel:
  assumes "shrinks (size_left b) (sink True)" and "size_left b < n"
  shows "list_loop n sink (s, b) \<noteq> Inl OutOfFuel \<and>
    (\<forall>s' b'. list_loop n sink (s, b) = Inr (True, (s', b')) \<longrightarrow> size_left b' \<le> size_left b)"
  using assms
proof (induction n arbitrary: s b)
  case (Suc n)
  show ?case
  proof (cases "size_left b = 0 \<or> deref b = Inr 101 \<or> (\<exists>e. deref b = Inl e)")
    case True
    then show ?thesis by (auto simp: bind_res_def deref_def split: if_splits)
  next
    case False
    then obtain c where c: "deref b = Inr c" "c \<noteq> 101" "0 < size_left b" by (cases "deref b") auto
    have sh: "sink True (s, b) \<noteq> Inl OutOfFuel"
      "\<And>s' b'. sink True (s, b) = Inr (True, (s', b')) \<Longrightarrow> size_left b' < size_left b"
      using Suc.prems(1) c(3) by (auto simp: shrinks_def)
    show ?thesis
    proof (cases "sink True (s, b)")
      case (Inl e)
      with sh c show ?thesis by simp
    next
      case (Inr r)
      obtain ok s1 b1 where r: "r = (ok, s1, b1)" by (cases r) auto
      show ?thesis
      proof (cases ok)
        case True
        with sh(2) Inr r have lt: "size_left b1 < size_left b" by simp
        have "shrinks (size_left b1) (sink True)"
          using Suc.prems(1) lt by (auto intro: shrinks_mono)
        with lt Suc.prems(2) Suc.IH [of b1 s1]
        have "list_loop n sink (s1, b1) \<noteq> Inl OutOfFuel \<and>
          (\<forall>s' b'. list_loop n sink (s1, b1) = Inr (True, (s', b')) \<longrightarrow> size_left b' \<le> size_left b1)"
          by simp
        with lt c Inr r True show ?thesis by fastforce
      qed (use Inr r c in simp)
    qed
  qed
qed simp

lemma dict_loop_fuel:
  assumes "\<And>k. stays (size_left b) (sink (Some k))" and "size_left b < n"
  shows "dict_loop n sink (s, b) \<noteq> Inl OutOfFuel \<and>
    (\<forall>s' b'. dict_loop n sink (s, b) = Inr (True, (s', b')) \<longrightarrow> size_left b' \<le> size_left b)"
  using assms
proof (induction n arbitrary: s b)
  case (Suc n)
  show ?case
  proof (cases "size_left b = 0 \<or> deref b = Inr 101 \<or> (\<exists>e. deref b = Inl e)")
    case True
    then show ?thesis by (auto simp: bind_res_def deref_def split: if_splits)
  next
    case False
    then obtain c where c: "deref b = Inr c" "c \<noteq> 101" "0 < size_left b" by (cases "deref b") auto
    consider (fault) e where "bencode_read_string b = Inl e" "e \<noteq> OutOfFuel"
      | (none) b1 where "bencode_read_string b = Inr (None, b1)"
      | (some) k b1 where "bencode_read_string b = Inr (Some k, b1)" "size_left b1 < size_left b"
      using read_string_shrinks [of b] by (cases "bencode_read_string b") (auto, metis option.exhaust)
    then show ?thesis
    proof cases
      case fault
      with c show ?thesis by simp
    next
      case none
      with c show ?thesis by simp
    next
      case some
      have st: "sink (Some k) (s, b1) \<noteq> Inl OutOfFuel"
        "\<And>s' b'. sink (Some k) (s, b1) = Inr (True, (s', b')) \<Longrightarrow> size_left b' \<le> size_left b1"
        using Suc.prems(1) [of k] some(2) by (auto simp: stays_def)
      show ?thesis
      proof (cases "\<exists>s2 b2. sink (Some k) (s, b1) = Inr (True, (s2, b2))")
        case True
        then obtain s2 b2 where 2: "sink (Some k) (s, b1) = Inr (True, (s2, b2))" by blast
        with st(2) some have lt: "size_left b2 < size_left b" by fastforce
        have "\<And>k. stays (size_left b2) (sink (Some k))"
          using Suc.prems(1) lt by (meson less_imp_le stays_mono)
        with lt Suc.prems(2) Suc.IH [of b2 s2]
        have "dict_loop n sink (s2, b2) \<noteq> Inl OutOfFuel \<and>
          (\<forall>s' b'. dict_loop n sink (s2, b2) = Inr (True, (s', b')) \<longrightarrow> size_left b' \<le> size_left b2)"
          by simp
        with lt c 2 some(1) show ?thesis by fastforce
      next
        case False
        with st(1) c some(1) show ?thesis
          by (cases "sink (Some k) (s, b1)") (auto simp: and_then_def)
      qed
    qed
  qed
qed simp

lemma size_left_advance [simp]: "size_left (advance n b) = size_left b - n"
  by (auto simp: size_left_def Let_def)

lemma read_list_shrinks:
  assumes t: "\<And>m. m < n \<Longrightarrow> shrinks m (sink True)" and f: "sink False = (\<lambda>sb. Inr (True, sb))"
  shows "shrinks n (bencode_read_list n sink)"
  unfolding shrinks_def
proof (intro allI impI)
  fix s b assume 0: "0 < size_left b" and n: "size_left b \<le> n"
  then have lt: "size_left (advance 1 b) < n" by simp
  show "bencode_read_list n sink (s, b) \<noteq> Inl OutOfFuel \<and>
    (\<forall>s' b'. bencode_read_list n sink (s, b) = Inr (True, (s', b')) \<longrightarrow> size_left b' < size_left b)"
    using list_loop_fuel [of "advance 1 b" sink, OF t [OF lt] lt, of s] 0
    by (cases "list_loop n sink (s, advance 1 b)")
       (auto simp: bencode_read_list_def and_then_def bind_res_def deref_def f split: if_splits)
qed

lemma read_dict_shrinks:
  assumes t: "\<And>m k. m < n \<Longrightarrow> stays m (sink (Some k))" and f: "sink None = (\<lambda>sb. Inr (True, sb))"
  shows "shrinks n (bencode_read_dict n sink)"
  unfolding shrinks_def
proof (intro allI impI)
  fix s b assume 0: "0 < size_left b" and n: "size_left b \<le> n"
  then have lt: "size_left (advance 1 b) < n" by simp
  show "bencode_read_dict n sink (s, b) \<noteq> Inl OutOfFuel \<and>
    (\<forall>s' b'. bencode_read_dict n sink (s, b) = Inr (True, (s', b')) \<longrightarrow> size_left b' < size_left b)"
    using dict_loop_fuel [of "advance 1 b" sink, OF t [OF lt] lt, of s] 0
    by (cases "dict_loop n sink (s, advance 1 b)")
       (auto simp: bencode_read_dict_def and_then_def bind_res_def deref_def f split: if_splits)
qed

lemma discard_fuel: "shrinks n (bencode_discard (Suc n)) \<and> stays n (bencode_discard (Suc n))"
proof (induction n rule: less_induct)
  case (less n)
  let ?ok = "\<lambda>sb :: unit \<times> llarp_buffer. Inr (True, sb) :: (bool \<times> unit \<times> llarp_buffer) res"
  have sub: "shrinks m (bencode_discard n)" "stays m (bencode_discard n)" if "m < n" for m
    using less.IH [of "n - 1"] that by (auto intro: shrinks_mono stays_mono)
  have l: "shrinks n (bencode_read_list n (\<lambda>more. if more then bencode_discard n else ?ok))"
    by (rule read_list_shrinks) (auto intro: sub)
  have d: "shrinks n (bencode_read_dict n (\<lambda>key. if key \<noteq> None then bencode_discard n else ?ok))"
    by (rule read_dict_shrinks) (auto intro: sub)
  have sh: "shrinks n (bencode_discard (Suc n))"
    unfolding shrinks_def
  proof (intro allI impI)
    fix u :: unit and b assume b: "0 < size_left b" "size_left b \<le> n"
    show "bencode_discard (Suc n) (u, b) \<noteq> Inl OutOfFuel \<and>
      (\<forall>s' b'. bencode_discard (Suc n) (u, b) = Inr (True, (s', b')) \<longrightarrow> size_left b' < size_left b)"
    proof (cases "deref b")
      case (Inl e)
      with b show ?thesis by (auto simp: deref_def split: if_splits)
    next
      case (Inr c)
      with b l d read_integer_shrinks [of b] read_string_shrinks [of b] show ?thesis
        by (cases "bencode_read_integer b"; cases "bencode_read_string b")
           (auto simp: shrinks_def)
    qed
  qed
  have "stays n (bencode_discard (Suc n))"
    unfolding stays_def
  proof (intro allI impI)
    fix u :: unit and b assume b: "size_left b \<le> n"
    show "bencode_discard (Suc n) (u, b) \<noteq> Inl OutOfFuel \<and>
      (\<forall>s' b'. bencode_discard (Suc n) (u, b) = Inr (True, (s', b')) \<longrightarrow> size_left b' \<le> size_left b)"
    proof (cases "size_left b = 0")
      case False
      with b sh show ?thesis by (auto simp: shrinks_def simp del: bencode_discard.simps intro: less_imp_le)
    qed simp
  qed
  with sh show ?case ..
qed

section \<open>Loops over well-formed items\<close>

text \<open>
  Each item \<open>x\<close> has the bytes \<open>w x\<close>; a sink that reads one item and updates its state by
  \<open>upd x\<close> makes the loops read the whole sequence up to the closing \<^verbatim>\<open>e\<close>.
\<close>

lemma list_loop_items:
  assumes sink: "\<And>x s b rest. x \<in> set xs \<Longrightarrow> wf_buf b \<Longrightarrow> remaining b = w x @ rest \<Longrightarrow>
      sink True (s, b) = Inr (True, (upd x s, advance (length (w x)) b))"
    and w: "\<And>x. x \<in> set xs \<Longrightarrow> w x \<noteq> [] \<and> hd (w x) \<noteq> 101"
    and wf: "wf_buf b" and rem: "remaining b = concat (map w xs) @ 101 # rest" and n: "length xs < n"
  shows "list_loop n sink (s, b) = Inr (True, (fold upd xs s, advance (length (concat (map w xs))) b))"
  using sink w wf rem n
proof (induction xs arbitrary: n s b)
  case Nil
  then obtain m where "n = Suc m" by (cases n) auto
  moreover have "size_left b \<noteq> 0" "deref b = Inr 101"
    using Nil by (auto simp: size_left_remaining intro: deref_remaining)
  ultimately show ?case by simp
next
  case (Cons x xs)
  then obtain m where m: "n = Suc m" "length xs < m" by (cases n) auto
  obtain c cs where wx: "w x = c # cs" "c \<noteq> 101" using Cons.prems(2) [of x] by (cases "w x") auto
  have rem: "remaining b = w x @ concat (map w xs) @ 101 # rest" using Cons.prems(4) by simp
  have "size_left b \<noteq> 0" "deref b = Inr c"
    using Cons.prems(3) rem wx by (auto simp: size_left_remaining intro: deref_remaining)
  moreover have "sink True (s, b) = Inr (True, (upd x s, advance (length (w x)) b))"
    using Cons.prems(1) [of x b "concat (map w xs) @ 101 # rest"] Cons.prems(3) rem by simp
  moreover have "list_loop m sink (upd x s, advance (length (w x)) b) =
      Inr (True, (fold upd xs (upd x s), advance (length (concat (map w xs))) (advance (length (w x)) b)))"
    using Cons.prems rem m by (intro Cons.IH) (auto intro: wf_buf_advance)
  ultimately show ?case using m wx by simp
qed

lemma read_list_items:
  assumes sink: "\<And>x s b rest. x \<in> set xs \<Longrightarrow> wf_buf b \<Longrightarrow> remaining b = w x @ rest \<Longrightarrow>
      sink True (s, b) = Inr (True, (upd x s, advance (length (w x)) b))"
    and w: "\<And>x. x \<in> set xs \<Longrightarrow> w x \<noteq> [] \<and> hd (w x) \<noteq> 101"
    and f: "sink False = (\<lambda>sb. Inr (True, sb))"
    and wf: "wf_buf b" and rem: "remaining b = 108 # concat (map w xs) @ 101 # rest" and n: "length xs < n"
  shows "bencode_read_list n sink (s, b) =
    Inr (True, (fold upd xs s, advance (length (concat (map w xs)) + 2) b))"
proof -
  have wf1: "wf_buf (advance 1 b)" using wf rem by (simp add: wf_buf_advance)
  have loop: "list_loop n sink (s, advance 1 b) =
      Inr (True, (fold upd xs s, advance (length (concat (map w xs))) (advance 1 b)))"
    using rem n by (intro list_loop_items [where rest = rest] sink w wf1) auto
  have "deref (advance (length (concat (map w xs))) (advance 1 b)) = Inr 101"
    using wf rem by (intro deref_remaining [where cs = rest]) (auto intro: wf_buf_advance)
  moreover have "\<not> size_left b < 2" "deref b = Inr 108"
    using wf rem by (auto simp: size_left_remaining intro: deref_remaining)
  ultimately show ?thesis
    using loop by (simp add: bencode_read_list_def f)
qed

lemma read_string_key:
  assumes "wf_buf b" and "remaining b = wire_string k @ rest" and "length k < 10 ^ 9"
  obtains kb where "bencode_read_string b = Inr (Some kb, advance (length (wire_string k)) b)"
    and "wf_buf kb" and "remaining kb = k" and "bsz kb = length k" and "cur kb = 0"
    and "take (length k) (mem kb) = k"
proof (rule that)
  let ?off = "length (dec (length k)) + 1"
  show "bencode_read_string b =
      Inr (Some (substring_at b ?off (length k)), advance (length (wire_string k)) b)"
    using assms by (rule bencode_read_string_wire)
  have "remaining b = (dec (length k) @ [58]) @ k @ rest" using assms(2) by (simp add: wire_string_def)
  from take_substring_at [OF assms(1) this, of ?off]
  show "wf_buf (substring_at b ?off (length k))" "remaining (substring_at b ?off (length k)) = k"
    "take (length k) (mem (substring_at b ?off (length k))) = k"
    by simp_all
qed (simp_all add: substring_at_def)

lemma hd_wire_string: "\<exists>c cs. wire_string k = c # cs \<and> isdigit c"
  using isdigit_dec [of _ "length k"] by (cases "dec (length k)") (auto simp: wire_string_def)

lemma dict_loop_items:
  assumes sink: "\<And>ys x zs b kb rest. xs = ys @ x # zs \<Longrightarrow> wf_buf b \<Longrightarrow> wf_buf kb \<Longrightarrow>
      remaining kb = key x \<Longrightarrow> bsz kb = length (key x) \<Longrightarrow> remaining b = w x @ rest \<Longrightarrow>
      sink (Some kb) (fold upd ys s, b) = Inr (True, (upd x (fold upd ys s), advance (length (w x)) b))"
    and k: "\<And>x. x \<in> set xs \<Longrightarrow> length (key x) < 10 ^ 9"
    and wf: "wf_buf b"
    and rem: "remaining b = concat (map (\<lambda>x. wire_string (key x) @ w x) xs) @ 101 # rest"
    and n: "length xs < n"
  shows "dict_loop n sink (s, b) =
    Inr (True, (fold upd xs s, advance (length (concat (map (\<lambda>x. wire_string (key x) @ w x) xs))) b))"
  using sink k wf rem n
proof (induction xs arbitrary: n s b)
  case Nil
  then obtain m where "n = Suc m" by (cases n) auto
  moreover have "size_left b \<noteq> 0" "deref b = Inr 101"
    using Nil by (auto simp: size_left_remaining intro: deref_remaining)
  ultimately show ?case by simp
next
  case (Cons x xs)
  let ?ws = "concat (map (\<lambda>x. wire_string (key x) @ w x) xs)"
  let ?n = "length (wire_string (key x))"
  obtain m where m: "n = Suc m" "length xs < m" using Cons.prems(5) by (cases n) auto
  obtain c cs where wx: "wire_string (key x) = c # cs" "c \<noteq> 101"
    using hd_wire_string [of "key x"] isdigit_not by blast
  have rem: "remaining b = wire_string (key x) @ w x @ ?ws @ 101 # rest" using Cons.prems(4) by simp
  have st: "size_left b \<noteq> 0" "deref b = Inr c"
    using Cons.prems(3) rem wx by (auto simp: size_left_remaining intro: deref_remaining)
  have "length (key x) < 10 ^ 9" using Cons.prems(2) by simp
  with Cons.prems(3) rem obtain kb where kb: "bencode_read_string b = Inr (Some kb, advance ?n b)"
    "wf_buf kb" "remaining kb = key x" "bsz kb = length (key x)" "cur kb = 0"
    by (rule read_string_key)
  have wf1: "wf_buf (advance ?n b)" using Cons.prems(3) rem by (simp add: wf_buf_advance)
  have s1: "sink (Some kb) (s, advance ?n b) =
      Inr (True, (upd x s, advance (length (w x)) (advance ?n b)))"
    using Cons.prems(1) [of "[]" x xs "advance ?n b" kb "?ws @ 101 # rest"] wf1 kb rem by simp
  have "dict_loop m sink (upd x s, advance (length (w x)) (advance ?n b)) =
      Inr (True, (fold upd xs (upd x s), advance (length ?ws) (advance (length (w x)) (advance ?n b))))"
  proof (rule Cons.IH)
    show "wf_buf (advance (length (w x)) (advance ?n b))"
      using wf_buf_advance [OF wf1, of "length (w x)"] rem by simp
    show "sink (Some kb) (fold upd ys (upd x s), b) =
        Inr (True, (upd y (fold upd ys (upd x s)), advance (length (w y)) b))"
      if "xs = ys @ y # zs" "wf_buf b" "wf_buf kb" "remaining kb = key y" "bsz kb = length (key y)" "remaining b = w y @ rest"
      for ys y zs b kb rest
      using Cons.prems(1) [of "x # ys" y zs b kb rest] that by simp
  qed (use Cons.prems(2) m rem in auto)
  with st kb(1) s1 m wx(2) show ?case
    by (simp add: add.assoc)
qed

lemma read_dict_items_at:
  assumes sink: "\<And>ys x zs b kb rest. xs = ys @ x # zs \<Longrightarrow> wf_buf b \<Longrightarrow> wf_buf kb \<Longrightarrow>
      remaining kb = key x \<Longrightarrow> bsz kb = length (key x) \<Longrightarrow> remaining b = w x @ rest \<Longrightarrow>
      sink (Some kb) (fold upd ys s, b) = Inr (True, (upd x (fold upd ys s), advance (length (w x)) b))"
    and k: "\<And>x. x \<in> set xs \<Longrightarrow> length (key x) < 10 ^ 9"
    and f: "\<And>b. sink None (fold upd xs s, b) = Inr (True, (fold upd xs s, b))"
    and wf: "wf_buf b"
    and rem: "remaining b = 100 # concat (map (\<lambda>x. wire_string (key x) @ w x) xs) @ 101 # rest"
    and n: "length xs < n"
  shows "bencode_read_dict n sink (s, b) =
    Inr (True, (fold upd xs s, advance (length (concat (map (\<lambda>x. wire_string (key x) @ w x) xs)) + 2) b))"
proof -
  let ?ws = "concat (map (\<lambda>x. wire_string (key x) @ w x) xs)"
  have wf1: "wf_buf (advance 1 b)" using wf rem by (simp add: wf_buf_advance)
  have loop: "dict_loop n sink (s, advance 1 b) =
      Inr (True, (fold upd xs s, advance (length ?ws) (advance 1 b)))"
    using rem n by (intro dict_loop_items [where rest = rest] sink k wf1) auto
  have "deref (advance (length ?ws) (advance 1 b)) = Inr 101"
    using wf rem by (intro deref_remaining [where cs = rest]) (auto intro: wf_buf_advance)
  moreover have "\<not> size_left b < 2" "deref b = Inr 100"
    using wf rem by (auto simp: size_left_remaining intro: deref_remaining)
  ultimately show ?thesis
    using loop by (simp add: bencode_read_dict_def f)
qed

lemma read_dict_items:
  assumes sink: "\<And>x s b kb rest. x \<in> set xs \<Longrightarrow> wf_buf b \<Longrightarrow> wf_buf kb \<Longrightarrow> remaining kb = key x \<Longrightarrow>
      remaining b = w x @ rest \<Longrightarrow>
      sink (Some kb) (s, b) = Inr (True, (upd x s, advance (length (w x)) b))"
    and k: "\<And>x. x \<in> set xs \<Longrightarrow> length (key x) < 10 ^ 9"
    and f: "sink None = (\<lambda>sb. Inr (True, sb))"
    and wf: "wf_buf b"
    and rem: "remaining b = 100 # concat (map (\<lambda>x. wire_string (key x) @ w x) xs) @ 101 # rest"
    and n: "length xs < n"
  shows "bencode_read_dict n sink (s, b) =
    Inr (True, (fold upd xs s, advance (length (concat (map (\<lambda>x. wire_string (key x) @ w x) xs)) + 2) b))"
proof (rule read_dict_items_at [where rest = rest])
  fix ys x zs b kb rest
  assume "xs = ys @ x # zs" "wf_buf b" "wf_buf kb" "remaining kb = key x" "remaining b = w x @ rest"
  then show "sink (Some kb) (fold upd ys s, b) = Inr (True, (upd x (fold upd ys s), advance (length (w x)) b))"
    by (intro sink) auto
qed (use k f wf rem n in auto)

section \<open>The bencode grammar\<close>

datatype bval = BInt u64 | BStr "byte list" | BList "bval list" | BDict "(byte list \<times> bval) list"

fun bwire :: "bval \<Rightarrow> byte list" where
  "bwire (BInt i) = wire_int i"
| "bwire (BStr s) = wire_string s"
| "bwire (BList vs) = 108 # concat (map bwire vs) @ [101]"
| "bwire (BDict es) = 100 # concat (map (\<lambda>e. wire_string (fst e) @ bwire (snd e)) es) @ [101]"

fun bvalid :: "bval \<Rightarrow> bool" where
  "bvalid (BInt i) \<longleftrightarrow> True"
| "bvalid (BStr s) \<longleftrightarrow> length s < 10 ^ 9"
| "bvalid (BList vs) \<longleftrightarrow> (\<forall>v \<in> set vs. bvalid v)"
| "bvalid (BDict es) \<longleftrightarrow> (\<forall>e \<in> set es. length (fst e) < 10 ^ 9 \<and> bvalid (snd e))"

text \<open>The writer's calls that produce a value.\<close>

fun bwrite :: "bval \<Rightarrow> llarp_buffer action" where
  "bwrite (BInt i) = bencode_write_uint64 i"
| "bwrite (BStr s) = bencode_write_bytestring s"
| "bwrite (BList vs) = all_steps ([bencode_start_list] @ map bwrite vs @ [bencode_end])"
| "bwrite (BDict es) = all_steps ([bencode_start_dict] @
     map (\<lambda>e. and_then (bencode_write_bytestring (fst e)) (bwrite (snd e))) es @ [bencode_end])"

lemma emits_all_steps_append:
  "emits (all_steps fs) xs \<Longrightarrow> emits (all_steps gs) ys \<Longrightarrow> emits (all_steps (fs @ gs)) (xs @ ys)"
proof -
  have "all_steps (fs @ gs) = and_then (all_steps fs) (all_steps gs)"
    by (induction fs) (auto simp: fun_eq_iff and_then_def bind_res_def split: sum.splits)
  then show "emits (all_steps fs) xs \<Longrightarrow> emits (all_steps gs) ys \<Longrightarrow> emits (all_steps (fs @ gs)) (xs @ ys)"
    by (simp add: emits_and_then)
qed

lemma emits_all_steps_map [emit_intros]:
  "(\<And>x. x \<in> set xs \<Longrightarrow> emits (f x) (w x)) \<Longrightarrow> emits (all_steps (map f xs)) (concat (map w xs))"
  by (induction xs) (auto intro!: emit_intros)

lemma emits_steps_between:
  "emits (all_steps (map f xs)) ws \<Longrightarrow> emits g [c] \<Longrightarrow> emits h [d] \<Longrightarrow>
     emits (all_steps ([g] @ map f xs @ [h])) (c # ws @ [d])"
  using emits_all_steps_append [of "[g]" "[c]" "map f xs @ [h]" "ws @ [d]"]
    emits_all_steps_append [of "map f xs" ws "[h]" "[d]"]
    emits_all_steps_Cons [OF _ emits_all_steps_Nil, of g "[c]"]
    emits_all_steps_Cons [OF _ emits_all_steps_Nil, of h "[d]"]
  by simp

lemma emits_letters [emit_intros]:
  "emits bencode_start_list [108]" "emits bencode_start_dict [100]" "emits bencode_end [101]"
  unfolding bencode_start_list_def bencode_start_dict_def bencode_end_def
  using emits_buffer_write [of "[108]"] emits_buffer_write [of "[100]"] emits_buffer_write [of "[101]"]
  by simp_all

lemma emits_bwrite: "emits (bwrite v) (bwire v)"
proof (induction v rule: bwrite.induct)
  case (3 vs)
  then show ?case
    unfolding bwrite.simps bwire.simps by (intro emits_steps_between) (auto intro!: emit_intros)
next
  case (4 es)
  then show ?case
    unfolding bwrite.simps bwire.simps
    by (intro emits_steps_between) (auto intro!: emit_intros emits_and_then)
qed (auto intro: emit_intros)

lemma bwire_head: "\<exists>c cs. bwire v = c # cs \<and> c \<noteq> 101"
  using hd_wire_string isdigit_not by (cases v) (auto simp: wire_int_def, metis)

lemma bwire_not_Nil [simp]: "bwire v \<noteq> []"
  using bwire_head [of v] by auto

lemma length_concat_ge: "(\<And>x. x \<in> set xs \<Longrightarrow> w x \<noteq> []) \<Longrightarrow> length xs \<le> length (concat (map w xs))"
proof (induction xs)
  case (Cons x xs)
  then have "length xs \<le> length (concat (map w xs))" "1 \<le> length (w x)"
    by (auto simp: Suc_le_eq)
  then show ?case by simp
qed simp

lemma length_concat_mem: "x \<in> set xs \<Longrightarrow> length (w x) \<le> length (concat (map w xs))"
  by (induction xs) auto

lemma discard_bwire:
  "bvalid v \<Longrightarrow> wf_buf b \<Longrightarrow> remaining b = bwire v @ rest \<Longrightarrow> length (bwire v) \<le> n \<Longrightarrow>
     bencode_discard (Suc n) (u, b) = Inr (True, (u, advance (length (bwire v)) b))"
proof (induction v arbitrary: u b rest n)
  case (BInt i)
  then have "size_left b \<noteq> 0" "deref b = Inr 105"
    by (auto simp: size_left_remaining wire_int_def intro: deref_remaining)
  with BInt show ?case using bencode_read_integer_wire [of b i rest] by simp
next
  case (BStr s)
  obtain c cs where c: "wire_string s = c # cs" "isdigit c" using hd_wire_string by blast
  with BStr.prems have d: "size_left b \<noteq> 0" "deref b = Inr c"
    by (auto simp: size_left_remaining intro: deref_remaining)
  have "unat c \<in> {48..57}" using c(2) by (simp add: isdigit_iff_unat)
  then have "c \<in> set (str ''0123456789'')"
    by (simp add: word_unat_eq_iff) arith
  moreover from BStr.prems obtain kb where
    "bencode_read_string b = Inr (Some kb, advance (length (wire_string s)) b)"
    by (auto elim: read_string_key)
  ultimately show ?case using d c(2) isdigit_not [of c] by simp
next
  case (BList vs)
  let ?ok = "\<lambda>sb :: unit \<times> llarp_buffer. Inr (True, sb) :: (bool \<times> unit \<times> llarp_buffer) res"
  obtain m where m: "n = Suc m" using BList.prems(4) by (cases n) auto
  have "size_left b \<noteq> 0" "deref b = Inr 108"
    using BList.prems by (auto simp: size_left_remaining intro: deref_remaining)
  moreover have "bencode_read_list n (\<lambda>more. if more then bencode_discard n else ?ok) (u, b) =
      Inr (True, (fold (\<lambda>_ u. u) vs u, advance (length (concat (map bwire vs)) + 2) b))"
  proof (rule read_list_items [where rest = rest])
    fix v s b rest assume "v \<in> set vs" "wf_buf b" "remaining b = bwire v @ rest"
    with BList.prems BList.IH [of v] length_concat_mem [of v vs bwire] m
    show "(if True then bencode_discard n else ?ok) (s, b) = Inr (True, (s, advance (length (bwire v)) b))"
      by simp
  next
    fix v show "bwire v \<noteq> [] \<and> hd (bwire v) \<noteq> 101" using bwire_head [of v] by auto
  next
    have "length vs \<le> length (concat (map bwire vs))"
      by (intro length_concat_ge) simp
    with BList.prems(4) show "length vs < n" by simp
  qed (use BList.prems in auto)
  moreover have "fold (\<lambda>_ u. u) vs u = u" by (induction vs) auto
  ultimately show ?case by simp
next
  case (BDict es)
  let ?ok = "\<lambda>sb :: unit \<times> llarp_buffer. Inr (True, sb) :: (bool \<times> unit \<times> llarp_buffer) res"
  let ?w = "\<lambda>e. wire_string (fst e) @ bwire (snd e)"
  obtain m where m: "n = Suc m" using BDict.prems(4) by (cases n) auto
  have "size_left b \<noteq> 0" "deref b = Inr 100"
    using BDict.prems by (auto simp: size_left_remaining intro: deref_remaining)
  moreover have "bencode_read_dict n (\<lambda>key. if key \<noteq> None then bencode_discard n else ?ok) (u, b) =
      Inr (True, (fold (\<lambda>_ u. u) es u, advance (length (concat (map ?w es)) + 2) b))"
  proof (rule read_dict_items [where rest = rest])
    fix e s b kb rest assume e: "e \<in> set es" and b: "wf_buf b" "remaining b = bwire (snd e) @ rest"
    have "snd e \<in> Basic_BNFs.snds e" by (cases e) simp
    moreover have "bvalid (snd e)" using BDict.prems(1) e by simp
    moreover have "length (bwire (snd e)) \<le> m"
      using length_concat_mem [OF e, of ?w] BDict.prems(4) m by simp
    ultimately have "bencode_discard (Suc m) (s, b) = Inr (True, (s, advance (length (bwire (snd e))) b))"
      using e b by (intro BDict.IH)
    then show "(if Some kb \<noteq> None then bencode_discard n else ?ok) (s, b) =
        Inr (True, (s, advance (length (bwire (snd e))) b))"
      by (simp add: m del: bencode_discard.simps)
  next
    have "length es \<le> length (concat (map ?w es))"
      by (intro length_concat_ge) simp
    with BDict.prems(4) show "length es < n" by simp
  qed (use BDict.prems in auto)
  moreover have "fold (\<lambda>_ u. u) es u = u" by (induction es) auto
  ultimately show ?case by simp
qed

section \<open>The contract of BEncode and BDecode\<close>

text \<open>The reader's view of what a writer appended to a buffer.\<close>

definition written_window :: "llarp_buffer \<Rightarrow> llarp_buffer \<Rightarrow> llarp_buffer" where
  "written_window b b' = \<lparr>mem = mem b', cur = cur b, bsz = cur b'\<rparr>"

lemma written_window:
  assumes "wf_buf b" and "wf_buf b'" and "consumed b' = consumed b @ bs" and "cur b' = cur b + length bs"
  shows "wf_buf (written_window b b')" and "remaining (written_window b b') = bs"
proof -
  have le: "cur b + length bs \<le> length (mem b')" "cur b \<le> length (mem b)"
    using assms by (auto simp: wf_buf_def)
  show "wf_buf (written_window b b')"
    using le assms(4) by (simp add: wf_buf_def written_window_def)
  have "remaining (written_window b b') = drop (cur b) (consumed b')"
    using assms(4) by (simp add: remaining_def written_window_def consumed_def take_drop add.commute)
  also have "\<dots> = bs" unfolding assms(3) using le(2) by (simp add: consumed_def)
  finally show "remaining (written_window b b') = bs" .
qed

locale bencode_codec =
  fixes BEncode :: "'a \<Rightarrow> llarp_buffer action"
    and BDecode :: "('a \<times> llarp_buffer) action"
    and wire :: "'a \<Rightarrow> byte list"
    and valid :: "'a \<Rightarrow> bool"
    and dflt :: 'a
  assumes encode_emits: "valid x \<Longrightarrow> emits (BEncode x) (wire x)"
    and decode_wire: "valid x \<Longrightarrow> wf_buf b \<Longrightarrow> remaining b = wire x @ rest \<Longrightarrow>
      BDecode (dflt, b) = Inr (True, (x, advance (length (wire x)) b))"
    and wire_head: "valid x \<Longrightarrow> \<exists>c cs. wire x = c # cs \<and> c \<noteq> 101"
begin

lemma roundtrip:
  assumes "valid x" and "wf_buf b" and "length (wire x) < size_left b"
  obtains b' where "BEncode x b = Inr (True, b')"
    and "BDecode (dflt, written_window b b') = Inr (True, (x, advance (length (wire x)) (written_window b b')))"
proof -
  from encode_emits [OF assms(1)] assms(2,3) obtain b' where b': "BEncode x b = Inr (True, b')"
    "wf_buf b'" "consumed b' = consumed b @ wire x" "bsz b' = bsz b" "cur b' = cur b + length (wire x)"
    by (rule emitsE)
  with written_window [OF assms(2) b'(2,3,5)] decode_wire [OF assms(1), of "written_window b b'" "[]"]
  show ?thesis by (intro that) simp_all
qed

lemma list_emits:
  assumes "\<And>x. x \<in> set xs \<Longrightarrow> valid x"
  shows "emits (BEncodeWriteList BEncode xs) (108 # concat (map wire xs) @ [101])"
proof -
  have "emits (all_steps (map BEncode xs)) (concat (map wire xs))"
    using assms by (intro emit_intros encode_emits)
  then have "emits (and_then (all_steps (map BEncode xs)) bencode_end) (concat (map wire xs) @ [101])"
    by (rule emits_and_then) (rule emit_intros)
  then have "emits (BEncodeWriteList BEncode xs) ([108] @ concat (map wire xs) @ [101])"
    unfolding BEncodeWriteList_def by (intro emits_and_then [OF emits_letters(1)])
  then show ?thesis by simp
qed

lemma list_decode:
  assumes v: "\<And>x. x \<in> set xs \<Longrightarrow> valid x" and "wf_buf b"
    and "remaining b = 108 # concat (map wire xs) @ 101 # rest" and "length xs < n"
  shows "BEncodeReadList n dflt BDecode (ys, b) =
    Inr (True, (ys @ xs, advance (length (concat (map wire xs)) + 2) b))"
proof -
  let ?sink = "\<lambda>has (zs, b). if has then bind_res (BDecode (dflt, b)) (\<lambda>(ok, x, b'). Inr (ok, zs @ [x], b'))
      else Inr (True, zs, b)"
  have "bencode_read_list n ?sink (ys, b) =
      Inr (True, (fold (\<lambda>x zs. zs @ [x]) xs ys, advance (length (concat (map wire xs)) + 2) b))"
  proof (rule read_list_items [where rest = rest])
    fix x zs b rest assume "x \<in> set xs" "wf_buf b" "remaining b = wire x @ rest"
    then have "BDecode (dflt, b) = Inr (True, (x, advance (length (wire x)) b))"
      using v by (intro decode_wire)
    then show "?sink True (zs, b) = Inr (True, (zs @ [x], advance (length (wire x)) b))"
      by simp
  next
    fix x assume "x \<in> set xs"
    then show "wire x \<noteq> [] \<and> hd (wire x) \<noteq> 101" using wire_head [of x] v by auto
  qed (use assms in auto)
  moreover have "fold (\<lambda>x zs. zs @ [x]) xs ys = ys @ xs"
    by (induction xs arbitrary: ys) auto
  ultimately show ?thesis by (simp add: BEncodeReadList_def)
qed

end

text \<open>A bounded list of codable values is codable again.\<close>

locale bencode_list_codec = bencode_codec +
  fixes fuel :: nat

sublocale bencode_list_codec \<subseteq> items: bencode_codec
  "BEncodeWriteList BEncode" "BEncodeReadList fuel dflt BDecode"
  "\<lambda>xs. 108 # concat (map wire xs) @ [101]" "\<lambda>xs. (\<forall>x \<in> set xs. valid x) \<and> length xs < fuel" "[]"
proof
  fix xs b rest assume "(\<forall>x\<in>set xs. valid x) \<and> length xs < fuel" "wf_buf b"
    "remaining b = (108 # concat (map wire xs) @ [101]) @ rest"
  then show "BEncodeReadList fuel dflt BDecode ([], b) =
      Inr (True, (xs, advance (length (108 # concat (map wire xs) @ [101])) b))"
    using list_decode [of xs b rest fuel "[]"] by simp
qed (use list_emits in auto)

section \<open>The AlignedBuffer codec\<close>

text \<open>
  \<^verbatim>\<open>AlignedBuffer<sz>\<close> (\<^verbatim>\<open>util/aligned.hpp\<close>): a byte array of a fixed size; \<^verbatim>\<open>BDecode\<close> refuses a string
  of another length and leaves the array alone.
\<close>

definition aligned_BEncode :: "byte list \<Rightarrow> llarp_buffer action" where
  "aligned_BEncode data = bencode_write_bytestring data"

definition aligned_BDecode :: "nat \<Rightarrow> (byte list \<times> llarp_buffer) action" where
  "aligned_BDecode sz = (\<lambda>(data, b).
     bind_res (bencode_read_string b) (\<lambda>(r, b').
       case r of
         None \<Rightarrow> Inr (False, (data, b'))
       | Some strbuf \<Rightarrow>
           if bsz strbuf \<noteq> sz then Inr (False, (data, b'))
           else bind_res (load sz strbuf) (\<lambda>bs. Inr (True, (bs, b')))))"

lemma aligned_decode_wire:
  assumes "length x = sz" "sz < 10 ^ 9" and "wf_buf b" and "remaining b = wire_string x @ rest"
  shows "aligned_BDecode sz (y, b) = Inr (True, (x, advance (length (wire_string x)) b))"
proof -
  have "length x < 10 ^ 9" using assms(1,2) by simp
  from read_string_key [OF assms(3,4) this]
  obtain kb where kb: "bencode_read_string b = Inr (Some kb, advance (length (wire_string x)) b)"
    "wf_buf kb" "remaining kb = x" "bsz kb = length x"
    by blast
  then have "load sz kb = Inr x" using assms(1) by (simp add: load_remaining)
  with kb assms(1) show ?thesis by (simp add: aligned_BDecode_def)
qed

interpretation aligned: bencode_codec aligned_BEncode "aligned_BDecode sz" wire_string
  "\<lambda>x. length x = sz \<and> sz < 10 ^ 9" "replicate sz 0" for sz
proof
  fix x b rest assume "length x = sz \<and> sz < 10 ^ 9" "wf_buf b" "remaining b = wire_string x @ rest"
  then show "aligned_BDecode sz (replicate sz 0, b) = Inr (True, (x, advance (length (wire_string x)) b))"
    by (intro aligned_decode_wire) auto
next
  fix x show "\<exists>c cs. wire_string x = c # cs \<and> c \<noteq> 101"
    using hd_wire_string [of x] isdigit_not by blast
qed (auto simp: aligned_BEncode_def intro: emit_intros)

text \<open>
  \<^verbatim>\<open>Encrypted<bufsz>\<close> (\<^verbatim>\<open>crypto/encrypted.hpp\<close>): a byte string of at most \<open>bufsz\<close> bytes. The bytes of the
  backing array beyond \<^verbatim>\<open>_sz\<close> are never read back, so the value is the first \<^verbatim>\<open>_sz\<close> bytes.
\<close>

definition encrypted_BEncode :: "byte list \<Rightarrow> llarp_buffer action" where
  "encrypted_BEncode data = bencode_write_bytestring data"

text \<open>
  \<^verbatim>\<open>sizeof(_buf)\<close>: \<^verbatim>\<open>AlignedBuffer\<close> has the alignment of \<^verbatim>\<open>max_align_t\<close>, 16 bytes, so its size is rounded up to a multiple of 16.
  A text longer than \<open>bufsz\<close> that passes the test is copied into the padding behind the array, which belongs to the object.
\<close>

definition aligned_sizeof :: "nat \<Rightarrow> nat" where
  "aligned_sizeof sz = (sz + 15) div 16 * 16"

lemma aligned_sizeof_ge: "sz \<le> aligned_sizeof sz"
  unfolding aligned_sizeof_def by presburger

definition encrypted_BDecode :: "nat \<Rightarrow> (byte list \<times> llarp_buffer) action" where
  "encrypted_BDecode bufsz = (\<lambda>(data, b).
     bind_res (bencode_read_string b) (\<lambda>(r, b').
       case r of
         None \<Rightarrow> Inr (False, (data, b'))
       | Some strbuf \<Rightarrow>
           if bsz strbuf > aligned_sizeof bufsz then Inr (False, (data, b'))
           else bind_res (load (bsz strbuf) strbuf) (\<lambda>bs. Inr (True, (bs, b')))))"

lemma encrypted_decode_wire:
  assumes "length x \<le> bufsz" "bufsz < 10 ^ 9" and "wf_buf b" and "remaining b = wire_string x @ rest"
  shows "encrypted_BDecode bufsz (y, b) = Inr (True, (x, advance (length (wire_string x)) b))"
proof -
  have "length x < 10 ^ 9" using assms(1,2) by linarith
  from read_string_key [OF assms(3,4) this]
  obtain kb where kb: "bencode_read_string b = Inr (Some kb, advance (length (wire_string x)) b)"
    "wf_buf kb" "remaining kb = x" "bsz kb = length x"
    by blast
  then have "load (bsz kb) kb = Inr x" by (simp add: load_remaining)
  with kb assms(1) aligned_sizeof_ge [of bufsz] show ?thesis by (simp add: encrypted_BDecode_def)
qed

interpretation encrypted: bencode_list_codec encrypted_BEncode "encrypted_BDecode bufsz" wire_string
  "\<lambda>x. length x \<le> bufsz \<and> bufsz < 10 ^ 9" "[]" fuel for bufsz fuel
proof
  fix x b rest assume "length x \<le> bufsz \<and> bufsz < 10 ^ 9" "wf_buf b" "remaining b = wire_string x @ rest"
  then show "encrypted_BDecode bufsz ([], b) = Inr (True, (x, advance (length (wire_string x)) b))"
    by (intro encrypted_decode_wire) auto
next
  fix x show "\<exists>c cs. wire_string x = c # cs \<and> c \<noteq> 101"
    using hd_wire_string [of x] isdigit_not by blast
qed (auto simp: encrypted_BEncode_def intro: emit_intros)

end
