(* ===== verification/Wire_Properties.thy ===== *)
theory Wire_Properties
  imports Bencode_Laws
begin

text \<open>
  What the buffer and the bencode layer promise to every message of the program: writers stay inside
  their buffer, what is written is read back, an unknown value is skipped exactly, the
  recursive skip always returns, and the places where truncated or odd input leaves
  the contract.
\<close>

section \<open>Writers\<close>

lemma safe_bwrite: "safe wf_buf (bwrite v)"
proof (induction v)
  case (BInt i)
  show ?case by (simp add: bencode_write_uint64_def safe_and_then)
next
  case (BStr s)
  show ?case by (simp add: bencode_write_bytestring_def safe_and_then)
next
  case (BList vs)
  show ?case unfolding bwrite.simps
    by (rule safe_all_steps) (auto simp: bencode_start_list_def bencode_end_def BList)
next
  case (BDict es)
  have "safe wf_buf (and_then (bencode_write_bytestring (fst e)) (bwrite (snd e)))" if "e \<in> set es" for e
    using BDict [of e "snd e"] that
    by (cases e) (auto simp: bencode_write_bytestring_def intro!: safe_and_then)
  then show ?case unfolding bwrite.simps
    by (intro safe_all_steps) (auto simp: bencode_start_dict_def bencode_end_def)
qed

lemma safe_put_uint:
  "safe wf_buf (put_uint16 i)" "safe wf_buf (put_uint32 j)" "safe wf_buf (put_uint64 k)"
proof -
  have *: "\<exists>ok b'. bind_res (store bs b) (\<lambda>b'. Inr (True, advance (length bs) b')) = Inr (ok, b') \<and> wf_buf b'"
    if "wf_buf b" "length bs \<le> size_left b" for bs b
    using store_advance_wf [OF that order_refl] by (metis bind_res_Inr)
  show "safe wf_buf (put_uint16 i)"
    by (rule safeI) (use * [of _ "htobe16buf i"] in \<open>auto simp: put_uint16_def htobe16buf_def\<close>)
  show "safe wf_buf (put_uint32 j)"
    by (rule safeI) (use * [of _ "htobe32buf j"] in \<open>auto simp: put_uint32_def htobe32buf_def\<close>)
  show "safe wf_buf (put_uint64 k)"
    by (rule safeI) (use * [of _ "htobe64buf k"] in \<open>auto simp: put_uint64_def htobe64buf_def\<close>)
qed

text \<open>
  C15: No writer leaves the buffer's memory. Whatever value is written, however little room
  is left, each call returns \<^verbatim>\<open>true\<close> or \<^verbatim>\<open>false\<close> with the cursor still inside the buffer.
\<close>

theorem writers_stay_in_bounds:
  "safe wf_buf (bwrite v) \<and> safe wf_buf (writef txt) \<and> safe wf_buf (buffer_write bs) \<and>
   safe wf_buf (put_uint16 i) \<and> safe wf_buf (put_uint32 j) \<and> safe wf_buf (put_uint64 k)"
  by (simp add: safe_bwrite safe_put_uint)

section \<open>Round trips\<close>

text \<open>
  C16: A bencode value written where there is room for it is skipped by \<^verbatim>\<open>bencode_discard\<close> as exactly
  one value: the reader ends right behind the last byte the writer produced.
\<close>

theorem discard_skips_written_value:
  assumes "bvalid v" and "wf_buf b" and "length (bwire v) < size_left b"
  shows "\<exists>b'. bwrite v b = Inr (True, b') \<and> cur b' = cur b + length (bwire v) \<and>
    bencode_discard (Suc (length (bwire v))) ((), written_window b b') =
      Inr (True, ((), advance (length (bwire v)) (written_window b b')))"
proof -
  from emits_bwrite [of v] assms(2,3) obtain b' where b': "bwrite v b = Inr (True, b')" "wf_buf b'"
    "consumed b' = consumed b @ bwire v" "bsz b' = bsz b" "cur b' = cur b + length (bwire v)"
    by (rule emitsE)
  note ww = written_window [OF assms(2) b'(2,3,5)]
  from discard_bwire [OF assms(1) ww(1), of "[]"] ww(2) b' show ?thesis by auto
qed

theorem discard_skips_written_value_witness:
  "\<exists>b'. bwrite (BDict [(str ''A'', BList [BInt 7, BStr (str ''x'')])]) (buffer_of (replicate 40 0)) = Inr (True, b') \<and>
    cur b' = 0 + length (bwire (BDict [(str ''A'', BList [BInt 7, BStr (str ''x'')])])) \<and>
    bencode_discard (Suc (length (bwire (BDict [(str ''A'', BList [BInt 7, BStr (str ''x'')])]))))
      ((), written_window (buffer_of (replicate 40 0)) b') =
      Inr (True, ((), advance (length (bwire (BDict [(str ''A'', BList [BInt 7, BStr (str ''x'')])])))
        (written_window (buffer_of (replicate 40 0)) b')))"
  using discard_skips_written_value
    [of "BDict [(str ''A'', BList [BInt 7, BStr (str ''x'')])]" "buffer_of (replicate 40 0)"]
  by (simp add: wire_int_def wire_string_def dec.simps size_left_def buffer_of_def wf_buf_def)

text \<open>
  The values of a dictionary read back as they were written. A string gives a sub-buffer with its bytes
  and an integer its 64-bit value, and the cursor ends behind them.
\<close>

theorem bencode_scalar_roundtrip:
  assumes "wf_buf b" and "length s < 10 ^ 9" and "remaining b = wire_string s @ wire_int i @ rest"
  shows "\<exists>sb b1 b2. bencode_read_string b = Inr (Some sb, b1) \<and> remaining sb = s \<and> bsz sb = length s \<and>
    bencode_read_integer b1 = Inr (Some i, b2) \<and> remaining b2 = rest"
proof -
  let ?b1 = "advance (length (wire_string s)) b"
  from assms obtain sb where sb: "bencode_read_string b = Inr (Some sb, ?b1)"
    "remaining sb = s" "bsz sb = length s"
    by (metis read_string_key)
  have wf1: "wf_buf ?b1" using assms by (auto intro: wf_buf_advance)
  have "remaining ?b1 = wire_int i @ rest" using assms(3) by simp
  from bencode_read_integer_wire [OF wf1 this] sb show ?thesis
    by (intro exI [of _ sb] exI [of _ ?b1] exI conjI) (auto simp: assms(3))
qed

theorem bencode_scalar_roundtrip_witness:
  "\<exists>sb b1 b2. bencode_read_string (buffer_of (wire_string (str ''key'') @ wire_int 42 @ [])) = Inr (Some sb, b1) \<and>
    remaining sb = str ''key'' \<and> bsz sb = length (str ''key'') \<and>
    bencode_read_integer b1 = Inr (Some 42, b2) \<and> remaining b2 = []"
  by (rule bencode_scalar_roundtrip) simp_all

text \<open> A big-endian integer put into a buffer with room for it is what the reader gets back,
  and both move the cursor over the same eight bytes.
\<close>

theorem uint64_roundtrip:
  assumes "wf_buf b" and "8 \<le> size_left b"
  shows "\<exists>b'. put_uint64 i b = Inr (True, b') \<and> cur b' = cur b + 8 \<and>
    read_uint64 (written_window b b') = Inr (Some i, advance 8 (written_window b b'))"
proof -
  let ?bs = "htobe64buf i"
  have len: "length ?bs = 8" by (simp add: htobe64buf_def)
  from assms(1) obtain b' where b': "store ?bs b = Inr b'" "wf_buf (advance 8 b')"
    "consumed (advance 8 b') = consumed b @ take 8 ?bs" "bsz b' = bsz b" "cur b' = cur b"
    by (rule store_advance_wf [of b ?bs 8]) (use assms(2) len in auto)
  have ww: "wf_buf (written_window b (advance 8 b'))" "remaining (written_window b (advance 8 b')) = ?bs"
    using written_window [OF assms(1) b'(2), of ?bs] b' len by auto
  then have "load 8 (written_window b (advance 8 b')) = Inr ?bs"
    using len by (simp add: load_remaining)
  moreover have "size_left (written_window b (advance 8 b')) = 8"
    using ww len by (simp add: size_left_remaining)
  ultimately show ?thesis
    using assms b' by (auto simp: put_uint64_def read_uint64_def)
qed

theorem uint64_roundtrip_witness:
  "\<exists>b'. put_uint64 1234567890123 (buffer_of (replicate 8 0)) = Inr (True, b') \<and>
    cur b' = cur (buffer_of (replicate 8 0)) + 8 \<and>
    read_uint64 (written_window (buffer_of (replicate 8 0)) b') =
      Inr (Some 1234567890123, advance 8 (written_window (buffer_of (replicate 8 0)) b'))"
  by (rule uint64_roundtrip) (simp_all add: size_left_def buffer_of_def wf_buf_def)

section \<open>Termination and the limits of the readers\<close>

text \<open>
  C28: \<^verbatim>\<open>bencode_discard\<close> returns on every input: its recursion is never deeper, and no loop in it
  longer, than the number of bytes left, whatever those bytes are.
\<close>

theorem discard_terminates:
  "bencode_discard (Suc (size_left b)) ((), b) \<noteq> Inl OutOfFuel"
  using discard_fuel [of "size_left b"] by (simp add: stays_def)

text \<open>
  C32: A dictionary that ends after a key makes the readers look at the byte behind the
  buffer: the loop of \<^verbatim>\<open>bencode_read_dict\<close> stops because no byte is left and the
  closing letter is then read without a bounds check.
\<close>

theorem truncated_dict_reads_past_the_end:
  assumes "length k < 10 ^ 9"
  shows "bencode_discard (Suc (Suc (Suc n))) ((), buffer_of (100 # wire_string k)) = Inl OutOfBounds"
proof -
  let ?b = "buffer_of (100 # wire_string k)"
  let ?b1 = "advance 1 ?b" and ?b2 = "advance (1 + length (wire_string k)) ?b"
  have ws: "\<exists>c cs. wire_string k = c # cs \<and> isdigit c" by (rule hd_wire_string)
  have wf1: "wf_buf ?b1" by (rule wf_buf_advance) simp_all
  have r1: "remaining ?b1 = wire_string k @ []" by simp
  from read_string_key [OF wf1 r1 assms] obtain kb where
    kb: "bencode_read_string ?b1 = Inr (Some kb, advance (length (wire_string k)) ?b1)"
    by blast
  have d: "deref ?b = Inr 100" by (rule deref_remaining) simp_all
  obtain c where c: "deref ?b1 = Inr c" "c \<noteq> 101"
    using ws deref_remaining [OF wf1] r1 isdigit_not by fastforce
  have s: "size_left ?b = Suc (length (wire_string k))" "size_left ?b1 = length (wire_string k)"
    "size_left ?b2 = 0" "wire_string k \<noteq> []"
    using ws by (auto simp: size_left_def buffer_of_def)
  have d2: "deref ?b2 = Inl OutOfBounds" by (simp add: deref_def buffer_of_def)
  from s(4) have "\<not> size_left ?b < 2" "size_left ?b1 \<noteq> 0" using s(1,2) by (cases "wire_string k"; simp)+
  with d c kb s d2 show ?thesis
    by (simp add: bencode_read_dict_def and_then_def)
qed

theorem truncated_dict_reads_past_the_end_witness:
  "bencode_discard (Suc (Suc (Suc 0))) ((), buffer_of (100 # wire_string (str ''a''))) = Inl OutOfBounds"
  by (rule truncated_dict_reads_past_the_end) simp

text \<open> Comparing a dictionary key with a C string asks only whether the C string is a prefix
  of the key, so a reader that waits for the key \<^verbatim>\<open>A\<close> takes any longer key that starts with it.
\<close>

theorem key_comparison_is_a_prefix_test:
  assumes "wf_buf key"
  shows "buffer_eq key cs = Inr (prefix cs (remaining key))"
  by (rule buffer_eq_prefix [OF assms])

theorem key_comparison_is_a_prefix_test_witness:
  "buffer_eq (buffer_of (str ''AB'')) (str ''A'') = Inr (prefix (str ''A'') (remaining (buffer_of (str ''AB'')))) \<and>
   prefix (str ''A'') (remaining (buffer_of (str ''AB'')))"
  using key_comparison_is_a_prefix_test [of "buffer_of (str ''AB'')" "str ''A''"] by simp

text \<open> \<^verbatim>\<open>writef\<close> of a text that fills the buffer to the last byte reports success although the last
  character of the text is replaced by the terminating NUL.
\<close>

theorem writef_exact_fit_loses_last_byte:
  assumes "wf_buf b" and "size_left b = length txt" and "txt \<noteq> []"
  shows "\<exists>b'. writef txt b = Inr (True, b') \<and> consumed b' = consumed b @ butlast txt @ [0]"
proof -
  let ?bs = "vsnprintf (size_left b) txt"
  have bs: "?bs = butlast txt @ [0]" and len: "length ?bs = length txt"
    using assms by (auto simp: vsnprintf_def butlast_conv_take)
  from assms(1) obtain b' where "store ?bs b = Inr b'"
    "consumed (advance (length txt) b') = consumed b @ take (length txt) ?bs"
    by (rule store_advance_wf [of b ?bs "length txt"]) (use assms len in auto)
  moreover have "take (length txt) ?bs = butlast txt @ [0]" using bs len by (metis order_refl take_all)
  ultimately show ?thesis using assms(2,3) by (auto simp: writef_def)
qed

theorem writef_exact_fit_loses_last_byte_witness:
  "\<exists>b'. writef (str ''i42'') (buffer_of [9, 9, 9]) = Inr (True, b') \<and>
     consumed b' = consumed (buffer_of [9, 9, 9]) @ butlast (str ''i42'') @ [0]"
  by (rule writef_exact_fit_loses_last_byte) (simp_all add: size_left_def buffer_of_def wf_buf_def)

end
