(* ===== verification/Encode.thy ===== *)
theory Encode
  imports Prelude
begin

unbundle bit_operations_syntax

text \<open>
  The text encodings of \<^verbatim>\<open>util/encode.hpp\<close> and \<^verbatim>\<open>util/encode.cpp\<close>: z-base-32 (service and router
  addresses) and hexadecimal. The character tables are the source's. \<^verbatim>\<open>int tmp\<close> of the base-32
  decoder is a 32 bit word: the left shifts push high bits out, as two's complement machines do.
\<close>

section \<open>z-base-32\<close>

definition zbase32_alpha :: string where
  "zbase32_alpha = ''ybndrfg8ejkmcpqxot1uwisza345h769''"

text \<open>\<^verbatim>\<open>zbase32_reverse_alpha\<close>, an \<^verbatim>\<open>unordered_map\<close> from character to value.\<close>

definition zbase32_reverse_alpha :: "char \<rightharpoonup> byte" where
  "zbase32_reverse_alpha = map_of
     [(CHR ''y'', 0), (CHR ''b'', 1), (CHR ''n'', 2), (CHR ''d'', 3), (CHR ''r'', 4), (CHR ''f'', 5),
      (CHR ''g'', 6), (CHR ''8'', 7), (CHR ''e'', 8), (CHR ''j'', 9), (CHR ''k'', 10), (CHR ''m'', 11),
      (CHR ''c'', 12), (CHR ''p'', 13), (CHR ''q'', 14), (CHR ''x'', 15), (CHR ''o'', 16), (CHR ''t'', 17),
      (CHR ''1'', 18), (CHR ''u'', 19), (CHR ''w'', 20), (CHR ''i'', 21), (CHR ''s'', 22), (CHR ''z'', 23),
      (CHR ''a'', 24), (CHR ''3'', 25), (CHR ''4'', 26), (CHR ''5'', 27), (CHR ''h'', 28), (CHR ''7'', 29),
      (CHR ''6'', 30), (CHR ''9'', 31)]"

definition Base32DecodeSize :: "nat \<Rightarrow> nat" where
  "Base32DecodeSize sz = 8 * (if sz mod 5 \<noteq> 0 then sz div 5 + 1 else sz div 5)"

text \<open>
  One round per character: \<open>n\<close> rounds are left, \<open>s\<close> is the text from the current index on, ending
  in a NUL as C strings do; \<open>space\<close> is \<^verbatim>\<open>outLen - idx\<close>. The bytes stored so far are returned with
  the verdict.
\<close>

fun b32_decode_loop :: "nat \<Rightarrow> string \<Rightarrow> u32 \<Rightarrow> nat \<Rightarrow> nat \<Rightarrow> bool \<times> byte list" where
  "b32_decode_loop 0 s tmp bits space = (space = 0, [])"
| "b32_decode_loop (Suc n) [] tmp bits space = (space = 0, [])"
| "b32_decode_loop (Suc n) (c # s) tmp bits space =
     (if c = CHR 0x00 then (space = 0, [])
      else case zbase32_reverse_alpha c of
        None \<Rightarrow> (False, [])
      | Some v \<Rightarrow>
          let tmp = tmp OR ucast v; bits = bits + 5 in
          if bits \<ge> 8 then
            if space = 0 then (False, [])
            else let byte = ucast (signed_drop_bit (bits - 8) tmp);
                     (ok, out) = b32_decode_loop n s (push_bit 5 tmp) (bits - 8) (space - 1)
                 in (ok, byte # out)
          else b32_decode_loop n s (push_bit 5 tmp) bits space)"

text \<open>The text is a C string, and the end of the list stands for the NUL behind it.\<close>

definition Base32Decode :: "string \<Rightarrow> nat \<Rightarrow> bool \<times> byte list" where
  "Base32Decode stack outLen = b32_decode_loop (Base32DecodeSize outLen) stack 0 0 outLen"

text \<open>
  The encoder's loop; \<open>cap\<close> is \<^verbatim>\<open>sizeof(stack) - ret\<close> and \<open>rest\<close> the bytes from \<^verbatim>\<open>pos\<close> on.
\<close>

fun b32_encode_loop :: "nat \<Rightarrow> u32 \<Rightarrow> nat \<Rightarrow> byte list \<Rightarrow> string" where
  "b32_encode_loop 0 tmp bits rest = []"
| "b32_encode_loop (Suc cap) tmp bits rest =
     (if bits > 0 \<or> rest \<noteq> [] then
        let (tmp, bits, rest) =
              (if bits < 5 then
                 case rest of
                   v # vs \<Rightarrow> (push_bit 8 tmp OR (ucast v AND 0xFF), bits + 8, vs)
                 | [] \<Rightarrow> (push_bit (5 - bits) tmp, 5, [])
               else (tmp, bits, rest));
            bits = bits - 5;
            ind = unat (drop_bit bits tmp AND 0x1F)
        in zbase32_alpha ! ind # b32_encode_loop cap tmp bits rest
      else [])"

text \<open>\<^verbatim>\<open>value[0]\<close> is read before the loop: encoding needs at least one byte.\<close>

definition Base32Encode :: "nat \<Rightarrow> byte list \<Rightarrow> string res" where
  "Base32Encode cap val =
     (case val of [] \<Rightarrow> Inl OutOfBounds | v # vs \<Rightarrow> Inr (b32_encode_loop cap (ucast v) 8 vs))"

declare b32_decode_loop.simps [simp del] b32_encode_loop.simps [simp del]

section \<open>Hexadecimal\<close>

text \<open>\<^verbatim>\<open>%.2x\<close> of a byte.\<close>

definition hex_digit :: "nat \<Rightarrow> char" where
  "hex_digit d = ''0123456789abcdef'' ! d"

definition hex2 :: "byte \<Rightarrow> string" where
  "hex2 b = [hex_digit (unat b div 16), hex_digit (unat b mod 16)]"

text \<open>
  \<open>off\<close> is \<^verbatim>\<open>ptr - &stack[0]\<close>. With fewer than three bytes left \<^verbatim>\<open>snprintf\<close> cuts its text short, but
  \<^verbatim>\<open>ptr\<close> moves on by two all the same and the final \<^verbatim>\<open>*ptr = 0\<close> then lands outside the array, so
  a shortened text is never returned.
\<close>

fun hex_encode_loop :: "nat \<Rightarrow> nat \<Rightarrow> byte list \<Rightarrow> string res" where
  "hex_encode_loop cap off [] = (if off < cap then Inr [] else Inl OutOfBounds)"
| "hex_encode_loop cap off (v # vs) =
     (if cap < off then Inl OutOfBounds
      else bind_res (hex_encode_loop cap (off + 2) vs) (\<lambda>cs. Inr (hex2 v @ cs)))"

definition HexEncode :: "nat \<Rightarrow> byte list \<Rightarrow> string res" where
  "HexEncode cap val = hex_encode_loop cap 0 val"

definition char2int :: "char \<Rightarrow> int" where
  "char2int input =
     (let c = of_char input in
      if c \<ge> 48 \<and> c \<le> 57 then c - 48
      else if c \<ge> 65 \<and> c \<le> 70 then c - 65 + 10
      else if c \<ge> 97 \<and> c \<le> 102 then c - 97 + 10
      else 0)"

text \<open>The C string stops at its NUL, so both characters of a pair must be there.\<close>

fun HexDecode :: "string \<Rightarrow> nat \<Rightarrow> bool \<times> byte list" where
  "HexDecode (a # b # src) (Suc sz) =
     (if a = CHR 0x00 \<or> b = CHR 0x00 then (False, [])
      else let (ok, out) = HexDecode src sz in (ok, of_int (char2int a * 16 + char2int b) # out))"
| "HexDecode src sz = (sz = 0, [])"

section \<open>Hexadecimal round trip\<close>

lemma hex_encode_loop_ok:
  "off + 2 * length v < cap \<Longrightarrow> hex_encode_loop cap off v = Inr (concat (map hex2 v))"
  by (induction v arbitrary: off) auto

lemma hex_encode_loop_fault: "cap \<le> off + 2 * length v \<Longrightarrow> hex_encode_loop cap off v = Inl OutOfBounds"
  by (induction v arbitrary: off) auto

lemma hex_digit_cases: "d < 16 \<Longrightarrow> char2int (hex_digit d) = int d \<and> hex_digit d \<noteq> CHR 0x00"
proof -
  assume "d < 16"
  then have "d \<in> {0, 1, 2, 3, 4, 5, 6, 7, 8, 9, 10, 11, 12, 13, 14, 15}" by simp arith
  then show ?thesis by (auto simp: hex_digit_def char2int_def)
qed

lemma HexDecode_hex2: "HexDecode (concat (map hex2 v)) (length v) = (True, v)"
proof (induction v)
  case (Cons x v)
  have "of_int (int (unat x div 16) * 16 + int (unat x mod 16)) = x"
  proof -
    have "of_int (int (unat x div 16) * 16 + int (unat x mod 16)) =
        (of_nat (unat x div 16 * 16 + unat x mod 16) :: byte)"
      by (simp only: of_int_add of_int_mult of_int_of_nat_eq of_nat_add of_nat_mult
          of_int_numeral of_nat_numeral)
    also have "\<dots> = of_nat (unat x)" by (simp only: div_mult_mod_eq)
    also have "\<dots> = x" by simp
    finally show ?thesis .
  qed
  moreover have "unat x div 16 < 16" "unat x mod 16 < 16"
    by (auto intro!: less_mult_imp_div_less)
  ultimately show ?case
    using Cons hex_digit_cases [of "unat x div 16"] hex_digit_cases [of "unat x mod 16"]
    by (simp add: hex2_def)
qed simp

section \<open>z-base-32 round trip\<close>

text \<open>
  Both loops work on the low \<open>bits\<close> bits of \<open>tmp\<close> only. The encoder and decoder run in step:
  when the encoder has \<open>be\<close> bits pending, the decoder has collected the other \<open>8 - be\<close> bits of
  the same byte (or both have none).
\<close>

definition low :: "u32 \<Rightarrow> nat \<Rightarrow> nat" where
  "low tmp bits = unat tmp mod 2 ^ bits"

lemma zbase32_inverse: "d < 32 \<Longrightarrow> zbase32_reverse_alpha (zbase32_alpha ! d) = Some (of_nat d)
    \<and> zbase32_alpha ! d \<noteq> CHR 0x00"
proof -
  assume "d < 32"
  then have "d \<in> set [0..<32]" by simp
  moreover have "\<forall>d \<in> set [0..<32]. zbase32_reverse_alpha (zbase32_alpha ! d) = Some (of_nat d)
      \<and> zbase32_alpha ! d \<noteq> CHR 0x00"
    by (simp add: upt_rec zbase32_reverse_alpha_def zbase32_alpha_def)
  ultimately show ?thesis by blast
qed


lemma low_eq_take_bit: "low tmp bits = take_bit bits (unat tmp)"
  by (simp add: low_def take_bit_eq_mod)

lemma low_less: "low tmp bits < 2 ^ bits"
  by (simp add: low_def)

lemma low_shift_or:
  assumes "bits + k \<le> 32" and v: "unat v < 2 ^ k"
  shows "low (push_bit k tmp OR v) (bits + k) = low tmp bits * 2 ^ k + unat v"
proof -
  have vt: "unat v = take_bit k (unat v)" using v by (simp add: take_bit_nat_eq_self)
  have vb: "n < k" if "bit v n" for n
    using that arg_cong [OF vt, of "\<lambda>x. bit x n"] by (simp add: bit_simps)
  have "push_bit k (take_bit bits (unat tmp)) AND unat v = 0"
    by (auto simp: bit_eq_iff bit_simps dest: vb)
  then have "low tmp bits * 2 ^ k + unat v = push_bit k (take_bit bits (unat tmp)) OR unat v"
    by (simp add: low_eq_take_bit push_bit_eq_mult disjunctive_add_eq_or)
  also have "\<dots> = take_bit (bits + k) (unat (push_bit k tmp OR v))"
    using assms(1)
    by (auto simp: bit_eq_iff bit_simps unsigned_or_eq unsigned_push_bit_eq dest: vb)
  finally show ?thesis by (simp add: low_eq_take_bit)
qed

lemma low_mod: "a \<le> b \<Longrightarrow> low tmp b mod 2 ^ a = low tmp a"
  by (simp add: low_eq_take_bit take_bit_eq_mod [symmetric] min_def)

lemma encode_index: "unat (drop_bit bits tmp AND 0x1F) = low tmp (bits + 5) div 2 ^ bits"
proof -
  have "drop_bit bits tmp AND 0x1F = take_bit 5 (drop_bit bits tmp)"
    unfolding take_bit_eq_mask by (simp add: mask_eq_exp_minus_1)
  then have "unat (drop_bit bits tmp AND 0x1F) = take_bit 5 (drop_bit bits (unat tmp))"
    by (simp only: unat_drop_bit_eq unsigned_take_bit_eq)
  then show ?thesis
    by (simp add: low_eq_take_bit take_bit_drop_bit add.commute flip: drop_bit_eq_div)
qed

lemma decode_byte:
  assumes "8 \<le> bits" and "bits \<le> 12"
  shows "(ucast (signed_drop_bit (bits - 8) tmp) :: byte) = of_nat (low tmp bits div 2 ^ (bits - 8))"
proof (rule bit_word_eqI)
  fix n assume "n < LENGTH(8)"
  with assms show "bit (ucast (signed_drop_bit (bits - 8) tmp) :: byte) n =
      bit (of_nat (low tmp bits div 2 ^ (bits - 8)) :: byte) n"
    by (auto simp: low_eq_take_bit bit_simps simp flip: drop_bit_eq_div)
qed

text \<open>One decoder round on the character of a value below 32.\<close>

lemma b32_decode_round:
  fixes t :: u32
  assumes "d < 32" and "bits \<le> 7"
  defines "t' \<equiv> push_bit 5 t OR of_nat d"
  shows "b32_decode_loop (Suc n) (zbase32_alpha ! d # s) (push_bit 5 t) bits space =
      (if bits < 3 then b32_decode_loop n s (push_bit 5 t') (bits + 5) space
       else if space = 0 then (False, [])
       else let (ok, out) = b32_decode_loop n s (push_bit 5 t') (bits - 3) (space - 1)
            in (ok, of_nat ((low t bits * 32 + d) div 2 ^ (bits - 3)) # out))"
    and "low t' (bits + 5) = low t bits * 32 + d"
proof -
  have d: "unat (of_nat d :: u32) = d" "ucast (of_nat d :: byte) = (of_nat d :: u32)"
    using assms(1)
    by (simp_all add: unat_of_nat word_unat_eq_iff unsigned_ucast_eq unat_of_nat_byte take_bit_nat_eq_self)
  then show l: "low t' (bits + 5) = low t bits * 32 + d"
    using low_shift_or [of bits 5 "of_nat d" t] assms by (simp add: t'_def)
  show "b32_decode_loop (Suc n) (zbase32_alpha ! d # s) (push_bit 5 t) bits space =
      (if bits < 3 then b32_decode_loop n s (push_bit 5 t') (bits + 5) space
       else if space = 0 then (False, [])
       else let (ok, out) = b32_decode_loop n s (push_bit 5 t') (bits - 3) (space - 1)
            in (ok, of_nat ((low t bits * 32 + d) div 2 ^ (bits - 3)) # out))"
    using zbase32_inverse [OF assms(1)] d(2) decode_byte [of "bits + 5" t'] assms(2) l
    by (auto simp: b32_decode_loop.simps Let_def t'_def split: prod.splits)
qed

lemma unat_ucast_byte: "unat (ucast (v :: byte) AND 0xFF :: u32) = unat v"
proof -
  have "(ucast v AND 0xFF :: u32) = take_bit 8 (ucast v)"
    unfolding take_bit_eq_mask by (simp add: mask_eq_exp_minus_1)
  then show ?thesis by (simp add: unsigned_take_bit_eq unsigned_ucast_eq take_bit_nat_eq_self)
qed

text \<open>
  The joint invariant: \<open>be\<close> bits pending in the encoder, the matching \<open>8 - be\<close> in the decoder.
\<close>

definition in_step :: "u32 \<Rightarrow> nat \<Rightarrow> u32 \<Rightarrow> nat \<Rightarrow> bool" where
  "in_step te be t bd \<longleftrightarrow> be \<le> 8 \<and> (if be = 0 then bd = 0 else be + bd = 8)"

definition pending :: "u32 \<Rightarrow> nat \<Rightarrow> u32 \<Rightarrow> nat \<Rightarrow> byte list" where
  "pending te be t bd = (if be = 0 then [] else [of_nat (low t bd * 2 ^ be + low te be)])"

lemma encode_arith:
  fixes a c w be :: nat
  assumes "be < 5" and "a < 2 ^ be" and "w < 256"
  defines "d \<equiv> (a * 256 + w) div 2 ^ (be + 3)"
  shows "d < 32" and "(c * 32 + d) div 2 ^ (5 - be) = c * 2 ^ be + a"
    and "(c * 32 + d) mod 2 ^ (5 - be) * 2 ^ (be + 3) + (a * 256 + w) mod 2 ^ (be + 3) = w"
proof -
  let ?x = "2 ^ (be + 3) :: nat" and ?y = "2 ^ (5 - be) :: nat"
  have xy: "?x * ?y = 256" and y: "(2 :: nat) ^ be * ?y = 32"
    using assms(1) power_add [of "2 :: nat" "be + 3" "5 - be"] power_add [of "2 :: nat" be "5 - be"]
    by simp_all
  have c: "c * 32 + d = c * 2 ^ be * ?y + d" using y by (simp add: mult.assoc)
  have "a * 256 + w < 256 * Suc a" using assms(3) by simp
  also have "\<dots> \<le> 256 * 2 ^ be" using assms(2) by (simp add: Suc_le_eq)
  also have "\<dots> = 32 * ?x" by (simp add: power_add)
  finally show "d < 32" by (simp add: d_def less_mult_imp_div_less)
  have "d div ?y = a"
    using assms(3) xy by (simp add: d_def div_mult2_eq [symmetric])
  then show "(c * 32 + d) div 2 ^ (5 - be) = c * 2 ^ be + a"
    unfolding c by simp
  have "(a * 256 + w) mod (?x * ?y) = ?x * (d mod ?y) + (a * 256 + w) mod ?x"
    by (simp add: mod_mult2_eq d_def)
  then show "(c * 32 + d) mod 2 ^ (5 - be) * 2 ^ (be + 3) + (a * 256 + w) mod 2 ^ (be + 3) = w"
    unfolding c using assms(3) by (simp add: xy mult.commute)
qed

text \<open>A round of both loops that reads no new byte.\<close>

lemma b32_round_keep:
  assumes be: "5 \<le> be" "be \<le> 8" "be + bd = 8"
    and IH: "\<And>te be t bd. in_step te be t bd \<Longrightarrow> be + 8 * length rest \<le> 5 * min cap m \<Longrightarrow>
      b32_decode_loop m (b32_encode_loop cap te be rest) (push_bit 5 t) bd
        (length (pending te be t bd) + length rest) = (True, pending te be t bd @ rest)"
    and le: "be + 8 * length rest \<le> 5 * Suc (min cap m)"
  shows "b32_decode_loop (Suc m) (b32_encode_loop (Suc cap) te be rest) (push_bit 5 t) bd
           (length (pending te be t bd) + length rest) = (True, pending te be t bd @ rest)"
proof -
  define d where "d = low te be div 2 ^ (be - 5)"
  define t' where "t' = push_bit 5 t OR of_nat d"
  have "low te be < 2 ^ (be - 5) * 32"
    using low_less [of te be] be(1) power_add [of "2 :: nat" "be - 5" 5] by simp
  then have d: "d < 32" by (simp add: d_def less_mult_imp_div_less mult.commute)
  have bd: "bd \<le> 7" using be by simp
  have enc: "b32_encode_loop (Suc cap) te be rest = zbase32_alpha ! d # b32_encode_loop cap te (be - 5) rest"
    using be encode_index [of "be - 5" te] by (simp add: b32_encode_loop.simps Let_def d_def)
  note dec = b32_decode_round(1) [OF d bd, where t = t and n = m and s = "b32_encode_loop cap te (be - 5) rest"]
    b32_decode_round(2) [OF d bd, of t]
  have split: "low te be = d * 2 ^ (be - 5) + low te (be - 5)"
    using low_mod [of "be - 5" be te] div_mult_mod_eq [of "low te be" "2 ^ (be - 5)"]
    by (simp only: d_def)
  show ?thesis
  proof (cases "be = 5")
    case True
    with be have "bd = 3" by simp
    with True enc dec IH [of te 0 t' 0] le split show ?thesis
      by (simp add: in_step_def pending_def t'_def low_def)
  next
    case False
    have "2 ^ be = (2 :: nat) ^ (be - 5) * 32"
      using be(1) power_add [of "2 :: nat" "be - 5" 5] by simp
    with split dec(2) False be have p: "pending te (be - 5) t' (bd + 5) = pending te be t bd"
      by (simp add: pending_def t'_def algebra_simps)
    have "in_step te (be - 5) t' (bd + 5)" using be False by (simp add: in_step_def)
    with IH [of te "be - 5" t' "bd + 5"] le be enc dec False p show ?thesis
      by (simp add: t'_def)
  qed
qed

text \<open>A round that reads the next byte, and the last round, which pads.\<close>

lemma b32_round_byte:
  assumes be: "be < 5" "if be = 0 then bd = 0 else be + bd = 8"
    and IH: "\<And>te be t bd. in_step te be t bd \<Longrightarrow> be + 8 * length vs \<le> 5 * min cap m \<Longrightarrow>
      b32_decode_loop m (b32_encode_loop cap te be vs) (push_bit 5 t) bd
        (length (pending te be t bd) + length vs) = (True, pending te be t bd @ vs)"
    and le: "be + 8 * length (v # vs) \<le> 5 * Suc (min cap m)"
  shows "b32_decode_loop (Suc m) (b32_encode_loop (Suc cap) te be (v # vs)) (push_bit 5 t) bd
           (length (pending te be t bd) + length (v # vs)) = (True, pending te be t bd @ v # vs)"
proof -
  define te' where "te' = push_bit 8 te OR (ucast v AND 0xFF)"
  define d where "d = (low te be * 256 + unat v) div 2 ^ (be + 3)"
  define t' where "t' = push_bit 5 t OR of_nat d"
  have lte: "low te' (be + 8) = low te be * 256 + unat v"
    using low_shift_or [of be 8 "ucast v AND 0xFF" te] be(1) unat_ucast_byte [of v]
    by (simp add: te'_def)
  have lte3: "low te' (be + 3) = (low te be * 256 + unat v) mod 2 ^ (be + 3)"
    using low_mod [of "be + 3" "be + 8" te'] lte by simp
  have a: "low te be < 2 ^ be" "unat v < 256" by (simp_all add: low_less)
  have d: "d < 32" using encode_arith(1) [OF be(1) a] by (simp add: d_def)
  have bd: "bd \<le> 7" using be by (auto split: if_splits)
  have enc: "b32_encode_loop (Suc cap) te be (v # vs) = zbase32_alpha ! d # b32_encode_loop cap te' (be + 3) vs"
    using be(1) encode_index [of "be + 3" te'] lte by (simp add: b32_encode_loop.simps Let_def d_def te'_def add.commute)
  note dec = b32_decode_round(1) [OF d bd, where t = t and n = m and s = "b32_encode_loop cap te' (be + 3) vs"]
    b32_decode_round(2) [OF d bd, of t]
  have le': "be + 3 + 8 * length vs \<le> 5 * min cap m" using le by simp
  show ?thesis
  proof (cases "be = 0")
    case True
    with be have bd0: "bd = 0" by simp
    have "d * 8 + low te' 3 = unat v"
      using True lte3 by (simp add: d_def low_def)
    then have "pending te' 3 t' 5 = [v]"
      using dec(2) bd0 by (simp add: pending_def t'_def low_def)
    moreover have "in_step te' 3 t' 5" by (simp add: in_step_def)
    ultimately show ?thesis
      using IH [of te' 3 t' 5] le' True enc dec(1) bd0 by (simp add: t'_def pending_def)
  next
    case False
    with be have bd8: "bd = 8 - be" "3 \<le> bd" "bd - 3 = 5 - be" by auto
    note ar = encode_arith(2,3) [OF be(1) a, of "low t bd", folded d_def]
    have "low t' (bd - 3) = (low t bd * 32 + d) mod 2 ^ (5 - be)"
      using dec(2) low_mod [of "bd - 3" "bd + 5" t'] bd8 by (simp add: t'_def)
    with ar(2) False lte3 have p: "pending te' (be + 3) t' (bd - 3) = [v]"
      using bd8 by (simp add: pending_def)
    have "in_step te' (be + 3) t' (bd - 3)" using be(1) bd8 False by (simp add: in_step_def)
    from IH [OF this le'] p enc dec(1) bd8 ar(1) False show ?thesis
      by (simp add: pending_def t'_def)
  qed
qed

lemma b32_round_last:
  assumes be: "0 < be" "be < 5" "be + bd = 8"
  shows "b32_decode_loop (Suc m) (b32_encode_loop (Suc cap) te be []) (push_bit 5 t) bd
           (length (pending te be t bd) + length []) = (True, pending te be t bd @ [])"
proof -
  define te' where "te' = push_bit (5 - be) te"
  define d where "d = low te be * 2 ^ (5 - be)"
  have "low te be * 2 ^ (5 - be) < 2 ^ be * 2 ^ (5 - be)"
    by (simp add: low_less)
  also have "(2 :: nat) ^ be * 2 ^ (5 - be) = 32"
    using be(2) power_add [of "2 :: nat" be "5 - be"] by simp
  finally have d: "d < 32" by (simp add: d_def)
  have bd: "bd \<le> 7" "3 \<le> bd" "bd - 3 = 5 - be" using be by auto
  have "low te' 5 = d"
    using low_shift_or [of be "5 - be" 0 te] be(2) by (simp add: te'_def d_def)
  then have enc: "b32_encode_loop (Suc cap) te be [] = zbase32_alpha ! d # b32_encode_loop cap te' 0 []"
    using be encode_index [of 0 te'] by (simp add: b32_encode_loop.simps Let_def te'_def)
  have nil: "b32_encode_loop cap te' 0 [] = []" by (cases cap) (simp_all add: b32_encode_loop.simps)
  have "(low t bd * 32 + d) div 2 ^ (bd - 3) = low t bd * 2 ^ be + low te be"
  proof -
    have "low t bd * 32 + d = (low t bd * 2 ^ be + low te be) * 2 ^ (5 - be)"
      using \<open>(2 :: nat) ^ be * 2 ^ (5 - be) = 32\<close> by (simp add: d_def add_mult_distrib mult.assoc)
    then show ?thesis by (simp add: bd(3))
  qed
  moreover have "b32_decode_loop m [] x y 0 = (True, [])" for x y
    by (cases m) (simp_all add: b32_decode_loop.simps)
  ultimately show ?thesis
    using b32_decode_round(1) [OF d bd(1), where t = t and n = m and s = "[]"] enc nil bd be
    by (simp add: pending_def)
qed

lemma b32_simulation:
  assumes "in_step te be t bd" and "be + 8 * length rest \<le> 5 * min cap n"
  shows "b32_decode_loop n (b32_encode_loop cap te be rest) (push_bit 5 t) bd
           (length (pending te be t bd) + length rest) = (True, pending te be t bd @ rest)"
  using assms
proof (induction cap arbitrary: te be rest t bd n)
  case 0
  then show ?case
    by (cases n) (auto simp: in_step_def pending_def b32_decode_loop.simps b32_encode_loop.simps)
next
  case (Suc cap)
  show ?case
  proof (cases "be = 0 \<and> rest = []")
    case True
    then show ?thesis by (cases n) (simp_all add: pending_def b32_decode_loop.simps b32_encode_loop.simps)
  next
    case False
    with Suc.prems(2) obtain m where n: "n = Suc m" by (cases n) auto
    from False consider (keep) "5 \<le> be" | (byte) v vs where "be < 5" "rest = v # vs"
      | (last) "0 < be" "be < 5" "rest = []"
      by (cases rest) fastforce+
    then show ?thesis
    proof cases
      case keep
      with Suc.prems n show ?thesis
        unfolding n by (intro b32_round_keep Suc.IH) (auto simp: in_step_def split: if_splits)
    next
      case byte
      with Suc.prems n show ?thesis
        unfolding n byte(2) by (intro b32_round_byte Suc.IH) (auto simp: in_step_def split: if_splits)
    next
      case last
      with Suc.prems n show ?thesis
        unfolding n last(3) by (intro b32_round_last) (auto simp: in_step_def split: if_splits)
    qed
  qed
qed

lemma Base32DecodeSize_enough: "8 * n \<le> 5 * Base32DecodeSize n"
  using mult_div_mod_eq [of 5 n] by (auto simp: Base32DecodeSize_def)

text \<open>
  C29: decoding the z-base-32 text of a non-empty byte string into an array of the same length
  succeeds and gives the byte string back, whenever the encoder's array holds the
  \<open>(8 * n + 4) div 5\<close> characters.
\<close>

theorem Base32_roundtrip:
  assumes "v \<noteq> []" and "8 * length v \<le> 5 * cap"
  shows "\<exists>s. Base32Encode cap v = Inr s \<and> Base32Decode s (length v) = (True, v)"
proof -
  obtain x xs where v: "v = x # xs" using assms(1) by (cases v) auto
  have "in_step (ucast x) 8 0 0" by (simp add: in_step_def)
  moreover have "take_bit 32 (unat x) = unat x"
    using order.strict_trans [OF unat_byte_less [of x], of "2 ^ 32"] by (simp add: take_bit_nat_eq_self)
  then have "pending (ucast x) 8 0 0 = [x]"
    by (simp add: pending_def low_def unsigned_ucast_eq)
  ultimately have "b32_decode_loop (Base32DecodeSize (length v)) (b32_encode_loop cap (ucast x) 8 xs)
      (push_bit 5 0) 0 (length v) = (True, v)"
    using b32_simulation [of "ucast x" 8 0 0 xs cap "Base32DecodeSize (length v)"]
      Base32DecodeSize_enough [of "length v"] assms(2) v by (simp add: min_def)
  then show ?thesis by (simp add: Base32Encode_def Base32Decode_def v)
qed

theorem Base32_roundtrip_witness:
  "Base32Encode 64 [104, 105] = Inr ''pbwo'' \<and> Base32Decode ''pbwo'' 2 = (True, [104, 105])"
proof -
  have "Base32Encode 64 [104, 105] = Inr ''pbwo''"
    by code_simp
  moreover have "\<exists>s. Base32Encode 64 [104, 105] = Inr s \<and> Base32Decode s (length [104, 105 :: byte]) = (True, [104, 105])"
    by (rule Base32_roundtrip) simp_all
  ultimately show ?thesis by (simp add: numeral_2_eq_2)
qed

text \<open> hexadecimal text of a byte string decodes to the byte string; the encoder writes outside
  its array exactly when the array has no room for two digits per byte and the final NUL.
\<close>

theorem Hex_roundtrip:
  "(if 2 * length v < cap then HexEncode cap v = Inr (concat (map hex2 v)) else HexEncode cap v = Inl OutOfBounds)
   \<and> HexDecode (concat (map hex2 v)) (length v) = (True, v)"
  by (simp add: HexEncode_def hex_encode_loop_ok hex_encode_loop_fault HexDecode_hex2)

end
