(* ===== verification/Aligned.thy ===== *)
theory Aligned
  imports Prelude "HOL-Library.List_Lexorder"
begin

unbundle bit_operations_syntax

text \<open>
  \<^verbatim>\<open>AlignedBuffer<sz>\<close> (\<^verbatim>\<open>util/aligned.hpp\<close>), the fixed-size byte arrays behind router ids, DHT keys,
  path ids and nonces. An array is the list of its bytes; \<^verbatim>\<open>std::array\<close> compares
  lexicographically, which is the order of \<^verbatim>\<open>HOL-Library.List_Lexorder\<close>.
\<close>

type_synonym aligned = "byte list"

definition aligned_not :: "aligned \<Rightarrow> aligned" where
  "aligned_not a = map NOT a"

definition aligned_eq :: "aligned \<Rightarrow> aligned \<Rightarrow> bool" where
  "aligned_eq a b \<longleftrightarrow> a = b"

definition aligned_less :: "aligned \<Rightarrow> aligned \<Rightarrow> bool" where
  "aligned_less a b \<longleftrightarrow> a < b"

definition aligned_xor :: "aligned \<Rightarrow> aligned \<Rightarrow> aligned" where
  "aligned_xor a b = map2 (XOR) a b"

text \<open>\<^verbatim>\<open>operator^=\<close>: the loop over the indices, updating in place.\<close>

definition aligned_xor_assign :: "aligned \<Rightarrow> aligned \<Rightarrow> aligned" where
  "aligned_xor_assign a b = foldl (\<lambda>m i. m[i := (m ! i) XOR (b ! i)]) a [0..<length a]"

definition aligned_Fill :: "nat \<Rightarrow> byte \<Rightarrow> aligned" where
  "aligned_Fill sz f = replicate sz f"

definition aligned_Zero :: "nat \<Rightarrow> aligned" where
  "aligned_Zero sz = replicate sz 0"

section \<open>Facts\<close>

lemma length_aligned_xor [simp]: "length (aligned_xor a b) = min (length a) (length b)"
  by (simp add: aligned_xor_def)

lemma aligned_xor_cancel [simp]: "length a = length b \<Longrightarrow> aligned_xor (aligned_xor a b) b = a"
  by (rule nth_equalityI) (simp_all add: aligned_xor_def xor.assoc)

lemma aligned_xor_comm: "aligned_xor a b = aligned_xor b a"
  by (rule nth_equalityI) (simp_all add: aligned_xor_def xor.commute)

lemma aligned_xor_inj:
  "length a = length c \<Longrightarrow> length b = length c \<Longrightarrow> aligned_xor a c = aligned_xor b c \<longleftrightarrow> a = b"
  by (metis aligned_xor_cancel)

lemma aligned_xor_inj_right:
  "length a = length c \<Longrightarrow> length b = length c \<Longrightarrow> aligned_xor c a = aligned_xor c b \<longleftrightarrow> a = b"
  by (metis aligned_xor_cancel aligned_xor_comm)

lemma aligned_xor_assign_eq:
  assumes "length b = length a"
  shows "aligned_xor_assign a b = aligned_xor a b"
proof -
  have "n \<le> length a \<Longrightarrow> foldl (\<lambda>m i. m[i := (m ! i) XOR (b ! i)]) a [0..<n] =
      take n (aligned_xor a b) @ drop n a" for n
  proof (induction n)
    case (Suc n)
    then have "n < length a" by simp
    with Suc assms show ?case
      by (simp add: nth_append list_update_append take_Suc_conv_app_nth aligned_xor_def
          Cons_nth_drop_Suc [symmetric])
  qed simp
  from this [of "length a"] assms show ?thesis by (simp add: aligned_xor_assign_def)
qed

lemma byte_le_255: "(b :: byte) \<le> 255"
proof -
  have "unat b \<le> 255" using unat_byte_less [of b] by linarith
  then show ?thesis by (simp add: word_le_nat_alt)
qed

lemma aligned_le_ff: "length (a :: aligned) = n \<Longrightarrow> a \<le> replicate n 255"
proof (induction n arbitrary: a)
  case (Suc n)
  then obtain x xs where a: "a = x # xs" "length xs = n" by (cases a) auto
  with Suc.IH [of xs] byte_le_255 [of x] show ?case by (auto simp: Cons_le_Cons)
qed simp

end
