(* ===== verification/Std_Map.thy ===== *)
theory Std_Map
  imports Prelude
begin

text \<open>
  The ordered containers of the C++ library as the code uses them: \<^verbatim>\<open>std::map\<close> with a comparator is
  its sequence of entries in iteration order. Two keys are the same when neither compares
  less, as the standard defines it. The locale \<open>std_compare\<close> is what the library asks of a comparator
  on the keys in use; under it the operations are those of a finite map kept in order.
  \<open>set_difference\<close> is the library's merge algorithm, which asks for both inputs to be sorted by the
  comparator it is given.
\<close>

section \<open>Operations\<close>

fun smap_find :: "('k \<Rightarrow> 'k \<Rightarrow> bool) \<Rightarrow> 'k \<Rightarrow> ('k \<times> 'v) list \<Rightarrow> 'v option" where
  "smap_find lt k [] = None"
| "smap_find lt k ((k', v) # xs) =
     (if \<not> lt k k' \<and> \<not> lt k' k then Some v else smap_find lt k xs)"

fun smap_put :: "('k \<Rightarrow> 'k \<Rightarrow> bool) \<Rightarrow> 'k \<Rightarrow> 'v \<Rightarrow> ('k \<times> 'v) list \<Rightarrow> ('k \<times> 'v) list" where
  "smap_put lt k v [] = [(k, v)]"
| "smap_put lt k v ((k', v') # xs) =
     (if lt k k' then (k, v) # (k', v') # xs
      else if lt k' k then (k', v') # smap_put lt k v xs
      else (k', v) # xs)"

definition smap_erase :: "('k \<Rightarrow> 'k \<Rightarrow> bool) \<Rightarrow> 'k \<Rightarrow> ('k \<times> 'v) list \<Rightarrow> ('k \<times> 'v) list" where
  "smap_erase lt k xs = filter (\<lambda>(k', v). lt k k' \<or> lt k' k) xs"

fun set_difference :: "('a \<Rightarrow> 'b \<Rightarrow> bool) \<Rightarrow> ('b \<Rightarrow> 'a \<Rightarrow> bool) \<Rightarrow> 'a list \<Rightarrow> 'b list \<Rightarrow> 'a list" where
  "set_difference ab ba [] ys = []"
| "set_difference ab ba xs [] = xs"
| "set_difference ab ba (x # xs) (y # ys) =
     (if ab x y then x # set_difference ab ba xs (y # ys)
      else if \<not> ba y x then set_difference ab ba xs ys
      else set_difference ab ba (x # xs) ys)"

section \<open>The comparator's contract\<close>

locale std_compare =
  fixes lt :: "'k \<Rightarrow> 'k \<Rightarrow> bool"
    and dom :: "'k \<Rightarrow> bool"
  assumes lt_irrefl: "dom a \<Longrightarrow> \<not> lt a a"
    and lt_trans: "dom a \<Longrightarrow> dom b \<Longrightarrow> dom c \<Longrightarrow> lt a b \<Longrightarrow> lt b c \<Longrightarrow> lt a c"
    and lt_total: "dom a \<Longrightarrow> dom b \<Longrightarrow> a \<noteq> b \<Longrightarrow> lt a b \<or> lt b a"
begin

definition ordered :: "('k \<times> 'v) list \<Rightarrow> bool" where
  "ordered xs \<longleftrightarrow> sorted_wrt (\<lambda>x y. lt (fst x) (fst y)) xs \<and> (\<forall>x \<in> set xs. dom (fst x))"

lemma ordered_Nil [simp]: "ordered []"
  by (simp add: ordered_def)

lemma ordered_Cons:
  "ordered ((k, v) # xs) \<longleftrightarrow> dom k \<and> (\<forall>x \<in> set xs. lt k (fst x)) \<and> ordered xs"
  by (auto simp: ordered_def)

lemma find_map_of:
  "ordered xs \<Longrightarrow> dom k \<Longrightarrow> smap_find lt k xs = map_of xs k"
proof (induction xs)
  case (Cons x xs)
  obtain k' v where x: "x = (k', v)" by (cases x)
  with Cons.prems have "dom k'" "ordered xs" by (auto simp: ordered_Cons)
  with Cons x lt_irrefl [of k'] lt_total [of k k'] show ?case by auto
qed simp

lemma put_keys: "fst ` set (smap_put lt k v xs) \<subseteq> insert k (fst ` set xs)"
  by (induction xs rule: smap_put.induct [of _ lt k v]) auto

lemma put_ordered: "ordered xs \<Longrightarrow> dom k \<Longrightarrow> ordered (smap_put lt k v xs)"
proof (induction xs)
  case (Cons x xs)
  obtain k' v' where x: "x = (k', v')" by (cases x)
  with Cons.prems have k': "dom k'" "ordered xs" "\<forall>y \<in> set xs. lt k' (fst y)"
    by (auto simp: ordered_Cons)
  have d: "\<forall>y \<in> set xs. dom (fst y)" using k'(2) by (simp add: ordered_def)
  consider "lt k k'" | "\<not> lt k k'" "lt k' k" | "\<not> lt k k'" "\<not> lt k' k" by blast
  then show ?case
  proof cases
    case 1
    with x k' d Cons.prems(2) lt_trans [of k k'] show ?thesis by (auto simp: ordered_Cons)
  next
    case 2
    moreover have "lt k' (fst y)" if "y \<in> set (smap_put lt k v xs)" for y
    proof -
      have "fst y \<in> insert k (fst ` set xs)" using that put_keys [of k v xs] by blast
      with 2 k'(3) show ?thesis by auto
    qed
    ultimately show ?thesis using x k' Cons by (simp add: ordered_Cons)
  next
    case 3
    with x k' show ?thesis by (simp add: ordered_Cons)
  qed
qed (simp add: ordered_def)

lemma put_map_of:
  "ordered xs \<Longrightarrow> dom k \<Longrightarrow> map_of (smap_put lt k v xs) = (map_of xs)(k \<mapsto> v)"
proof (induction xs)
  case (Cons x xs)
  obtain k' v' where x: "x = (k', v')" by (cases x)
  with Cons.prems have "dom k'" "ordered xs" by (auto simp: ordered_Cons)
  with Cons x lt_irrefl [of k] lt_total [of k k'] show ?case
    by (cases "k = k'") (auto simp: fun_upd_twist)
qed (auto simp: fun_eq_iff)

lemma erase_ordered: "ordered xs \<Longrightarrow> ordered (smap_erase lt k xs)"
  by (auto simp: ordered_def smap_erase_def sorted_wrt_filter)

lemma filter_ordered: "ordered xs \<Longrightarrow> ordered (filter p xs)"
  by (auto simp: ordered_def sorted_wrt_filter)

lemma erase_map_of:
  "ordered xs \<Longrightarrow> dom k \<Longrightarrow> map_of (smap_erase lt k xs) = (map_of xs)(k := None)"
proof (induction xs)
  case (Cons x xs)
  obtain k' v' where x: "x = (k', v')" by (cases x)
  with Cons.prems have "dom k'" "ordered xs" by (auto simp: ordered_Cons)
  with Cons x lt_irrefl [of k] lt_total [of k k'] show ?case
    by (cases "k = k'") (auto simp: smap_erase_def fun_eq_iff)
qed (auto simp: smap_erase_def fun_eq_iff)

lemma distinct_keys: "ordered xs \<Longrightarrow> distinct (map fst xs)"
proof (induction xs)
  case (Cons x xs)
  obtain k v where "x = (k, v)" by (cases x)
  with Cons lt_irrefl [of k] show ?case by (auto simp: ordered_Cons)
qed simp

text \<open>\<open>set_difference\<close> removes exactly the members of its second input when both are sorted.\<close>

lemma set_difference_ordered:
  fixes xs :: "('k \<times> 'v) list"
  assumes "ordered xs" and "sorted_wrt lt ys" and "\<forall>y \<in> set ys. dom y"
  shows "set_difference (\<lambda>x y. lt (fst x) y) (\<lambda>y x. lt y (fst x)) xs ys =
    filter (\<lambda>x. fst x \<notin> set ys) xs"
  using assms
proof (induction "\<lambda>(x :: 'k \<times> 'v) y. lt (fst x) y" "\<lambda>y (x :: 'k \<times> 'v). lt y (fst x)" xs ys
    rule: set_difference.induct)
  case (3 x xs y ys)
  obtain k v where x: "x = (k, v)" by (cases x)
  have d: "dom k" "dom y" "\<forall>z \<in> set ys. dom z" "\<forall>z \<in> set xs. dom (fst z)"
    using "3.prems" x by (auto simp: ordered_def)
  have s: "\<forall>z \<in> set xs. lt k (fst z)" "\<forall>z \<in> set ys. lt y z" "ordered xs"
    using "3.prems" x by (auto simp: ordered_Cons)
  consider "lt k y" | "k = y" | "\<not> lt k y" "lt y k" "k \<noteq> y" using lt_total d by blast
  then show ?case
  proof cases
    case 1
    then have "k \<noteq> y" "k \<notin> set ys" using lt_irrefl lt_trans d s(2) by blast+
    with 1 "3.hyps"(1) "3.prems" x s show ?thesis by simp
  next
    case 2
    have "fst z \<noteq> y" if "z \<in> set xs" for z using that s(1) 2 lt_irrefl d by metis
    then have "filter (\<lambda>x. fst x \<notin> set (y # ys)) xs = filter (\<lambda>x. fst x \<notin> set ys) xs"
      by (intro filter_cong) auto
    with 2 "3.hyps"(2) "3.prems" x s d lt_irrefl show ?thesis by simp
  next
    case 3
    then have "fst z \<noteq> y" if "z \<in> set xs" for z using that s(1) lt_trans lt_irrefl d by metis
    then have "filter (\<lambda>x. fst x \<notin> set (y # ys)) (x # xs) = filter (\<lambda>x. fst x \<notin> set ys) (x # xs)"
      using 3 x by (intro filter_cong) auto
    with 3 "3.hyps"(3) "3.prems" x s show ?thesis by simp
  qed
qed auto

end

section \<open>Unordered maps\<close>

text \<open>
  \<^verbatim>\<open>std::unordered_map\<close> is an association list; the order of the list is the order in which it is traversed, which the library does not
  fix. \<^verbatim>\<open>emplace\<close> leaves an existing entry as it is, \<open>put_at\<close> is an assignment through an iterator.
\<close>

definition erase_key :: "'a \<Rightarrow> ('a \<times> 'b) list \<Rightarrow> ('a \<times> 'b) list" where
  "erase_key k xs = filter (\<lambda>x. fst x \<noteq> k) xs"

definition emplace :: "'a \<Rightarrow> 'b \<Rightarrow> ('a \<times> 'b) list \<Rightarrow> ('a \<times> 'b) list" where
  "emplace k v xs = (if map_of xs k = None then xs @ [(k, v)] else xs)"

definition put_at :: "'a \<Rightarrow> 'b \<Rightarrow> ('a \<times> 'b) list \<Rightarrow> ('a \<times> 'b) list" where
  "put_at k v xs = map (\<lambda>x. if fst x = k then (k, v) else x) xs"

lemma map_of_emplace: "map_of (emplace k v xs) = (if map_of xs k = None then (map_of xs)(k \<mapsto> v) else map_of xs)"
  by (auto simp: emplace_def map_add_def fun_eq_iff split: option.split)

lemma emplace_keys: "fst ` set (emplace k v xs) = insert k (fst ` set xs)"
  by (auto simp: emplace_def map_of_eq_None_iff image_iff)

lemma distinct_emplace: "distinct (map fst xs) \<Longrightarrow> distinct (map fst (emplace k v xs))"
  by (auto simp: emplace_def map_of_eq_None_iff)

lemma set_emplace: "x \<in> set (emplace k v xs) \<Longrightarrow> x \<in> set xs \<or> x = (k, v)"
  by (auto simp: emplace_def split: if_splits)

lemma set_erase_key [simp]: "set (erase_key k xs) = {x \<in> set xs. fst x \<noteq> k}"
  by (simp add: erase_key_def)

lemma distinct_erase_key: "distinct (map fst xs) \<Longrightarrow> distinct (map fst (erase_key k xs))"
  by (simp add: erase_key_def distinct_map_filter)

lemma map_of_erase_key: "map_of (erase_key k xs) j = (if j = k then None else map_of xs j)"
  by (induction xs) (auto simp: erase_key_def)

lemma put_at_keys [simp]: "map fst (put_at k v xs) = map fst xs"
  by (auto simp: put_at_def)

lemma map_of_put_at: "map_of (put_at k v xs) j = (if j = k \<and> map_of xs k \<noteq> None then Some v else map_of xs j)"
  by (induction xs) (auto simp: put_at_def)

lemma map_of_filter_key: "map_of (filter (\<lambda>x. fst x \<notin> S) xs) k = (if k \<in> S then None else map_of xs k)"
  by (induction xs) auto

end
