(* ===== verification/Dht_Bucket.thy ===== *)
theory Dht_Bucket
  imports Aligned Std_Map
begin

text \<open>
  The Kademlia bucket of the DHT: \<^verbatim>\<open>dht/key.hpp\<close>, \<^verbatim>\<open>dht/kademlia.hpp\<close> and \<^verbatim>\<open>dht/bucket.hpp\<close>.
  A bucket is a \<^verbatim>\<open>std::map\<close> from 32-byte keys ordered by their XOR distance to our own key. The value
  type is a template parameter: what the bucket uses of it, the \<^verbatim>\<open>ID\<close> member and \<^verbatim>\<open>operator<\<close>, are
  arguments of the operations that use them. The generator \<^verbatim>\<open>random\<close> is the list of the
  numbers it will return.
\<close>

section \<open>Keys and the metric\<close>

type_synonym dht_key = aligned

definition Key_xor :: "dht_key \<Rightarrow> dht_key \<Rightarrow> dht_key" where
  "Key_xor a b = aligned_xor a b"

definition Key_less :: "dht_key \<Rightarrow> dht_key \<Rightarrow> bool" where
  "Key_less a b \<longleftrightarrow> aligned_less a b"

definition XorMetric :: "dht_key \<Rightarrow> dht_key \<Rightarrow> dht_key \<Rightarrow> bool" where
  "XorMetric us left right \<longleftrightarrow> Key_less (Key_xor us left) (Key_xor us right)"

definition is_key :: "dht_key \<Rightarrow> bool" where
  "is_key k \<longleftrightarrow> length k = 32"

section \<open>The bucket\<close>

record 'v bucket =
  bucket_us :: dht_key
  bucket_nodes :: "(dht_key \<times> 'v) list"

definition Bucket :: "dht_key \<Rightarrow> 'v bucket" where
  "Bucket us = \<lparr>bucket_us = us, bucket_nodes = []\<rparr>"

definition bucket_size :: "'v bucket \<Rightarrow> nat" where
  "bucket_size b = length (bucket_nodes b)"

definition SetIntersector_node :: "(dht_key \<times> 'v) \<Rightarrow> dht_key \<Rightarrow> bool" where
  "SetIntersector_node lhs rhs \<longleftrightarrow> Key_less (fst lhs) rhs"

definition SetIntersector_key :: "dht_key \<Rightarrow> (dht_key \<times> 'v) \<Rightarrow> bool" where
  "SetIntersector_key lhs rhs \<longleftrightarrow> Key_less lhs (fst rhs)"

definition GetRandomNodeExcluding :: "'v bucket \<Rightarrow> u64 \<Rightarrow> dht_key \<Rightarrow> dht_key set \<Rightarrow> bool \<times> dht_key" where
  "GetRandomNodeExcluding b rnd result exclude =
     (let candidates = set_difference SetIntersector_node SetIntersector_key
            (bucket_nodes b) (sorted_list_of_set exclude)
      in if candidates = [] then (False, result)
         else (True, fst (candidates ! (unat rnd mod length candidates))))"

text \<open>The loop body both searches share: keep the closest key seen so far.\<close>

definition closest_step :: "dht_key \<Rightarrow> dht_key \<times> 'v \<Rightarrow> dht_key \<times> dht_key \<Rightarrow> dht_key \<times> dht_key" where
  "closest_step target item st =
     (let curDist = Key_xor (fst item) target
      in if Key_less curDist (fst st) then (curDist, fst item) else st)"

definition FindClosest :: "'v bucket \<Rightarrow> dht_key \<Rightarrow> dht_key \<Rightarrow> bool \<times> dht_key" where
  "FindClosest b target result =
     (let (mindist, result) =
            fold (closest_step target) (bucket_nodes b) (aligned_Fill 32 0xff, result)
      in (0 < length (bucket_nodes b), result))"

fun GetManyRandom_loop :: "(dht_key \<times> 'v) list \<Rightarrow> u64 list \<Rightarrow> nat \<Rightarrow> dht_key set \<Rightarrow> dht_key set option" where
  "GetManyRandom_loop nodes rnd 0 result = Some result"
| "GetManyRandom_loop nodes [] (Suc N) result = None"
| "GetManyRandom_loop nodes (r # rnd) (Suc N) result =
     (let k = fst (nodes ! (unat r mod length nodes))
      in if k \<notin> result then GetManyRandom_loop nodes rnd N (insert k result)
         else GetManyRandom_loop nodes rnd (Suc N) result)"

definition GetManyRandom :: "'v bucket \<Rightarrow> u64 list \<Rightarrow> dht_key set \<Rightarrow> nat \<Rightarrow> (bool \<times> dht_key set) option" where
  "GetManyRandom b rnd result N =
     (let nodes = bucket_nodes b
      in if length nodes < N \<or> nodes = [] then Some (False, result)
         else if length nodes = N then Some (True, result \<union> fst ` set nodes)
         else case GetManyRandom_loop nodes rnd N result of
                None \<Rightarrow> None
              | Some result' \<Rightarrow> Some (card result' = N, result'))"

definition FindCloseExcluding :: "'v bucket \<Rightarrow> dht_key \<Rightarrow> dht_key \<Rightarrow> dht_key set \<Rightarrow> bool \<times> dht_key" where
  "FindCloseExcluding b target result exclude =
     (let maxdist = aligned_Fill 32 0xff;
          (mindist, result) =
            fold (\<lambda>item st. if fst item \<in> exclude then st else closest_step target item st)
              (bucket_nodes b) (aligned_Fill 32 0xff, result)
      in (Key_less mindist maxdist, result))"

primrec GetManyNear_loop ::
  "'v bucket \<Rightarrow> dht_key \<Rightarrow> nat \<Rightarrow> dht_key \<Rightarrow> dht_key set \<Rightarrow> dht_key set \<Rightarrow> bool \<times> dht_key set" where
  "GetManyNear_loop b target 0 peer s result = (True, result)"
| "GetManyNear_loop b target (Suc N) peer s result =
     (case FindCloseExcluding b target peer s of
        (False, peer') \<Rightarrow> (False, result)
      | (True, peer') \<Rightarrow> GetManyNear_loop b target N peer' (insert peer' s) (insert peer' result))"

definition GetManyNearExcluding ::
  "'v bucket \<Rightarrow> dht_key \<Rightarrow> dht_key set \<Rightarrow> nat \<Rightarrow> dht_key set \<Rightarrow> bool \<times> dht_key set" where
  "GetManyNearExcluding b target result N exclude =
     GetManyNear_loop b target N (aligned_Zero 32) exclude result"

definition PutNode :: "('v \<Rightarrow> dht_key) \<Rightarrow> ('v \<Rightarrow> 'v \<Rightarrow> bool) \<Rightarrow> 'v bucket \<Rightarrow> 'v \<Rightarrow> 'v bucket" where
  "PutNode ID lt b val =
     (let cmp = XorMetric (bucket_us b)
      in case smap_find cmp (ID val) (bucket_nodes b) of
           None \<Rightarrow> b\<lparr>bucket_nodes := smap_put cmp (ID val) val (bucket_nodes b)\<rparr>
         | Some old \<Rightarrow>
             if lt old val then b\<lparr>bucket_nodes := smap_put cmp (ID val) val (bucket_nodes b)\<rparr>
             else b)"

definition DelNode :: "'v bucket \<Rightarrow> dht_key \<Rightarrow> 'v bucket" where
  "DelNode b key =
     (if smap_find (XorMetric (bucket_us b)) key (bucket_nodes b) \<noteq> None
      then b\<lparr>bucket_nodes := smap_erase (XorMetric (bucket_us b)) key (bucket_nodes b)\<rparr>
      else b)"

definition HasNode :: "'v bucket \<Rightarrow> dht_key \<Rightarrow> bool" where
  "HasNode b key \<longleftrightarrow> smap_find (XorMetric (bucket_us b)) key (bucket_nodes b) \<noteq> None"

primrec RemoveIf_loop :: "(dht_key \<Rightarrow> bool) \<Rightarrow> (dht_key \<times> 'v) list \<Rightarrow> (dht_key \<times> 'v) list" where
  "RemoveIf_loop pred [] = []"
| "RemoveIf_loop pred (x # xs) =
     (if pred (fst x) then RemoveIf_loop pred xs else x # RemoveIf_loop pred xs)"

definition RemoveIf :: "'v bucket \<Rightarrow> (dht_key \<Rightarrow> bool) \<Rightarrow> 'v bucket" where
  "RemoveIf b pred = b\<lparr>bucket_nodes := RemoveIf_loop pred (bucket_nodes b)\<rparr>"

definition bucket_Clear :: "'v bucket \<Rightarrow> 'v bucket" where
  "bucket_Clear b = b\<lparr>bucket_nodes := []\<rparr>"

section \<open>The XOR metric orders the keys\<close>

lemmas key_defs = Key_xor_def Key_less_def XorMetric_def aligned_less_def is_key_def

lemma XorMetric_total:
  "is_key us \<Longrightarrow> is_key a \<Longrightarrow> is_key b \<Longrightarrow> a \<noteq> b \<Longrightarrow> XorMetric us a b \<or> XorMetric us b a"
  using aligned_xor_inj_right [of a us b] by (auto simp: key_defs)

definition metric_key :: "dht_key \<Rightarrow> dht_key \<Rightarrow> bool" where
  "metric_key us k \<longleftrightarrow> is_key us \<and> is_key k"

lemma metric_keyI: "is_key us \<Longrightarrow> is_key k \<Longrightarrow> metric_key us k"
  by (simp add: metric_key_def)

interpretation xor_metric: std_compare "XorMetric us" "metric_key us" for us
proof unfold_locales
  show "XorMetric us a b \<or> XorMetric us b a"
    if "metric_key us a" "metric_key us b" "a \<noteq> b" for a b
    using that XorMetric_total by (simp add: metric_key_def)
qed (auto simp: key_defs)

interpretation key_order: std_compare Key_less is_key
  by unfold_locales (auto simp: key_defs)

definition wf_bucket :: "'v bucket \<Rightarrow> bool" where
  "wf_bucket b \<longleftrightarrow> is_key (bucket_us b) \<and> (\<forall>x \<in> set (bucket_nodes b). is_key (fst x)) \<and>
     sorted_wrt (\<lambda>x y. XorMetric (bucket_us b) (fst x) (fst y)) (bucket_nodes b)"

abbreviation bucket_map :: "'v bucket \<Rightarrow> dht_key \<Rightarrow> 'v option" where
  "bucket_map b \<equiv> map_of (bucket_nodes b)"

abbreviation bucket_keys :: "'v bucket \<Rightarrow> dht_key set" where
  "bucket_keys b \<equiv> fst ` set (bucket_nodes b)"

lemma wf_bucket_ordered:
  "wf_bucket b \<longleftrightarrow> is_key (bucket_us b) \<and> xor_metric.ordered (bucket_us b) (bucket_nodes b)"
  by (auto simp: wf_bucket_def xor_metric.ordered_def metric_key_def)

lemma wf_bucket_find:
  "wf_bucket b \<Longrightarrow> is_key k \<Longrightarrow> smap_find (XorMetric (bucket_us b)) k (bucket_nodes b) = bucket_map b k"
  by (simp add: wf_bucket_ordered xor_metric.find_map_of metric_keyI)

lemma HasNode_iff: "wf_bucket b \<Longrightarrow> is_key k \<Longrightarrow> HasNode b k \<longleftrightarrow> k \<in> bucket_keys b"
  by (simp add: HasNode_def wf_bucket_find map_of_eq_None_iff)

lemma wf_Bucket: "is_key us \<Longrightarrow> wf_bucket (Bucket us)"
  by (simp add: wf_bucket_def Bucket_def)

lemma PutNode_refines:
  assumes "wf_bucket b" and "is_key (ID val)"
  shows "wf_bucket (PutNode ID lt b val)"
    and "bucket_map (PutNode ID lt b val) =
      (if bucket_map b (ID val) = None \<or> lt (the (bucket_map b (ID val))) val
       then (bucket_map b)(ID val \<mapsto> val) else bucket_map b)"
  using assms
  by (auto simp: PutNode_def wf_bucket_find Let_def wf_bucket_ordered xor_metric.put_ordered
      xor_metric.put_map_of metric_keyI split: option.splits)

lemma DelNode_refines:
  assumes "wf_bucket b" and "is_key k"
  shows "wf_bucket (DelNode b k)" and "bucket_map (DelNode b k) = (bucket_map b)(k := None)"
  using assms
  by (auto simp: DelNode_def wf_bucket_find wf_bucket_ordered xor_metric.erase_ordered
      xor_metric.erase_map_of metric_keyI)

lemma RemoveIf_loop_filter: "RemoveIf_loop p xs = filter (\<lambda>x. \<not> p (fst x)) xs"
  by (induction xs) auto

lemma RemoveIf_refines:
  assumes "wf_bucket b"
  shows "wf_bucket (RemoveIf b p)"
    and "bucket_map (RemoveIf b p) k = (if p k then None else bucket_map b k)"
proof -
  show "wf_bucket (RemoveIf b p)"
    using assms by (simp add: RemoveIf_def RemoveIf_loop_filter wf_bucket_ordered xor_metric.filter_ordered)
  have "map_of (filter (\<lambda>x. \<not> p (fst x)) xs) k = (if p k then None else map_of xs k)"
    for xs :: "(dht_key \<times> 'a) list"
    by (induction xs) auto
  then show "bucket_map (RemoveIf b p) k = (if p k then None else bucket_map b k)"
    by (simp add: RemoveIf_def RemoveIf_loop_filter)
qed

section \<open>The searches\<close>

abbreviation max_dist :: dht_key where
  "max_dist \<equiv> aligned_Fill 32 0xff"

text \<open>Everything the loop of the searches establishes, for the entries \<^verbatim>\<open>xs\<close> it has looked at.\<close>

lemma closest_fold:
  assumes "fold (closest_step t) xs (d0, r0) = (d, r)"
  shows "d \<le> d0" and "\<And>x. x \<in> set xs \<Longrightarrow> d \<le> Key_xor (fst x) t"
    and "(d, r) = (d0, r0) \<or> (d < d0 \<and> r \<in> fst ` set xs \<and> d = Key_xor r t)"
proof -
  have "d \<le> d0 \<and> (\<forall>x \<in> set xs. d \<le> Key_xor (fst x) t) \<and>
    ((d, r) = (d0, r0) \<or> (d < d0 \<and> r \<in> fst ` set xs \<and> d = Key_xor r t))"
    using assms
  proof (induction xs arbitrary: d0 r0)
    case (Cons x xs)
    obtain d1 r1 where st: "closest_step t x (d0, r0) = (d1, r1)" by fastforce
    with Cons.prems have "fold (closest_step t) xs (d1, r1) = (d, r)" by simp
    note IH = Cons.IH [OF this]
    from st have "d1 \<le> d0 \<and> d1 \<le> Key_xor (fst x) t \<and>
      ((d1, r1) = (d0, r0) \<or> (d1 < d0 \<and> r1 = fst x \<and> d1 = Key_xor r1 t))"
      by (auto simp: closest_step_def Let_def Key_less_def aligned_less_def split: if_splits)
    with IH show ?case by auto
  qed simp
  then show "d \<le> d0" "\<And>x. x \<in> set xs \<Longrightarrow> d \<le> Key_xor (fst x) t"
    "(d, r) = (d0, r0) \<or> (d < d0 \<and> r \<in> fst ` set xs \<and> d = Key_xor r t)"
    by auto
qed

lemma excluding_fold:
  "fold (\<lambda>item st. if fst item \<in> ex then st else closest_step t item st) xs st =
   fold (closest_step t) (filter (\<lambda>x. fst x \<notin> ex) xs) st"
  by (induction xs arbitrary: st) auto

lemma wf_bucket_key: "wf_bucket b \<Longrightarrow> k \<in> bucket_keys b \<Longrightarrow> is_key k"
  by (auto simp: wf_bucket_def)

lemma xor_le_max: "is_key k \<Longrightarrow> is_key t \<Longrightarrow> Key_xor k t \<le> max_dist"
  by (simp add: key_defs aligned_Fill_def aligned_le_ff)

text \<open>\<open>closest_of t K k\<close>: \<^verbatim>\<open>k\<close> is the member of \<^verbatim>\<open>K\<close> closest to \<^verbatim>\<open>t\<close>.\<close>

definition closest_of :: "dht_key \<Rightarrow> dht_key set \<Rightarrow> dht_key \<Rightarrow> bool" where
  "closest_of t K k \<longleftrightarrow> k \<in> K \<and> (\<forall>k' \<in> K. Key_xor k t \<le> Key_xor k' t)"

text \<open>The keys a search can return: not excluded, and not at the largest distance.\<close>

definition near_keys :: "'v bucket \<Rightarrow> dht_key \<Rightarrow> dht_key set \<Rightarrow> dht_key set" where
  "near_keys b t ex = {k \<in> bucket_keys b. k \<notin> ex \<and> Key_xor k t \<noteq> max_dist}"

lemma finite_near_keys [simp]: "finite (near_keys b t ex)"
  by (simp add: near_keys_def)

lemma near_keys_insert: "near_keys b t (insert k ex) = near_keys b t ex - {k}"
  by (auto simp: near_keys_def)

lemma FindCloseExcluding_spec:
  assumes wf: "wf_bucket b" and t: "is_key t"
  shows "fst (FindCloseExcluding b t r0 ex) \<longleftrightarrow> near_keys b t ex \<noteq> {}"
    and "near_keys b t ex \<noteq> {} \<Longrightarrow> closest_of t (near_keys b t ex) (snd (FindCloseExcluding b t r0 ex))"
proof -
  let ?xs = "filter (\<lambda>x. fst x \<notin> ex) (bucket_nodes b)"
  obtain d r where f: "fold (closest_step t) ?xs (max_dist, r0) = (d, r)" by fastforce
  note cf = closest_fold [OF f]
  have eq: "FindCloseExcluding b t r0 ex = (d < max_dist, r)"
    by (simp add: FindCloseExcluding_def excluding_fold f key_defs)
  have le: "d \<le> Key_xor k t" if "k \<in> near_keys b t ex" for k
  proof -
    from that obtain x where "x \<in> set ?xs" "fst x = k" by (auto simp: near_keys_def)
    with cf(2) show ?thesis by blast
  qed
  have lt: "Key_xor k t < max_dist" if "k \<in> near_keys b t ex" for k
  proof -
    from that have "k \<in> bucket_keys b" "Key_xor k t \<noteq> max_dist" by (simp_all add: near_keys_def)
    with xor_le_max [OF wf_bucket_key [OF wf] t] show ?thesis by (metis order.not_eq_order_implies_strict)
  qed
  have hit: "r \<in> near_keys b t ex \<and> d = Key_xor r t" if "d < max_dist"
  proof -
    from cf(3) that have "r \<in> fst ` set ?xs" "d = Key_xor r t" by auto
    with that show ?thesis by (auto simp: near_keys_def)
  qed
  show "fst (FindCloseExcluding b t r0 ex) \<longleftrightarrow> near_keys b t ex \<noteq> {}"
  proof
    show "near_keys b t ex \<noteq> {}" if "fst (FindCloseExcluding b t r0 ex)"
      using that hit by (auto simp: eq)
    show "fst (FindCloseExcluding b t r0 ex)" if "near_keys b t ex \<noteq> {}"
      using that le lt order.strict_trans1 unfolding eq fst_conv by blast
  qed
  show "closest_of t (near_keys b t ex) (snd (FindCloseExcluding b t r0 ex))"
    if "near_keys b t ex \<noteq> {}"
  proof -
    from that obtain k where "k \<in> near_keys b t ex" by blast
    then have "d < max_dist" using le lt order.strict_trans1 by blast
    with hit le show ?thesis by (auto simp: eq closest_of_def)
  qed
qed

text \<open>\<open>nearest t K S\<close>: every member of \<^verbatim>\<open>S\<close> is closer to \<^verbatim>\<open>t\<close> than every other member of \<^verbatim>\<open>K\<close>.\<close>

definition nearest :: "dht_key \<Rightarrow> dht_key set \<Rightarrow> dht_key set \<Rightarrow> bool" where
  "nearest t K S \<longleftrightarrow> S \<subseteq> K \<and> (\<forall>k \<in> S. \<forall>k' \<in> K - S. Key_xor k t < Key_xor k' t)"

lemma Key_xor_inj:
  "is_key a \<Longrightarrow> is_key b \<Longrightarrow> is_key t \<Longrightarrow> Key_xor a t = Key_xor b t \<longleftrightarrow> a = b"
  by (simp add: Key_xor_def is_key_def aligned_xor_inj)

lemma near_keys_strict:
  assumes "wf_bucket b" "is_key t" "closest_of t (near_keys b t ex) p" "k \<in> near_keys b t ex" "k \<noteq> p"
  shows "Key_xor p t < Key_xor k t"
proof -
  have "is_key p" "is_key k"
    using assms wf_bucket_key by (auto simp: closest_of_def near_keys_def)
  then have "Key_xor p t \<noteq> Key_xor k t" using Key_xor_inj assms(2,5) by metis
  with assms(3,4) show ?thesis by (auto simp: closest_of_def)
qed

lemma GetManyNear_loop_spec:
  assumes wf: "wf_bucket b" and t: "is_key t"
  shows "\<exists>S. snd (GetManyNear_loop b t N p ex result) = result \<union> S \<and>
      nearest t (near_keys b t ex) S \<and> card S = min N (card (near_keys b t ex)) \<and>
      (fst (GetManyNear_loop b t N p ex result) \<longleftrightarrow> N \<le> card (near_keys b t ex))"
proof (induction N arbitrary: p ex result)
  case 0
  show ?case by (rule exI [of _ "{}"]) (simp add: nearest_def)
next
  case (Suc N)
  let ?K = "near_keys b t ex"
  obtain ok q where f: "FindCloseExcluding b t p ex = (ok, q)" by fastforce
  note spec = FindCloseExcluding_spec [OF wf t, where ?r0.0 = p and ex = ex, unfolded f fst_conv snd_conv]
  show ?case
  proof (cases "?K = {}")
    case True
    with spec f show ?thesis by (intro exI [of _ "{}"]) (simp add: nearest_def)
  next
    case False
    with spec have q: "ok" "closest_of t ?K q" by auto
    then have qK: "q \<in> ?K" by (simp add: closest_of_def)
    from Suc [of q "insert q ex" "insert q result", unfolded near_keys_insert] obtain S where
      S: "snd (GetManyNear_loop b t N q (insert q ex) (insert q result)) = insert q result \<union> S"
        "nearest t (?K - {q}) S" "card S = min N (card (?K - {q}))"
        "fst (GetManyNear_loop b t N q (insert q ex) (insert q result)) \<longleftrightarrow> N \<le> card (?K - {q})"
      by blast
    have n: "card (?K - {q}) = card ?K - 1" "0 < card ?K"
      using qK by (auto simp: card_gt_0_iff)
    have "nearest t ?K (insert q S)"
    proof -
      have "\<forall>k' \<in> ?K - insert q S. Key_xor q t < Key_xor k' t"
        using near_keys_strict [OF wf t q(2)] by blast
      moreover have "\<forall>k \<in> S. \<forall>k' \<in> ?K - insert q S. Key_xor k t < Key_xor k' t" and "S \<subseteq> ?K"
        using S(2) by (unfold nearest_def) blast+
      ultimately show ?thesis using qK by (simp add: nearest_def)
    qed
    moreover have "card (insert q S) = Suc (card S)"
    proof -
      have "S \<subseteq> ?K - {q}" using S(2) by (simp add: nearest_def)
      then have "q \<notin> S" "finite S" using finite_subset [of S ?K] by auto
      then show ?thesis by simp
    qed
    ultimately show ?thesis
      using f q(1) S(1) S(3,4) [unfolded n(1)] n(2)
      by (intro exI [of _ "insert q S"]) (simp add: min_def, linarith)
  qed
qed

lemma GetManyRandom_loop_spec:
  assumes "GetManyRandom_loop nodes rnd N result = Some r" "nodes \<noteq> []" "finite result"
  shows "result \<subseteq> r" and "r - result \<subseteq> fst ` set nodes" and "card r = card result + N" and "finite r"
proof -
  have "result \<subseteq> r \<and> r - result \<subseteq> fst ` set nodes \<and> card r = card result + N \<and> finite r"
    using assms
  proof (induction nodes rnd N result rule: GetManyRandom_loop.induct)
    case (3 nodes x rnd N result)
    let ?k = "fst (nodes ! (unat x mod length nodes))"
    have k: "?k \<in> fst ` set nodes" using "3.prems"(2) by simp
    show ?case
    proof (cases "?k \<in> result")
      case True
      with 3 show ?thesis by simp
    next
      case False
      with "3.prems" have "GetManyRandom_loop nodes rnd N (insert ?k result) = Some r" by simp
      with "3.IH"(1) [OF refl False] "3.prems" False k show ?thesis by auto
    qed
  qed auto
  then show "result \<subseteq> r" "r - result \<subseteq> fst ` set nodes" "card r = card result + N" "finite r"
    by auto
qed

section \<open>Properties\<close>

text \<open>One call of the interface that changes a bucket, and what it does to the finite map the bucket stands for.\<close>

datatype 'v bucket_op = Op_Put 'v | Op_Del dht_key | Op_RemoveIf "dht_key \<Rightarrow> bool" | Op_Clear

primrec run_bucket_op :: "('v \<Rightarrow> dht_key) \<Rightarrow> ('v \<Rightarrow> 'v \<Rightarrow> bool) \<Rightarrow> 'v bucket_op \<Rightarrow> 'v bucket \<Rightarrow> 'v bucket" where
  "run_bucket_op ID lt (Op_Put v) b = PutNode ID lt b v"
| "run_bucket_op ID lt (Op_Del k) b = DelNode b k"
| "run_bucket_op ID lt (Op_RemoveIf p) b = RemoveIf b p"
| "run_bucket_op ID lt Op_Clear b = bucket_Clear b"

primrec spec_bucket_op ::
  "('v \<Rightarrow> dht_key) \<Rightarrow> ('v \<Rightarrow> 'v \<Rightarrow> bool) \<Rightarrow> 'v bucket_op \<Rightarrow> (dht_key \<rightharpoonup> 'v) \<Rightarrow> (dht_key \<rightharpoonup> 'v)" where
  "spec_bucket_op ID lt (Op_Put v) m =
     (case m (ID v) of Some old \<Rightarrow> if lt old v then m(ID v \<mapsto> v) else m | None \<Rightarrow> m(ID v \<mapsto> v))"
| "spec_bucket_op ID lt (Op_Del k) m = m(k := None)"
| "spec_bucket_op ID lt (Op_RemoveIf p) m = (\<lambda>k. if p k then None else m k)"
| "spec_bucket_op ID lt Op_Clear m = Map.empty"

primrec bucket_op_keys :: "('v \<Rightarrow> dht_key) \<Rightarrow> 'v bucket_op \<Rightarrow> bool" where
  "bucket_op_keys ID (Op_Put v) \<longleftrightarrow> is_key (ID v)"
| "bucket_op_keys ID (Op_Del k) \<longleftrightarrow> is_key k"
| "bucket_op_keys ID (Op_RemoveIf p) \<longleftrightarrow> True"
| "bucket_op_keys ID Op_Clear \<longleftrightarrow> True"

lemma bucket_op_refines:
  assumes "wf_bucket b" and "bucket_op_keys ID op"
  shows "wf_bucket (run_bucket_op ID lt op b)"
    and "bucket_map (run_bucket_op ID lt op b) = spec_bucket_op ID lt op (bucket_map b)"
proof -
  have "wf_bucket (bucket_Clear b)" using assms(1) by (simp add: bucket_Clear_def wf_bucket_def)
  then show "wf_bucket (run_bucket_op ID lt op b)"
    using assms by (cases op) (auto simp: PutNode_refines DelNode_refines RemoveIf_refines)
  show "bucket_map (run_bucket_op ID lt op b) = spec_bucket_op ID lt op (bucket_map b)"
    using assms
    by (cases op) (auto simp: PutNode_refines DelNode_refines RemoveIf_refines bucket_Clear_def split: option.split)
qed

text \<open>
  C1: Whatever calls change a bucket, it stays ordered by the XOR distance to our key and holds exactly the
  finite map that putting the newer value, deleting, removing and clearing give.
\<close>

theorem bucket_refines_finite_map:
  assumes "is_key us" and "list_all (bucket_op_keys ID) ops"
  shows "wf_bucket (fold (run_bucket_op ID lt) ops (Bucket us)) \<and>
    bucket_map (fold (run_bucket_op ID lt) ops (Bucket us)) = fold (spec_bucket_op ID lt) ops Map.empty"
  using assms(2)
proof (induction ops rule: rev_induct)
  case Nil
  show ?case using wf_Bucket [OF assms(1)] by (simp add: Bucket_def)
next
  case (snoc op ops)
  then show ?case using bucket_op_refines [of "fold (run_bucket_op ID lt) ops (Bucket us)" ID op lt] by simp
qed

definition demo_bucket_ops :: "(dht_key \<times> nat) bucket_op list" where
  "demo_bucket_ops = [Op_Put (replicate 32 1, 5), Op_Put (replicate 32 2, 6), Op_Put (replicate 32 1, 4), Op_Del (replicate 32 2)]"

theorem bucket_refines_finite_map_witness:
  "wf_bucket (fold (run_bucket_op fst (\<lambda>a b. snd a < snd b)) demo_bucket_ops (Bucket (replicate 32 0))) \<and>
   bucket_map (fold (run_bucket_op fst (\<lambda>a b. snd a < snd b)) demo_bucket_ops (Bucket (replicate 32 0))) =
   fold (spec_bucket_op fst (\<lambda>a b. snd a < snd b)) demo_bucket_ops Map.empty"
  by (rule bucket_refines_finite_map) (simp_all add: is_key_def demo_bucket_ops_def)

text \<open>
  C20: \<^verbatim>\<open>GetManyNearExcluding\<close> adds to the result the \<open>N\<close> keys nearest to the target among those not excluded,
  or all of them when there are fewer, and reports success exactly when there are \<open>N\<close>; a key at the
  largest possible distance is never found.
\<close>

theorem GetManyNearExcluding_nearest:
  assumes "wf_bucket b" and "is_key t"
  shows "\<exists>S. snd (GetManyNearExcluding b t result N ex) = result \<union> S \<and>
      nearest t (near_keys b t ex) S \<and> card S = min N (card (near_keys b t ex)) \<and>
      (fst (GetManyNearExcluding b t result N ex) \<longleftrightarrow> N \<le> card (near_keys b t ex))"
  unfolding GetManyNearExcluding_def using assms by (rule GetManyNear_loop_spec)

definition demo_bucket :: "unit bucket" where
  "demo_bucket = \<lparr>bucket_us = replicate 32 0, bucket_nodes = [(replicate 32 1, ()), (replicate 32 2, ())]\<rparr>"

theorem GetManyNearExcluding_nearest_witness:
  "\<exists>S. snd (GetManyNearExcluding demo_bucket (replicate 32 3) {} 1 {replicate 32 2}) = {} \<union> S \<and>
      nearest (replicate 32 3) (near_keys demo_bucket (replicate 32 3) {replicate 32 2}) S \<and>
      card S = min 1 (card (near_keys demo_bucket (replicate 32 3) {replicate 32 2})) \<and>
      (fst (GetManyNearExcluding demo_bucket (replicate 32 3) {} 1 {replicate 32 2})
        \<longleftrightarrow> 1 \<le> card (near_keys demo_bucket (replicate 32 3) {replicate 32 2}))"
  by (rule GetManyNearExcluding_nearest) code_simp+

text \<open>
  \<^verbatim>\<open>FindClosest\<close> on a bucket that is not empty reports success. Its result is the closest key, except that
  a bucket whose only key is at the largest possible distance leaves the result as it was.
\<close>

theorem FindClosest_result:
  assumes "wf_bucket b" and "is_key t" and "bucket_nodes b \<noteq> []"
  shows "fst (FindClosest b t r0) \<and>
    (if near_keys b t {} = {} then snd (FindClosest b t r0) = r0
     else closest_of t (bucket_keys b) (snd (FindClosest b t r0)))"
proof -
  obtain d r where f: "fold (closest_step t) (bucket_nodes b) (max_dist, r0) = (d, r)" by fastforce
  note cf = closest_fold [OF f]
  have eq: "FindClosest b t r0 = (True, r)" using assms(3) by (simp add: FindClosest_def f)
  have le: "d \<le> Key_xor k t" if "k \<in> bucket_keys b" for k using that cf(2) by auto
  show ?thesis
  proof (cases "near_keys b t {} = {}")
    case True
    then have "\<not> (d < max_dist \<and> r \<in> bucket_keys b \<and> d = Key_xor r t)" by (auto simp: near_keys_def)
    with cf(3) True show ?thesis by (auto simp: eq)
  next
    case False
    then obtain k where k: "k \<in> bucket_keys b" "Key_xor k t \<noteq> max_dist" by (auto simp: near_keys_def)
    have "Key_xor k t < max_dist"
      using xor_le_max [OF wf_bucket_key [OF assms(1) k(1)] assms(2)] k(2) by (metis order.not_eq_order_implies_strict)
    with le [OF k(1)] have "d \<noteq> max_dist" by auto
    with cf(3) have "r \<in> bucket_keys b" "d = Key_xor r t" by auto
    with le False show ?thesis by (simp add: eq closest_of_def)
  qed
qed

theorem FindClosest_result_witness:
  "fst (FindClosest demo_bucket (replicate 32 3) []) \<and>
    (if near_keys demo_bucket (replicate 32 3) {} = {} then snd (FindClosest demo_bucket (replicate 32 3) []) = []
     else closest_of (replicate 32 3) (bucket_keys demo_bucket) (snd (FindClosest demo_bucket (replicate 32 3) [])))"
  by (rule FindClosest_result) code_simp+

text \<open>
  \<^verbatim>\<open>GetRandomNodeExcluding\<close> can return an excluded key. It subtracts the excluded keys with a merge that
  compares plain keys, while the bucket is ordered by the distance to our key.
\<close>

theorem random_node_can_be_excluded:
  "GetRandomNodeExcluding
     (fold (run_bucket_op (\<lambda>k. k) (\<lambda>a b. False)) [Op_Put (replicate 32 0), Op_Put (replicate 32 1)] (Bucket (replicate 32 1)))
     1 [] {replicate 32 0} = (True, replicate 32 0)"
  by code_simp

end
