(* ===== verification/Codec.thy ===== *)
theory Codec
  imports Bencode_Laws Aligned
begin

text \<open>
  How the messages of the program are laid over bencode: a \<^verbatim>\<open>BEncode\<close> writes \<^verbatim>\<open>d\<close>, one entry after the
  other and \<^verbatim>\<open>e\<close>; a \<^verbatim>\<open>DecodeKey\<close> runs a sequence of \<^verbatim>\<open>BEncodeMaybeRead\<dots>\<close> calls and special cases on one key.
  The loops of the readers get the number of bytes left as their bound, which every iteration
  lowers. \<open>dict_wire\<close> is the text of a dictionary with one-letter keys; the lemmas reduce
  the round trip of a message to its entries.
\<close>

section \<open>Bodies of DecodeKey\<close>

definition decode_dict ::
  "(llarp_buffer \<Rightarrow> ('m \<times> llarp_buffer) action) \<Rightarrow> ('m \<times> llarp_buffer) action" where
  "decode_dict DecodeKey mb = bencode_decode_dict (Suc (size_left (snd mb))) DecodeKey mb"

text \<open>A group of \<^verbatim>\<open>if(!\<dots>) return false;\<close> calls, followed by the rest of the body.\<close>

definition entries_then ::
  "'m entry_state action list \<Rightarrow> ('m entry_state \<Rightarrow> (bool \<times> 'm \<times> llarp_buffer) res) \<Rightarrow>
     'm entry_state \<Rightarrow> (bool \<times> 'm \<times> llarp_buffer) res" where
  "entries_then steps rest st =
     bind_res (all_steps steps st) (\<lambda>(ok, (read, m, b)).
       if ok then rest (read, m, b) else Inr (False, (m, b)))"

text \<open>\<^verbatim>\<open>if(key == cs) { return \<dots> }\<close>, and the closing \<^verbatim>\<open>return read\<close>.\<close>

definition if_key ::
  "llarp_buffer \<Rightarrow> byte list \<Rightarrow> ('m \<times> llarp_buffer) action \<Rightarrow>
     ('m entry_state \<Rightarrow> (bool \<times> 'm \<times> llarp_buffer) res) \<Rightarrow>
     'm entry_state \<Rightarrow> (bool \<times> 'm \<times> llarp_buffer) res" where
  "if_key key cs act rest = (\<lambda>(read, m, b).
     bind_res (buffer_eq key cs) (\<lambda>eq. if eq then act (m, b) else rest (read, m, b)))"

definition return_read :: "'m entry_state \<Rightarrow> (bool \<times> 'm \<times> llarp_buffer) res" where
  "return_read = (\<lambda>(read, m, b). Inr (read, (m, b)))"

text \<open>A field read by its own \<^verbatim>\<open>BDecode\<close>, and an integer checked before it is stored.\<close>

definition decode_field ::
  "('i \<times> llarp_buffer) action \<Rightarrow> ('m \<Rightarrow> 'i) \<Rightarrow> (('i \<Rightarrow> 'i) \<Rightarrow> 'm \<Rightarrow> 'm) \<Rightarrow> ('m \<times> llarp_buffer) action" where
  "decode_field BDecode get upd = (\<lambda>(m, b).
     bind_res (BDecode (get m, b)) (\<lambda>(ok, (i, b')). Inr (ok, (upd (\<lambda>_. i) m, b'))))"

definition decode_int_if ::
  "(u64 \<Rightarrow> bool) \<Rightarrow> (u64 \<Rightarrow> 'm \<Rightarrow> 'm) \<Rightarrow> ('m \<times> llarp_buffer) action" where
  "decode_int_if ok set_it = (\<lambda>(m, b).
     bind_res (bencode_read_integer b) (\<lambda>(r, b').
       case r of None \<Rightarrow> Inr (False, (m, b'))
               | Some i \<Rightarrow> if ok i then Inr (True, (set_it i m, b')) else Inr (False, (m, b'))))"

text \<open>\<^verbatim>\<open>BEncodeReadList\<close> with the bytes left as its bound.\<close>

definition read_list_field :: "'a \<Rightarrow> ('a \<times> llarp_buffer) action \<Rightarrow> ('a list \<times> llarp_buffer) action" where
  "read_list_field dflt BDecode xb = BEncodeReadList (Suc (size_left (snd xb))) dflt BDecode xb"

definition MaybeReadDictList ::
  "char \<Rightarrow> 'i \<Rightarrow> ('i \<times> llarp_buffer) action \<Rightarrow> (('i list \<Rightarrow> 'i list) \<Rightarrow> 'm \<Rightarrow> 'm) \<Rightarrow>
     ('m \<Rightarrow> 'i list) \<Rightarrow> llarp_buffer \<Rightarrow> 'm entry_state action" where
  "MaybeReadDictList k dflt BDecode upd get key = (\<lambda>(read, m, b).
     BEncodeMaybeReadDictList (Suc (size_left b)) k dflt BDecode upd get key (read, m, b))"

text \<open>A writer that only runs under a condition.\<close>

definition only_if :: "bool \<Rightarrow> 's action \<Rightarrow> 's action" where
  "only_if c f s = (if c then f s else Inr (True, s))"

section \<open>Keys\<close>

definition key_is :: "llarp_buffer \<Rightarrow> byte list \<Rightarrow> bool" where
  "key_is kb cs \<longleftrightarrow> wf_buf kb \<and> remaining kb = cs"

declare buffer_eq.simps [simp del]

lemma key_is_eq [simp]: "key_is kb [x] \<Longrightarrow> buffer_eq kb [y] = Inr (x = y)"
  by (auto simp: key_is_def buffer_eq_prefix)

named_theorems key_simps \<open>evaluation of DecodeKey bodies on a known key\<close>

lemma Int_skip [key_simps]:
  "key_is kb [c] \<Longrightarrow> c \<noteq> ch k \<Longrightarrow> BEncodeMaybeReadDictInt k upd kb (read, m, b) = Inr (True, (read, m, b))"
  by (simp add: BEncodeMaybeReadDictInt_def)

lemma Version_skip [key_simps]:
  "key_is kb [c] \<Longrightarrow> c \<noteq> ch k \<Longrightarrow> BEncodeMaybeVerifyVersion k upd v kb (read, m, b) = Inr (True, (read, m, b))"
  by (simp add: BEncodeMaybeVerifyVersion_def)

lemma Entry_skip [key_simps]:
  "key_is kb [c] \<Longrightarrow> c \<noteq> ch k \<Longrightarrow>
   BEncodeMaybeReadDictEntry k BDecode get upd kb (read, m, b) = Inr (True, (read, m, b))"
  by (simp add: BEncodeMaybeReadDictEntry_def)

lemma List_skip [key_simps]:
  "key_is kb [c] \<Longrightarrow> c \<noteq> ch k \<Longrightarrow>
   MaybeReadDictList k dflt BDecode upd get kb (read, m, b) = Inr (True, (read, m, b))"
  by (simp add: MaybeReadDictList_def BEncodeMaybeReadDictList_def)

lemma if_key_skip [key_simps]:
  "key_is kb [c] \<Longrightarrow> c \<noteq> d \<Longrightarrow> if_key kb [d] act rest (read, m, b) = rest (read, m, b)"
  by (simp add: if_key_def)

lemma Int_hit [key_simps]:
  "key_is kb [ch k] \<Longrightarrow> bencode_read_integer b = Inr (Some i, b') \<Longrightarrow>
   BEncodeMaybeReadDictInt k upd kb (read, m, b) = Inr (True, (True, upd (\<lambda>_. i) m, b'))"
  by (simp add: BEncodeMaybeReadDictInt_def)

lemma Version_hit [key_simps]:
  "key_is kb [ch k] \<Longrightarrow> bencode_read_integer b = Inr (Some i, b') \<Longrightarrow>
   BEncodeMaybeVerifyVersion k upd v kb (read, m, b) = Inr (True, (i = v, upd (\<lambda>_. i) m, b'))"
  by (simp add: BEncodeMaybeVerifyVersion_def)

lemma Entry_hit [key_simps]:
  "key_is kb [ch k] \<Longrightarrow> BDecode (get m, b) = Inr (True, (x, b')) \<Longrightarrow>
   BEncodeMaybeReadDictEntry k BDecode get upd kb (read, m, b) = Inr (True, (True, upd (\<lambda>_. x) m, b'))"
  by (simp add: BEncodeMaybeReadDictEntry_def)

lemma List_hit [key_simps]:
  "key_is kb [ch k] \<Longrightarrow> read_list_field dflt BDecode (get m, b) = Inr (True, (xs, b')) \<Longrightarrow>
   MaybeReadDictList k dflt BDecode upd get kb (read, m, b) = Inr (True, (True, upd (\<lambda>_. xs) m, b'))"
  by (simp add: MaybeReadDictList_def BEncodeMaybeReadDictList_def read_list_field_def)

lemma if_key_hit [key_simps]:
  "key_is kb [d] \<Longrightarrow> if_key kb [d] act rest (read, m, b) = act (m, b)"
  by (simp add: if_key_def)

lemma decode_field_hit [key_simps]:
  "BDecode (get m, b) = Inr (True, (x, b')) \<Longrightarrow>
   decode_field BDecode get upd (m, b) = Inr (True, (upd (\<lambda>_. x) m, b'))"
  by (simp add: decode_field_def)

lemma decode_int_if_hit [key_simps]:
  "bencode_read_integer b = Inr (Some i, b') \<Longrightarrow> ok i \<Longrightarrow>
   decode_int_if ok set_it (m, b) = Inr (True, (set_it i m, b'))"
  by (simp add: decode_int_if_def)

declare entries_then_def [key_simps] return_read_def [key_simps] decode_key_with_def [key_simps]

lemmas wire_int_hit [key_simps] = bencode_read_integer_wire

section \<open>Dictionaries with one-letter keys\<close>

type_synonym 'm entry = "char \<times> byte list \<times> ('m \<Rightarrow> 'm)"

definition entry_wire :: "'m entry \<Rightarrow> byte list" where
  "entry_wire = (\<lambda>(k, w, u). wire_string [ch k] @ w)"

definition dict_wire :: "'m entry list \<Rightarrow> byte list" where
  "dict_wire es = 100 # concat (map entry_wire es) @ [101]"

definition apply_entries :: "'m entry list \<Rightarrow> 'm \<Rightarrow> 'm" where
  "apply_entries es = fold (\<lambda>(k, w, u). u) es"

text \<open>\<open>decodes_at D m e\<close>: in the state \<open>m\<close> the body reads the entry and makes its update.\<close>

definition decodes_at :: "(llarp_buffer \<Rightarrow> ('m \<times> llarp_buffer) action) \<Rightarrow> 'm \<Rightarrow> 'm entry \<Rightarrow> bool" where
  "decodes_at DecodeKey m e \<longleftrightarrow> (\<forall>b kb rest. wf_buf b \<longrightarrow> key_is kb [ch (fst e)] \<longrightarrow>
     remaining b = fst (snd e) @ rest \<longrightarrow>
     DecodeKey kb (m, b) = Inr (True, (snd (snd e) m, advance (length (fst (snd e))) b)))"

definition decodes :: "(llarp_buffer \<Rightarrow> ('m \<times> llarp_buffer) action) \<Rightarrow> 'm entry \<Rightarrow> bool" where
  "decodes DecodeKey e \<longleftrightarrow> (\<forall>m. decodes_at DecodeKey m e)"

lemma decodes_atI:
  assumes "\<And>b kb rest. wf_buf b \<Longrightarrow> key_is kb [ch k] \<Longrightarrow> remaining b = w @ rest \<Longrightarrow>
    DecodeKey kb (m, b) = Inr (True, (u m, advance (length w) b))"
  shows "decodes_at DecodeKey m (k, w, u)"
  using assms by (simp add: decodes_at_def)

lemma decodesI:
  assumes "\<And>m b kb rest. wf_buf b \<Longrightarrow> key_is kb [ch k] \<Longrightarrow> remaining b = w @ rest \<Longrightarrow>
    DecodeKey kb (m, b) = Inr (True, (u m, advance (length w) b))"
  shows "decodes DecodeKey (k, w, u)"
  using assms by (simp add: decodes_def decodes_at_def)

text \<open>The entries one after the other, each in the state its predecessors leave.\<close>

fun decodes_all :: "(llarp_buffer \<Rightarrow> ('m \<times> llarp_buffer) action) \<Rightarrow> 'm \<Rightarrow> 'm entry list \<Rightarrow> bool" where
  "decodes_all DecodeKey m [] \<longleftrightarrow> True"
| "decodes_all DecodeKey m (e # es) \<longleftrightarrow>
     decodes_at DecodeKey m e \<and> decodes_all DecodeKey (snd (snd e) m) es"

lemma decodes_all_nth:
  "decodes_all DecodeKey m (es @ e # fs) \<Longrightarrow> decodes_at DecodeKey (fold (\<lambda>e. snd (snd e)) es m) e"
  by (induction es arbitrary: m) auto

lemma decodes_all_decodes: "(\<And>e. e \<in> set es \<Longrightarrow> decodes DecodeKey e) \<Longrightarrow> decodes_all DecodeKey m es"
  by (induction es arbitrary: m) (auto simp: decodes_def)

lemma dict_wire_head: "\<exists>c cs. dict_wire es = c # cs \<and> c \<noteq> 101"
  by (simp add: dict_wire_def)

lemma dict_wire_length: "length es < length (dict_wire es)"
proof -
  have "length es \<le> length (concat (map entry_wire es))"
    by (rule length_concat_ge) (auto simp: entry_wire_def wire_string_def)
  then show ?thesis by (simp add: dict_wire_def)
qed

lemma decode_dict_all:
  assumes d: "decodes_all DecodeKey m es" and wf: "wf_buf b" and rem: "remaining b = dict_wire es @ rest"
  shows "decode_dict DecodeKey (m, b) = Inr (True, (apply_entries es m, advance (length (dict_wire es)) b))"
proof -
  have sz: "length es < Suc (size_left b)"
    using dict_wire_length [of es] wf rem by (simp add: size_left_remaining)
  have ew: "map entry_wire es = map (\<lambda>e. wire_string [ch (fst e)] @ fst (snd e)) es"
    by (simp add: entry_wire_def split_def)
  have "bencode_read_dict (Suc (size_left b))
      (\<lambda>key. case key of None \<Rightarrow> (\<lambda>sb. Inr (True, sb)) | Some k \<Rightarrow> DecodeKey k) (m, b) =
    Inr (True, (fold (\<lambda>e. snd (snd e)) es m,
      advance (length (concat (map (\<lambda>e. wire_string [ch (fst e)] @ fst (snd e)) es)) + 2) b))"
  proof (rule read_dict_items_at [where rest = rest])
    fix ys e zs b kb rest
    assume "es = ys @ e # zs" "wf_buf b" "wf_buf kb" "remaining kb = [ch (fst e)]"
      "remaining b = fst (snd e) @ rest"
    then show "(case Some kb of None \<Rightarrow> (\<lambda>sb. Inr (True, sb)) | Some k \<Rightarrow> DecodeKey k)
        (fold (\<lambda>e. snd (snd e)) ys m, b) =
        Inr (True, (snd (snd e) (fold (\<lambda>e. snd (snd e)) ys m), advance (length (fst (snd e))) b))"
      using d decodes_all_nth [of DecodeKey m ys e zs] by (simp add: decodes_at_def key_is_def)
  qed (use wf rem sz ew in \<open>simp_all add: dict_wire_def\<close>)
  then show ?thesis
    by (simp add: decode_dict_def bencode_decode_dict_def apply_entries_def dict_wire_def ew split_def)
qed

section \<open>Messages with a type\<close>

text \<open>
  The sinks that read a message whose first entry names its type: \<open>cs\<close> is the key of the type, \<open>mk\<close>
  the message object a type letter gives. The state is the message, once there is one.
\<close>

definition typed_DecodeKey ::
  "byte list \<Rightarrow> (byte \<Rightarrow> 'm option) \<Rightarrow> (llarp_buffer \<Rightarrow> ('m \<times> llarp_buffer) action) \<Rightarrow>
     llarp_buffer \<Rightarrow> ('m option \<times> llarp_buffer) action" where
  "typed_DecodeKey cs mk DecodeKey key = (\<lambda>(s, b).
     case s of
       None \<Rightarrow> bind_res (buffer_eq key cs) (\<lambda>eq.
         if \<not> eq then Inr (False, (None, b))
         else bind_res (bencode_read_string b) (\<lambda>(r, b').
           case r of
             None \<Rightarrow> Inr (False, (None, b'))
           | Some strbuf \<Rightarrow>
               if bsz strbuf \<noteq> 1 then Inr (False, (None, b'))
               else bind_res (deref strbuf) (\<lambda>c. Inr (mk c \<noteq> None, (mk c, b')))))
     | Some m \<Rightarrow> bind_res (DecodeKey key (m, b)) (\<lambda>(ok, (m', b')). Inr (ok, (Some m', b'))))"

definition typed_decode ::
  "byte list \<Rightarrow> (byte \<Rightarrow> 'm option) \<Rightarrow> (llarp_buffer \<Rightarrow> ('m \<times> llarp_buffer) action) \<Rightarrow>
     ('m option \<times> llarp_buffer) action" where
  "typed_decode cs mk DecodeKey sb = bencode_read_dict (Suc (size_left (snd sb)))
     (\<lambda>key. case key of None \<Rightarrow> (\<lambda>(s, b). Inr (s \<noteq> None, (s, b)))
                       | Some k \<Rightarrow> typed_DecodeKey cs mk DecodeKey k) sb"

definition typed_wire :: "char \<Rightarrow> char \<Rightarrow> 'm entry list \<Rightarrow> byte list" where
  "typed_wire k t es = dict_wire ((k, wire_string [ch t], \<lambda>m. m) # es)"

text \<open>The update of the decoder's state that an entry makes.\<close>

fun typed_update :: "'m option \<Rightarrow> 'm entry option \<Rightarrow> 'm option \<Rightarrow> 'm option" where
  "typed_update m0 None s = m0"
| "typed_update m0 (Some e) s = map_option (snd (snd e)) s"

lemma fold_typed_update: "fold (typed_update m0) (map Some es) (Some m) = Some (apply_entries es m)"
  by (induction es arbitrary: m) (auto simp: apply_entries_def)

text \<open>The keys and values of a typed dictionary, the first of which gives the type.\<close>

abbreviation typed_key :: "char \<Rightarrow> 'm entry option \<Rightarrow> byte list" where
  "typed_key k x \<equiv> (case x of None \<Rightarrow> [ch k] | Some e \<Rightarrow> [ch (fst e)])"

abbreviation typed_value :: "char \<Rightarrow> 'm entry option \<Rightarrow> byte list" where
  "typed_value t x \<equiv> (case x of None \<Rightarrow> wire_string [ch t] | Some e \<Rightarrow> fst (snd e))"

lemma typed_sink_entry:
  assumes d: "decodes_all DecodeKey m es" and mk: "mk (ch t) = Some m" and xs: "None # map Some es = ys @ x # zs"
    and b: "wf_buf b" "wf_buf kb" "remaining kb = typed_key k x" "remaining b = typed_value t x @ rest"
  shows "typed_DecodeKey [ch k] mk DecodeKey kb (fold (typed_update (Some m)) ys None, b) =
    Inr (True, (typed_update (Some m) x (fold (typed_update (Some m)) ys None), advance (length (typed_value t x)) b))"
proof (cases ys)
  case Nil
  with xs have x: "x = None" by simp
  then have "key_is kb [ch k]" using b by (simp add: key_is_def)
  moreover obtain tb where tb: "bencode_read_string b = Inr (Some tb, advance (length (wire_string [ch t])) b)"
    "wf_buf tb" "remaining tb = [ch t]" "bsz tb = 1"
    using read_string_key [OF b(1), of "[ch t]" rest] b(4) x by auto
  moreover have "deref tb = Inr (ch t)" using tb(2,3) by (intro deref_remaining [where cs = "[]"]) simp_all
  ultimately show ?thesis using Nil x mk by (simp add: typed_DecodeKey_def)
next
  case (Cons y ys')
  with xs have e: "map Some es = ys' @ x # zs" and y: "y = None" by auto
  then obtain es1 e es2 where es: "es = es1 @ e # es2" and ys': "ys' = map Some es1" and x: "x = Some e"
    by (auto simp: map_eq_append_conv map_eq_Cons_conv)
  have st: "fold (typed_update (Some m)) ys None = Some (fold (\<lambda>e. snd (snd e)) es1 m)"
    using Cons y ys' fold_typed_update [of "Some m" es1 m] by (simp add: apply_entries_def split_def)
  have "DecodeKey kb (fold (\<lambda>e. snd (snd e)) es1 m, b) =
      Inr (True, (snd (snd e) (fold (\<lambda>e. snd (snd e)) es1 m), advance (length (fst (snd e))) b))"
    using d es b x decodes_all_nth [of DecodeKey m es1 e es2] by (simp add: decodes_at_def key_is_def)
  then show ?thesis using x unfolding st by (simp add: typed_DecodeKey_def)
qed

lemma typed_entry_wire:
  "concat (map entry_wire ((k, wire_string [ch t], \<lambda>m. m) # es)) = concat (map (\<lambda>x. wire_string (typed_key k x) @ typed_value t x) (None # map Some es))"
  by (simp add: entry_wire_def split_def comp_def)

lemma typed_decode_all:
  assumes d: "decodes_all DecodeKey m es" and mk: "mk (ch t) = Some m"
    and wf: "wf_buf b" and rem: "remaining b = typed_wire k t es @ rest"
  shows "typed_decode [ch k] mk DecodeKey (None, b) =
    Inr (True, (Some (apply_entries es m), advance (length (typed_wire k t es)) b))"
proof -
  let ?xs = "None # map Some es"
  let ?sink = "\<lambda>key. case key of None \<Rightarrow> (\<lambda>(s, b). Inr (s \<noteq> None, (s, b)))
      | Some kb \<Rightarrow> typed_DecodeKey [ch k] mk DecodeKey kb"
  let ?ws = "concat (map (\<lambda>x. wire_string (typed_key k x) @ typed_value t x) ?xs)"
  have end_state: "fold (typed_update (Some m)) ?xs None = Some (apply_entries es m)"
    by (simp add: fold_typed_update)
  have sz: "length ?xs < Suc (size_left b)"
    using dict_wire_length [of "(k, wire_string [ch t], \<lambda>m. m) # es"] wf rem
    by (simp add: size_left_remaining typed_wire_def)
  have A: "bencode_read_dict (Suc (size_left b)) ?sink (None, b) =
      Inr (True, (fold (typed_update (Some m)) ?xs None, advance (length ?ws + 2) b))"
  proof (rule read_dict_items_at [where rest = rest])
    fix ys x zs b kb rest
    assume "?xs = ys @ x # zs" "wf_buf b" "wf_buf kb" "remaining kb = typed_key k x" "remaining b = typed_value t x @ rest"
    then show "?sink (Some kb) (fold (typed_update (Some m)) ys None, b) =
      Inr (True, (typed_update (Some m) x (fold (typed_update (Some m)) ys None), advance (length (typed_value t x)) b))"
      using typed_sink_entry [of DecodeKey m es mk t ys x zs b kb k rest] d mk by simp
  qed (use wf rem sz typed_entry_wire [of k t es] end_state in \<open>auto simp: typed_wire_def dict_wire_def split: option.split\<close>)
  have B: "length (typed_wire k t es) = length ?ws + 2"
    unfolding typed_wire_def dict_wire_def typed_entry_wire by simp
  show ?thesis unfolding typed_decode_def snd_conv B using A unfolding end_state .
qed

text \<open>A message type that is one case of several: the reader of the case, and its entries, under its constructor.\<close>

definition lift_case :: "('m \<Rightarrow> 'n) \<Rightarrow> (bool \<times> 'm \<times> llarp_buffer) res \<Rightarrow> (bool \<times> 'n \<times> llarp_buffer) res" where
  "lift_case C r = bind_res r (\<lambda>(ok, (m, b)). Inr (ok, (C m, b)))"

definition lift_entries :: "('m \<Rightarrow> 'n) \<Rightarrow> ('n \<Rightarrow> 'm) \<Rightarrow> 'm entry list \<Rightarrow> 'n entry list" where
  "lift_entries C proj = map (\<lambda>(k, w, u). (k, w, \<lambda>x. C (u (proj x))))"

lemma lift_entries_wire [simp]:
  "dict_wire (lift_entries C proj es) = dict_wire es" "typed_wire k t (lift_entries C proj es) = typed_wire k t es"
  by (simp_all add: dict_wire_def typed_wire_def lift_entries_def entry_wire_def split_def comp_def)

lemma lift_entries_decode:
  assumes "\<And>m. proj (C m) = m" and "\<And>key m b. D' key (C m, b) = lift_case C (D key (m, b))"
    and "decodes_all D m es"
  shows "decodes_all D' (C m) (lift_entries C proj es)"
    and "apply_entries (lift_entries C proj es) (C m) = C (apply_entries es m)"
proof -
  have "decodes_all D' (C m) (lift_entries C proj es) \<and>
      apply_entries (lift_entries C proj es) (C m) = C (apply_entries es m)"
    using assms(3)
  proof (induction es arbitrary: m)
    case (Cons e es)
    obtain k w u where e: "e = (k, w, u)" by (cases e) auto
    from Cons have IH: "decodes_all D' (C (u m)) (lift_entries C proj es)"
      "apply_entries (lift_entries C proj es) (C (u m)) = C (apply_entries es (u m))"
      by (auto simp: e)
    from Cons.prems have "decodes_at D' (C m) (k, w, \<lambda>x. C (u (proj x)))"
      by (simp add: e decodes_at_def assms(1,2) lift_case_def)
    with IH show ?case by (simp add: lift_entries_def e assms(1) apply_entries_def)
  qed (simp add: lift_entries_def apply_entries_def)
  then show "decodes_all D' (C m) (lift_entries C proj es)"
    "apply_entries (lift_entries C proj es) (C m) = C (apply_entries es m)"
    by auto
qed

lemma decode_dict_entries:
  assumes "\<And>e. e \<in> set es \<Longrightarrow> decodes DecodeKey e" and "wf_buf b"
    and "remaining b = dict_wire es @ rest"
  shows "decode_dict DecodeKey (m, b) = Inr (True, (apply_entries es m, advance (length (dict_wire es)) b))"
  by (rule decode_dict_all [OF decodes_all_decodes]) (use assms in auto)

lemma emits_list_all2: "list_all2 emits fs ws \<Longrightarrow> emits (all_steps fs) (concat ws)"
proof (induction rule: list_all2_induct)
  case Nil
  show ?case by (simp only: concat.simps) (rule emits_all_steps_Nil)
next
  case (Cons f fs w ws)
  then show ?case by (simp only: concat.simps) (rule emits_all_steps_Cons)
qed

lemma emits_dict:
  assumes "list_all2 emits fs ws" and "concat ws = concat (map entry_wire es)"
  shows "emits (all_steps (bencode_start_dict # fs @ [bencode_end])) (dict_wire es)"
proof -
  have "emits (all_steps (bencode_start_dict # fs @ [bencode_end])) (concat ([100] # ws @ [[101]]))"
    using assms(1) by (intro emits_list_all2) (auto intro: list_all2_appendI emit_intros)
  then show ?thesis using assms(2) by (simp add: dict_wire_def)
qed

lemma emits_dict_entries [emit_intros]:
  "emits f w \<Longrightarrow> emits (BEncodeWriteDictEntry k f) (wire_string [ch k] @ w)"
  "emits (BEncodeWriteDictInt k i) (wire_string [ch k] @ wire_int i)"
  "emits (BEncodeWriteDictString k s) (wire_string [ch k] @ wire_string s)"
  "emits (BEncodeWriteDictMsgType k t) (wire_string [ch k] @ wire_string [ch t])"
  "emits (bencode_write_uint64_entry s i) (wire_string s @ wire_int i)"
  "emits (BEncodeWriteList g xs) w' \<Longrightarrow> emits (BEncodeWriteDictList k g xs) (wire_string [ch k] @ w')"
  unfolding BEncodeWriteDictEntry_def BEncodeWriteDictInt_def BEncodeWriteDictString_def
    BEncodeWriteDictMsgType_def bencode_write_uint64_entry_def BEncodeWriteDictList_def
  by (auto intro: emits_and_then emits_write_bytestring emits_write_uint64)

lemma emits_when [emit_intros]: "(c \<Longrightarrow> emits f w) \<Longrightarrow> emits (only_if c f) (if c then w else [])"
  by (auto simp: emits_def only_if_def)

lemma list_all2_step [emit_intros]:
  "list_all2 emits [] []" "emits f w \<Longrightarrow> list_all2 emits fs ws \<Longrightarrow> list_all2 emits (f # fs) (w # ws)"
  by simp_all

lemma apply_entries_simps [simp]:
  "apply_entries [] m = m" "apply_entries ((k, w, u) # es) m = apply_entries es (u m)"
  "apply_entries (es @ fs) m = apply_entries fs (apply_entries es m)"
  by (simp_all add: apply_entries_def)

lemma entry_wire_simps [simp]: "entry_wire (k, w, u) = wire_string [ch k] @ w"
  by (simp add: entry_wire_def)

section \<open>Lists of codable values\<close>

definition list_wire :: "('a \<Rightarrow> byte list) \<Rightarrow> 'a list \<Rightarrow> byte list" where
  "list_wire wire xs = 108 # concat (map wire xs) @ [101]"

context bencode_codec
begin

lemma list_field_emits:
  "(\<And>x. x \<in> set xs \<Longrightarrow> valid x) \<Longrightarrow> emits (BEncodeWriteList BEncode xs) (list_wire wire xs)"
  using list_emits [of xs] by (simp add: list_wire_def)

lemma list_field_decode:
  assumes "\<And>x. x \<in> set xs \<Longrightarrow> valid x" and "wf_buf b" and "remaining b = list_wire wire xs @ rest"
  shows "read_list_field dflt BDecode (ys, b) = Inr (True, (ys @ xs, advance (length (list_wire wire xs)) b))"
proof -
  have "length xs \<le> length (concat (map wire xs))"
    using wire_head assms(1) by (intro length_concat_ge) fastforce
  then have "length xs < Suc (size_left b)"
    using assms(2,3) by (simp add: size_left_remaining list_wire_def)
  with list_decode [OF assms(1,2), where rest = rest and n = "Suc (size_left b)" and ys = ys] assms(3)
  show ?thesis
    by (simp add: read_list_field_def list_wire_def)
qed

end

lemma aligned_hit [key_simps]:
  "wf_buf b \<Longrightarrow> remaining b = wire_string x @ rest \<Longrightarrow> length x = sz \<Longrightarrow> sz < 10 ^ 9 \<Longrightarrow>
   aligned_BDecode sz (y, b) = Inr (True, (x, advance (length (wire_string x)) b))"
  by (rule aligned_decode_wire)

lemma emits_aligned [emit_intros]: "emits (aligned_BEncode x) (wire_string x)"
  by (simp add: aligned_BEncode_def emits_write_bytestring)

end
