(* ===== verification/Introset.thy ===== *)
theory Introset
  imports Codec Complex_Main
begin

text \<open>
  The records a hidden service publishes: \<^verbatim>\<open>Introduction\<close>, \<^verbatim>\<open>ServiceInfo\<close>, \<^verbatim>\<open>PoW\<close> and \<^verbatim>\<open>IntroSet\<close>
  (\<^verbatim>\<open>service/intro.*\<close>, \<^verbatim>\<open>service/info.*\<close>, \<^verbatim>\<open>pow.*\<close>, \<^verbatim>\<open>service/intro_set.*\<close>, \<^verbatim>\<open>service/tag.*\<close>).
  The signature check and the two hashes are outside the sources and appear as arguments.
\<close>

definition LLARP_PROTO_VERSION :: u64 where
  "LLARP_PROTO_VERSION = 0"

section \<open>Introduction\<close>

record Introduction =
  intro_router :: aligned
  intro_pathID :: aligned
  intro_latency :: u64
  intro_expiresAt :: u64
  intro_version :: u64

definition Introduction_init :: Introduction where
  "Introduction_init = \<lparr>intro_router = aligned_Zero 32, intro_pathID = aligned_Zero 16,
     intro_latency = 0, intro_expiresAt = 0, intro_version = LLARP_PROTO_VERSION\<rparr>"

definition Introduction_IsExpired :: "Introduction \<Rightarrow> llarp_time \<Rightarrow> bool" where
  "Introduction_IsExpired i now \<longleftrightarrow> now \<ge> intro_expiresAt i"

definition Introduction_ExpiresSoon :: "Introduction \<Rightarrow> llarp_time \<Rightarrow> llarp_time \<Rightarrow> bool" where
  "Introduction_ExpiresSoon i now dlt \<longleftrightarrow>
     (if dlt \<noteq> 0 then now \<ge> intro_expiresAt i - dlt else Introduction_IsExpired i now)"

definition Introduction_less :: "Introduction \<Rightarrow> Introduction \<Rightarrow> bool" where
  "Introduction_less a b \<longleftrightarrow> intro_expiresAt a < intro_expiresAt b \<or> intro_pathID a < intro_pathID b \<or>
     intro_router a < intro_router b \<or> intro_version a < intro_version b \<or> intro_latency a < intro_latency b"

definition Introduction_eq :: "Introduction \<Rightarrow> Introduction \<Rightarrow> bool" where
  "Introduction_eq a b \<longleftrightarrow> intro_pathID a = intro_pathID b \<and> intro_router a = intro_router b"

definition Introduction_DecodeKey :: "llarp_buffer \<Rightarrow> (Introduction \<times> llarp_buffer) action" where
  "Introduction_DecodeKey key = decode_key_with
     [BEncodeMaybeReadDictEntry (CHR ''k'') (aligned_BDecode 32) intro_router intro_router_update key,
      BEncodeMaybeReadDictInt (CHR ''l'') intro_latency_update key,
      BEncodeMaybeReadDictEntry (CHR ''p'') (aligned_BDecode 16) intro_pathID intro_pathID_update key,
      BEncodeMaybeReadDictInt (CHR ''v'') intro_version_update key,
      BEncodeMaybeReadDictInt (CHR ''x'') intro_expiresAt_update key]"

definition Introduction_BDecode :: "(Introduction \<times> llarp_buffer) action" where
  "Introduction_BDecode = decode_dict Introduction_DecodeKey"

definition Introduction_BEncode :: "Introduction \<Rightarrow> llarp_buffer action" where
  "Introduction_BEncode i = all_steps
     (bencode_start_dict #
      [BEncodeWriteDictEntry (CHR ''k'') (aligned_BEncode (intro_router i)),
       only_if (intro_latency i \<noteq> 0) (BEncodeWriteDictInt (CHR ''l'') (intro_latency i)),
       BEncodeWriteDictEntry (CHR ''p'') (aligned_BEncode (intro_pathID i)),
       BEncodeWriteDictInt (CHR ''v'') (intro_version i),
       BEncodeWriteDictInt (CHR ''x'') (intro_expiresAt i)] @ [bencode_end])"

definition Introduction_Clear :: "Introduction \<Rightarrow> Introduction" where
  "Introduction_Clear i = i\<lparr>intro_router := aligned_Zero 32, intro_pathID := aligned_Zero 16,
     intro_latency := 0, intro_expiresAt := 0\<rparr>"

subsection \<open>Its codec\<close>

definition Introduction_valid :: "Introduction \<Rightarrow> bool" where
  "Introduction_valid i \<longleftrightarrow> length (intro_router i) = 32 \<and> length (intro_pathID i) = 16"

definition Introduction_entries :: "Introduction \<Rightarrow> Introduction entry list" where
  "Introduction_entries i =
     [(CHR ''k'', wire_string (intro_router i), intro_router_update (\<lambda>_. intro_router i))] @
     (if intro_latency i \<noteq> 0 then [(CHR ''l'', wire_int (intro_latency i), intro_latency_update (\<lambda>_. intro_latency i))] else []) @
     [(CHR ''p'', wire_string (intro_pathID i), intro_pathID_update (\<lambda>_. intro_pathID i)),
      (CHR ''v'', wire_int (intro_version i), intro_version_update (\<lambda>_. intro_version i)),
      (CHR ''x'', wire_int (intro_expiresAt i), intro_expiresAt_update (\<lambda>_. intro_expiresAt i))]"

lemma Introduction_decodes:
  assumes "Introduction_valid i" and "e \<in> set (Introduction_entries i)"
  shows "decodes Introduction_DecodeKey e"
proof -
  have v: "length (intro_router i) = 32" "length (intro_pathID i) = 16"
    using assms(1) by (simp_all add: Introduction_valid_def)
  show ?thesis
    using assms(2) unfolding Introduction_entries_def
    by (auto split: if_splits intro!: decodesI simp: Introduction_DecodeKey_def key_simps v)
qed

lemma Introduction_emits: "emits (Introduction_BEncode i) (dict_wire (Introduction_entries i))"
  unfolding Introduction_BEncode_def
  by (rule emits_dict, rule emit_intros, (rule emit_intros)+) (auto simp: Introduction_entries_def)

interpretation introduction: bencode_codec Introduction_BEncode Introduction_BDecode
  "\<lambda>i. dict_wire (Introduction_entries i)" Introduction_valid Introduction_init
proof
  fix i b rest assume "Introduction_valid i" "wf_buf b" "remaining b = dict_wire (Introduction_entries i) @ rest"
  moreover have "apply_entries (Introduction_entries i) Introduction_init = i"
    by (simp add: Introduction_entries_def Introduction_init_def)
  ultimately show "Introduction_BDecode (Introduction_init, b) =
      Inr (True, (i, advance (length (dict_wire (Introduction_entries i))) b))"
    unfolding Introduction_BDecode_def by (metis decode_dict_entries Introduction_decodes)
qed (rule Introduction_emits, rule dict_wire_head)

section \<open>Service info\<close>

text \<open>
  \<^verbatim>\<open>m_CachedAddr\<close> is filled with the BLAKE2b hash of the encoding by the first call that needs it;
  \<open>hash\<close> stands for \<^verbatim>\<open>crypto_generichash_blake2b\<close> with a 32-byte result.
\<close>

record ServiceInfo =
  si_enckey :: aligned
  si_signkey :: aligned
  si_CachedAddr :: aligned
  si_vanity :: aligned
  si_version :: u64

definition ServiceInfo_init :: ServiceInfo where
  "ServiceInfo_init = \<lparr>si_enckey = aligned_Zero 32, si_signkey = aligned_Zero 32,
     si_CachedAddr = aligned_Zero 32, si_vanity = aligned_Zero 16, si_version = LLARP_PROTO_VERSION\<rparr>"

definition ServiceInfo_eq :: "ServiceInfo \<Rightarrow> ServiceInfo \<Rightarrow> bool" where
  "ServiceInfo_eq a b \<longleftrightarrow> si_enckey a = si_enckey b \<and> si_signkey a = si_signkey b \<and>
     si_version a = si_version b \<and> si_vanity a = si_vanity b"

definition aligned_IsZero :: "aligned \<Rightarrow> bool" where
  "aligned_IsZero a \<longleftrightarrow> list_all (\<lambda>x. x = 0) a"

definition ServiceInfo_DecodeKey :: "llarp_buffer \<Rightarrow> (ServiceInfo \<times> llarp_buffer) action" where
  "ServiceInfo_DecodeKey key = decode_key_with
     [BEncodeMaybeReadDictEntry (CHR ''e'') (aligned_BDecode 32) si_enckey si_enckey_update key,
      BEncodeMaybeReadDictEntry (CHR ''s'') (aligned_BDecode 32) si_signkey si_signkey_update key,
      BEncodeMaybeReadDictInt (CHR ''v'') si_version_update key,
      BEncodeMaybeReadDictEntry (CHR ''x'') (aligned_BDecode 16) si_vanity si_vanity_update key]"

definition ServiceInfo_BEncode :: "ServiceInfo \<Rightarrow> llarp_buffer action" where
  "ServiceInfo_BEncode i = all_steps
     (bencode_start_dict #
      [BEncodeWriteDictEntry (CHR ''e'') (aligned_BEncode (si_enckey i)),
       BEncodeWriteDictEntry (CHR ''s'') (aligned_BEncode (si_signkey i)),
       BEncodeWriteDictInt (CHR ''v'') LLARP_PROTO_VERSION,
       only_if (\<not> aligned_IsZero (si_vanity i)) (BEncodeWriteDictEntry (CHR ''x'') (aligned_BEncode (si_vanity i)))]
      @ [bencode_end])"

definition ServiceInfo_CalculateAddress :: "(byte list \<Rightarrow> aligned) \<Rightarrow> ServiceInfo \<Rightarrow> aligned option res" where
  "ServiceInfo_CalculateAddress hash i =
     bind_res (ServiceInfo_BEncode i (buffer_of (replicate 256 0))) (\<lambda>(ok, b).
       Inr (if ok then Some (hash (consumed b)) else None))"

definition ServiceInfo_UpdateAddr :: "(byte list \<Rightarrow> aligned) \<Rightarrow> ServiceInfo action" where
  "ServiceInfo_UpdateAddr hash i =
     (if aligned_IsZero (si_CachedAddr i)
      then bind_res (ServiceInfo_CalculateAddress hash i) (\<lambda>r.
        case r of None \<Rightarrow> Inr (False, i) | Some a \<Rightarrow> Inr (True, i\<lparr>si_CachedAddr := a\<rparr>))
      else Inr (True, i))"

definition ServiceInfo_Addr :: "(byte list \<Rightarrow> aligned) \<Rightarrow> ServiceInfo \<Rightarrow> (aligned \<times> ServiceInfo) res" where
  "ServiceInfo_Addr hash i =
     bind_res (ServiceInfo_UpdateAddr hash i) (\<lambda>(ok, i'). Inr (si_CachedAddr i', i'))"

definition ServiceInfo_Update ::
  "(byte list \<Rightarrow> aligned) \<Rightarrow> aligned \<Rightarrow> aligned \<Rightarrow> aligned option \<Rightarrow> ServiceInfo action" where
  "ServiceInfo_Update hash enc sign nonce i =
     (let i1 = i\<lparr>si_enckey := enc, si_signkey := sign\<rparr>;
          i2 = (case nonce of None \<Rightarrow> i1 | Some n \<Rightarrow> i1\<lparr>si_vanity := n\<rparr>)
      in ServiceInfo_UpdateAddr hash i2)"

definition ServiceInfo_BDecode :: "(byte list \<Rightarrow> aligned) \<Rightarrow> (ServiceInfo \<times> llarp_buffer) action" where
  "ServiceInfo_BDecode hash ib =
     bind_res (decode_dict ServiceInfo_DecodeKey ib) (\<lambda>(ok, (i, b)).
       if \<not> ok then Inr (False, (i, b))
       else bind_res (ServiceInfo_UpdateAddr hash i) (\<lambda>(ok', i'). Inr (ok', (i', b))))"

subsection \<open>Its codec\<close>

definition ServiceInfo_entries :: "ServiceInfo \<Rightarrow> ServiceInfo entry list" where
  "ServiceInfo_entries i =
     [(CHR ''e'', wire_string (si_enckey i), si_enckey_update (\<lambda>_. si_enckey i)),
      (CHR ''s'', wire_string (si_signkey i), si_signkey_update (\<lambda>_. si_signkey i)),
      (CHR ''v'', wire_int LLARP_PROTO_VERSION, si_version_update (\<lambda>_. LLARP_PROTO_VERSION))] @
     (if \<not> aligned_IsZero (si_vanity i)
      then [(CHR ''x'', wire_string (si_vanity i), si_vanity_update (\<lambda>_. si_vanity i))] else [])"

text \<open>An info as \<^verbatim>\<open>BDecode\<close> leaves it: sizes, the version this program writes, and the address cached.\<close>

definition ServiceInfo_sizes :: "ServiceInfo \<Rightarrow> bool" where
  "ServiceInfo_sizes i \<longleftrightarrow> length (si_enckey i) = 32 \<and> length (si_signkey i) = 32 \<and> length (si_vanity i) = 16"

definition ServiceInfo_valid :: "(byte list \<Rightarrow> aligned) \<Rightarrow> ServiceInfo \<Rightarrow> bool" where
  "ServiceInfo_valid hash i \<longleftrightarrow> ServiceInfo_sizes i \<and> si_version i = LLARP_PROTO_VERSION \<and>
     si_CachedAddr i = hash (dict_wire (ServiceInfo_entries i))"

lemma ServiceInfo_decodes:
  assumes "ServiceInfo_sizes i" and "e \<in> set (ServiceInfo_entries i)"
  shows "decodes ServiceInfo_DecodeKey e"
proof -
  have v: "length (si_enckey i) = 32" "length (si_signkey i) = 32" "length (si_vanity i) = 16"
    using assms(1) by (simp_all add: ServiceInfo_sizes_def)
  show ?thesis
    using assms(2) unfolding ServiceInfo_entries_def
    by (auto split: if_splits intro!: decodesI simp: ServiceInfo_DecodeKey_def key_simps v)
qed

lemma ServiceInfo_emits: "emits (ServiceInfo_BEncode i) (dict_wire (ServiceInfo_entries i))"
  unfolding ServiceInfo_BEncode_def
  by (rule emits_dict, rule emit_intros, (rule emit_intros)+) (auto simp: ServiceInfo_entries_def)

lemma length_wire_string: "length (wire_string s) = length (dec (length s)) + 1 + length s"
  by (simp add: wire_string_def)

lemma ServiceInfo_wire_fits:
  assumes "ServiceInfo_sizes i"
  shows "length (dict_wire (ServiceInfo_entries i)) < 256"
  using assms
  by (auto simp: ServiceInfo_sizes_def dict_wire_def ServiceInfo_entries_def length_wire_string
      wire_int_def LLARP_PROTO_VERSION_def dec.simps)

lemma CalculateAddress_hash:
  assumes "ServiceInfo_sizes i"
  shows "ServiceInfo_CalculateAddress hash i = Inr (Some (hash (dict_wire (ServiceInfo_entries i))))"
proof -
  let ?b = "buffer_of (replicate 256 (0 :: byte))"
  have "wf_buf ?b" "length (dict_wire (ServiceInfo_entries i)) < size_left ?b" "consumed ?b = []"
    using ServiceInfo_wire_fits [OF assms] by (simp_all add: size_left_def buffer_of_def consumed_def wf_buf_def)
  with ServiceInfo_emits [of i] obtain b' where "ServiceInfo_BEncode i ?b = Inr (True, b')"
    "consumed b' = dict_wire (ServiceInfo_entries i)"
    by (metis append_Nil emitsE)
  then show ?thesis by (simp add: ServiceInfo_CalculateAddress_def)
qed

lemma aligned_IsZero_iff: "aligned_IsZero a \<longleftrightarrow> a = aligned_Zero (length a)"
  by (auto simp: aligned_IsZero_def aligned_Zero_def list_all_iff replicate_length_same) (metis in_set_replicate)

interpretation service_info: bencode_codec ServiceInfo_BEncode "ServiceInfo_BDecode hash"
  "\<lambda>i. dict_wire (ServiceInfo_entries i)" "ServiceInfo_valid hash" ServiceInfo_init for hash
proof
  fix i b rest
  assume v: "ServiceInfo_valid hash i" and b: "wf_buf b" "remaining b = dict_wire (ServiceInfo_entries i) @ rest"
  have sz: "ServiceInfo_sizes i" using v by (simp add: ServiceInfo_valid_def)
  let ?i = "i\<lparr>si_CachedAddr := aligned_Zero 32\<rparr>"
  have "apply_entries (ServiceInfo_entries i) ServiceInfo_init = ?i"
    using v by (auto simp: ServiceInfo_entries_def ServiceInfo_init_def ServiceInfo_valid_def
        ServiceInfo_sizes_def aligned_IsZero_iff)
  then have d: "decode_dict ServiceInfo_DecodeKey (ServiceInfo_init, b) =
      Inr (True, (?i, advance (length (dict_wire (ServiceInfo_entries i))) b))"
    using b sz by (metis decode_dict_entries ServiceInfo_decodes)
  have "ServiceInfo_entries ?i = ServiceInfo_entries i" by (simp add: ServiceInfo_entries_def)
  moreover have "ServiceInfo_sizes ?i" using sz by (simp add: ServiceInfo_sizes_def)
  ultimately have "ServiceInfo_CalculateAddress hash ?i = Inr (Some (si_CachedAddr i))"
    using CalculateAddress_hash [of ?i hash] v by (simp add: ServiceInfo_valid_def)
  then have "ServiceInfo_UpdateAddr hash ?i = Inr (True, i)"
    by (simp add: ServiceInfo_UpdateAddr_def aligned_IsZero_iff aligned_Zero_def)
  with d show "ServiceInfo_BDecode hash (ServiceInfo_init, b) =
      Inr (True, (i, advance (length (dict_wire (ServiceInfo_entries i))) b))"
    by (simp add: ServiceInfo_BDecode_def)
qed (rule ServiceInfo_emits, rule dict_wire_head)

section \<open>Proof of work\<close>

record PoW =
  pow_timestamp :: u64
  pow_extendedLifetime :: u32
  pow_nonce :: aligned
  pow_version :: u64

definition PoW_init :: PoW where
  "PoW_init = \<lparr>pow_timestamp = 0, pow_extendedLifetime = 0, pow_nonce = aligned_Zero 32,
     pow_version = LLARP_PROTO_VERSION\<rparr>"

definition PoW_DecodeKey :: "llarp_buffer \<Rightarrow> (PoW \<times> llarp_buffer) action" where
  "PoW_DecodeKey k = (\<lambda>(w, b). Inr (False, (w, b)))"

definition PoW_BEncode :: "PoW \<Rightarrow> llarp_buffer action" where
  "PoW_BEncode w = all_steps (bencode_start_dict # [] @ [bencode_end])"

text \<open>The number of zero bytes is a logarithm; that of a lifetime of zero is minus infinity, which has no value as a \<^verbatim>\<open>uint32_t\<close>.\<close>

definition PoW_IsValid :: "(byte list \<Rightarrow> aligned option) \<Rightarrow> PoW \<Rightarrow> llarp_time \<Rightarrow> bool res" where
  "PoW_IsValid shorthash w now =
     (if now - pow_timestamp w > ucast (pow_extendedLifetime w) * 1000 then Inr False
      else bind_res (PoW_BEncode w (buffer_of (replicate 128 0))) (\<lambda>(ok, b).
        if \<not> ok then Inr False
        else case shorthash (consumed b) of
          None \<Rightarrow> Inr False
        | Some digest \<Rightarrow>
            if pow_extendedLifetime w = 0 then Inl UndefinedConversion
            else let required = nat \<lfloor>ln (real (unat (pow_extendedLifetime w)))\<rfloor>
                 in Inr (list_all (\<lambda>x. x = 0) (take required digest))))"

section \<open>Intro sets\<close>

record IntroSet =
  is_A :: ServiceInfo
  is_I :: "Introduction list"
  is_K :: aligned
  is_topic :: aligned
  is_T :: llarp_time
  is_W :: "PoW option"
  is_Z :: aligned
  is_version :: u64

definition IntroSet_init :: IntroSet where
  "IntroSet_init = \<lparr>is_A = ServiceInfo_init, is_I = [], is_K = aligned_Zero 1218, is_topic = aligned_Zero 16,
     is_T = 0, is_W = None, is_Z = aligned_Zero 64, is_version = LLARP_PROTO_VERSION\<rparr>"

definition IntroSet_OtherIsNewer :: "IntroSet \<Rightarrow> IntroSet \<Rightarrow> bool" where
  "IntroSet_OtherIsNewer s other \<longleftrightarrow> is_T s < is_T other"

text \<open>\<^verbatim>\<open>Tag::ToString\<close> copies all sixteen bytes of the tag.\<close>

definition Tag_ToString :: "aligned \<Rightarrow> byte list" where
  "Tag_ToString t = t"

definition decode_PoW_field :: "(IntroSet \<times> llarp_buffer) action" where
  "decode_PoW_field = (\<lambda>(s, b).
     bind_res (decode_dict PoW_DecodeKey (PoW_init, b)) (\<lambda>(ok, (w, b')). Inr (ok, (s\<lparr>is_W := Some w\<rparr>, b'))))"

definition IntroSet_DecodeKey ::
  "(byte list \<Rightarrow> aligned) \<Rightarrow> llarp_buffer \<Rightarrow> (IntroSet \<times> llarp_buffer) action" where
  "IntroSet_DecodeKey hash key = (\<lambda>(s, b).
     entries_then [BEncodeMaybeReadDictEntry (CHR ''a'') (ServiceInfo_BDecode hash) is_A is_A_update key]
     (if_key key (str ''i'')
       (decode_field (read_list_field Introduction_init Introduction_BDecode) is_I is_I_update)
     (entries_then
       [BEncodeMaybeReadDictEntry (CHR ''k'') (aligned_BDecode 1218) is_K is_K_update key,
        BEncodeMaybeReadDictEntry (CHR ''n'') (aligned_BDecode 16) is_topic is_topic_update key,
        BEncodeMaybeReadDictInt (CHR ''t'') is_T_update key]
     (if_key key (str ''w'') decode_PoW_field
     (entries_then
       [BEncodeMaybeReadDictInt (CHR ''v'') is_version_update key,
        BEncodeMaybeReadDictEntry (CHR ''z'') (aligned_BDecode 64) is_Z is_Z_update key]
      return_read)))) (False, s, b))"

definition IntroSet_BDecode :: "(byte list \<Rightarrow> aligned) \<Rightarrow> (IntroSet \<times> llarp_buffer) action" where
  "IntroSet_BDecode hash = decode_dict (IntroSet_DecodeKey hash)"

definition IntroSet_BEncode :: "IntroSet \<Rightarrow> llarp_buffer action" where
  "IntroSet_BEncode s = all_steps
     (bencode_start_dict #
      [BEncodeWriteDictEntry (CHR ''a'') (ServiceInfo_BEncode (is_A s)),
       bencode_write_bytestring (str ''i''),
       BEncodeWriteList Introduction_BEncode (is_I s),
       BEncodeWriteDictEntry (CHR ''k'') (aligned_BEncode (is_K s)),
       only_if (length (Tag_ToString (is_topic s)) \<noteq> 0)
         (BEncodeWriteDictEntry (CHR ''n'') (aligned_BEncode (is_topic s))),
       BEncodeWriteDictInt (CHR ''t'') (is_T s),
       BEncodeWriteDictInt (CHR ''v'') (is_version s),
       (case is_W s of None \<Rightarrow> all_steps [] | Some w \<Rightarrow> BEncodeWriteDictEntry (CHR ''w'') (PoW_BEncode w)),
       BEncodeWriteDictEntry (CHR ''z'') (aligned_BEncode (is_Z s))] @ [bencode_end])"

definition IntroSet_HasExpiredIntros :: "IntroSet \<Rightarrow> llarp_time \<Rightarrow> bool" where
  "IntroSet_HasExpiredIntros s now \<longleftrightarrow> list_ex (\<lambda>i. now \<ge> intro_expiresAt i) (is_I s)"

definition IntroSet_GetNewestIntroExpiration :: "IntroSet \<Rightarrow> llarp_time" where
  "IntroSet_GetNewestIntroExpiration s = foldl (\<lambda>t i. max (intro_expiresAt i) t) 0 (is_I s)"

definition IntroSet_IsExpired :: "IntroSet \<Rightarrow> llarp_time \<Rightarrow> bool" where
  "IntroSet_IsExpired s now \<longleftrightarrow> IntroSet_GetNewestIntroExpiration s < now"

definition MAX_INTROSET_TIME_DELTA :: llarp_time where
  "MAX_INTROSET_TIME_DELTA = 10 * 1000"

definition default_lifetime :: llarp_time where
  "default_lifetime = 10 * 60 * 1000"

text \<open>The test of one introduction in the loop of \<^verbatim>\<open>IntroSet::Verify\<close>: \<^verbatim>\<open>true\<close> where the loop goes on.\<close>

definition IntroSet_intro_ok :: "PoW option \<Rightarrow> llarp_time \<Rightarrow> Introduction \<Rightarrow> bool" where
  "IntroSet_intro_ok W now intro =
     (if intro_expiresAt intro > now \<and> intro_expiresAt intro - now > default_lifetime
      then case W of
             None \<Rightarrow> False
           | Some w \<Rightarrow> \<not> intro_expiresAt intro - ucast (pow_extendedLifetime w) > default_lifetime
      else True)"

definition IntroSet_Verify ::
  "(aligned \<Rightarrow> byte list \<Rightarrow> aligned \<Rightarrow> bool) \<Rightarrow> (byte list \<Rightarrow> aligned option) \<Rightarrow> IntroSet \<Rightarrow> llarp_time \<Rightarrow> bool res" where
  "IntroSet_Verify verify shorthash s now =
     bind_res (IntroSet_BEncode (s\<lparr>is_Z := aligned_Zero 64\<rparr>) (buffer_of (replicate 4096 0))) (\<lambda>(ok, b).
       if \<not> ok then Inr False
       else if \<not> verify (si_signkey (is_A s)) (consumed b) (is_Z s) then Inr False
       else bind_res (case is_W s of None \<Rightarrow> Inr True | Some w \<Rightarrow> PoW_IsValid shorthash w now) (\<lambda>valid.
         if \<not> valid then Inr False
         else let now = now + MAX_INTROSET_TIME_DELTA in
           if \<not> list_all (IntroSet_intro_ok (is_W s) now) (is_I s) then Inr False
           else Inr (\<not> IntroSet_IsExpired s now)))"

subsection \<open>Its codec\<close>

definition IntroSet_entries :: "IntroSet \<Rightarrow> IntroSet entry list" where
  "IntroSet_entries s =
     [(CHR ''a'', dict_wire (ServiceInfo_entries (is_A s)), is_A_update (\<lambda>_. is_A s)),
      (CHR ''i'', list_wire (\<lambda>i. dict_wire (Introduction_entries i)) (is_I s), is_I_update (\<lambda>xs. xs @ is_I s)),
      (CHR ''k'', wire_string (is_K s), is_K_update (\<lambda>_. is_K s)),
      (CHR ''n'', wire_string (is_topic s), is_topic_update (\<lambda>_. is_topic s)),
      (CHR ''t'', wire_int (is_T s), is_T_update (\<lambda>_. is_T s)),
      (CHR ''v'', wire_int (is_version s), is_version_update (\<lambda>_. is_version s))] @
     (case is_W s of None \<Rightarrow> [] | Some w \<Rightarrow>
        [(CHR ''w'', dict_wire ([] :: PoW entry list), is_W_update (\<lambda>_. Some PoW_init))]) @
     [(CHR ''z'', wire_string (is_Z s), is_Z_update (\<lambda>_. is_Z s))]"

definition IntroSet_valid :: "(byte list \<Rightarrow> aligned) \<Rightarrow> IntroSet \<Rightarrow> bool" where
  "IntroSet_valid hash s \<longleftrightarrow> ServiceInfo_valid hash (is_A s) \<and> (\<forall>i \<in> set (is_I s). Introduction_valid i) \<and>
     length (is_K s) = 1218 \<and> length (is_topic s) = 16 \<and> length (is_Z s) = 64 \<and>
     (is_W s = None \<or> is_W s = Some PoW_init)"

lemma emits_PoW: "emits (PoW_BEncode w) (dict_wire ([] :: PoW entry list))"
  unfolding PoW_BEncode_def by (rule emits_dict [where ws = "[]"]) simp_all

lemma decode_PoW: "wf_buf b \<Longrightarrow> remaining b = dict_wire ([] :: PoW entry list) @ rest \<Longrightarrow>
   decode_PoW_field (s, b) =
     Inr (True, (s\<lparr>is_W := Some PoW_init\<rparr>, advance (length (dict_wire ([] :: PoW entry list))) b))"
  using decode_dict_all [of PoW_DecodeKey PoW_init "[]" b rest] by (simp add: decode_PoW_field_def)

lemma IntroSet_decodes:
  assumes "IntroSet_valid hash s" and "is_A m = ServiceInfo_init"
  shows "decodes_all (IntroSet_DecodeKey hash) m (IntroSet_entries s)"
proof -
  have v: "length (is_K s) = 1218" "length (is_topic s) = 16" "length (is_Z s) = 64"
    "ServiceInfo_valid hash (is_A s)" "\<And>i. i \<in> set (is_I s) \<Longrightarrow> Introduction_valid i"
    using assms(1) by (simp_all add: IntroSet_valid_def)
  note IS = IntroSet_DecodeKey_def key_simps v assms(2)
  have w: "decodes (IntroSet_DecodeKey hash)
      (CHR ''w'', dict_wire ([] :: PoW entry list), is_W_update (\<lambda>_. Some PoW_init))"
    by (rule decodesI) (simp add: IS decode_PoW)
  have z: "decodes (IntroSet_DecodeKey hash) (CHR ''z'', wire_string (is_Z s), is_Z_update (\<lambda>_. is_Z s))"
    by (rule decodesI) (simp add: IS)
  have a: "decodes_at (IntroSet_DecodeKey hash) m
      (CHR ''a'', dict_wire (ServiceInfo_entries (is_A s)), is_A_update (\<lambda>_. is_A s))"
    by (rule decodes_atI) (simp add: IS service_info.decode_wire [OF v(4)])
  have "decodes (IntroSet_DecodeKey hash) e" if "e \<in> set (tl (IntroSet_entries s))" for e
  proof -
    have i: "decodes (IntroSet_DecodeKey hash)
        (CHR ''i'', list_wire (\<lambda>i. dict_wire (Introduction_entries i)) (is_I s), is_I_update (\<lambda>xs. xs @ is_I s))"
      by (rule decodesI) (simp add: IS decode_field_def introduction.list_field_decode [OF v(5)])
    have "decodes (IntroSet_DecodeKey hash) (CHR ''k'', wire_string (is_K s), is_K_update (\<lambda>_. is_K s))"
      "decodes (IntroSet_DecodeKey hash) (CHR ''n'', wire_string (is_topic s), is_topic_update (\<lambda>_. is_topic s))"
      "decodes (IntroSet_DecodeKey hash) (CHR ''t'', wire_int (is_T s), is_T_update (\<lambda>_. is_T s))"
      "decodes (IntroSet_DecodeKey hash) (CHR ''v'', wire_int (is_version s), is_version_update (\<lambda>_. is_version s))"
      by (rule decodesI, simp add: IS)+
    with that i w z show ?thesis by (auto simp: IntroSet_entries_def split: option.splits)
  qed
  moreover have "IntroSet_entries s =
      (CHR ''a'', dict_wire (ServiceInfo_entries (is_A s)), is_A_update (\<lambda>_. is_A s)) # tl (IntroSet_entries s)"
    by (simp add: IntroSet_entries_def)
  ultimately show ?thesis using a by (metis decodes_all.simps(2) decodes_all_decodes)
qed

lemma IntroSet_emits:
  assumes "IntroSet_valid hash s"
  shows "emits (IntroSet_BEncode s) (dict_wire (IntroSet_entries s))"
proof -
  have W: "emits (case is_W s of None \<Rightarrow> all_steps [] | Some w \<Rightarrow> BEncodeWriteDictEntry (CHR ''w'') (PoW_BEncode w))
    (case is_W s of None \<Rightarrow> [] | Some w \<Rightarrow> wire_string [ch CHR ''w''] @ dict_wire ([] :: PoW entry list))"
    using emits_dict_entries(1) [OF emits_PoW, of "CHR ''w''"] emits_all_steps_Nil by (auto split: option.split)
  have "\<And>i. i \<in> set (is_I s) \<Longrightarrow> Introduction_valid i" using assms by (simp add: IntroSet_valid_def)
  then have I: "emits (BEncodeWriteList Introduction_BEncode (is_I s))
      (list_wire (\<lambda>i. dict_wire (Introduction_entries i)) (is_I s))"
    by (rule introduction.list_field_emits)
  show ?thesis unfolding IntroSet_BEncode_def
    by (rule emits_dict, rule emit_intros, (rule W I ServiceInfo_emits emit_intros)+)
      (use assms in \<open>auto simp: IntroSet_entries_def IntroSet_valid_def Tag_ToString_def split: option.split\<close>)
qed

interpretation introset: bencode_codec IntroSet_BEncode "IntroSet_BDecode hash"
  "\<lambda>s. dict_wire (IntroSet_entries s)" "IntroSet_valid hash" IntroSet_init for hash
proof
  fix s b rest assume v: "IntroSet_valid hash s" and b: "wf_buf b" "remaining b = dict_wire (IntroSet_entries s) @ rest"
  have "apply_entries (IntroSet_entries s) IntroSet_init = s"
    using v by (auto simp: IntroSet_entries_def IntroSet_init_def IntroSet_valid_def split: option.splits)
  moreover have "decodes_all (IntroSet_DecodeKey hash) IntroSet_init (IntroSet_entries s)"
    using v by (rule IntroSet_decodes) (simp add: IntroSet_init_def)
  ultimately show "IntroSet_BDecode hash (IntroSet_init, b) =
      Inr (True, (s, advance (length (dict_wire (IntroSet_entries s))) b))"
    unfolding IntroSet_BDecode_def using b by (metis decode_dict_all)
qed (erule IntroSet_emits, rule dict_wire_head)

section \<open>Properties\<close>

text \<open>
  C18: An intro set written by \<^verbatim>\<open>IntroSet::BEncode\<close> is read back by \<^verbatim>\<open>IntroSet::BDecode\<close> with all its introductions,
  and with the cached address its service info has.
\<close>

theorem IntroSet_roundtrip:
  assumes "IntroSet_valid hash s" and "wf_buf b" and "length (dict_wire (IntroSet_entries s)) < size_left b"
  shows "\<exists>b'. IntroSet_BEncode s b = Inr (True, b') \<and>
    IntroSet_BDecode hash (IntroSet_init, written_window b b') =
      Inr (True, (s, advance (length (dict_wire (IntroSet_entries s))) (written_window b b')))"
  using introset.roundtrip [of hash s b] assms by blast

definition demo_introset :: IntroSet where
  "demo_introset = IntroSet_init\<lparr>is_I := [Introduction_init\<lparr>intro_expiresAt := 20000\<rparr>], is_T := 5\<rparr>"

lemma demo_introset_valid: "IntroSet_valid (\<lambda>_. aligned_Zero 32) demo_introset"
  by (simp add: IntroSet_valid_def demo_introset_def IntroSet_init_def ServiceInfo_valid_def ServiceInfo_init_def
      ServiceInfo_sizes_def Introduction_valid_def Introduction_init_def aligned_Zero_def)

lemma wire_int_le: "length (wire_int i) \<le> 22"
  using length_dec_u64 [of i] by (simp add: wire_int_def)

lemma wire_string_le: "length s < 10000 \<Longrightarrow> length (wire_string s) \<le> length s + 5"
  using length_dec [of "length s" 3] by (simp add: length_wire_string)

lemma length_wire_char: "length (wire_string [c]) = 3"
  by (simp add: length_wire_string dec.simps)

lemma length_dict_wire:
  "length (dict_wire ([] :: 'm entry list)) = 2"
  "length (dict_wire ((k, w, u) # es)) = 3 + length w + length (dict_wire es)"
  by (simp_all add: dict_wire_def length_wire_char)

lemma Introduction_wire_le:
  assumes "Introduction_valid i"
  shows "length (dict_wire (Introduction_entries i)) \<le> 200"
proof -
  have "length (wire_string (intro_router i)) \<le> 37" "length (wire_string (intro_pathID i)) \<le> 21"
    using assms wire_string_le [of "intro_router i"] wire_string_le [of "intro_pathID i"] by (auto simp: Introduction_valid_def)
  then show ?thesis
    using wire_int_le [of "intro_latency i"] wire_int_le [of "intro_version i"] wire_int_le [of "intro_expiresAt i"]
    by (simp add: length_dict_wire Introduction_entries_def)
qed

lemma length_concat_le: "(\<And>x. x \<in> set xs \<Longrightarrow> length (f x) \<le> c) \<Longrightarrow> length (concat (map f xs)) \<le> c * length xs"
  by (induction xs) (simp, fastforce)

lemma IntroSet_wire_le:
  assumes "IntroSet_valid hash s" and "is_W s = None"
  shows "length (dict_wire (IntroSet_entries s)) \<le> 1800 + 200 * length (is_I s)"
proof -
  have v: "length (is_K s) = 1218" "length (is_topic s) = 16" "length (is_Z s) = 64" "ServiceInfo_sizes (is_A s)"
    using assms by (auto simp: IntroSet_valid_def ServiceInfo_valid_def)
  have "length (wire_string (is_K s)) \<le> 1223" "length (wire_string (is_topic s)) \<le> 21" "length (wire_string (is_Z s)) \<le> 69"
    using v wire_string_le [of "is_K s"] wire_string_le [of "is_topic s"] wire_string_le [of "is_Z s"] by simp_all
  moreover have "length (list_wire (\<lambda>i. dict_wire (Introduction_entries i)) (is_I s)) \<le> 2 + 200 * length (is_I s)"
    using length_concat_le [of "is_I s" "\<lambda>i. dict_wire (Introduction_entries i)" 200] Introduction_wire_le assms
    by (simp add: list_wire_def IntroSet_valid_def)
  ultimately show ?thesis
    using ServiceInfo_wire_fits [OF v(4)] wire_int_le [of "is_T s"] wire_int_le [of "is_version s"] assms(2)
    by (simp add: IntroSet_entries_def length_dict_wire)
qed

lemma demo_introset_fits: "length (dict_wire (IntroSet_entries demo_introset)) < 4096"
  using IntroSet_wire_le [OF demo_introset_valid] by (simp add: demo_introset_def IntroSet_init_def)

theorem IntroSet_roundtrip_witness:
  "\<exists>b'. IntroSet_BEncode demo_introset (buffer_of (replicate 4096 0)) = Inr (True, b') \<and>
    IntroSet_BDecode (\<lambda>_. aligned_Zero 32) (IntroSet_init, written_window (buffer_of (replicate 4096 0)) b') =
      Inr (True, (demo_introset, advance (length (dict_wire (IntroSet_entries demo_introset)))
        (written_window (buffer_of (replicate 4096 0)) b')))"
  by (rule IntroSet_roundtrip [OF demo_introset_valid wf_buffer_of])
    (use demo_introset_fits in \<open>simp add: size_left_def buffer_of_def\<close>)

lemma foldl_max_in:
  fixes t0 :: u64
  shows "foldl (\<lambda>t i. max (f i) t) t0 xs = t0 \<or> (\<exists>x \<in> set xs. foldl (\<lambda>t i. max (f i) t) t0 xs = f x)"
proof (induction xs arbitrary: t0)
  case (Cons x xs)
  from Cons [of "max (f x) t0"] show ?case by (auto simp: max_def)
qed simp

lemma GetNewestIntroExpiration_spec:
  "IntroSet_GetNewestIntroExpiration s = 0 \<or> (\<exists>i \<in> set (is_I s). IntroSet_GetNewestIntroExpiration s = intro_expiresAt i)"
  unfolding IntroSet_GetNewestIntroExpiration_def by (rule foldl_max_in)

lemma IntroSet_Verify_True:
  assumes "IntroSet_Verify verify shorthash s now = Inr True"
  shows "\<exists>b. IntroSet_BEncode (s\<lparr>is_Z := aligned_Zero 64\<rparr>) (buffer_of (replicate 4096 0)) = Inr (True, b) \<and>
      verify (si_signkey (is_A s)) (consumed b) (is_Z s)"
    and "i \<in> set (is_I s) \<Longrightarrow> IntroSet_intro_ok (is_W s) (now + MAX_INTROSET_TIME_DELTA) i"
    and "now + MAX_INTROSET_TIME_DELTA \<le> IntroSet_GetNewestIntroExpiration s"
  using assms
  by (auto simp: IntroSet_Verify_def bind_res_def IntroSet_IsExpired_def list_all_iff Let_def
      split: sum.splits prod.splits if_splits option.splits)

text \<open>
  C25: An intro set that \<^verbatim>\<open>IntroSet::Verify\<close> accepts without proof of work is signed over its encoding with a
  zero signature, none of its introductions lives longer than ten minutes and ten seconds from now, and
  one of them lives for at least ten more seconds: the clock skew shortens the accepted lifetime.
\<close>

theorem verified_introset_lifetime:
  assumes v: "IntroSet_Verify verify shorthash s now = Inr True" and "is_W s = None"
    and fits: "unat now + 610000 < 2 ^ 64"
  shows "(\<exists>b. IntroSet_BEncode (s\<lparr>is_Z := aligned_Zero 64\<rparr>) (buffer_of (replicate 4096 0)) = Inr (True, b) \<and>
      verify (si_signkey (is_A s)) (consumed b) (is_Z s)) \<and>
    (\<forall>i \<in> set (is_I s). unat (intro_expiresAt i) \<le> unat now + 610000) \<and>
    (\<exists>i \<in> set (is_I s). unat now + 10000 \<le> unat (intro_expiresAt i))"
proof (intro conjI ballI)
  have "unat (now + 10000) = unat now + unat (10000 :: u64)"
    using fits by (intro unat_add_lem [THEN iffD1]) simp
  then have n: "unat (now + MAX_INTROSET_TIME_DELTA) = unat now + 10000"
    by (simp add: MAX_INTROSET_TIME_DELTA_def)
  show "\<exists>b. IntroSet_BEncode (s\<lparr>is_Z := aligned_Zero 64\<rparr>) (buffer_of (replicate 4096 0)) = Inr (True, b) \<and>
      verify (si_signkey (is_A s)) (consumed b) (is_Z s)"
    using v by (rule IntroSet_Verify_True(1))
  show "unat (intro_expiresAt i) \<le> unat now + 610000" if "i \<in> set (is_I s)" for i
  proof -
    from IntroSet_Verify_True(2) [OF v that] \<open>is_W s = None\<close>
    have "\<not> (intro_expiresAt i > now + MAX_INTROSET_TIME_DELTA \<and>
        intro_expiresAt i - (now + MAX_INTROSET_TIME_DELTA) > default_lifetime)"
      by (auto simp: IntroSet_intro_ok_def split: if_splits)
    then have "unat (intro_expiresAt i) \<le> unat now + 10000 \<or>
        unat (intro_expiresAt i) - (unat now + 10000) \<le> 600000"
      by (auto simp: word_less_nat_alt word_le_nat_alt n unat_sub default_lifetime_def not_less)
    then show ?thesis by linarith
  qed
  have "unat now + 10000 \<le> unat (IntroSet_GetNewestIntroExpiration s)"
    using IntroSet_Verify_True(3) [OF v] by (simp add: word_le_nat_alt n)
  then show "\<exists>i \<in> set (is_I s). unat now + 10000 \<le> unat (intro_expiresAt i)"
    using GetNewestIntroExpiration_spec [of s] by auto
qed

lemma IntroSet_Verify_encoded:
  assumes "IntroSet_valid hash (s\<lparr>is_Z := aligned_Zero 64\<rparr>)"
    and "length (dict_wire (IntroSet_entries (s\<lparr>is_Z := aligned_Zero 64\<rparr>))) < 4096" and "is_W s = None"
  shows "IntroSet_Verify verify shorthash s now = Inr
    (verify (si_signkey (is_A s)) (dict_wire (IntroSet_entries (s\<lparr>is_Z := aligned_Zero 64\<rparr>))) (is_Z s) \<and>
     list_all (IntroSet_intro_ok None (now + MAX_INTROSET_TIME_DELTA)) (is_I s) \<and>
     \<not> IntroSet_IsExpired s (now + MAX_INTROSET_TIME_DELTA))"
proof -
  let ?b = "buffer_of (replicate 4096 0)"
  have "wf_buf ?b" "size_left ?b = 4096" "consumed ?b = []"
    by (simp_all add: size_left_def buffer_of_def wf_buf_def consumed_def)
  with IntroSet_emits [OF assms(1)] assms(2) obtain b' where
    "IntroSet_BEncode (s\<lparr>is_Z := aligned_Zero 64\<rparr>) ?b = Inr (True, b')"
    "consumed b' = dict_wire (IntroSet_entries (s\<lparr>is_Z := aligned_Zero 64\<rparr>))"
    unfolding emits_def by fastforce
  with assms(3) show ?thesis by (simp add: IntroSet_Verify_def Let_def)
qed

theorem verified_introset_lifetime_witness:
  "(\<exists>b. IntroSet_BEncode (demo_introset\<lparr>is_Z := aligned_Zero 64\<rparr>) (buffer_of (replicate 4096 0)) = Inr (True, b) \<and>
      consumed b \<noteq> []) \<and>
    unat (20000 :: u64) \<le> unat (5000 :: u64) + 610000 \<and> unat (5000 :: u64) + 10000 \<le> unat (20000 :: u64)"
proof -
  have z: "demo_introset\<lparr>is_Z := aligned_Zero 64\<rparr> = demo_introset"
    by (simp add: demo_introset_def IntroSet_init_def)
  have w: "is_W demo_introset = None" and i: "map intro_expiresAt (is_I demo_introset) = [20000]"
    by (simp_all add: demo_introset_def IntroSet_init_def)
  have "list_all (IntroSet_intro_ok None (5000 + MAX_INTROSET_TIME_DELTA)) (is_I demo_introset) \<and>
     \<not> IntroSet_IsExpired demo_introset (5000 + MAX_INTROSET_TIME_DELTA)"
    by code_simp
  moreover have "dict_wire (IntroSet_entries demo_introset) \<noteq> []" by (simp add: dict_wire_def)
  ultimately have "IntroSet_Verify (\<lambda>k m z. m \<noteq> []) (\<lambda>_. None) demo_introset 5000 = Inr True"
    using IntroSet_Verify_encoded [of "\<lambda>_. aligned_Zero 32" demo_introset "\<lambda>k m z. m \<noteq> []" "\<lambda>_. None" 5000,
        unfolded z, OF demo_introset_valid demo_introset_fits w]
    by simp
  from verified_introset_lifetime [OF this w] i show ?thesis by auto
qed

text \<open> The order \<^verbatim>\<open>operator<\<close> that introductions are kept in by ordered containers is not asymmetric: it is the
  disjunction of the comparisons of the fields, so two introductions can each be less than the other.
\<close>

theorem introduction_order_is_not_asymmetric:
  "Introduction_less (Introduction_init\<lparr>intro_latency := 3\<rparr>) (Introduction_init\<lparr>intro_expiresAt := 2\<rparr>) \<and>
   Introduction_less (Introduction_init\<lparr>intro_expiresAt := 2\<rparr>) (Introduction_init\<lparr>intro_latency := 3\<rparr>)"
  by (simp add: Introduction_less_def Introduction_init_def)

end
