(* ===== verification/Net.thy ===== *)
theory Net
  imports Aligned
begin

unbundle bit_operations_syntax

text \<open>
  Address ranges and the bogon test (\<^verbatim>\<open>util/bits.hpp\<close>, \<^verbatim>\<open>net/net.hpp\<close>, \<^verbatim>\<open>net/net.cpp\<close>,
  \<^verbatim>\<open>net/ip_range_map.hpp\<close>) and the address conversions of \<^verbatim>\<open>net/ip.cpp\<close>. \<^verbatim>\<open>huint32_t\<close> and \<^verbatim>\<open>huint128_t\<close> are
  words of that width in host order; \<^verbatim>\<open>in6_addr\<close> is its sixteen bytes.
\<close>

type_synonym huint32 = "32 word"
type_synonym huint128 = "128 word"

section \<open>Bits\<close>

definition count_bits :: "'a::len word \<Rightarrow> nat" where
  "count_bits i = length (filter (bit i) [0..<LENGTH('a)])"

definition count_bits_128 :: "huint128 \<Rightarrow> nat" where
  "count_bits_128 i = count_bits (ucast (drop_bit 64 i) :: 64 word) + count_bits (ucast i :: 64 word)"

definition count_array_bits :: "byte list \<Rightarrow> nat" where
  "count_array_bits bs = foldl (\<lambda>acc v. acc + count_bits v) 0 bs"

section \<open>Ranges\<close>

record IPRange =
  range_addr :: huint128
  range_netmask_bits :: huint128

definition IPRange_Contains :: "IPRange \<Rightarrow> huint128 \<Rightarrow> bool" where
  "IPRange_Contains r ip \<longleftrightarrow> range_addr r AND range_netmask_bits r = ip AND range_netmask_bits r"

definition IPRange_HighestAddr :: "IPRange \<Rightarrow> huint128" where
  "IPRange_HighestAddr r =
     (range_addr r AND range_netmask_bits r) + push_bit (128 - count_bits_128 (range_netmask_bits r)) 1 - 1"

definition IPRange_less :: "IPRange \<Rightarrow> IPRange \<Rightarrow> bool" where
  "IPRange_less r s \<longleftrightarrow> (range_addr r AND range_netmask_bits r) < (range_addr s AND range_netmask_bits s) \<or>
     range_netmask_bits r < range_netmask_bits s"

text \<open>The recursion is called with at most 128 and stops there.\<close>

function netmask_ipv6_from :: "nat \<Rightarrow> huint128" where
  "netmask_ipv6_from numset =
     (if 128 - numset \<noteq> 0 then push_bit numset 1 OR netmask_ipv6_from (numset + 1) else 0)"
  by pat_completeness auto
termination by (relation "measure (\<lambda>n. 128 - n)") auto

declare netmask_ipv6_from.simps [simp del]

definition netmask_ipv6_bits :: "nat \<Rightarrow> huint128" where
  "netmask_ipv6_bits numset = netmask_ipv6_from (128 - numset)"

function netmask_ipv4_from :: "nat \<Rightarrow> huint32" where
  "netmask_ipv4_from numset =
     (if 32 - numset \<noteq> 0 then push_bit numset 1 OR netmask_ipv4_from (numset + 1) else 0)"
  by pat_completeness auto
termination by (relation "measure (\<lambda>n. 32 - n)") auto

declare netmask_ipv4_from.simps [simp del]

definition netmask_ipv4_bits :: "nat \<Rightarrow> huint32" where
  "netmask_ipv4_bits num = netmask_ipv4_from (32 - num)"

definition ipaddr_ipv4_bits :: "u32 \<Rightarrow> u32 \<Rightarrow> u32 \<Rightarrow> u32 \<Rightarrow> huint32" where
  "ipaddr_ipv4_bits a b c d = d OR push_bit 8 c OR push_bit 16 b OR push_bit 24 a"

definition ExpandV4 :: "huint32 \<Rightarrow> huint128" where
  "ExpandV4 i = push_bit 40 0xff OR push_bit 32 0xff OR ucast i"

definition TruncateV6 :: "huint128 \<Rightarrow> huint32" where
  "TruncateV6 i = ucast (i AND 0xffffffff)"

definition IPRange_ContainsV4 :: "IPRange \<Rightarrow> huint32 \<Rightarrow> bool" where
  "IPRange_ContainsV4 r ip = IPRange_Contains r (ExpandV4 ip)"

definition iprange_ipv4 :: "u32 \<Rightarrow> u32 \<Rightarrow> u32 \<Rightarrow> u32 \<Rightarrow> nat \<Rightarrow> IPRange" where
  "iprange_ipv4 a b c d bits =
     \<lparr>range_addr = ExpandV4 (ipaddr_ipv4_bits a b c d), range_netmask_bits = netmask_ipv6_bits (bits + 96)\<rparr>"

section \<open>Bogons\<close>

definition bogonRanges :: "IPRange list" where
  "bogonRanges =
     [iprange_ipv4 0 0 0 0 8, iprange_ipv4 10 0 0 0 8, iprange_ipv4 21 0 0 0 8, iprange_ipv4 100 64 0 0 10,
      iprange_ipv4 127 0 0 0 8, iprange_ipv4 169 254 0 0 8, iprange_ipv4 172 16 0 0 12,
      iprange_ipv4 192 0 0 0 24, iprange_ipv4 192 0 2 0 24, iprange_ipv4 192 88 99 0 24,
      iprange_ipv4 192 168 0 0 16, iprange_ipv4 198 18 0 0 15, iprange_ipv4 198 51 100 0 24,
      iprange_ipv4 203 0 113 0 24, iprange_ipv4 224 0 0 0 4, iprange_ipv4 240 0 0 0 4]"

definition IsIPv4Bogon :: "huint32 \<Rightarrow> bool" where
  "IsIPv4Bogon addr \<longleftrightarrow> list_ex (\<lambda>bogon. IPRange_ContainsV4 bogon addr) bogonRanges"

definition ipv6_is_siit :: "aligned \<Rightarrow> bool" where
  "ipv6_is_siit addr \<longleftrightarrow> addr ! 11 = 0xff \<and> addr ! 10 = 0xff \<and> list_all (\<lambda>i. addr ! i = 0) [0..<10]"

definition IsBogon :: "aligned \<Rightarrow> bool" where
  "IsBogon addr =
     (if \<not> ipv6_is_siit addr then False
      else IsIPv4Bogon (ipaddr_ipv4_bits (ucast (addr ! 12)) (ucast (addr ! 13)) (ucast (addr ! 14)) (ucast (addr ! 15))))"

definition IsBogonRange :: "aligned \<Rightarrow> aligned \<Rightarrow> bool" where
  "IsBogonRange host netmask = IsBogon host"

section \<open>The range map\<close>

type_synonym 'v range_map = "(IPRange \<times> 'v) list"

definition range_map_Values :: "'v range_map \<Rightarrow> 'v set" where
  "range_map_Values m = set (map snd m)"

definition range_map_FindAll :: "'v range_map \<Rightarrow> huint128 \<Rightarrow> 'v set" where
  "range_map_FindAll m addr = set (map snd (filter (\<lambda>e. IPRange_Contains (fst e) addr) m))"

text \<open>\<^verbatim>\<open>forward_list::sort\<close> as an insertion sort; the lookups do not depend on the order.\<close>

fun sort_insert :: "('a \<Rightarrow> 'a \<Rightarrow> bool) \<Rightarrow> 'a \<Rightarrow> 'a list \<Rightarrow> 'a list" where
  "sort_insert lt x [] = [x]"
| "sort_insert lt x (y # ys) = (if lt y x then y # sort_insert lt x ys else x # y # ys)"

definition list_sort :: "('a \<Rightarrow> 'a \<Rightarrow> bool) \<Rightarrow> 'a list \<Rightarrow> 'a list" where
  "list_sort lt xs = foldr (sort_insert lt) xs []"

definition range_map_Insert :: "'v range_map \<Rightarrow> IPRange \<Rightarrow> 'v \<Rightarrow> 'v range_map" where
  "range_map_Insert m addr val = list_sort (\<lambda>l r. IPRange_less (fst l) (fst r)) ((addr, val) # m)"

section \<open>Netmasks\<close>

lemma bit_netmask_ipv6_from: "bit (netmask_ipv6_from n) i \<longleftrightarrow> n \<le> i \<and> i < 128"
proof (induction n rule: netmask_ipv6_from.induct)
  case (1 n)
  show ?case
  proof (cases "128 - n = 0")
    case True
    then show ?thesis by (subst netmask_ipv6_from.simps) simp
  next
    case False
    with 1 show ?thesis
      by (subst netmask_ipv6_from.simps) (auto simp: bit_simps)
  qed
qed

lemma netmask_ipv6_bits_eq: "netmask_ipv6_bits n = NOT (mask (128 - n))"
  by (rule bit_word_eqI) (auto simp: netmask_ipv6_bits_def bit_netmask_ipv6_from bit_simps)

lemma bit_netmask_ipv4_from: "bit (netmask_ipv4_from n) i \<longleftrightarrow> n \<le> i \<and> i < 32"
proof (induction n rule: netmask_ipv4_from.induct)
  case (1 n)
  show ?case
  proof (cases "32 - n = 0")
    case True
    then show ?thesis by (subst netmask_ipv4_from.simps) simp
  next
    case False
    with 1 show ?thesis
      by (subst netmask_ipv4_from.simps) (auto simp: bit_simps)
  qed
qed

text \<open>Masking with a prefix compares the leading bits.\<close>

lemma and_netmask_push_drop:
  fixes a :: huint128
  shows "a AND netmask_ipv6_bits n = push_bit (128 - n) (drop_bit (128 - n) a)"
  by (rule bit_word_eqI) (auto simp: netmask_ipv6_bits_eq bit_simps)

lemma drop_and_netmask:
  fixes a :: huint128
  shows "drop_bit (128 - n) (a AND netmask_ipv6_bits n) = drop_bit (128 - n) a"
  by (rule bit_word_eqI) (auto simp: netmask_ipv6_bits_eq bit_simps dest: bit_imp_le_length)

lemma and_netmask_eq_iff:
  fixes a b :: huint128
  shows "a AND netmask_ipv6_bits n = b AND netmask_ipv6_bits n \<longleftrightarrow> drop_bit (128 - n) a = drop_bit (128 - n) b"
  by (metis and_netmask_push_drop drop_and_netmask)

lemma count_bits_card: "count_bits (w :: 'a::len word) = card {i. i < LENGTH('a) \<and> bit w i}"
proof -
  have "count_bits w = card (set (filter (bit w) [0..<LENGTH('a)]))"
    by (simp add: count_bits_def distinct_card del: set_filter)
  then show ?thesis by (simp add: conj_commute)
qed

lemma count_bits_128_card: "count_bits_128 w = card {i. i < 128 \<and> bit w i}"
proof -
  have lo: "count_bits (ucast w :: 64 word) = card {i. i < 64 \<and> bit w i}"
    by (simp add: count_bits_card bit_simps)
  have "count_bits (ucast (drop_bit 64 w) :: 64 word) = card {i. i < 64 \<and> bit w (64 + i)}"
    by (simp add: count_bits_card bit_simps)
  also have "\<dots> = card ((+) 64 ` {i. i < 64 \<and> bit w (64 + i)})"
    by (simp add: card_image)
  also have "(+) 64 ` {i. i < 64 \<and> bit w (64 + i)} = {i. 64 \<le> i \<and> i < 128 \<and> bit w i}"
  proof (intro set_eqI iffI)
    fix i assume "i \<in> {i. 64 \<le> i \<and> i < 128 \<and> bit w i}"
    then have "i = 64 + (i - 64)" "i - 64 \<in> {i. i < 64 \<and> bit w (64 + i)}" by auto
    then show "i \<in> (+) 64 ` {i. i < 64 \<and> bit w (64 + i)}" by (rule image_eqI)
  qed auto
  finally have "count_bits_128 w = card ({i. 64 \<le> i \<and> i < 128 \<and> bit w i} \<union> {i. i < 64 \<and> bit w i})"
    using lo by (simp add: count_bits_128_def) (subst card_Un_disjoint, auto)
  also have "{i. 64 \<le> i \<and> i < 128 \<and> bit w i} \<union> {i. i < 64 \<and> bit w i} = {i. i < 128 \<and> bit w i}" by auto
  finally show ?thesis .
qed

lemma count_netmask: "n \<le> 128 \<Longrightarrow> count_bits_128 (netmask_ipv6_bits n) = n"
proof -
  assume n: "n \<le> 128"
  have "{i. i < 128 \<and> bit (netmask_ipv6_bits n) i} = {128 - n..<128}"
    by (auto simp: netmask_ipv6_bits_def bit_netmask_ipv6_from)
  with n show ?thesis by (simp add: count_bits_128_card)
qed

lemma unat_split: "unat (w :: huint128) = unat (drop_bit k w) * 2 ^ k + unat (take_bit k w)"
proof -
  have "push_bit k (drop_bit k (unat w)) + take_bit k (unat w) = unat w" by (rule bits_ident)
  then show ?thesis
    unfolding unat_drop_bit_eq unsigned_take_bit_eq push_bit_eq_mult by simp
qed

lemma unat_mask: "unat (mask k :: huint128) = 2 ^ min 128 k - 1"
proof -
  have "int (unat (mask k :: huint128)) = int (2 ^ min 128 k - 1)"
    using uint_mask_eq [of k, where ?'a = 128] by (simp add: mask_eq_exp_minus_1 [where ?'a = int] of_nat_diff)
  then show ?thesis by (simp only: of_nat_eq_iff)
qed

lemma HighestAddr_or:
  assumes "range_netmask_bits r = netmask_ipv6_bits n" and "0 < n" and "n \<le> 128"
  shows "IPRange_HighestAddr r = range_addr r OR mask (128 - n)"
proof -
  let ?k = "128 - n" and ?a = "range_addr r"
  have "IPRange_HighestAddr r = (?a AND NOT (mask ?k)) + mask ?k"
    using assms by (simp add: IPRange_HighestAddr_def count_netmask)
      (simp add: netmask_ipv6_bits_eq mask_eq_exp_minus_1 push_bit_of_1 add_diff_eq)
  also have "\<dots> = (?a AND NOT (mask ?k)) OR mask ?k"
    by (rule disjunctive_add) (auto simp: bit_simps)
  also have "\<dots> = ?a OR mask ?k"
    by (rule bit_word_eqI) (auto simp: bit_simps)
  finally show ?thesis .
qed

lemma HighestAddr_max:
  assumes r: "range_netmask_bits r = netmask_ipv6_bits n" "0 < n" "n \<le> 128"
  shows "IPRange_Contains r (IPRange_HighestAddr r)"
    and "IPRange_Contains r ip \<Longrightarrow> ip \<le> IPRange_HighestAddr r"
proof -
  let ?k = "128 - n" and ?h = "IPRange_HighestAddr r"
  have d: "drop_bit ?k ?h = drop_bit ?k (range_addr r)"
    by (rule bit_word_eqI) (auto simp: HighestAddr_or [OF r] bit_simps)
  have t: "take_bit ?k ?h = mask ?k"
    by (rule bit_word_eqI) (auto simp: HighestAddr_or [OF r] bit_simps)
  show "IPRange_Contains r ?h" by (simp add: IPRange_Contains_def r(1) and_netmask_eq_iff d)
  show "ip \<le> ?h" if "IPRange_Contains r ip"
  proof -
    from that have "drop_bit ?k ip = drop_bit ?k ?h"
      by (simp add: IPRange_Contains_def r(1) and_netmask_eq_iff d)
    moreover have "unat (take_bit ?k ip) \<le> unat (take_bit ?k ?h)"
    proof -
      have "unat (take_bit ?k ip) < 2 ^ ?k" by (simp add: unsigned_take_bit_eq)
      moreover have "unat (take_bit ?k ?h) = 2 ^ ?k - 1"
        unfolding t using r by (simp add: unat_mask min_def)
      ultimately show ?thesis by simp
    qed
    ultimately show ?thesis
      using unat_split [of ip ?k] unat_split [of ?h ?k] by (simp add: word_le_nat_alt)
  qed
qed

section \<open>Bogon ranges over octets\<close>

lemma drop_bit_eq_iff:
  fixes a b :: "'a::len word"
  shows "drop_bit k a = drop_bit k b \<longleftrightarrow> (\<forall>i. bit a (k + i) = bit b (k + i))"
proof
  assume "drop_bit k a = drop_bit k b"
  then have "bit (drop_bit k a) i = bit (drop_bit k b) i" for i by simp
  then show "\<forall>i. bit a (k + i) = bit b (k + i)" by (simp only: bit_drop_bit_eq comp_def) blast
qed (auto intro: bit_word_eqI simp: bit_drop_bit_eq)

lemma drop_bit_ExpandV4:
  assumes "k \<le> 32"
  shows "drop_bit k (ExpandV4 x) = drop_bit k (ExpandV4 y) \<longleftrightarrow> drop_bit k x = drop_bit k y"
proof -
  have e: "bit (ExpandV4 x) i \<longleftrightarrow> (if i < 32 then bit x i else bit (ExpandV4 0) i)" for x i
    unfolding ExpandV4_def bit_or_iff
    by (simp only: bit_push_bit_iff) (auto simp: bit_simps dest: bit_imp_le_length)
  have o: "\<not> bit x i \<and> \<not> bit y i" if "32 \<le> i" for i
    using that bit_imp_le_length [of x i] bit_imp_le_length [of y i] by auto
  have "(\<forall>i. bit (ExpandV4 x) (k + i) = bit (ExpandV4 y) (k + i)) \<longleftrightarrow> (\<forall>i. bit x (k + i) = bit y (k + i))"
    using e [of x] e [of y] o by (metis not_le)
  then show ?thesis by (simp add: drop_bit_eq_iff)
qed

lemma ContainsV4_iff:
  "m \<le> 32 \<Longrightarrow> IPRange_ContainsV4 (iprange_ipv4 a b c d m) ip \<longleftrightarrow>
     drop_bit (32 - m) (ipaddr_ipv4_bits a b c d) = drop_bit (32 - m) ip"
  by (simp add: IPRange_ContainsV4_def IPRange_Contains_def iprange_ipv4_def and_netmask_eq_iff
      drop_bit_ExpandV4)

definition octets :: "byte \<Rightarrow> byte \<Rightarrow> byte \<Rightarrow> byte \<Rightarrow> huint32" where
  "octets a b c d = ipaddr_ipv4_bits (ucast a) (ucast b) (ucast c) (ucast d)"

lemma ContainsV4_octets:
  fixes a b c d :: byte
  shows "m \<le> 32 \<Longrightarrow> IPRange_ContainsV4 (iprange_ipv4 (ucast a) (ucast b) (ucast c) (ucast d) m) ip \<longleftrightarrow>
     drop_bit (32 - m) (octets a b c d) = drop_bit (32 - m) ip"
  by (simp add: ContainsV4_iff octets_def)

lemma octets_24: "drop_bit 24 (octets a b c d) = ucast a"
  unfolding octets_def ipaddr_ipv4_bits_def
  by (rule bit_word_eqI) (auto simp: bit_simps dest: bit_imp_le_length)

lemma octets_16: "drop_bit 16 (octets a b c d) = push_bit 8 (ucast a) OR ucast b"
  unfolding octets_def ipaddr_ipv4_bits_def
  by (rule bit_word_eqI) (auto simp: bit_simps dest: bit_imp_le_length)

lemma octets_20: "drop_bit 20 (octets a b c d) = push_bit 4 (ucast a) OR ucast (drop_bit 4 b)"
  unfolding octets_def ipaddr_ipv4_bits_def
  by (rule bit_word_eqI) (auto simp: bit_simps dest: bit_imp_le_length)

lemma IsIPv4BogonI:
  "r \<in> set bogonRanges \<Longrightarrow> IPRange_ContainsV4 r ip \<Longrightarrow> IsIPv4Bogon ip"
  by (auto simp: IsIPv4Bogon_def list_ex_iff)

lemma bogon_slash8:
  fixes a b' c' d' :: byte
  assumes "iprange_ipv4 (ucast a) (ucast b') (ucast c') (ucast d') 8 \<in> set bogonRanges"
  shows "IsIPv4Bogon (octets a b c d)"
  by (rule IsIPv4BogonI [OF assms]) (simp add: ContainsV4_octets octets_24)

lemma bogon_169: "IsIPv4Bogon (octets 169 b c d)"
  by (rule bogon_slash8 [of _ 254 0 0]) (simp add: bogonRanges_def)

lemma bogon_10: "IsIPv4Bogon (octets 10 b c d)"
  by (rule bogon_slash8 [of _ 0 0 0]) (simp add: bogonRanges_def)

lemma bogon_127: "IsIPv4Bogon (octets 127 b c d)"
  by (rule bogon_slash8 [of _ 0 0 0]) (simp add: bogonRanges_def)

lemma bogon_192_168: "IsIPv4Bogon (octets 192 168 c d)"
proof (rule IsIPv4BogonI)
  show "iprange_ipv4 (ucast (192 :: byte)) (ucast (168 :: byte)) (ucast (0 :: byte)) (ucast (0 :: byte)) 16
      \<in> set bogonRanges"
    by (simp add: bogonRanges_def)
qed (subst ContainsV4_octets, simp, simp add: octets_16)

lemma bogon_172_16:
  assumes "drop_bit 4 b = 1"
  shows "IsIPv4Bogon (octets 172 b c d)"
proof (rule IsIPv4BogonI)
  show "iprange_ipv4 (ucast (172 :: byte)) (ucast (16 :: byte)) (ucast (0 :: byte)) (ucast (0 :: byte)) 12
      \<in> set bogonRanges"
    by (simp add: bogonRanges_def)
qed (subst ContainsV4_octets, simp, simp add: octets_20 assms)

section \<open>Properties\<close>

text \<open>
  The bogon test refuses every private and loopback address of RFC 1918 and RFC 1122: 10/8,
  127/8, 172.16/12 and 192.168/16, whatever the remaining octets.
\<close>

theorem private_addresses_are_bogons:
  "IsIPv4Bogon (octets 10 b c d) \<and> IsIPv4Bogon (octets 127 b c d) \<and> IsIPv4Bogon (octets 192 168 c d) \<and>
   (drop_bit 4 b = 1 \<longrightarrow> IsIPv4Bogon (octets 172 b c d))"
  by (simp add: bogon_10 bogon_127 bogon_192_168 bogon_172_16)

theorem private_addresses_are_bogons_witness:
  "IsIPv4Bogon (octets 172 18 3 4)"
  using private_addresses_are_bogons [where b = 18 and c = 3 and d = 4] by simp

text \<open>
  The link-local entry of the bogon table is written as 169.254/8, so all of 169/8 is refused, public
  addresses such as 169.1.2.3 included.
\<close>

theorem all_of_169_is_bogon: "IsIPv4Bogon (octets 169 b c d)"
  by (rule bogon_169)

text \<open>
  C30: For a range given by a prefix length, the range contains exactly the addresses with its leading
  bits, and \<^verbatim>\<open>HighestAddr\<close> is the largest of them.
\<close>

theorem range_is_prefix:
  assumes "range_netmask_bits r = netmask_ipv6_bits n" and "0 < n" and "n \<le> 128"
  shows "(IPRange_Contains r ip \<longleftrightarrow> drop_bit (128 - n) (range_addr r) = drop_bit (128 - n) ip) \<and>
    IPRange_Contains r (IPRange_HighestAddr r) \<and>
    (IPRange_Contains r ip \<longrightarrow> ip \<le> IPRange_HighestAddr r)"
  using HighestAddr_max [OF assms] assms(1) by (simp add: IPRange_Contains_def and_netmask_eq_iff)

theorem range_is_prefix_witness:
  "IPRange_Contains \<lparr>range_addr = 0x0a000000, range_netmask_bits = netmask_ipv6_bits 104\<rparr> 0x0a010203 \<longleftrightarrow>
     drop_bit 24 (0x0a000000 :: huint128) = drop_bit 24 0x0a010203"
  using range_is_prefix [of "\<lparr>range_addr = 0x0a000000, range_netmask_bits = netmask_ipv6_bits 104\<rparr>" 104
      "0x0a010203"] by simp

text \<open> \<^verbatim>\<open>IPRange::operator<\<close> is not an ordering: two ranges can each be less than the other, so
  the sort of the range map and any ordered container over ranges are given a comparator outside
  the library's contract.
\<close>

theorem range_order_is_not_asymmetric:
  "\<exists>r s. IPRange_less r s \<and> IPRange_less s r"
proof -
  have "IPRange_less \<lparr>range_addr = 0, range_netmask_bits = 2\<rparr> \<lparr>range_addr = 1, range_netmask_bits = 1\<rparr>"
    "IPRange_less \<lparr>range_addr = 1, range_netmask_bits = 1\<rparr> \<lparr>range_addr = 0, range_netmask_bits = 2\<rparr>"
    by (simp_all add: IPRange_less_def)
  then show ?thesis by blast
qed

section \<open>The range map\<close>

lemma set_sort_insert [simp]: "set (sort_insert lt x ys) = insert x (set ys)"
  by (induction ys) auto

lemma set_list_sort [simp]: "set (list_sort lt xs) = set xs"
  unfolding list_sort_def by (induction xs) auto

lemma FindAll_mem:
  "v \<in> range_map_FindAll m ip \<longleftrightarrow> (\<exists>r. (r, v) \<in> set m \<and> IPRange_Contains r ip)"
  by (force simp: range_map_FindAll_def)

text \<open> A lookup in the range map returns the values of exactly the inserted ranges that contain
  the address; inserting adds its value for the addresses of its range and changes nothing else.
\<close>

theorem range_map_insert_lookup:
  "range_map_FindAll (range_map_Insert m r v) ip =
     (if IPRange_Contains r ip then insert v (range_map_FindAll m ip) else range_map_FindAll m ip)"
  by (simp add: FindAll_mem range_map_Insert_def set_eq_iff) blast

end
