(* ===== verification/Ip.thy ===== *)
theory Ip
  imports Net
begin

unbundle bit_operations_syntax

text \<open>
  IP packets (\<^verbatim>\<open>net/ip.hpp\<close>, \<^verbatim>\<open>net/ip.cpp\<close>): the addresses of a packet and the rewriting of them with incremental
  checksum updates. A packet is its array of 1500 bytes and its size. The casts of the C++ code read and
  write the machine's own words; the model has a little-endian machine, as the code's bit fields have.
\<close>

definition MaxSize :: nat where
  "MaxSize = 1500"

record IPPacket =
  pkt_timestamp :: llarp_time
  pkt_sz :: nat
  pkt_buf :: "byte list"

section \<open>Words in memory\<close>

definition ld16 :: "byte list \<Rightarrow> nat \<Rightarrow> u16" where
  "ld16 m i = ucast (m ! i) OR push_bit 8 (ucast (m ! (i + 1)))"

definition st16 :: "byte list \<Rightarrow> nat \<Rightarrow> u16 \<Rightarrow> byte list" where
  "st16 m i v = m[i := ucast v, i + 1 := ucast (drop_bit 8 v)]"

definition ld32 :: "byte list \<Rightarrow> nat \<Rightarrow> u32" where
  "ld32 m i = ucast (ld16 m i) OR push_bit 16 (ucast (ld16 m (i + 2)))"

definition st32 :: "byte list \<Rightarrow> nat \<Rightarrow> u32 \<Rightarrow> byte list" where
  "st32 m i v = st16 (st16 m i (ucast v)) (i + 2) (ucast (drop_bit 16 v))"

definition bswap16 :: "u16 \<Rightarrow> u16" where
  "bswap16 v = push_bit 8 v OR drop_bit 8 v"

definition bswap32 :: "u32 \<Rightarrow> u32" where
  "bswap32 v = push_bit 16 (ucast (bswap16 (ucast v))) OR ucast (bswap16 (ucast (drop_bit 16 v)))"

section \<open>Headers\<close>

definition Version :: "IPPacket \<Rightarrow> byte" where
  "Version p = drop_bit 4 (pkt_buf p ! 0)"

definition IsV4 :: "IPPacket \<Rightarrow> bool" where
  "IsV4 p \<longleftrightarrow> Version p = 4"

definition IsV6 :: "IPPacket \<Rightarrow> bool" where
  "IsV6 p \<longleftrightarrow> Version p = 6"

definition srcv4 :: "IPPacket \<Rightarrow> huint32" where
  "srcv4 p = bswap32 (ld32 (pkt_buf p) 12)"

definition dstv4 :: "IPPacket \<Rightarrow> huint32" where
  "dstv4 p = bswap32 (ld32 (pkt_buf p) 16)"

definition In6ToHUInt :: "byte list \<Rightarrow> huint128" where
  "In6ToHUInt a = ucast (bswap32 (ld32 a 12)) OR push_bit 32 (ucast (bswap32 (ld32 a 8))) OR
     push_bit 64 (ucast (bswap32 (ld32 a 4))) OR push_bit 96 (ucast (bswap32 (ld32 a 0)))"

text \<open>\<^verbatim>\<open>ntoh128\<close> and \<^verbatim>\<open>memcpy\<close>: the bytes from the most significant one on.\<close>

definition HUIntToIn6 :: "huint128 \<Rightarrow> byte list" where
  "HUIntToIn6 x = map (\<lambda>i. ucast (drop_bit (8 * (15 - i)) x)) [0..<16]"

definition srcv6 :: "IPPacket \<Rightarrow> huint128" where
  "srcv6 p = (if IsV6 p then In6ToHUInt (drop 8 (pkt_buf p)) else ExpandV4 (srcv4 p))"

definition dstv6 :: "IPPacket \<Rightarrow> huint128" where
  "dstv6 p = (if IsV6 p then In6ToHUInt (drop 24 (pkt_buf p)) else ExpandV4 (dstv4 p))"

definition IPPacket_Load :: "byte list \<Rightarrow> IPPacket \<Rightarrow> bool \<times> IPPacket" where
  "IPPacket_Load pkt p =
     (if length pkt > MaxSize \<or> length pkt = 0 then (False, p)
      else (True, p\<lparr>pkt_sz := length pkt, pkt_buf := pkt @ drop (length pkt) (pkt_buf p)\<rparr>))"

section \<open>Checksum updates\<close>

definition ADD32CS :: "u32 \<Rightarrow> u32" where
  "ADD32CS x = (x AND 0xFFFF) + drop_bit 16 x"

definition SUB32CS :: "u32 \<Rightarrow> u32" where
  "SUB32CS x = (NOT x AND 0xFFFF) + drop_bit 16 (NOT x)"

text \<open>The two folds both routines end with.\<close>

definition fold_sum :: "u32 \<Rightarrow> u16" where
  "fold_sum s =
     (let s1 = (s AND 0xFFFF) + drop_bit 16 s;
          s2 = s1 + drop_bit 16 s1
      in ucast (s2 AND 0xFFFF))"

definition deltaIPv4Checksum :: "u16 \<Rightarrow> u32 \<Rightarrow> u32 \<Rightarrow> u32 \<Rightarrow> u32 \<Rightarrow> u16" where
  "deltaIPv4Checksum old_sum old_src_ip old_dst_ip new_src_ip new_dst_ip =
     fold_sum (ucast old_sum + ADD32CS old_src_ip + ADD32CS old_dst_ip + SUB32CS new_src_ip + SUB32CS new_dst_ip)"

definition deltaIPv6Checksum :: "u16 \<Rightarrow> u32 list \<Rightarrow> u32 list \<Rightarrow> u32 list \<Rightarrow> u32 list \<Rightarrow> u16" where
  "deltaIPv6Checksum old_sum old_src_ip old_dst_ip new_src_ip new_dst_ip =
     fold_sum (ucast old_sum + sum_list (map ADD32CS old_src_ip) + sum_list (map ADD32CS old_dst_ip) +
       sum_list (map SUB32CS new_src_ip) + sum_list (map SUB32CS new_dst_ip))"

text \<open>
  Accesses at an index that is computed from the packet's contents; outside the array they are the fault \<open>OutOfBounds\<close>. The fields
  of the fixed headers are at constant offsets.
\<close>

definition rd :: "byte list \<Rightarrow> nat \<Rightarrow> byte res" where
  "rd m i = (if i < length m then Inr (m ! i) else Inl OutOfBounds)"

definition rd16 :: "byte list \<Rightarrow> nat \<Rightarrow> u16 res" where
  "rd16 m i = (if i + 1 < length m then Inr (ld16 m i) else Inl OutOfBounds)"

definition wr16 :: "byte list \<Rightarrow> nat \<Rightarrow> u16 \<Rightarrow> byte list res" where
  "wr16 m i v = (if i + 1 < length m then Inr (st16 m i v) else Inl OutOfBounds)"

text \<open>
  The writers of the layer-4 checksum. \<open>pld\<close> is the index of the payload in the packet's array, and
  \<open>delta\<close> the update of either address family.
\<close>

definition deltaChecksumTCP :: "(u16 \<Rightarrow> u16) \<Rightarrow> byte list \<Rightarrow> nat \<Rightarrow> nat \<Rightarrow> nat \<Rightarrow> nat \<Rightarrow> byte list res" where
  "deltaChecksumTCP delta m pld psz fragoff chksumoff =
     (if fragoff > chksumoff \<or> psz < chksumoff - fragoff + 2 then Inr m
      else let at = pld + chksumoff - fragoff in
           bind_res (rd16 m at) (\<lambda>old.
             let check = delta old in wr16 m at (if check = 0xFFFF then 0 else check)))"

definition deltaChecksumUDP :: "(u16 \<Rightarrow> u16) \<Rightarrow> byte list \<Rightarrow> nat \<Rightarrow> nat \<Rightarrow> nat \<Rightarrow> byte list res" where
  "deltaChecksumUDP delta m pld psz fragoff =
     (if fragoff > 6 \<or> psz < 6 + 2 then Inr m
      else bind_res (rd16 m (pld + 6)) (\<lambda>check.
             if check = 0 then Inr m else wr16 m (pld + 6) (delta check)))"

definition deltaChecksumL4 :: "(u16 \<Rightarrow> u16) \<Rightarrow> byte \<Rightarrow> byte list \<Rightarrow> nat \<Rightarrow> nat \<Rightarrow> nat \<Rightarrow> byte list res" where
  "deltaChecksumL4 delta proto m pld psz fragoff =
     (if proto = 6 then deltaChecksumTCP delta m pld psz fragoff 16
      else if proto = 17 \<or> proto = 136 then deltaChecksumUDP delta m pld psz fragoff
      else if proto = 33 then deltaChecksumTCP delta m pld psz fragoff 6
      else Inr m)"

definition UpdateIPv4_L4 :: "(u16 \<Rightarrow> u16) \<Rightarrow> IPPacket \<Rightarrow> byte list res" where
  "UpdateIPv4_L4 delta p =
     (let m = pkt_buf p; ihs = unat (m ! 0 AND 0xF) * 4
      in if ihs \<le> pkt_sz p
         then deltaChecksumL4 delta (m ! 9) m ihs (pkt_sz p - ihs) (unat (bswap16 (ld16 m 6) AND 0x1FFF) * 8)
         else Inr m)"

definition UpdateIPv4Address :: "IPPacket \<Rightarrow> u32 \<Rightarrow> u32 \<Rightarrow> IPPacket res" where
  "UpdateIPv4Address p nSrcIP nDstIP =
     (let oSrcIP = ld32 (pkt_buf p) 12; oDstIP = ld32 (pkt_buf p) 16;
          delta = (\<lambda>c. deltaIPv4Checksum c oSrcIP oDstIP nSrcIP nDstIP)
      in bind_res (UpdateIPv4_L4 delta p) (\<lambda>m1.
           let m2 = st16 m1 10 (delta (ld16 m1 10));
               m3 = st32 m2 12 nSrcIP
           in Inr (p\<lparr>pkt_buf := st32 m3 16 nDstIP\<rparr>)))"

text \<open>
  The walk over the IPv6 extension headers. A header is looked at before its length is compared with
  what is left. The result is \<open>None\<close> where the code
  returns, and otherwise the protocol, the payload's index and size, and the fragment offset.
\<close>

function skip_headers :: "byte list \<Rightarrow> byte \<Rightarrow> nat \<Rightarrow> nat \<Rightarrow> nat \<Rightarrow> (byte \<times> nat \<times> nat \<times> nat) option res" where
  "skip_headers m nextproto pld psz fragoff =
     (if nextproto = 0 \<or> nextproto = 43 \<or> nextproto = 60 then
        bind_res (rd m pld) (\<lambda>next. bind_res (rd m (pld + 1)) (\<lambda>len.
          let addlen = (unat len + 1) * 8 in
          if psz < addlen then Inr None
          else skip_headers m next (pld + addlen) (psz - addlen) fragoff))
      else if nextproto = 44 then
        bind_res (rd m pld) (\<lambda>next. bind_res (rd m (pld + 2)) (\<lambda>hi. bind_res (rd m (pld + 3)) (\<lambda>lo.
          let fragoff = unat hi * 256 + unat (lo AND 0xFC) in
          if psz < 8 then Inr None
          else if fragoff \<noteq> 0 then Inr (Some (next, pld + 8, psz - 8, fragoff))
          else skip_headers m next (pld + 8) (psz - 8) fragoff)))
      else Inr (Some (nextproto, pld, psz, fragoff)))"
  by pat_completeness auto
termination by (relation "measure (\<lambda>(m, n, pld, psz, f). psz)") (auto simp: Let_def)

declare skip_headers.simps [simp del]

definition in6_words :: "byte list \<Rightarrow> nat \<Rightarrow> u32 list" where
  "in6_words m i = map (\<lambda>j. ld32 m (i + 4 * j)) [0..<4]"

definition UpdateIPv6Address :: "IPPacket \<Rightarrow> huint128 \<Rightarrow> huint128 \<Rightarrow> IPPacket res" where
  "UpdateIPv6Address p src dst =
     (let ihs = 4 + 4 + 16 + 16 in
      if pkt_sz p \<le> ihs then Inr p
      else
        let m = pkt_buf p;
            oSrcIP = in6_words m 8; oDstIP = in6_words m 24;
            m1 = take 8 m @ HUIntToIn6 src @ HUIntToIn6 dst @ drop 40 m;
            delta = (\<lambda>c. deltaIPv6Checksum c oSrcIP oDstIP (in6_words m1 8) (in6_words m1 24))
        in bind_res (skip_headers m1 (m1 ! 6) ihs (pkt_sz p - ihs) 0) (\<lambda>r.
             case r of
               None \<Rightarrow> Inr (p\<lparr>pkt_buf := m1\<rparr>)
             | Some (nextproto, pld, psz, fragoff) \<Rightarrow>
                 bind_res (deltaChecksumL4 delta nextproto m1 pld psz fragoff) (\<lambda>m2. Inr (p\<lparr>pkt_buf := m2\<rparr>))))"

section \<open>Ones' complement arithmetic\<close>

lemma and_FFFF: "x AND 0xFFFF = take_bit 16 (x :: u32)"
  by (simp add: take_bit_eq_mask mask_eq_exp_minus_1)

lemma unat_u32_add: "unat x + unat y < 4294967296 \<Longrightarrow> unat (x + y :: u32) = unat x + unat y"
  by (simp add: unat_word_ariths)

lemma unat_lo16: "unat (take_bit 16 (x :: u32)) = unat x mod 65536"
  by (simp only: unsigned_take_bit_eq) (simp add: take_bit_eq_mod)

lemma unat_hi16: "unat (drop_bit 16 (x :: u32)) = unat x div 65536"
  by (simp only: unat_drop_bit_eq) (simp add: drop_bit_eq_div)

lemma unat_ADD32CS: "unat (ADD32CS x) = unat x mod 65536 + unat x div 65536"
proof -
  have "unat x div 65536 < 65536" using unat_u32_less [of x] by (simp add: less_mult_imp_div_less)
  then show ?thesis
    unfolding ADD32CS_def and_FFFF
    by (subst unat_u32_add) (simp_all add: unat_lo16 unat_hi16 add_less_mono)
qed

lemma ADD32CS_le: "unat (ADD32CS x) \<le> 131070"
proof -
  have "unat x div 65536 < 65536" using unat_u32_less [of x] by (simp add: less_mult_imp_div_less)
  moreover have "unat x mod 65536 < 65536" by simp
  ultimately show ?thesis unfolding unat_ADD32CS by linarith
qed

lemma unat_not: "unat (NOT (x :: u32)) = 4294967295 - unat x"
proof -
  have "NOT x = 4294967295 - x" by (simp add: not_eq_complement)
  moreover have "x \<le> 4294967295" using unat_u32_less [of x] by (simp add: word_le_nat_alt less_eq_Suc_le [symmetric] del: unat_u32_less)
  ultimately show ?thesis by (simp add: unat_sub)
qed

lemma unat_SUB32CS: "unat (SUB32CS x) = 131070 - unat (ADD32CS x)"
proof -
  have "SUB32CS x = ADD32CS (NOT x)" by (simp add: SUB32CS_def ADD32CS_def)
  moreover have "(4294967295 - n) mod 65536 + (4294967295 - n) div 65536 = 131070 - (n mod 65536 + n div 65536)"
    if "n < 4294967296" for n :: nat
  proof -
    define q r where qr: "q = n div 65536" "r = n mod 65536"
    have q: "q < 65536" using that by (simp add: qr less_mult_imp_div_less)
    have r: "r < 65536" by (simp add: qr)
    have n: "n = q * 65536 + r" by (simp add: qr)
    have "4294967295 - n = (65535 - q) * 65536 + (65535 - r)" using q r n by (simp add: diff_mult_distrib)
    moreover have "((65535 - q) * 65536 + (65535 - r)) mod 65536 = 65535 - r" by (simp add: mod_less)
    moreover have "((65535 - q) * 65536 + (65535 - r)) div 65536 = 65535 - q" by (simp add: div_less)
    ultimately show ?thesis using q r by (simp add: qr [symmetric])
  qed
  ultimately show ?thesis using unat_u32_less [of x] by (simp add: unat_ADD32CS unat_not)
qed

text \<open>Two folds are enough, for any 32-bit sum.\<close>

lemma unat_fold_sum:
  "unat (fold_sum s) mod 65535 = unat s mod 65535" and "s \<noteq> 0 \<Longrightarrow> fold_sum s \<noteq> 0"
proof -
  define n where "n = unat s"
  define n1 where "n1 = n mod 65536 + n div 65536"
  define s1 where "s1 = (s AND 0xFFFF) + drop_bit 16 s"
  have s1: "unat s1 = n1" using unat_ADD32CS [of s] by (simp add: s1_def n1_def n_def ADD32CS_def)
  have n1: "n1 \<le> 131070" using ADD32CS_le [of s] by (simp add: unat_ADD32CS n1_def n_def)
  have s2: "unat (s1 + drop_bit 16 s1) = n1 + n1 div 65536"
    using n1 by (subst unat_u32_add) (simp_all add: unat_hi16 s1)
  have "fold_sum s = ucast (take_bit 16 (s1 + drop_bit 16 s1))"
    by (simp add: fold_sum_def and_FFFF s1_def Let_def)
  then have "unat (fold_sum s) = take_bit 16 (unat (take_bit 16 (s1 + drop_bit 16 s1)))"
    by (simp add: unsigned_ucast_eq)
  also have "\<dots> = (n1 + n1 div 65536) mod 65536"
    by (simp only: unat_lo16 s2) (simp add: take_bit_eq_mod)
  finally have f: "unat (fold_sum s) = (n1 + n1 div 65536) mod 65536" .
  have f2: "unat (fold_sum s) = (if n1 < 65536 then n1 else n1 - 65535)"
  proof (cases "n1 < 65536")
    case False
    then have "n1 div 65536 = 1" using n1 by (simp add: div_nat_eqI)
    then have "unat (fold_sum s) = (n1 + 1) mod 65536" using f by simp
    also have "\<dots> = (n1 - 65535 + 65536) mod 65536" using False by simp
    also have "\<dots> = n1 - 65535" using n1 by (simp add: mod_less)
    finally show ?thesis using False by simp
  qed (simp add: f)
  have "n1 mod 65535 = n mod 65535"
  proof -
    have "n = 65536 * (n div 65536) + n mod 65536" by simp
    also have "\<dots> = 65535 * (n div 65536) + n1" by (simp add: n1_def)
    finally show ?thesis by (metis mod_mult_self4)
  qed
  then show "unat (fold_sum s) mod 65535 = unat s mod 65535"
    using f2 le_mod_geq [of 65535 n1] by (auto simp: n_def [symmetric])
  show "fold_sum s \<noteq> 0" if "s \<noteq> 0"
  proof
    assume "fold_sum s = 0"
    then have "n1 = 0" using f2 by (auto split: if_splits)
    then have "n mod 65536 = 0" "n div 65536 = 0" by (auto simp: n1_def)
    then have "n = 0" by (metis add_0 div_mult_mod_eq mult_0)
    then show False using that by (simp add: n_def unat_eq_0)
  qed
qed

text \<open>The one's-complement weight of an address: the sum of its two halves.\<close>

abbreviation weight :: "u32 \<Rightarrow> nat" where
  "weight x \<equiv> unat (ADD32CS x)"

lemma mod_diff_shift:
  fixes c a b d e :: nat
  assumes "(c + a + b + (131070 - d) + (131070 - e)) mod 65535 = x mod 65535" "d \<le> 131070" "e \<le> 131070"
  shows "(x + d + e) mod 65535 = (c + a + b) mod 65535"
proof -
  have "(x + (d + e)) mod 65535 = (c + a + b + (131070 - d) + (131070 - e) + (d + e)) mod 65535"
    using assms(1) by (metis mod_add_left_eq)
  also have "c + a + b + (131070 - d) + (131070 - e) + (d + e) = (c + a + b) + 4 * 65535"
    using assms(2,3) by simp
  finally show ?thesis unfolding mod_mult_self1 by (simp add: add.assoc)
qed

lemma delta4_sum:
  "unat (ucast c + ADD32CS os + ADD32CS od + SUB32CS ns + SUB32CS nd) =
     unat (c :: u16) + weight os + weight od + (131070 - weight ns) + (131070 - weight nd)"
proof -
  have c: "unat (ucast c :: u32) = unat c" by (simp add: unsigned_ucast_eq take_bit_nat_eq_self less_trans [OF unat_u16_less])
  have b: "weight os \<le> 131070" "weight od \<le> 131070" "unat c \<le> 65535"
    using unat_u16_less [of c] by (simp_all add: ADD32CS_le del: unat_u16_less)
  have 1: "unat (ucast c + ADD32CS os :: u32) = unat c + weight os"
    using b by (subst unat_u32_add) (simp_all add: c)
  have 2: "unat (ucast c + ADD32CS os + ADD32CS od) = unat c + weight os + weight od"
    using b by (subst unat_u32_add) (simp_all add: 1)
  have 3: "unat (ucast c + ADD32CS os + ADD32CS od + SUB32CS ns) =
      unat c + weight os + weight od + (131070 - weight ns)"
    using b by (subst unat_u32_add) (simp_all add: 2 unat_SUB32CS)
  show ?thesis
    using b by (subst unat_u32_add) (simp_all add: 3 unat_SUB32CS)
qed

lemma deltaIPv4Checksum_mod:
  "(unat (deltaIPv4Checksum c os od ns nd) + weight ns + weight nd) mod 65535 =
   (unat c + weight os + weight od) mod 65535"
proof (rule mod_diff_shift)
  show "(unat c + weight os + weight od + (131070 - weight ns) + (131070 - weight nd)) mod 65535 =
      unat (deltaIPv4Checksum c os od ns nd) mod 65535"
    unfolding deltaIPv4Checksum_def unat_fold_sum(1) delta4_sum ..
qed (simp_all add: ADD32CS_le)

section \<open>Words in a packet\<close>

lemma length_st16 [simp]: "length (st16 m i v) = length m"
  by (simp add: st16_def)

lemma length_st32 [simp]: "length (st32 m i v) = length m"
  by (simp add: st32_def)

lemma ld16_st16 [simp]: "i + 1 < length m \<Longrightarrow> ld16 (st16 m i v) i = v"
  unfolding ld16_def st16_def
  by (simp, rule bit_word_eqI) (auto simp: bit_simps)

lemma ld16_st16_other [simp]:
  "j + 1 < i \<or> i + 1 < j \<Longrightarrow> ld16 (st16 m i v) j = ld16 m j"
  by (auto simp: ld16_def st16_def)

lemma ld16_st32 [simp]:
  "i + 3 < length m \<Longrightarrow> ld16 (st32 m i v) i = ucast v"
  "i + 3 < length m \<Longrightarrow> ld16 (st32 m i v) (i + 2) = ucast (drop_bit 16 v)"
  "j + 1 < i \<or> i + 3 < j \<Longrightarrow> ld16 (st32 m i v) j = ld16 m j"
  by (auto simp: st32_def)

lemma unat_ld32: "unat (ld32 m i) = unat (ld16 m (i + 2)) * 65536 + unat (ld16 m i)"
proof -
  have "ld32 m i = ucast (ld16 m i) + push_bit 16 (ucast (ld16 m (i + 2)))"
    unfolding ld32_def by (rule disjunctive_add [symmetric]) (auto simp: bit_simps dest: bit_imp_le_length)
  moreover have lo: "unat (ucast (ld16 m j) :: u32) = unat (ld16 m j)" for j
    by (simp add: unsigned_ucast_eq take_bit_nat_eq_self less_trans [OF unat_u16_less])
  moreover have "unat (push_bit 16 (ucast (ld16 m j)) :: u32) = unat (ld16 m j) * 65536" for j
  proof -
    have "unat (ld16 m j) * 65536 < 4294967296" using unat_u16_less [of "ld16 m j"] by linarith
    then show ?thesis
      by (simp only: unsigned_push_bit_eq lo) (simp add: push_bit_eq_mult take_bit_nat_eq_self)
  qed
  moreover have "unat (ld16 m i) + unat (ld16 m (i + 2)) * 65536 < 4294967296"
    using unat_u16_less [of "ld16 m i"] unat_u16_less [of "ld16 m (i + 2)"] by linarith
  ultimately show ?thesis by (simp add: unat_u32_add)
qed

lemma weight_ld32: "weight (ld32 m i) = unat (ld16 m i) + unat (ld16 m (i + 2))"
proof -
  have "unat (ld16 m i) < 65536" by simp
  then show ?thesis unfolding unat_ADD32CS unat_ld32 by (simp add: mod_less div_less)
qed

lemma weight_halves: "weight x = unat (ucast x :: u16) + unat (ucast (drop_bit 16 x) :: u16)"
proof -
  have "unat x div 65536 < 65536" using unat_u32_less [of x] by (simp add: less_mult_imp_div_less del: unat_u32_less)
  then show ?thesis
    unfolding unat_ADD32CS unsigned_ucast_eq
    by (simp only: unat_hi16) (simp add: take_bit_eq_mod)
qed

definition wf_packet :: "IPPacket \<Rightarrow> bool" where
  "wf_packet p \<longleftrightarrow> length (pkt_buf p) = MaxSize \<and> pkt_sz p \<le> MaxSize"

text \<open>The sum of the 16-bit words of the fixed part of the header; a valid header sums to a multiple of 65535.\<close>

definition header_sum :: "byte list \<Rightarrow> nat" where
  "header_sum m = sum_list (map (\<lambda>i. unat (ld16 m (2 * i))) [0..<10])"

lemma upt_10: "[0..<10] = [0, 1, 2, 3, 4, 5, 6, 7, 8, 9 :: nat]"
  by (simp add: upt_rec)

lemma header_sum_words:
  "header_sum m = unat (ld16 m 0) + unat (ld16 m 2) + unat (ld16 m 4) + unat (ld16 m 6) + unat (ld16 m 8) +
     unat (ld16 m 10) + weight (ld32 m 12) + weight (ld32 m 16)"
  by (simp add: header_sum_def upt_10 weight_ld32)

lemma ld16_take: "take n m' = take n m \<Longrightarrow> j + 1 < n \<Longrightarrow> ld16 m' j = ld16 m j"
  unfolding ld16_def by (metis add_lessD1 nth_take)

lemma wr16_inside:
  assumes "lo \<le> i" and "i + 2 \<le> hi" and "hi \<le> length m"
  shows "\<exists>m'. wr16 m i v = Inr m' \<and> length m' = length m \<and> take lo m' = take lo m \<and> drop hi m' = drop hi m"
  using assms by (auto simp: wr16_def st16_def)

text \<open>The update of the layer-4 checksum changes nothing but bytes of the payload.\<close>

lemma deltaL4_inside:
  assumes "pld + psz \<le> length m"
  shows "\<exists>m'. deltaChecksumL4 delta proto m pld psz fragoff = Inr m' \<and> length m' = length m \<and>
    take pld m' = take pld m \<and> drop (pld + psz) m' = drop (pld + psz) m"
proof -
  have t: "\<exists>m'. deltaChecksumTCP delta m pld psz fragoff off = Inr m' \<and> length m' = length m \<and>
      take pld m' = take pld m \<and> drop (pld + psz) m' = drop (pld + psz) m" for off
  proof (cases "fragoff > off \<or> psz < off - fragoff + 2")
    case False
    then have at: "pld \<le> pld + off - fragoff" "pld + off - fragoff + 2 \<le> pld + psz" by linarith+
    with assms have "rd16 m (pld + off - fragoff) = Inr (ld16 m (pld + off - fragoff))" by (simp add: rd16_def)
    with False wr16_inside [OF at assms] show ?thesis by (simp add: deltaChecksumTCP_def Let_def)
  qed (auto simp: deltaChecksumTCP_def)
  have u: "\<exists>m'. deltaChecksumUDP delta m pld psz fragoff = Inr m' \<and> length m' = length m \<and>
      take pld m' = take pld m \<and> drop (pld + psz) m' = drop (pld + psz) m"
  proof (cases "fragoff > 6 \<or> psz < 6 + 2")
    case False
    then have at: "pld \<le> pld + 6" "pld + 6 + 2 \<le> pld + psz" by linarith+
    with assms have "rd16 m (pld + 6) = Inr (ld16 m (pld + 6))" by (simp add: rd16_def)
    with False wr16_inside [OF at assms] show ?thesis by (simp add: deltaChecksumUDP_def)
  qed (auto simp: deltaChecksumUDP_def)
  show ?thesis using t u by (simp add: deltaChecksumL4_def)
qed

lemma ld32_st32 [simp]: "i + 3 < length m \<Longrightarrow> ld32 (st32 m i v) i = v"
proof -
  assume "i + 3 < length m"
  then have "ld32 (st32 m i v) i = ucast (ucast v :: u16) OR push_bit 16 (ucast (ucast (drop_bit 16 v) :: u16))"
    unfolding ld32_def by (simp only: ld16_st32)
  also have "\<dots> = v" by (rule bit_word_eqI) (auto simp: bit_simps)
  finally show ?thesis .
qed

lemma ld32_st32_other [simp]: "j + 3 < i \<or> i + 3 < j \<Longrightarrow> ld32 (st32 m i v) j = ld32 m j"
  unfolding ld32_def by auto

lemma UpdateIPv4_L4_inside:
  assumes "wf_packet p"
  shows "\<exists>m'. UpdateIPv4_L4 delta p = Inr m' \<and> length m' = length (pkt_buf p) \<and>
    take (unat (pkt_buf p ! 0 AND 0xF) * 4) m' = take (unat (pkt_buf p ! 0 AND 0xF) * 4) (pkt_buf p) \<and>
    drop (pkt_sz p) m' = drop (pkt_sz p) (pkt_buf p)"
proof (cases "unat (pkt_buf p ! 0 AND 0xF) * 4 \<le> pkt_sz p")
  case True
  then have "unat (pkt_buf p ! 0 AND 0xF) * 4 + (pkt_sz p - unat (pkt_buf p ! 0 AND 0xF) * 4) = pkt_sz p" by simp
  with deltaL4_inside [of "unat (pkt_buf p ! 0 AND 0xF) * 4" "pkt_sz p - unat (pkt_buf p ! 0 AND 0xF) * 4" "pkt_buf p"] assms True
  show ?thesis by (simp add: UpdateIPv4_L4_def Let_def wf_packet_def)
qed (simp add: UpdateIPv4_L4_def Let_def)

lemma UpdateIPv4Address_steps:
  assumes "UpdateIPv4Address p ns nd = Inr p'"
  defines "delta \<equiv> \<lambda>c. deltaIPv4Checksum c (ld32 (pkt_buf p) 12) (ld32 (pkt_buf p) 16) ns nd"
  obtains m1 where "UpdateIPv4_L4 delta p = Inr m1"
    and "p' = p\<lparr>pkt_buf := st32 (st32 (st16 m1 10 (delta (ld16 m1 10))) 12 ns) 16 nd\<rparr>"
  using assms by (auto simp: UpdateIPv4Address_def Let_def bind_res_eq_Inr_iff)

lemma Update_header_sum:
  fixes ns nd :: u32
  assumes wf: "wf_packet p" and ihl: "20 \<le> unat (pkt_buf p ! 0 AND 0xF) * 4"
    and up: "UpdateIPv4Address p ns nd = Inr p'"
  defines "m' \<equiv> pkt_buf p'"
  shows "header_sum m' mod 65535 = header_sum (pkt_buf p) mod 65535" and "ld32 m' 12 = ns" and "ld32 m' 16 = nd"
proof -
  define m where "m = pkt_buf p"
  define delta where "delta = (\<lambda>c. deltaIPv4Checksum c (ld32 m 12) (ld32 m 16) ns nd)"
  obtain m1 where l4: "UpdateIPv4_L4 delta p = Inr m1" and m': "m' = st32 (st32 (st16 m1 10 (delta (ld16 m1 10))) 12 ns) 16 nd"
    by (rule UpdateIPv4Address_steps [OF up]) (simp add: m'_def delta_def m_def)
  have len: "length m1 = 1500" and t: "take (unat (pkt_buf p ! 0 AND 0xF) * 4) m1 = take (unat (pkt_buf p ! 0 AND 0xF) * 4) m"
    using UpdateIPv4_L4_inside [OF wf, of delta] wf by (simp_all add: l4 wf_packet_def MaxSize_def m_def)
  have m1: "ld16 m1 j = ld16 m j" if "j + 1 < 20" for j using t by (rule ld16_take) (use that ihl in linarith)
  have low: "ld16 m' j = ld16 m j" if "j + 1 < 10" for j using that by (simp add: m' m1)
  have chk: "ld16 m' 10 = delta (ld16 m 10)" using len by (simp add: m' m1)
  show src: "ld32 m' 12 = ns" and dst: "ld32 m' 16 = nd" using len by (simp_all add: m')
  define X where "X = unat (ld16 m 0) + unat (ld16 m 2) + unat (ld16 m 4) + unat (ld16 m 6) + unat (ld16 m 8)"
  have "header_sum m' = X + (unat (delta (ld16 m 10)) + weight ns + weight nd)"
    unfolding header_sum_words chk src dst X_def by (simp add: low)
  moreover have "header_sum m = X + (unat (ld16 m 10) + weight (ld32 m 12) + weight (ld32 m 16))"
    unfolding header_sum_words X_def by simp
  moreover have "(X + (unat (delta (ld16 m 10)) + weight ns + weight nd)) mod 65535 =
      (X + (unat (ld16 m 10) + weight (ld32 m 12) + weight (ld32 m 16))) mod 65535"
    unfolding delta_def by (intro mod_add_cong deltaIPv4Checksum_mod refl)
  ultimately show "header_sum m' mod 65535 = header_sum (pkt_buf p) mod 65535"
    unfolding m_def [symmetric] by (simp only:)
qed

lemma Update_tcp_check:
  fixes ns nd :: u32
  assumes wf: "wf_packet p" and h: "20 \<le> unat (pkt_buf p ! 0 AND 0xF) * 4"
    and tcp: "pkt_buf p ! 9 = 6" and frag: "bswap16 (ld16 (pkt_buf p) 6) AND 0x1FFF = 0"
    and sz: "unat (pkt_buf p ! 0 AND 0xF) * 4 + 18 \<le> pkt_sz p" and up: "UpdateIPv4Address p ns nd = Inr p'"
  defines "at \<equiv> unat (pkt_buf p ! 0 AND 0xF) * 4 + 16"
  shows "(unat (ld16 (pkt_buf p') at) + weight ns + weight nd) mod 65535 =
    (unat (ld16 (pkt_buf p) at) + weight (ld32 (pkt_buf p) 12) + weight (ld32 (pkt_buf p) 16)) mod 65535"
proof -
  define m where "m = pkt_buf p"
  define delta where "delta = (\<lambda>c. deltaIPv4Checksum c (ld32 m 12) (ld32 m 16) ns nd)"
  obtain m1 where l4: "UpdateIPv4_L4 delta p = Inr m1"
    and m': "pkt_buf p' = st32 (st32 (st16 m1 10 (delta (ld16 m1 10))) 12 ns) 16 nd"
    by (rule UpdateIPv4Address_steps [OF up]) (simp add: delta_def m_def)
  define d where "d = delta (ld16 m at)"
  have len: "length m = 1500" "pkt_sz p \<le> 1500" using wf by (auto simp: wf_packet_def MaxSize_def m_def)
  have at: "36 \<le> at" "at + 1 < 1500" using h sz len(2) by (auto simp: at_def)
  have "UpdateIPv4_L4 delta p = Inr (st16 m at (if d = 0xFFFF then 0 else d))"
    using sz tcp frag len at le_diff_conv2 [of "unat (pkt_buf p ! 0 AND 0xF) * 4" "pkt_sz p" 18]
    by (simp add: UpdateIPv4_L4_def deltaChecksumL4_def deltaChecksumTCP_def m_def [symmetric]
        at_def [folded m_def, symmetric] d_def Let_def rd16_def wr16_def)
  with l4 have "m1 = st16 m at (if d = 0xFFFF then 0 else d)" by simp
  then have m1: "ld16 m1 at = (if d = 0xFFFF then 0 else d)" using at len by simp
  have c: "ld16 (pkt_buf p') at = (if d = 0xFFFF then 0 else d)"
    using at m1 by (simp add: m')
  have d: "unat (if d = 0xFFFF then 0 else d) mod 65535 = unat d mod 65535" by simp
  have "(unat (if d = 0xFFFF then 0 else d) + (weight ns + weight nd)) mod 65535 =
      (unat d + (weight ns + weight nd)) mod 65535"
    using d by (rule mod_add_cong) simp
  also have "\<dots> = (unat (ld16 m at) + weight (ld32 m 12) + weight (ld32 m 16)) mod 65535"
    unfolding d_def delta_def add.assoc [symmetric] by (rule deltaIPv4Checksum_mod)
  finally show ?thesis unfolding c m_def by (simp only: add.assoc)
qed

section \<open>The IPv6 walk stays inside the packet\<close>

lemma skip_headers_safe:
  assumes "length m = 1500" and "pld mod 8 = 0" and "pld + psz \<le> 1500"
  shows "\<exists>r. skip_headers m np pld psz fo = Inr r \<and>
    (\<forall>np' pld' psz' fo'. r = Some (np', pld', psz', fo') \<longrightarrow> pld \<le> pld' \<and> pld' + psz' = pld + psz)"
  using assms
proof (induction m np pld psz fo rule: skip_headers.induct)
  case (1 m np pld psz fo)
  have in_buf: "pld + 3 < 1500"
  proof -
    have "pld \<le> 1500" "pld mod 8 = 0" using "1.prems" by auto
    then show ?thesis by presburger
  qed
  then have r: "rd m pld = Inr (m ! pld)" "rd m (pld + 1) = Inr (m ! (pld + 1))"
    "rd m (pld + 2) = Inr (m ! (pld + 2))" "rd m (pld + 3) = Inr (m ! (pld + 3))"
    using "1.prems"(1) by (simp_all add: rd_def)
  let ?l = "(unat (m ! (pld + 1)) + 1) * 8"
  let ?f = "unat (m ! (pld + 2)) * 256 + unat (m ! (pld + 3) AND 0xFC)"
  consider (opt) "np = 0 \<or> np = 43 \<or> np = 60" | (frag) "np = 44" | (other) "\<not> (np = 0 \<or> np = 43 \<or> np = 60)" "np \<noteq> 44"
    by blast
  then show ?case
  proof cases
    case opt
    show ?thesis
    proof (cases "psz < ?l")
      case True
      with opt r show ?thesis by (subst skip_headers.simps) (simp add: Let_def)
    next
      case False
      have "\<exists>r. skip_headers m (m ! pld) (pld + ?l) (psz - ?l) fo = Inr r \<and>
          (\<forall>np' pld' psz' fo'. r = Some (np', pld', psz', fo') \<longrightarrow> pld + ?l \<le> pld' \<and> pld' + psz' = pld + ?l + (psz - ?l))"
        using "1.prems" False by (intro "1.IH"(1) [OF opt r(1,2) refl]) auto
      then obtain x where "skip_headers m (m ! pld) (pld + ?l) (psz - ?l) fo = Inr x"
        "\<forall>np' pld' psz' fo'. x = Some (np', pld', psz', fo') \<longrightarrow> pld \<le> pld' \<and> pld' + psz' = pld + psz"
        using False by fastforce
      with opt r False show ?thesis by (subst skip_headers.simps) (simp add: Let_def)
    qed
  next
    case frag
    show ?thesis
    proof (cases "psz < 8 \<or> ?f \<noteq> 0")
      case True
      with frag r show ?thesis by (subst skip_headers.simps) (auto simp: Let_def)
    next
      case False
      have "\<exists>r. skip_headers m (m ! pld) (pld + 8) (psz - 8) ?f = Inr r \<and>
          (\<forall>np' pld' psz' fo'. r = Some (np', pld', psz', fo') \<longrightarrow> pld + 8 \<le> pld' \<and> pld' + psz' = pld + 8 + (psz - 8))"
        using "1.prems" False frag r by (intro "1.IH"(2) [OF _ frag r(1,3,4) refl]) auto
      then obtain x where "skip_headers m (m ! pld) (pld + 8) (psz - 8) ?f = Inr x"
        "\<forall>np' pld' psz' fo'. x = Some (np', pld', psz', fo') \<longrightarrow> pld \<le> pld' \<and> pld' + psz' = pld + psz"
        using False by fastforce
      with frag r False show ?thesis by (subst skip_headers.simps) (simp add: Let_def)
    qed
  next
    case other
    then show ?thesis by (subst skip_headers.simps) simp
  qed
qed

lemma length_HUIntToIn6 [simp]: "length (HUIntToIn6 x) = 16"
  by (simp add: HUIntToIn6_def)

section \<open>Properties\<close>

text \<open>
  C23: Rewriting the addresses of an IPv4 packet succeeds and keeps its checksums right. The one's-complement sum of the
  header words is unchanged modulo 65535, so a header with a valid checksum stays valid, and the header then holds
  the new addresses; for an unfragmented TCP segment the checksum field together with the
  pseudo-header's addresses keeps its sum as well.
\<close>

theorem ipv4_rewrite_keeps_checksums:
  fixes ns nd :: u32
  assumes "wf_packet p" and "20 \<le> unat (pkt_buf p ! 0 AND 0xF) * 4"
  defines "h \<equiv> unat (pkt_buf p ! 0 AND 0xF) * 4"
  shows "\<exists>p'. UpdateIPv4Address p ns nd = Inr p' \<and>
    header_sum (pkt_buf p') mod 65535 = header_sum (pkt_buf p) mod 65535 \<and> ld32 (pkt_buf p') 12 = ns \<and> ld32 (pkt_buf p') 16 = nd \<and>
    (pkt_buf p ! 9 = 6 \<and> bswap16 (ld16 (pkt_buf p) 6) AND 0x1FFF = 0 \<and> h + 18 \<le> pkt_sz p \<longrightarrow>
      (unat (ld16 (pkt_buf p') (h + 16)) + weight ns + weight nd) mod 65535 =
      (unat (ld16 (pkt_buf p) (h + 16)) + weight (ld32 (pkt_buf p) 12) + weight (ld32 (pkt_buf p) 16)) mod 65535)"
proof -
  obtain m1 where "UpdateIPv4_L4 (\<lambda>c. deltaIPv4Checksum c (ld32 (pkt_buf p) 12) (ld32 (pkt_buf p) 16) ns nd) p = Inr m1"
    using UpdateIPv4_L4_inside [OF assms(1)] by blast
  then obtain p' where up: "UpdateIPv4Address p ns nd = Inr p'" by (simp add: UpdateIPv4Address_def Let_def)
  from Update_header_sum [OF assms(1,2) up] Update_tcp_check [OF assms(1,2) _ _ _ up] show ?thesis
    unfolding h_def by (intro exI [of _ p']) (simp add: up)
qed

theorem ipv4_rewrite_keeps_checksums_witness:
  "\<exists>p'. UpdateIPv4Address \<lparr>pkt_timestamp = 0, pkt_sz = 40, pkt_buf = 0x45 # replicate 1499 0\<rparr> 7 9 = Inr p' \<and>
     header_sum (pkt_buf p') mod 65535 = header_sum (0x45 # replicate 1499 0) mod 65535 \<and> ld32 (pkt_buf p') 16 = 9"
  using ipv4_rewrite_keeps_checksums [of "\<lparr>pkt_timestamp = 0, pkt_sz = 40, pkt_buf = 0x45 # replicate 1499 0\<rparr>" 7 9]
  by (auto simp: wf_packet_def MaxSize_def)

text \<open>
  C24: Rewriting the addresses of an IPv6 packet never reads or writes outside the packet's array, neither in the walk over the extension
  headers nor at the checksum of the payload, although the walk looks at a header before comparing its length: header lengths are multiples
  of eight, so a header that starts inside the array has its first four bytes there too. A packet that is no longer than the fixed header is
  left alone; in a longer one the header gets the new addresses and otherwise stays, and no byte behind the packet's size changes.
\<close>

theorem ipv6_rewrite_stays_in_bounds:
  assumes "wf_packet p"
  shows "\<exists>p'. UpdateIPv6Address p src dst = Inr p' \<and> wf_packet p' \<and> pkt_sz p' = pkt_sz p \<and>
    (if pkt_sz p \<le> 40 then p' = p else take 40 (pkt_buf p') = take 8 (pkt_buf p) @ HUIntToIn6 src @ HUIntToIn6 dst) \<and>
    drop (pkt_sz p) (pkt_buf p') = drop (pkt_sz p) (pkt_buf p)"
proof (cases "pkt_sz p \<le> 40")
  case True
  with assms show ?thesis by (simp add: UpdateIPv6Address_def)
next
  case False
  define m1 where "m1 = take 8 (pkt_buf p) @ HUIntToIn6 src @ HUIntToIn6 dst @ drop 40 (pkt_buf p)"
  define delta where "delta = (\<lambda>c. deltaIPv6Checksum c (in6_words (pkt_buf p) 8) (in6_words (pkt_buf p) 24) (in6_words m1 8) (in6_words m1 24))"
  have sz: "pkt_sz p \<le> 1500" and len: "length (pkt_buf p) = 1500" "length m1 = 1500"
    using assms by (auto simp: wf_packet_def MaxSize_def m1_def)
  have m1: "take 40 m1 = take 8 (pkt_buf p) @ HUIntToIn6 src @ HUIntToIn6 dst" "drop (pkt_sz p) m1 = drop (pkt_sz p) (pkt_buf p)"
    using len(1) False by (simp_all add: m1_def)
  have "(40 :: nat) mod 8 = 0" "40 + (pkt_sz p - 40) \<le> 1500" using False sz by auto
  from skip_headers_safe [OF len(2) this, of "m1 ! 6" 0]
  obtain r where r: "skip_headers m1 (m1 ! 6) 40 (pkt_sz p - 40) 0 = Inr r"
    and pld: "\<And>np pld psz fo. r = Some (np, pld, psz, fo) \<Longrightarrow> 40 \<le> pld \<and> pld + psz = pkt_sz p"
    using False by auto
  show ?thesis
  proof (cases r)
    case None
    with r False m1 len sz show ?thesis
      by (simp add: UpdateIPv6Address_def Let_def wf_packet_def MaxSize_def m1_def [symmetric])
  next
    case (Some x)
    then obtain np pl psz fo where x: "r = Some (np, pl, psz, fo)" by (cases x) auto
    note p = pld [OF x]
    then obtain m2 where m2: "deltaChecksumL4 delta np m1 pl psz fo = Inr m2" "length m2 = 1500"
      and t: "take pl m2 = take pl m1" and d: "drop (pkt_sz p) m2 = drop (pkt_sz p) m1"
      using deltaL4_inside [of pl psz m1 delta np fo] len sz by auto
    have "take 40 m2 = take 40 m1" using arg_cong [OF t, of "take 40"] p by (simp add: min_absorb1)
    with m2 r x False m1 len sz d show ?thesis
      by (simp add: UpdateIPv6Address_def Let_def wf_packet_def MaxSize_def m1_def [symmetric] delta_def)
  qed
qed

theorem ipv6_rewrite_stays_in_bounds_witness:
  "\<exists>p'. UpdateIPv6Address \<lparr>pkt_timestamp = 0, pkt_sz = 1496, pkt_buf = replicate 1500 0\<rparr> 1 2 = Inr p' \<and> wf_packet p' \<and>
     take 40 (pkt_buf p') = replicate 8 0 @ HUIntToIn6 1 @ HUIntToIn6 2 \<and> drop 1496 (pkt_buf p') = replicate 4 0"
  using ipv6_rewrite_stays_in_bounds [of "\<lparr>pkt_timestamp = 0, pkt_sz = 1496, pkt_buf = replicate 1500 0\<rparr>" 1 2]
  by (auto simp: wf_packet_def MaxSize_def)

end
