(* ===== verification/Contact.thy ===== *)
theory Contact
  imports Introset Net Encode
begin

text \<open>
  What a router publishes about itself: \<^verbatim>\<open>AddressInfo\<close>, \<^verbatim>\<open>ExitInfo\<close>, \<^verbatim>\<open>NetID\<close> and \<^verbatim>\<open>RouterContact\<close>
  (\<^verbatim>\<open>net/address_info.*\<close>, \<^verbatim>\<open>net/exit_info.*\<close>, \<^verbatim>\<open>router_contact.*\<close>). The text form of IPv6 addresses
  (\<^verbatim>\<open>inet_ntop\<close>, \<^verbatim>\<open>inet_pton\<close>) and the signature check are arguments; \<open>inet_ok\<close> says what POSIX
  promises of the pair.
\<close>

type_synonym ntop = "aligned \<Rightarrow> byte list option"
type_synonym pton = "byte list \<Rightarrow> aligned option"

definition inet_ok :: "ntop \<Rightarrow> pton \<Rightarrow> bool" where
  "inet_ok ntop pton \<longleftrightarrow> (\<forall>a. length a = 16 \<longrightarrow>
     (\<exists>t. ntop a = Some t \<and> length t < 46 \<and> 0 \<notin> set t \<and> pton t = Some a))"

section \<open>C strings in a fixed array\<close>

text \<open>
  \<^verbatim>\<open>memcpy(tmp, strbuf.base, strbuf.sz); tmp[strbuf.sz] = 0;\<close> on a zeroed \<^verbatim>\<open>char tmp[128]\<close>, then the C string
  it holds. The terminator is outside the array when the string has 128 bytes.
\<close>

definition c_string :: "byte list \<Rightarrow> byte list" where
  "c_string s = takeWhile (\<lambda>c. c \<noteq> 0) s"

definition tmp128 :: "byte list \<Rightarrow> byte list res" where
  "tmp128 s = (if length s < 128 then Inr (c_string s) else Inl OutOfBounds)"

definition decode_string_field ::
  "(nat \<Rightarrow> bool) \<Rightarrow> (byte list \<Rightarrow> 'm \<Rightarrow> bool \<times> 'm) \<Rightarrow> ('m \<times> llarp_buffer) action" where
  "decode_string_field too_long set_it = (\<lambda>(m, b).
     bind_res (bencode_read_string b) (\<lambda>(r, b').
       case r of
         None \<Rightarrow> Inr (False, (m, b'))
       | Some strbuf \<Rightarrow>
           if too_long (bsz strbuf) then Inr (False, (m, b'))
           else bind_res (load (bsz strbuf) strbuf) (\<lambda>s.
             bind_res (tmp128 s) (\<lambda>t. let (ok, m') = set_it t m in Inr (ok, (m', b'))))))"

definition set_ip :: "pton \<Rightarrow> ((aligned \<Rightarrow> aligned) \<Rightarrow> 'm \<Rightarrow> 'm) \<Rightarrow> byte list \<Rightarrow> 'm \<Rightarrow> bool \<times> 'm" where
  "set_ip pton upd t m = (case pton t of None \<Rightarrow> (False, m) | Some ip \<Rightarrow> (True, upd (\<lambda>_. ip) m))"

section \<open>AddressInfo\<close>

record AddressInfo =
  ai_rank :: u16
  ai_dialect :: "byte list"
  ai_pubkey :: aligned
  ai_ip :: aligned
  ai_port :: u16
  ai_version :: u64

definition AddressInfo_eq :: "AddressInfo \<Rightarrow> AddressInfo \<Rightarrow> bool" where
  "AddressInfo_eq l r \<longleftrightarrow> ai_pubkey l = ai_pubkey r \<and> ai_port l = ai_port r \<and>
     ai_dialect l = ai_dialect r \<and> ai_ip l = ai_ip r"

definition AddressInfo_less :: "AddressInfo \<Rightarrow> AddressInfo \<Rightarrow> bool" where
  "AddressInfo_less l r \<longleftrightarrow> ai_rank l < ai_rank r \<or> ai_ip l < ai_ip r \<or> ai_port l < ai_port r"

text \<open>The test of the rank and of the port: \<^verbatim>\<open>if(i > 65536 || i <= 0) return false;\<close>.\<close>

definition in_16bit_range :: "u64 \<Rightarrow> bool" where
  "in_16bit_range i \<longleftrightarrow> \<not> (i > 65536 \<or> i \<le> 0)"

definition AddressInfo_DecodeKey :: "pton \<Rightarrow> llarp_buffer \<Rightarrow> (AddressInfo \<times> llarp_buffer) action" where
  "AddressInfo_DecodeKey pton key = (\<lambda>(m, b).
     if_key key (str ''c'')
       (decode_int_if in_16bit_range (\<lambda>i. ai_rank_update (\<lambda>_. ucast i)))
     (if_key key (str ''d'')
       (decode_string_field (\<lambda>sz. sz > 128) (\<lambda>t m. (True, m\<lparr>ai_dialect := t\<rparr>)))
     (if_key key (str ''e'') (decode_field (aligned_BDecode 32) ai_pubkey ai_pubkey_update)
     (if_key key (str ''i'') (decode_string_field (\<lambda>sz. sz \<ge> 128) (set_ip pton ai_ip_update))
     (if_key key (str ''p'')
       (decode_int_if in_16bit_range (\<lambda>i. ai_port_update (\<lambda>_. ucast i)))
     (if_key key (str ''v'') (decode_int_if (\<lambda>i. i = LLARP_PROTO_VERSION) (\<lambda>i m. m))
     (\<lambda>(read, m, b). Inr (False, (m, b)))))))) (False, m, b))"

definition AddressInfo_BDecode :: "pton \<Rightarrow> (AddressInfo \<times> llarp_buffer) action" where
  "AddressInfo_BDecode pton = decode_dict (AddressInfo_DecodeKey pton)"

text \<open>A writer whose text may not exist: \<^verbatim>\<open>if(!ipstr) return false;\<close>.\<close>

definition write_optional :: "byte list option \<Rightarrow> (byte list \<Rightarrow> llarp_buffer action) \<Rightarrow> llarp_buffer action" where
  "write_optional t f b = (case t of None \<Rightarrow> Inr (False, b) | Some s \<Rightarrow> f s b)"

definition AddressInfo_BEncode :: "ntop \<Rightarrow> AddressInfo \<Rightarrow> llarp_buffer action" where
  "AddressInfo_BEncode ntop a = all_steps
     (bencode_start_dict #
      [bencode_write_bytestring (str ''c''), bencode_write_uint64 (ucast (ai_rank a)),
       bencode_write_bytestring (str ''d''), bencode_write_bytestring (ai_dialect a),
       bencode_write_bytestring (str ''e''), bencode_write_bytestring (ai_pubkey a),
       write_optional (ntop (ai_ip a)) (\<lambda>ipstr.
         and_then (bencode_write_bytestring (str ''i'')) (bencode_write_bytestring ipstr)),
       bencode_write_bytestring (str ''p''), bencode_write_uint64 (ucast (ai_port a)),
       bencode_write_uint64_entry (str ''v'') LLARP_PROTO_VERSION] @ [bencode_end])"

section \<open>ExitInfo\<close>

record ExitInfo =
  xi_address :: aligned
  xi_netmask :: aligned
  xi_pubkey :: aligned
  xi_version :: u64

definition ExitInfo_init :: ExitInfo where
  "ExitInfo_init = \<lparr>xi_address = aligned_Zero 16, xi_netmask = aligned_Zero 16, xi_pubkey = aligned_Zero 32,
     xi_version = LLARP_PROTO_VERSION\<rparr>"

text \<open>The constructor for an IPv4 exit; the four bytes of the address are in network order.\<close>

definition ExitInfo_ipv4 :: "aligned \<Rightarrow> byte list \<Rightarrow> ExitInfo" where
  "ExitInfo_ipv4 pk ipv4_exit =
     \<lparr>xi_address = replicate 10 0 @ [0xff, 0xff] @ ipv4_exit, xi_netmask = replicate 16 0xff, xi_pubkey = pk,
      xi_version = LLARP_PROTO_VERSION\<rparr>"

definition bdecode_ip_string ::
  "pton \<Rightarrow> ((aligned \<Rightarrow> aligned) \<Rightarrow> 'm \<Rightarrow> 'm) \<Rightarrow> ('m \<times> llarp_buffer) action" where
  "bdecode_ip_string pton upd = decode_string_field (\<lambda>sz. sz \<ge> 128) (set_ip pton upd)"

definition ExitInfo_DecodeKey :: "pton \<Rightarrow> llarp_buffer \<Rightarrow> (ExitInfo \<times> llarp_buffer) action" where
  "ExitInfo_DecodeKey pton k = (\<lambda>(m, b).
     entries_then
       [BEncodeMaybeReadDictEntry (CHR ''k'') (aligned_BDecode 32) xi_pubkey xi_pubkey_update k,
        BEncodeMaybeReadDictInt (CHR ''v'') xi_version_update k]
     (if_key k (str ''a'') (bdecode_ip_string pton xi_address_update)
     (if_key k (str ''b'') (bdecode_ip_string pton xi_netmask_update)
      return_read)) (False, m, b))"

definition ExitInfo_BDecode :: "pton \<Rightarrow> (ExitInfo \<times> llarp_buffer) action" where
  "ExitInfo_BDecode pton = decode_dict (ExitInfo_DecodeKey pton)"

definition ExitInfo_BEncode :: "ntop \<Rightarrow> ExitInfo \<Rightarrow> llarp_buffer action" where
  "ExitInfo_BEncode ntop x = all_steps
     (bencode_start_dict #
      [write_optional (ntop (xi_address x)) (BEncodeWriteDictString (CHR ''a'')),
       write_optional (ntop (xi_netmask x)) (BEncodeWriteDictString (CHR ''b'')),
       BEncodeWriteDictEntry (CHR ''k'') (aligned_BEncode (xi_pubkey x)),
       BEncodeWriteDictInt (CHR ''v'') (xi_version x)] @ [bencode_end])"

section \<open>NetID\<close>

text \<open>A \<^verbatim>\<open>NetID\<close> is eight bytes, a C string padded with NULs; \<open>netid_default\<close> is the configured network.\<close>

definition NetID :: "byte list \<Rightarrow> aligned" where
  "NetID val = (let s = take 8 (c_string val) in s @ replicate (8 - length s) 0)"

definition NetID_ToString :: "aligned \<Rightarrow> byte list" where
  "NetID_ToString n = c_string n"

definition NetID_eq :: "aligned \<Rightarrow> aligned \<Rightarrow> bool" where
  "NetID_eq a b \<longleftrightarrow> NetID_ToString a = NetID_ToString b"

definition NetID_BDecode :: "(aligned \<times> llarp_buffer) action" where
  "NetID_BDecode = (\<lambda>(n, b).
     let n = aligned_Zero 8 in
     bind_res (bencode_read_string b) (\<lambda>(r, b').
       case r of
         None \<Rightarrow> Inr (False, (n, b'))
       | Some strbuf \<Rightarrow>
           if bsz strbuf > 8 then Inr (False, (n, b'))
           else bind_res (load (bsz strbuf) strbuf) (\<lambda>s. Inr (True, (s @ drop (length s) n, b')))))"

definition NetID_BEncode :: "aligned \<Rightarrow> llarp_buffer action" where
  "NetID_BEncode n = bencode_write_bytestring (c_string n)"

section \<open>RouterContact\<close>

record RouterContact =
  rc_addrs :: "AddressInfo list"
  rc_netID :: aligned
  rc_enckey :: aligned
  rc_pubkey :: aligned
  rc_exits :: "ExitInfo list"
  rc_signature :: aligned
  rc_nickname :: aligned
  rc_last_updated :: u64
  rc_version :: u64

definition RouterContact_Clear :: "RouterContact \<Rightarrow> RouterContact" where
  "RouterContact_Clear r = r\<lparr>rc_addrs := [], rc_exits := [], rc_signature := aligned_Zero 64,
     rc_nickname := aligned_Zero 32, rc_enckey := aligned_Zero 32, rc_pubkey := aligned_Zero 32, rc_last_updated := 0\<rparr>"

definition RouterContact_init :: "aligned \<Rightarrow> RouterContact" where
  "RouterContact_init netid_default = \<lparr>rc_addrs = [], rc_netID = netid_default, rc_enckey = aligned_Zero 32,
     rc_pubkey = aligned_Zero 32, rc_exits = [], rc_signature = aligned_Zero 64, rc_nickname = aligned_Zero 32,
     rc_last_updated = 0, rc_version = LLARP_PROTO_VERSION\<rparr>"

definition RouterContact_eq :: "RouterContact \<Rightarrow> RouterContact \<Rightarrow> bool" where
  "RouterContact_eq a b \<longleftrightarrow> list_all2 AddressInfo_eq (rc_addrs a) (rc_addrs b) \<and> rc_enckey a = rc_enckey b \<and>
     rc_pubkey a = rc_pubkey b \<and> rc_signature a = rc_signature b \<and> rc_nickname a = rc_nickname b \<and>
     rc_last_updated a = rc_last_updated b \<and> NetID_eq (rc_netID a) (rc_netID b)"

definition RouterContact_less :: "RouterContact \<Rightarrow> RouterContact \<Rightarrow> bool" where
  "RouterContact_less a b \<longleftrightarrow> rc_pubkey a < rc_pubkey b"

definition RouterContact_IsExit :: "RouterContact \<Rightarrow> bool" where
  "RouterContact_IsExit r \<longleftrightarrow> rc_exits r \<noteq> []"

definition RouterContact_IsPublicRouter :: "RouterContact \<Rightarrow> bool" where
  "RouterContact_IsPublicRouter r \<longleftrightarrow> rc_addrs r \<noteq> []"

definition RouterContact_HasNick :: "RouterContact \<Rightarrow> bool" where
  "RouterContact_HasNick r \<longleftrightarrow> rc_nickname r ! 0 \<noteq> 0"

definition RouterContact_SetNick :: "byte list \<Rightarrow> RouterContact \<Rightarrow> RouterContact" where
  "RouterContact_SetNick nick r =
     (let n = take 32 nick in r\<lparr>rc_nickname := n @ drop (length n) (aligned_Zero 32)\<rparr>)"

definition RouterContact_Nick :: "RouterContact \<Rightarrow> byte list" where
  "RouterContact_Nick r = c_string (rc_nickname r)"

definition RouterContact_IsExpired :: "RouterContact \<Rightarrow> llarp_time \<Rightarrow> bool" where
  "RouterContact_IsExpired r now \<longleftrightarrow> False"

definition RouterContact_Lifetime :: llarp_time where
  "RouterContact_Lifetime = 24 * 60 * 60 * 1000"

definition RouterContact_TimeUntilExpires :: "RouterContact \<Rightarrow> llarp_time \<Rightarrow> llarp_time" where
  "RouterContact_TimeUntilExpires r now =
     (let expiresAt = rc_last_updated r + RouterContact_Lifetime in if now < expiresAt then expiresAt - now else 0)"

definition RouterContact_Age :: "RouterContact \<Rightarrow> llarp_time \<Rightarrow> llarp_time" where
  "RouterContact_Age r now = (if now > rc_last_updated r then now - rc_last_updated r else 0)"

definition RouterContact_ExpiresSoon :: "RouterContact \<Rightarrow> llarp_time \<Rightarrow> llarp_time \<Rightarrow> bool" where
  "RouterContact_ExpiresSoon r now dlt \<longleftrightarrow> RouterContact_TimeUntilExpires r now \<le> dlt"

definition RouterContact_OtherIsNewer :: "RouterContact \<Rightarrow> RouterContact \<Rightarrow> bool" where
  "RouterContact_OtherIsNewer r other \<longleftrightarrow> rc_last_updated r < rc_last_updated other"

definition AddressInfo_init :: AddressInfo where
  "AddressInfo_init = \<lparr>ai_rank = 0, ai_dialect = [], ai_pubkey = aligned_Zero 32, ai_ip = aligned_Zero 16,
     ai_port = 0, ai_version = LLARP_PROTO_VERSION\<rparr>"

definition decode_nick :: "(RouterContact \<times> llarp_buffer) action" where
  "decode_nick = (\<lambda>(r, b).
     bind_res (bencode_read_string b) (\<lambda>(s, b').
       case s of
         None \<Rightarrow> Inr (False, (r, b'))
       | Some strbuf \<Rightarrow>
           if bsz strbuf > 32 then Inr (False, (r, b'))
           else bind_res (load (bsz strbuf) strbuf) (\<lambda>n.
             Inr (True, (r\<lparr>rc_nickname := n @ drop (length n) (aligned_Zero 32)\<rparr>, b')))))"

definition RouterContact_DecodeKey :: "pton \<Rightarrow> llarp_buffer \<Rightarrow> (RouterContact \<times> llarp_buffer) action" where
  "RouterContact_DecodeKey pton key = (\<lambda>(r, b).
     entries_then
       [MaybeReadDictList (CHR ''a'') AddressInfo_init (AddressInfo_BDecode pton) rc_addrs_update rc_addrs key,
        BEncodeMaybeReadDictEntry (CHR ''i'') NetID_BDecode rc_netID rc_netID_update key,
        BEncodeMaybeReadDictEntry (CHR ''k'') (aligned_BDecode 32) rc_pubkey rc_pubkey_update key]
     (if_key key (str ''n'') decode_nick
     (entries_then
       [BEncodeMaybeReadDictEntry (CHR ''p'') (aligned_BDecode 32) rc_enckey rc_enckey_update key,
        BEncodeMaybeReadDictInt (CHR ''u'') rc_last_updated_update key,
        BEncodeMaybeReadDictInt (CHR ''v'') rc_version_update key,
        MaybeReadDictList (CHR ''x'') ExitInfo_init (ExitInfo_BDecode pton) rc_exits_update rc_exits key,
        BEncodeMaybeReadDictEntry (CHR ''z'') (aligned_BDecode 64) rc_signature rc_signature_update key]
      return_read)) (False, r, b))"

definition RouterContact_BDecode :: "pton \<Rightarrow> (RouterContact \<times> llarp_buffer) action" where
  "RouterContact_BDecode pton = (\<lambda>(r, b). decode_dict (RouterContact_DecodeKey pton) (RouterContact_Clear r, b))"

definition RouterContact_BEncode :: "ntop \<Rightarrow> RouterContact \<Rightarrow> llarp_buffer action" where
  "RouterContact_BEncode ntop r = all_steps
     (bencode_start_dict #
      [bencode_write_bytestring (str ''a''), BEncodeWriteList (AddressInfo_BEncode ntop) (rc_addrs r),
       bencode_write_bytestring (str ''i''), NetID_BEncode (rc_netID r),
       bencode_write_bytestring (str ''k''), aligned_BEncode (rc_pubkey r),
       only_if (RouterContact_Nick r \<noteq> [])
         (and_then (bencode_write_bytestring (str ''n'')) (bencode_write_bytestring (RouterContact_Nick r))),
       bencode_write_bytestring (str ''p''), aligned_BEncode (rc_enckey r),
       bencode_write_bytestring (str ''u''), bencode_write_uint64 (rc_last_updated r),
       bencode_write_uint64_entry (str ''v'') (rc_version r),
       bencode_write_bytestring (str ''x''), BEncodeWriteList (ExitInfo_BEncode ntop) (rc_exits r),
       bencode_write_bytestring (str ''z''), aligned_BEncode (rc_signature r)] @ [bencode_end])"

text \<open>The bytes that are signed: the encoding with a zero signature, in an array of \<^verbatim>\<open>MAX_RC_SIZE\<close> bytes.\<close>

definition RouterContact_signed_bytes :: "ntop \<Rightarrow> RouterContact \<Rightarrow> byte list option res" where
  "RouterContact_signed_bytes ntop r =
     bind_res (RouterContact_BEncode ntop (r\<lparr>rc_signature := aligned_Zero 64\<rparr>) (buffer_of (replicate 1024 0))) (\<lambda>(ok, b).
       Inr (if ok then Some (consumed b) else None))"

definition RouterContact_VerifySignature ::
  "ntop \<Rightarrow> (aligned \<Rightarrow> byte list \<Rightarrow> aligned \<Rightarrow> bool) \<Rightarrow> RouterContact \<Rightarrow> bool res" where
  "RouterContact_VerifySignature ntop verify r =
     bind_res (RouterContact_signed_bytes ntop r) (\<lambda>bs.
       case bs of None \<Rightarrow> Inr False | Some bytes \<Rightarrow> Inr (verify (rc_pubkey r) bytes (rc_signature r)))"

definition RouterContact_Sign ::
  "ntop \<Rightarrow> (byte list \<Rightarrow> aligned \<Rightarrow> aligned option) \<Rightarrow> (aligned \<Rightarrow> aligned) \<Rightarrow> llarp_time \<Rightarrow> aligned \<Rightarrow>
     RouterContact action" where
  "RouterContact_Sign ntop sign topublic now secretkey r =
     (let r = r\<lparr>rc_pubkey := topublic secretkey, rc_signature := aligned_Zero 64, rc_last_updated := now\<rparr>
      in bind_res (RouterContact_signed_bytes ntop r) (\<lambda>bs.
           case bs of
             None \<Rightarrow> Inr (False, r)
           | Some bytes \<Rightarrow> (case sign bytes secretkey of
                None \<Rightarrow> Inr (False, r)
              | Some sig \<Rightarrow> Inr (True, r\<lparr>rc_signature := sig\<rparr>))))"

definition RouterContact_Verify ::
  "ntop \<Rightarrow> (aligned \<Rightarrow> byte list \<Rightarrow> aligned \<Rightarrow> bool) \<Rightarrow> aligned \<Rightarrow> bool \<Rightarrow> RouterContact \<Rightarrow> llarp_time \<Rightarrow> bool \<Rightarrow> bool res" where
  "RouterContact_Verify ntop verify netid_default BlockBogons r now allowExpired =
     (if \<not> NetID_eq (rc_netID r) netid_default then Inr False
      else if RouterContact_IsExpired r now \<and> \<not> allowExpired then Inr False
      else if list_ex (\<lambda>a. IsBogon (ai_ip a) \<and> BlockBogons) (rc_addrs r) then Inr False
      else if list_ex (\<lambda>x. IsBogonRange (xi_address x) (xi_netmask x)) (rc_exits r) then Inr False
      else RouterContact_VerifySignature ntop verify r)"

section \<open>Codecs\<close>

lemma c_string_id [simp]: "0 \<notin> set s \<Longrightarrow> c_string s = s"
  unfolding c_string_def by (simp add: takeWhile_eq_all_conv) metis

lemma decode_string_field_hit [key_simps]:
  assumes "wf_buf b" "remaining b = wire_string s @ rest" "length s < 128" "\<not> too_long (length s)"
  shows "decode_string_field too_long set_it (m, b) =
    (let (ok, m') = set_it (c_string s) m in Inr (ok, (m', advance (length (wire_string s)) b)))"
proof -
  have "length s < 10 ^ 9" using assms(3) by simp
  from read_string_key [OF assms(1,2) this]
  obtain kb where kb: "bencode_read_string b = Inr (Some kb, advance (length (wire_string s)) b)"
    "wf_buf kb" "remaining kb = s" "bsz kb = length s"
    by blast
  then have "load (bsz kb) kb = Inr s" by (simp add: load_remaining)
  with kb assms(3,4) show ?thesis by (simp add: decode_string_field_def tmp128_def)
qed

definition AddressInfo_valid :: "AddressInfo \<Rightarrow> bool" where
  "AddressInfo_valid a \<longleftrightarrow> ai_rank a \<noteq> 0 \<and> ai_port a \<noteq> 0 \<and> length (ai_dialect a) < 128 \<and> 0 \<notin> set (ai_dialect a) \<and>
     length (ai_pubkey a) = 32 \<and> length (ai_ip a) = 16 \<and> ai_version a = LLARP_PROTO_VERSION"

definition AddressInfo_entries :: "ntop \<Rightarrow> AddressInfo \<Rightarrow> AddressInfo entry list" where
  "AddressInfo_entries ntop a =
     [(CHR ''c'', wire_int (ucast (ai_rank a)), ai_rank_update (\<lambda>_. ai_rank a)),
      (CHR ''d'', wire_string (ai_dialect a), ai_dialect_update (\<lambda>_. ai_dialect a)),
      (CHR ''e'', wire_string (ai_pubkey a), ai_pubkey_update (\<lambda>_. ai_pubkey a)),
      (CHR ''i'', wire_string (the (ntop (ai_ip a))), ai_ip_update (\<lambda>_. ai_ip a)),
      (CHR ''p'', wire_int (ucast (ai_port a)), ai_port_update (\<lambda>_. ai_port a)),
      (CHR ''v'', wire_int LLARP_PROTO_VERSION, \<lambda>m. m)]"

lemma inet_okE:
  assumes "inet_ok ntop pton" and "length a = 16"
  obtains t where "ntop a = Some t" "length t < 128" "0 \<notin> set t" "pton t = Some a"
proof -
  from assms obtain t where "ntop a = Some t" "length t < 46" "0 \<notin> set t" "pton t = Some a"
    by (auto simp: inet_ok_def)
  then show ?thesis by (intro that [of t]) simp_all
qed

lemma u16_range: "x \<noteq> 0 \<Longrightarrow> in_16bit_range (ucast (x :: u16))"
proof -
  assume "x \<noteq> 0"
  have u: "unat (ucast x :: u64) = unat x"
    by (simp add: unsigned_ucast_eq take_bit_nat_eq_self less_trans [OF unat_u16_less])
  have "\<not> unat x > 65536" using unat_u16_less [of x] by linarith
  then have "\<not> (ucast x :: u64) > 65536" unfolding word_less_nat_alt u by simp
  moreover have "\<not> (ucast x :: u64) \<le> 0" using \<open>x \<noteq> 0\<close> unfolding word_le_nat_alt u by (simp add: unat_eq_0)
  ultimately show ?thesis by (simp add: in_16bit_range_def)
qed

lemma ucast_u16_u64 [simp]: "ucast (ucast (x :: u16) :: u64) = x"
  by (rule bit_word_eqI) (auto simp: bit_simps)

lemma AddressInfo_decodes:
  assumes "inet_ok ntop pton" and "AddressInfo_valid a" and "e \<in> set (AddressInfo_entries ntop a)"
  shows "decodes (AddressInfo_DecodeKey pton) e"
proof -
  have v: "ai_rank a \<noteq> 0" "ai_port a \<noteq> 0" "length (ai_dialect a) < 128" "0 \<notin> set (ai_dialect a)"
    "length (ai_pubkey a) = 32" "length (ai_ip a) = 16"
    using assms(2) by (simp_all add: AddressInfo_valid_def)
  from inet_okE [OF assms(1) v(6)] obtain t where
    t: "ntop (ai_ip a) = Some t" "length t < 128" "0 \<notin> set t" "pton t = Some (ai_ip a)" .
  have l: "\<not> 128 < length (ai_dialect a)" "\<not> 128 \<le> length t" using v(3) t(2) by simp_all
  note D = AddressInfo_DecodeKey_def key_simps v l t u16_range [OF v(1)] u16_range [OF v(2)] set_ip_def
  have "decodes (AddressInfo_DecodeKey pton) (CHR ''c'', wire_int (ucast (ai_rank a)), ai_rank_update (\<lambda>_. ai_rank a))"
    "decodes (AddressInfo_DecodeKey pton) (CHR ''d'', wire_string (ai_dialect a), ai_dialect_update (\<lambda>_. ai_dialect a))"
    "decodes (AddressInfo_DecodeKey pton) (CHR ''e'', wire_string (ai_pubkey a), ai_pubkey_update (\<lambda>_. ai_pubkey a))"
    "decodes (AddressInfo_DecodeKey pton) (CHR ''i'', wire_string t, ai_ip_update (\<lambda>_. ai_ip a))"
    "decodes (AddressInfo_DecodeKey pton) (CHR ''p'', wire_int (ucast (ai_port a)), ai_port_update (\<lambda>_. ai_port a))"
    "decodes (AddressInfo_DecodeKey pton) (CHR ''v'', wire_int LLARP_PROTO_VERSION, \<lambda>m. m)"
    by (rule decodesI, simp add: D)+
  with assms(3) t(1) show ?thesis by (auto simp: AddressInfo_entries_def)
qed

lemma emits_write_optional [emit_intros]:
  "t = Some s \<Longrightarrow> emits (f s) w \<Longrightarrow> emits (write_optional t f) w"
  by (simp add: emits_def write_optional_def)

lemma emits_pair: "emits (and_then (bencode_write_bytestring k) (bencode_write_bytestring s)) (wire_string k @ wire_string s)"
  by (intro emits_and_then emits_write_bytestring)

lemma AddressInfo_emits:
  assumes "inet_ok ntop pton" and "AddressInfo_valid a"
  shows "emits (AddressInfo_BEncode ntop a) (dict_wire (AddressInfo_entries ntop a))"
proof -
  have "length (ai_ip a) = 16" using assms(2) by (simp add: AddressInfo_valid_def)
  from inet_okE [OF assms(1) this] obtain t where t: "ntop (ai_ip a) = Some t" .
  show ?thesis unfolding AddressInfo_BEncode_def t
    by (rule emits_dict, rule emit_intros,
        (rule emits_write_bytestring emits_write_uint64 emits_pair emits_dict_entries(5) list_all2_step
          emits_write_optional [OF refl])+)
      (simp add: AddressInfo_entries_def t)
qed

interpretation address_info: bencode_codec "AddressInfo_BEncode ntop" "AddressInfo_BDecode pton"
  "\<lambda>a. dict_wire (AddressInfo_entries ntop a)" "\<lambda>a. inet_ok ntop pton \<and> AddressInfo_valid a" AddressInfo_init
  for ntop pton
proof
  fix a b rest
  assume v: "inet_ok ntop pton \<and> AddressInfo_valid a" and b: "wf_buf b" "remaining b = dict_wire (AddressInfo_entries ntop a) @ rest"
  have "apply_entries (AddressInfo_entries ntop a) AddressInfo_init = a"
    using v by (simp add: AddressInfo_entries_def AddressInfo_init_def AddressInfo_valid_def)
  moreover have "decode_dict (AddressInfo_DecodeKey pton) (AddressInfo_init, b) = Inr (True,
      (apply_entries (AddressInfo_entries ntop a) AddressInfo_init, advance (length (dict_wire (AddressInfo_entries ntop a))) b))"
    using v by (intro decode_dict_entries [OF _ b]) (auto intro: AddressInfo_decodes)
  ultimately show "AddressInfo_BDecode pton (AddressInfo_init, b) =
      Inr (True, (a, advance (length (dict_wire (AddressInfo_entries ntop a))) b))"
    by (simp add: AddressInfo_BDecode_def)
qed (use AddressInfo_emits dict_wire_head in auto)

subsection \<open>Exits\<close>

definition ExitInfo_valid :: "ExitInfo \<Rightarrow> bool" where
  "ExitInfo_valid x \<longleftrightarrow> length (xi_address x) = 16 \<and> length (xi_netmask x) = 16 \<and> length (xi_pubkey x) = 32"

definition ExitInfo_entries :: "ntop \<Rightarrow> ExitInfo \<Rightarrow> ExitInfo entry list" where
  "ExitInfo_entries ntop x =
     [(CHR ''a'', wire_string (the (ntop (xi_address x))), xi_address_update (\<lambda>_. xi_address x)),
      (CHR ''b'', wire_string (the (ntop (xi_netmask x))), xi_netmask_update (\<lambda>_. xi_netmask x)),
      (CHR ''k'', wire_string (xi_pubkey x), xi_pubkey_update (\<lambda>_. xi_pubkey x)),
      (CHR ''v'', wire_int (xi_version x), xi_version_update (\<lambda>_. xi_version x))]"

lemma ExitInfo_codec:
  assumes "inet_ok ntop pton" and "ExitInfo_valid x"
  shows "e \<in> set (ExitInfo_entries ntop x) \<Longrightarrow> decodes (ExitInfo_DecodeKey pton) e"
    and "emits (ExitInfo_BEncode ntop x) (dict_wire (ExitInfo_entries ntop x))"
proof -
  have v: "length (xi_address x) = 16" "length (xi_netmask x) = 16" "length (xi_pubkey x) = 32"
    using assms(2) by (simp_all add: ExitInfo_valid_def)
  from inet_okE [OF assms(1) v(1)] obtain t where
    t: "ntop (xi_address x) = Some t" "length t < 128" "0 \<notin> set t" "pton t = Some (xi_address x)" .
  from inet_okE [OF assms(1) v(2)] obtain u where
    u: "ntop (xi_netmask x) = Some u" "length u < 128" "0 \<notin> set u" "pton u = Some (xi_netmask x)" .
  have l: "\<not> 128 \<le> length t" "\<not> 128 \<le> length u" using t(2) u(2) by simp_all
  note D = ExitInfo_DecodeKey_def key_simps v l t u set_ip_def bdecode_ip_string_def
  have "decodes (ExitInfo_DecodeKey pton) (CHR ''a'', wire_string t, xi_address_update (\<lambda>_. xi_address x))"
    "decodes (ExitInfo_DecodeKey pton) (CHR ''b'', wire_string u, xi_netmask_update (\<lambda>_. xi_netmask x))"
    "decodes (ExitInfo_DecodeKey pton) (CHR ''k'', wire_string (xi_pubkey x), xi_pubkey_update (\<lambda>_. xi_pubkey x))"
    "decodes (ExitInfo_DecodeKey pton) (CHR ''v'', wire_int (xi_version x), xi_version_update (\<lambda>_. xi_version x))"
    by (rule decodesI, simp add: D)+
  then show "e \<in> set (ExitInfo_entries ntop x) \<Longrightarrow> decodes (ExitInfo_DecodeKey pton) e"
    using t(1) u(1) by (auto simp: ExitInfo_entries_def)
  show "emits (ExitInfo_BEncode ntop x) (dict_wire (ExitInfo_entries ntop x))"
    unfolding ExitInfo_BEncode_def t(1) u(1)
    by (rule emits_dict, rule emit_intros, (rule emits_write_optional [OF refl] emit_intros)+)
      (simp add: ExitInfo_entries_def t u)
qed

interpretation exit_info: bencode_codec "ExitInfo_BEncode ntop" "ExitInfo_BDecode pton"
  "\<lambda>x. dict_wire (ExitInfo_entries ntop x)" "\<lambda>x. inet_ok ntop pton \<and> ExitInfo_valid x" ExitInfo_init
  for ntop pton
proof
  fix x b rest
  assume v: "inet_ok ntop pton \<and> ExitInfo_valid x" and b: "wf_buf b" "remaining b = dict_wire (ExitInfo_entries ntop x) @ rest"
  have "apply_entries (ExitInfo_entries ntop x) ExitInfo_init = x"
    by (simp add: ExitInfo_entries_def ExitInfo_init_def)
  moreover have "decode_dict (ExitInfo_DecodeKey pton) (ExitInfo_init, b) = Inr (True,
      (apply_entries (ExitInfo_entries ntop x) ExitInfo_init, advance (length (dict_wire (ExitInfo_entries ntop x))) b))"
    using v by (intro decode_dict_entries [OF _ b]) (auto intro: ExitInfo_codec(1))
  ultimately show "ExitInfo_BDecode pton (ExitInfo_init, b) =
      Inr (True, (x, advance (length (dict_wire (ExitInfo_entries ntop x))) b))"
    by (simp add: ExitInfo_BDecode_def)
qed (use ExitInfo_codec(2) dict_wire_head in auto)

subsection \<open>Contacts\<close>

text \<open>A C string of at most \<open>n\<close> bytes in an array of \<open>n\<close> bytes, padded with NULs.\<close>

definition padded :: "nat \<Rightarrow> byte list \<Rightarrow> bool" where
  "padded n a \<longleftrightarrow> length a = n \<and> a = c_string a @ replicate (n - length (c_string a)) 0"

definition RouterContact_valid :: "RouterContact \<Rightarrow> bool" where
  "RouterContact_valid r \<longleftrightarrow> (\<forall>a \<in> set (rc_addrs r). AddressInfo_valid a) \<and> (\<forall>x \<in> set (rc_exits r). ExitInfo_valid x) \<and>
     padded 8 (rc_netID r) \<and> padded 32 (rc_nickname r) \<and> length (rc_pubkey r) = 32 \<and>
     length (rc_enckey r) = 32 \<and> length (rc_signature r) = 64"

definition RouterContact_entries :: "ntop \<Rightarrow> RouterContact \<Rightarrow> RouterContact entry list" where
  "RouterContact_entries ntop r =
     [(CHR ''a'', list_wire (\<lambda>a. dict_wire (AddressInfo_entries ntop a)) (rc_addrs r), rc_addrs_update (\<lambda>xs. xs @ rc_addrs r)),
      (CHR ''i'', wire_string (c_string (rc_netID r)), rc_netID_update (\<lambda>_. rc_netID r)),
      (CHR ''k'', wire_string (rc_pubkey r), rc_pubkey_update (\<lambda>_. rc_pubkey r))] @
     (if RouterContact_Nick r \<noteq> []
      then [(CHR ''n'', wire_string (RouterContact_Nick r), rc_nickname_update (\<lambda>_. rc_nickname r))] else []) @
     [(CHR ''p'', wire_string (rc_enckey r), rc_enckey_update (\<lambda>_. rc_enckey r)),
      (CHR ''u'', wire_int (rc_last_updated r), rc_last_updated_update (\<lambda>_. rc_last_updated r)),
      (CHR ''v'', wire_int (rc_version r), rc_version_update (\<lambda>_. rc_version r)),
      (CHR ''x'', list_wire (\<lambda>x. dict_wire (ExitInfo_entries ntop x)) (rc_exits r), rc_exits_update (\<lambda>xs. xs @ rc_exits r)),
      (CHR ''z'', wire_string (rc_signature r), rc_signature_update (\<lambda>_. rc_signature r))]"

lemma padded_drop: "padded n a \<Longrightarrow> c_string a @ drop (length (c_string a)) (aligned_Zero n) = a"
  by (simp add: padded_def aligned_Zero_def)

lemma padded_length: "padded n a \<Longrightarrow> length (c_string a) \<le> n"
  by (metis padded_def c_string_def length_takeWhile_le)

lemma read_string_load:
  assumes "wf_buf b" "remaining b = wire_string s @ rest" "length s < 10 ^ 9"
  obtains kb where "bencode_read_string b = Inr (Some kb, advance (length (wire_string s)) b)"
    "bsz kb = length s" "load (length s) kb = Inr s"
proof -
  from read_string_key [OF assms] obtain kb where
    "bencode_read_string b = Inr (Some kb, advance (length (wire_string s)) b)"
    "wf_buf kb" "remaining kb = s" "bsz kb = length s"
    by blast
  then show ?thesis by (intro that [of kb]) (simp_all add: load_remaining)
qed

lemma NetID_decode_wire:
  assumes "padded 8 n" "wf_buf b" "remaining b = wire_string (c_string n) @ rest"
  shows "NetID_BDecode (m, b) = Inr (True, (n, advance (length (wire_string (c_string n))) b))"
proof -
  have l: "length (c_string n) \<le> 8" using assms(1) by (rule padded_length)
  then have "length (c_string n) < 10 ^ 9" by simp
  from read_string_load [OF assms(2,3) this] obtain kb where
    "bencode_read_string b = Inr (Some kb, advance (length (wire_string (c_string n))) b)"
    "bsz kb = length (c_string n)" "load (length (c_string n)) kb = Inr (c_string n)" .
  with l padded_drop [OF assms(1)] show ?thesis by (simp add: NetID_BDecode_def Let_def)
qed

lemma decode_nick_wire:
  assumes "padded 32 (rc_nickname r)" "wf_buf b" "remaining b = wire_string (RouterContact_Nick r) @ rest"
  shows "decode_nick (m, b) =
    Inr (True, (m\<lparr>rc_nickname := rc_nickname r\<rparr>, advance (length (wire_string (RouterContact_Nick r))) b))"
proof -
  let ?n = "c_string (rc_nickname r)"
  have l: "length ?n \<le> 32" using assms(1) by (rule padded_length)
  then have "length ?n < 10 ^ 9" by simp
  from read_string_load [OF assms(2) assms(3) [unfolded RouterContact_Nick_def] this] obtain kb where
    "bencode_read_string b = Inr (Some kb, advance (length (wire_string ?n)) b)"
    "bsz kb = length ?n" "load (length ?n) kb = Inr ?n" .
  with l padded_drop [OF assms(1)] show ?thesis by (simp add: decode_nick_def RouterContact_Nick_def)
qed

lemma RouterContact_decodes:
  assumes i: "inet_ok ntop pton" and v: "RouterContact_valid r" and e: "e \<in> set (RouterContact_entries ntop r)"
  shows "decodes (RouterContact_DecodeKey pton) e"
proof -
  have s: "length (rc_pubkey r) = 32" "length (rc_enckey r) = 32" "length (rc_signature r) = 64"
    "padded 8 (rc_netID r)" "padded 32 (rc_nickname r)"
    "\<And>a. a \<in> set (rc_addrs r) \<Longrightarrow> inet_ok ntop pton \<and> AddressInfo_valid a"
    "\<And>x. x \<in> set (rc_exits r) \<Longrightarrow> inet_ok ntop pton \<and> ExitInfo_valid x"
    using v i by (simp_all add: RouterContact_valid_def)
  note D = RouterContact_DecodeKey_def key_simps s(1-3) NetID_decode_wire [OF s(4)] decode_nick_wire [OF s(5)]
    address_info.list_field_decode [OF s(6)] exit_info.list_field_decode [OF s(7)]
  have "decodes (RouterContact_DecodeKey pton)
      (CHR ''a'', list_wire (\<lambda>a. dict_wire (AddressInfo_entries ntop a)) (rc_addrs r), rc_addrs_update (\<lambda>xs. xs @ rc_addrs r))"
    "decodes (RouterContact_DecodeKey pton) (CHR ''i'', wire_string (c_string (rc_netID r)), rc_netID_update (\<lambda>_. rc_netID r))"
    "decodes (RouterContact_DecodeKey pton) (CHR ''k'', wire_string (rc_pubkey r), rc_pubkey_update (\<lambda>_. rc_pubkey r))"
    "decodes (RouterContact_DecodeKey pton) (CHR ''n'', wire_string (RouterContact_Nick r), rc_nickname_update (\<lambda>_. rc_nickname r))"
    "decodes (RouterContact_DecodeKey pton) (CHR ''p'', wire_string (rc_enckey r), rc_enckey_update (\<lambda>_. rc_enckey r))"
    "decodes (RouterContact_DecodeKey pton) (CHR ''u'', wire_int (rc_last_updated r), rc_last_updated_update (\<lambda>_. rc_last_updated r))"
    "decodes (RouterContact_DecodeKey pton) (CHR ''v'', wire_int (rc_version r), rc_version_update (\<lambda>_. rc_version r))"
    "decodes (RouterContact_DecodeKey pton)
      (CHR ''x'', list_wire (\<lambda>x. dict_wire (ExitInfo_entries ntop x)) (rc_exits r), rc_exits_update (\<lambda>xs. xs @ rc_exits r))"
    "decodes (RouterContact_DecodeKey pton) (CHR ''z'', wire_string (rc_signature r), rc_signature_update (\<lambda>_. rc_signature r))"
    by (rule decodesI, simp add: D)+
  with e show ?thesis by (auto simp: RouterContact_entries_def split: if_splits)
qed

lemma RouterContact_emits:
  assumes i: "inet_ok ntop pton" and v: "RouterContact_valid r"
  shows "emits (RouterContact_BEncode ntop r) (dict_wire (RouterContact_entries ntop r))"
proof -
  have "\<And>a. a \<in> set (rc_addrs r) \<Longrightarrow> inet_ok ntop pton \<and> AddressInfo_valid a"
    "\<And>x. x \<in> set (rc_exits r) \<Longrightarrow> inet_ok ntop pton \<and> ExitInfo_valid x"
    using v i by (simp_all add: RouterContact_valid_def)
  note L = address_info.list_field_emits [OF this(1)] exit_info.list_field_emits [OF this(2)]
  have N: "emits (NetID_BEncode (rc_netID r)) (wire_string (c_string (rc_netID r)))"
    by (simp add: NetID_BEncode_def emits_write_bytestring)
  show ?thesis unfolding RouterContact_BEncode_def
    by (rule emits_dict, rule emit_intros,
        (assumption | rule L N emits_write_bytestring emits_write_uint64 emits_pair emits_dict_entries(5) list_all2_step
          emits_aligned emits_when)+)
      (simp add: RouterContact_entries_def)
qed

lemma RouterContact_apply:
  assumes "RouterContact_valid r"
  shows "apply_entries (RouterContact_entries ntop r) (RouterContact_Clear r0) = r"
proof -
  have "rc_nickname r = aligned_Zero 32" if "RouterContact_Nick r = []"
    using that assms by (auto simp: RouterContact_Nick_def RouterContact_valid_def padded_def aligned_Zero_def)
  then show ?thesis by (auto simp: RouterContact_entries_def RouterContact_Clear_def)
qed

interpretation router_contact: bencode_codec "RouterContact_BEncode ntop" "RouterContact_BDecode pton"
  "\<lambda>r. dict_wire (RouterContact_entries ntop r)" "\<lambda>r. inet_ok ntop pton \<and> RouterContact_valid r" r0
  for ntop pton r0
proof
  fix r b rest
  assume v: "inet_ok ntop pton \<and> RouterContact_valid r" and b: "wf_buf b" "remaining b = dict_wire (RouterContact_entries ntop r) @ rest"
  have "decode_dict (RouterContact_DecodeKey pton) (RouterContact_Clear r0, b) = Inr (True,
      (apply_entries (RouterContact_entries ntop r) (RouterContact_Clear r0),
       advance (length (dict_wire (RouterContact_entries ntop r))) b))"
    using v by (intro decode_dict_entries [OF _ b]) (auto intro: RouterContact_decodes)
  with v show "RouterContact_BDecode pton (r0, b) =
      Inr (True, (r, advance (length (dict_wire (RouterContact_entries ntop r))) b))"
    by (simp add: RouterContact_BDecode_def RouterContact_apply)
qed (use RouterContact_emits dict_wire_head in auto)

section \<open>Properties\<close>

text \<open>
  C17: A router contact written by \<^verbatim>\<open>RouterContact::BEncode\<close> is read back by \<^verbatim>\<open>RouterContact::BDecode\<close> into
  any contact object, and the reader stops behind the last byte of the dictionary.
\<close>

theorem RouterContact_roundtrip:
  assumes "inet_ok ntop pton" and "RouterContact_valid r" and "wf_buf b"
    and "length (dict_wire (RouterContact_entries ntop r)) < size_left b"
  shows "\<exists>b'. RouterContact_BEncode ntop r b = Inr (True, b') \<and>
    RouterContact_BDecode pton (r0, written_window b b') = Inr (True, (r,
      advance (length (dict_wire (RouterContact_entries ntop r))) (written_window b b')))"
  using router_contact.roundtrip [of ntop pton r b r0] assms by blast

text \<open>A text form of addresses that keeps what \<^verbatim>\<open>inet_ntop\<close> and \<^verbatim>\<open>inet_pton\<close> promise.\<close>

primrec demo_text :: "byte list \<Rightarrow> byte list" where
  "demo_text [] = []"
| "demo_text (x # xs) = (if x = 0 then 1 else x) # (if x = 0 then 1 else 2) # demo_text xs"

fun demo_bytes :: "byte list \<Rightarrow> byte list" where
  "demo_bytes (x # f # xs) = (if f = 1 then 0 else x) # demo_bytes xs"
| "demo_bytes _ = []"

lemma demo_text_facts: "demo_bytes (demo_text a) = a" "length (demo_text a) = 2 * length a" "0 \<notin> set (demo_text a)"
  by (induction a) auto

lemma demo_inet_ok: "inet_ok (\<lambda>a. Some (demo_text a)) (\<lambda>t. Some (demo_bytes t))"
  by (simp add: inet_ok_def demo_text_facts)

definition demo_contact :: RouterContact where
  "demo_contact = (RouterContact_init (NetID (str ''net'')))
     \<lparr>rc_addrs := [AddressInfo_init\<lparr>ai_rank := 1, ai_port := 1090, ai_ip := replicate 16 32\<rparr>],
      rc_exits := [ExitInfo_init], rc_nickname := str ''relay'' @ replicate 27 0\<rparr>"

lemma demo_contact_valid: "RouterContact_valid demo_contact"
  by code_simp

theorem RouterContact_roundtrip_witness:
  "\<exists>b'. RouterContact_BEncode (\<lambda>a. Some (demo_text a)) demo_contact (buffer_of (replicate 1024 0)) = Inr (True, b') \<and>
    RouterContact_BDecode (\<lambda>t. Some (demo_bytes t))
      (RouterContact_init (aligned_Zero 8), written_window (buffer_of (replicate 1024 0)) b') =
    Inr (True, (demo_contact, advance (length (dict_wire (RouterContact_entries (\<lambda>a. Some (demo_text a)) demo_contact)))
      (written_window (buffer_of (replicate 1024 0)) b')))"
proof (rule RouterContact_roundtrip [OF demo_inet_ok demo_contact_valid wf_buffer_of])
  have "length (dict_wire (RouterContact_entries (\<lambda>a. Some (demo_text a)) demo_contact)) < 1024"
    by code_simp
  then show "length (dict_wire (RouterContact_entries (\<lambda>a. Some (demo_text a)) demo_contact))
      < size_left (buffer_of (replicate 1024 0))"
    by (simp add: size_left_def buffer_of_def)
qed

text \<open>
  Reading the dialect of an address writes the terminating NUL behind the 128 bytes of its array when
  the dialect has exactly 128 bytes, since the length test lets that length pass.
\<close>

theorem dialect_of_128_bytes_overruns:
  assumes "wf_buf b" and "remaining b = wire_string s @ rest" and "length s = 128"
    and "wf_buf key" and "remaining key = str ''d''"
  shows "AddressInfo_DecodeKey pton key (a, b) = Inl OutOfBounds"
proof -
  have "length s < 10 ^ 9" using assms(3) by simp
  from read_string_load [OF assms(1,2) this] obtain kb where
    "bencode_read_string b = Inr (Some kb, advance (length (wire_string s)) b)"
    "bsz kb = length s" "load (length s) kb = Inr s" .
  with assms(3) have "decode_string_field (\<lambda>sz. sz > 128) set_it (m, b) = Inl OutOfBounds" for set_it and m :: AddressInfo
    by (simp add: decode_string_field_def tmp128_def)
  moreover have "buffer_eq key cs = Inr (prefix cs (str ''d''))" for cs
    using buffer_eq_prefix [OF assms(4)] assms(5) by simp
  ultimately show ?thesis by (simp add: AddressInfo_DecodeKey_def if_key_def)
qed

theorem dialect_of_128_bytes_overruns_witness:
  "AddressInfo_DecodeKey (\<lambda>t. None) (buffer_of (str ''d''))
     (AddressInfo_init, buffer_of (wire_string (replicate 128 65) @ [])) = Inl OutOfBounds"
  by (rule dialect_of_128_bytes_overruns [where s = "replicate 128 65" and rest = "[]"]) simp_all

definition contact_to_sign :: "(aligned \<Rightarrow> aligned) \<Rightarrow> llarp_time \<Rightarrow> aligned \<Rightarrow> RouterContact \<Rightarrow> RouterContact" where
  "contact_to_sign topublic now sk r = r\<lparr>rc_pubkey := topublic sk, rc_signature := aligned_Zero 64, rc_last_updated := now\<rparr>"

lemma RouterContact_signed_bytes_ok:
  assumes "inet_ok ntop pton" and "RouterContact_valid (r\<lparr>rc_signature := aligned_Zero 64\<rparr>)"
    and "length (dict_wire (RouterContact_entries ntop (r\<lparr>rc_signature := aligned_Zero 64\<rparr>))) < 1024"
  shows "RouterContact_signed_bytes ntop r =
    Inr (Some (dict_wire (RouterContact_entries ntop (r\<lparr>rc_signature := aligned_Zero 64\<rparr>))))"
proof -
  let ?b = "buffer_of (replicate 1024 0)"
  have "wf_buf ?b" "size_left ?b = 1024" "consumed ?b = []"
    by (simp_all add: size_left_def buffer_of_def wf_buf_def consumed_def)
  with RouterContact_emits [OF assms(1,2)] assms(3) obtain b' where
    "RouterContact_BEncode ntop (r\<lparr>rc_signature := aligned_Zero 64\<rparr>) ?b = Inr (True, b')"
    "consumed b' = dict_wire (RouterContact_entries ntop (r\<lparr>rc_signature := aligned_Zero 64\<rparr>))"
    unfolding emits_def by fastforce
  then show ?thesis by (simp add: RouterContact_signed_bytes_def)
qed

text \<open>
  C26: A contact that fits the signing buffer can be signed, and a contact signed with a key is accepted by
  \<^verbatim>\<open>RouterContact::Verify\<close> when it names the network and no bogon address or exit range: the bytes that are
  verified are the bytes that were signed.
\<close>

theorem signed_contact_is_accepted:
  assumes "inet_ok ntop pton" and "RouterContact_valid (contact_to_sign topublic now sk r)"
    and "length (dict_wire (RouterContact_entries ntop (contact_to_sign topublic now sk r))) < 1024"
    and "\<And>m. \<exists>s. sign m sk = Some s \<and> verify (topublic sk) m s"
    and "NetID_eq (rc_netID r) netid"
    and "\<not> list_ex (\<lambda>a. IsBogon (ai_ip a) \<and> block) (rc_addrs r)"
    and "\<not> list_ex (\<lambda>x. IsBogonRange (xi_address x) (xi_netmask x)) (rc_exits r)"
  shows "\<exists>r'. RouterContact_Sign ntop sign topublic now sk r = Inr (True, r') \<and>
    RouterContact_Verify ntop verify netid block r' later allowExpired = Inr True"
proof -
  let ?r = "contact_to_sign topublic now sk r"
  have z: "?r\<lparr>rc_signature := aligned_Zero 64\<rparr> = ?r" by (simp add: contact_to_sign_def)
  let ?m = "dict_wire (RouterContact_entries ntop ?r)"
  have m: "RouterContact_signed_bytes ntop ?r = Inr (Some ?m)"
    using RouterContact_signed_bytes_ok [of ntop pton ?r] assms(1-3) unfolding z by blast
  from assms(4) obtain s where s: "sign ?m sk = Some s" "verify (topublic sk) ?m s" by blast
  have "RouterContact_signed_bytes ntop (?r\<lparr>rc_signature := s\<rparr>) = RouterContact_signed_bytes ntop ?r"
    by (simp add: RouterContact_signed_bytes_def)
  with m s have v: "RouterContact_VerifySignature ntop verify (?r\<lparr>rc_signature := s\<rparr>) = Inr True"
    by (simp add: RouterContact_VerifySignature_def) (simp add: contact_to_sign_def)
  have "RouterContact_Sign ntop sign topublic now sk r = Inr (True, ?r\<lparr>rc_signature := s\<rparr>)"
    using m s unfolding RouterContact_Sign_def contact_to_sign_def [symmetric] by (simp add: Let_def)
  moreover have "RouterContact_Verify ntop verify netid block (?r\<lparr>rc_signature := s\<rparr>) later allowExpired = Inr True"
    using v assms(5-7) by (simp add: RouterContact_Verify_def RouterContact_IsExpired_def) (simp add: contact_to_sign_def)
  ultimately show ?thesis by blast
qed

theorem signed_contact_is_accepted_witness:
  "\<exists>r'. RouterContact_Sign (\<lambda>a. Some (demo_text a)) (\<lambda>m sk. Some (replicate 64 (of_nat (length m)))) (\<lambda>sk. sk) 1000
      (replicate 32 7) (demo_contact\<lparr>rc_exits := []\<rparr>) = Inr (True, r') \<and>
    RouterContact_Verify (\<lambda>a. Some (demo_text a)) (\<lambda>pk m s. s = replicate 64 (of_nat (length m))) (NetID (str ''net'')) True
      r' 2000 False = Inr True"
  by (rule signed_contact_is_accepted [OF demo_inet_ok]) (code_simp, code_simp, simp, code_simp+)

end
