(* ===== verification/Dht_Messages.thy ===== *)
theory Dht_Messages
  imports Contact
begin

text \<open>
  The messages of the DHT (\<^verbatim>\<open>dht/message.*\<close>, \<^verbatim>\<open>dht/messages/\<close>), the two carriers they travel in
  (\<^verbatim>\<open>messages/dht_immediate.*\<close>, \<^verbatim>\<open>routing/dht_message.*\<close>) and the table of message types. The parameters
  \<open>hash\<close>, \<open>ntop\<close>, \<open>pton\<close> are those of intro sets and contacts; \<open>netid\<close> is the network a default
  contact names.
\<close>

section \<open>Looking for intro sets\<close>

definition Tag_Empty :: "aligned \<Rightarrow> bool" where
  "Tag_Empty t \<longleftrightarrow> t ! 0 = 0"

record FindIntroMessage =
  fim_From :: aligned
  fim_pathID :: aligned
  fim_version :: u64
  fim_R :: u64
  fim_S :: aligned
  fim_N :: aligned
  fim_T :: u64
  fim_relayed :: bool

definition FindIntroMessage_from :: "aligned \<Rightarrow> bool \<Rightarrow> FindIntroMessage" where
  "FindIntroMessage_from from relay = \<lparr>fim_From = from, fim_pathID = aligned_Zero 16,
     fim_version = LLARP_PROTO_VERSION, fim_R = 0, fim_S = aligned_Zero 32, fim_N = aligned_Zero 16, fim_T = 0,
     fim_relayed = relay\<rparr>"

definition FindIntroMessage_tag :: "aligned \<Rightarrow> u64 \<Rightarrow> bool \<Rightarrow> FindIntroMessage" where
  "FindIntroMessage_tag tag txid iterate = (FindIntroMessage_from (aligned_Zero 32) False)
     \<lparr>fim_N := tag, fim_T := txid, fim_R := if iterate then 0 else 1\<rparr>"

definition FindIntroMessage_addr :: "u64 \<Rightarrow> aligned \<Rightarrow> bool \<Rightarrow> FindIntroMessage" where
  "FindIntroMessage_addr txid addr iterate = (FindIntroMessage_from (aligned_Zero 32) False)
     \<lparr>fim_S := addr, fim_T := txid, fim_R := if iterate then 0 else 1\<rparr>"

definition FindIntro_DecodeKey :: "llarp_buffer \<Rightarrow> (FindIntroMessage \<times> llarp_buffer) action" where
  "FindIntro_DecodeKey k = decode_key_with
     [BEncodeMaybeReadDictEntry (CHR ''N'') (aligned_BDecode 16) fim_N fim_N_update k,
      BEncodeMaybeReadDictInt (CHR ''R'') fim_R_update k,
      BEncodeMaybeReadDictEntry (CHR ''S'') (aligned_BDecode 32) fim_S fim_S_update k,
      BEncodeMaybeReadDictInt (CHR ''T'') fim_T_update k,
      BEncodeMaybeVerifyVersion (CHR ''V'') fim_version_update LLARP_PROTO_VERSION k]"

definition FindIntro_BEncode :: "FindIntroMessage \<Rightarrow> llarp_buffer action" where
  "FindIntro_BEncode m = all_steps
     (bencode_start_dict #
      ([BEncodeWriteDictMsgType (CHR ''A'') (CHR ''F'')] @
       (if Tag_Empty (fim_N m)
        then [BEncodeWriteDictInt (CHR ''R'') (fim_R m),
              BEncodeWriteDictEntry (CHR ''S'') (aligned_BEncode (fim_S m))]
        else [BEncodeWriteDictEntry (CHR ''N'') (aligned_BEncode (fim_N m)),
              BEncodeWriteDictInt (CHR ''R'') (fim_R m)]) @
       [BEncodeWriteDictInt (CHR ''T'') (fim_T m),
        BEncodeWriteDictInt (CHR ''V'') LLARP_PROTO_VERSION]) @ [bencode_end])"

section \<open>Looking for routers\<close>

record FindRouterMessage =
  frm_From :: aligned
  frm_pathID :: aligned
  frm_K :: aligned
  frm_iterative :: bool
  frm_exploritory :: bool
  frm_txid :: u64
  frm_version :: u64

definition FindRouterMessage_from :: "aligned \<Rightarrow> FindRouterMessage" where
  "FindRouterMessage_from from = \<lparr>frm_From = from, frm_pathID = aligned_Zero 16, frm_K = aligned_Zero 32,
     frm_iterative = False, frm_exploritory = False, frm_txid = 0, frm_version = 0\<rparr>"

definition FindRouterMessage_target :: "u64 \<Rightarrow> aligned \<Rightarrow> FindRouterMessage" where
  "FindRouterMessage_target txid target = (FindRouterMessage_from (aligned_Zero 32))\<lparr>frm_K := target, frm_txid := txid\<rparr>"

text \<open>The random key of an exploration is an argument.\<close>

definition FindRouterMessage_explore :: "u64 \<Rightarrow> aligned \<Rightarrow> FindRouterMessage" where
  "FindRouterMessage_explore txid rnd =
     (FindRouterMessage_from (aligned_Zero 32))\<lparr>frm_K := rnd, frm_exploritory := True, frm_txid := txid\<rparr>"

definition FindRouter_DecodeKey :: "llarp_buffer \<Rightarrow> (FindRouterMessage \<times> llarp_buffer) action" where
  "FindRouter_DecodeKey key = (\<lambda>(m, b).
     if_key key (str ''E'') (decode_int_if (\<lambda>_. True) (\<lambda>i. frm_exploritory_update (\<lambda>_. i \<noteq> 0)))
     (if_key key (str ''I'') (decode_int_if (\<lambda>_. True) (\<lambda>i. frm_iterative_update (\<lambda>_. i \<noteq> 0)))
     (if_key key (str ''K'') (decode_field (aligned_BDecode 32) frm_K frm_K_update)
     (if_key key (str ''T'') (decode_int_if (\<lambda>_. True) (\<lambda>i. frm_txid_update (\<lambda>_. i)))
     (if_key key (str ''V'') (decode_int_if (\<lambda>_. True) (\<lambda>i. frm_version_update (\<lambda>_. i)))
     (\<lambda>(read, m, b). Inr (False, (m, b))))))) (False, m, b))"

definition FindRouter_BEncode :: "FindRouterMessage \<Rightarrow> llarp_buffer action" where
  "FindRouter_BEncode m = all_steps
     (bencode_start_dict #
      [bencode_write_bytestring (str ''A''), bencode_write_bytestring (str ''R''),
       bencode_write_bytestring (str ''E''), bencode_write_uint64 (if frm_exploritory m then 1 else 0),
       bencode_write_bytestring (str ''I''), bencode_write_uint64 (if frm_iterative m then 1 else 0),
       bencode_write_bytestring (str ''K''), bencode_write_bytestring (frm_K m),
       bencode_write_bytestring (str ''T''), bencode_write_uint64 (frm_txid m),
       bencode_write_bytestring (str ''V''), bencode_write_uint64 (frm_version m)] @ [bencode_end])"

section \<open>Answers\<close>

text \<open>\<^verbatim>\<open>if(K) return false; K = std::make_unique< dht::Key_t >(); return K->BDecode(buf);\<close>\<close>

definition decode_once ::
  "('m \<Rightarrow> aligned option) \<Rightarrow> ((aligned option \<Rightarrow> aligned option) \<Rightarrow> 'm \<Rightarrow> 'm) \<Rightarrow> ('m \<times> llarp_buffer) action" where
  "decode_once get upd = (\<lambda>(m, b).
     if get m \<noteq> None then Inr (False, (m, b))
     else bind_res (aligned_BDecode 32 (aligned_Zero 32, b)) (\<lambda>(ok, (k, b')). Inr (ok, (upd (\<lambda>_. Some k) m, b'))))"

definition write_some :: "aligned option \<Rightarrow> (aligned \<Rightarrow> llarp_buffer action) \<Rightarrow> llarp_buffer action" where
  "write_some k f = (case k of None \<Rightarrow> all_steps [] | Some x \<Rightarrow> f x)"

record GotIntroMessage =
  gim_From :: aligned
  gim_pathID :: aligned
  gim_version :: u64
  gim_I :: "IntroSet list"
  gim_T :: u64
  gim_K :: "aligned option"

definition GotIntroMessage_from :: "aligned \<Rightarrow> GotIntroMessage" where
  "GotIntroMessage_from from = \<lparr>gim_From = from, gim_pathID = aligned_Zero 16, gim_version = LLARP_PROTO_VERSION,
     gim_I = [], gim_T = 0, gim_K = None\<rparr>"

definition GotIntroMessage_closer :: "aligned \<Rightarrow> aligned \<Rightarrow> u64 \<Rightarrow> GotIntroMessage" where
  "GotIntroMessage_closer from closer txid = (GotIntroMessage_from from)\<lparr>gim_T := txid, gim_K := Some closer\<rparr>"

definition GotIntroMessage_results :: "IntroSet list \<Rightarrow> u64 \<Rightarrow> GotIntroMessage" where
  "GotIntroMessage_results results tx = (GotIntroMessage_from (aligned_Zero 32))\<lparr>gim_I := results, gim_T := tx\<rparr>"

definition GotIntro_DecodeKey :: "(byte list \<Rightarrow> aligned) \<Rightarrow> llarp_buffer \<Rightarrow> (GotIntroMessage \<times> llarp_buffer) action" where
  "GotIntro_DecodeKey hash key = (\<lambda>(m, b).
     if_key key (str ''I'') (decode_field (read_list_field IntroSet_init (IntroSet_BDecode hash)) gim_I gim_I_update)
     (if_key key (str ''K'') (decode_once gim_K gim_K_update)
     (entries_then
       [BEncodeMaybeReadDictInt (CHR ''T'') gim_T_update key,
        BEncodeMaybeReadDictInt (CHR ''V'') gim_version_update key]
      return_read)) (False, m, b))"

definition GotIntro_BEncode :: "GotIntroMessage \<Rightarrow> llarp_buffer action" where
  "GotIntro_BEncode m = all_steps
     (bencode_start_dict #
      [BEncodeWriteDictMsgType (CHR ''A'') (CHR ''G''),
       BEncodeWriteDictList (CHR ''I'') IntroSet_BEncode (gim_I m),
       write_some (gim_K m) (\<lambda>k. BEncodeWriteDictEntry (CHR ''K'') (aligned_BEncode k)),
       BEncodeWriteDictInt (CHR ''T'') (gim_T m),
       BEncodeWriteDictInt (CHR ''V'') (gim_version m)] @ [bencode_end])"

record GotRouterMessage =
  grm_From :: aligned
  grm_pathID :: aligned
  grm_version :: u64
  grm_R :: "RouterContact list"
  grm_N :: "aligned list"
  grm_K :: "aligned option"
  grm_txid :: u64
  grm_relayed :: bool

definition GotRouterMessage_from :: "aligned \<Rightarrow> bool \<Rightarrow> GotRouterMessage" where
  "GotRouterMessage_from from tunneled = \<lparr>grm_From = from, grm_pathID = aligned_Zero 16,
     grm_version = LLARP_PROTO_VERSION, grm_R = [], grm_N = [], grm_K = None, grm_txid = 0, grm_relayed = tunneled\<rparr>"

definition GotRouterMessage_results :: "aligned \<Rightarrow> u64 \<Rightarrow> RouterContact list \<Rightarrow> bool \<Rightarrow> GotRouterMessage" where
  "GotRouterMessage_results from txid results tunneled =
     (GotRouterMessage_from from tunneled)\<lparr>grm_R := results, grm_txid := txid\<rparr>"

definition GotRouterMessage_closer :: "aligned \<Rightarrow> aligned \<Rightarrow> u64 \<Rightarrow> bool \<Rightarrow> GotRouterMessage" where
  "GotRouterMessage_closer from closer txid tunneled =
     (GotRouterMessage_from from tunneled)\<lparr>grm_K := Some closer, grm_txid := txid\<rparr>"

definition GotRouterMessage_near :: "u64 \<Rightarrow> aligned list \<Rightarrow> bool \<Rightarrow> GotRouterMessage" where
  "GotRouterMessage_near txid near tunneled =
     (GotRouterMessage_from (aligned_Zero 32) tunneled)\<lparr>grm_N := near, grm_txid := txid\<rparr>"

definition GotRouter_DecodeKey ::
  "pton \<Rightarrow> aligned \<Rightarrow> llarp_buffer \<Rightarrow> (GotRouterMessage \<times> llarp_buffer) action" where
  "GotRouter_DecodeKey pton netid key = (\<lambda>(m, b).
     if_key key (str ''K'') (decode_once grm_K grm_K_update)
     (if_key key (str ''N'') (decode_field (read_list_field (aligned_Zero 32) (aligned_BDecode 32)) grm_N grm_N_update)
     (if_key key (str ''R'')
       (decode_field (read_list_field (RouterContact_init netid) (RouterContact_BDecode pton)) grm_R grm_R_update)
     (if_key key (str ''T'') (decode_int_if (\<lambda>_. True) (\<lambda>i. grm_txid_update (\<lambda>_. i)))
     (entries_then [BEncodeMaybeVerifyVersion (CHR ''V'') grm_version_update LLARP_PROTO_VERSION key]
      return_read)))) (False, m, b))"

definition GotRouter_BEncode :: "ntop \<Rightarrow> GotRouterMessage \<Rightarrow> llarp_buffer action" where
  "GotRouter_BEncode ntop m = all_steps
     (bencode_start_dict #
      [BEncodeWriteDictMsgType (CHR ''A'') (CHR ''S''),
       write_some (grm_K m) (\<lambda>k. BEncodeWriteDictEntry (CHR ''K'') (aligned_BEncode k)),
       only_if (grm_N m \<noteq> []) (BEncodeWriteDictList (CHR ''N'') aligned_BEncode (grm_N m)),
       BEncodeWriteDictList (CHR ''R'') (RouterContact_BEncode ntop) (grm_R m),
       BEncodeWriteDictInt (CHR ''T'') (grm_txid m),
       BEncodeWriteDictInt (CHR ''V'') (grm_version m)] @ [bencode_end])"

section \<open>Publishing\<close>

record PublishIntroMessage =
  pim_From :: aligned
  pim_pathID :: aligned
  pim_version :: u64
  pim_I :: IntroSet
  pim_E :: "aligned list"
  pim_R :: u64
  pim_S :: u64
  pim_txID :: u64
  pim_hasS :: bool

definition PublishIntroMessage_init :: PublishIntroMessage where
  "PublishIntroMessage_init = \<lparr>pim_From = aligned_Zero 32, pim_pathID = aligned_Zero 16,
     pim_version = LLARP_PROTO_VERSION, pim_I = IntroSet_init, pim_E = [], pim_R = 0, pim_S = 0, pim_txID = 0,
     pim_hasS = False\<rparr>"

definition PublishIntroMessage_of :: "IntroSet \<Rightarrow> u64 \<Rightarrow> u64 \<Rightarrow> aligned list \<Rightarrow> PublishIntroMessage" where
  "PublishIntroMessage_of i tx s exclude =
     PublishIntroMessage_init\<lparr>pim_I := i, pim_E := exclude, pim_S := s, pim_txID := tx\<rparr>"

definition decode_S_entry :: "llarp_buffer \<Rightarrow> PublishIntroMessage entry_state action" where
  "decode_S_entry key = (\<lambda>(read, m, b).
     bind_res (buffer_eq key (str ''S'')) (\<lambda>eq.
       if eq then let m = m\<lparr>pim_hasS := True\<rparr> in
         bind_res (bencode_read_integer b) (\<lambda>(r, b').
           case r of None \<Rightarrow> Inr (False, (True, m, b')) | Some i \<Rightarrow> Inr (True, (True, m\<lparr>pim_S := i\<rparr>, b')))
       else Inr (True, (read, m, b))))"

definition PublishIntro_DecodeKey ::
  "(byte list \<Rightarrow> aligned) \<Rightarrow> llarp_buffer \<Rightarrow> (PublishIntroMessage \<times> llarp_buffer) action" where
  "PublishIntro_DecodeKey hash key = (\<lambda>(m, b).
     if_key key (str ''E'') (decode_field (read_list_field (aligned_Zero 32) (aligned_BDecode 32)) pim_E pim_E_update)
     (entries_then
       [BEncodeMaybeReadDictEntry (CHR ''I'') (IntroSet_BDecode hash) pim_I pim_I_update key,
        BEncodeMaybeReadDictInt (CHR ''R'') pim_R_update key,
        decode_S_entry key,
        BEncodeMaybeReadDictInt (CHR ''T'') pim_txID_update key,
        BEncodeMaybeReadDictInt (CHR ''V'') pim_version_update key]
      return_read) (False, m, b))"

definition PublishIntro_BEncode :: "PublishIntroMessage \<Rightarrow> llarp_buffer action" where
  "PublishIntro_BEncode m = all_steps
     (bencode_start_dict #
      [BEncodeWriteDictMsgType (CHR ''A'') (CHR ''I''),
       BEncodeWriteDictList (CHR ''E'') aligned_BEncode (pim_E m),
       BEncodeWriteDictEntry (CHR ''I'') (IntroSet_BEncode (pim_I m)),
       BEncodeWriteDictInt (CHR ''R'') (pim_R m),
       BEncodeWriteDictInt (CHR ''S'') (pim_S m),
       BEncodeWriteDictInt (CHR ''T'') (pim_txID m),
       BEncodeWriteDictInt (CHR ''V'') LLARP_PROTO_VERSION] @ [bencode_end])"

section \<open>Any message\<close>

datatype dht_message =
    FIM FindIntroMessage | FRM FindRouterMessage | RelayedFRM FindRouterMessage | GRM GotRouterMessage
  | PIM PublishIntroMessage | GIM GotIntroMessage | RelayedGIM GotIntroMessage

primrec dht_BEncode :: "ntop \<Rightarrow> dht_message \<Rightarrow> llarp_buffer action" where
  "dht_BEncode ntop (FIM m) = FindIntro_BEncode m"
| "dht_BEncode ntop (FRM m) = FindRouter_BEncode m"
| "dht_BEncode ntop (RelayedFRM m) = FindRouter_BEncode m"
| "dht_BEncode ntop (GRM m) = GotRouter_BEncode ntop m"
| "dht_BEncode ntop (PIM m) = PublishIntro_BEncode m"
| "dht_BEncode ntop (GIM m) = GotIntro_BEncode m"
| "dht_BEncode ntop (RelayedGIM m) = GotIntro_BEncode m"

definition dht_DecodeKey ::
  "(byte list \<Rightarrow> aligned) \<Rightarrow> pton \<Rightarrow> aligned \<Rightarrow> llarp_buffer \<Rightarrow> (dht_message \<times> llarp_buffer) action" where
  "dht_DecodeKey hash pton netid key = (\<lambda>(msg, b).
     case msg of
       FIM m \<Rightarrow> lift_case FIM (FindIntro_DecodeKey key (m, b))
     | FRM m \<Rightarrow> lift_case FRM (FindRouter_DecodeKey key (m, b))
     | RelayedFRM m \<Rightarrow> lift_case RelayedFRM (FindRouter_DecodeKey key (m, b))
     | GRM m \<Rightarrow> lift_case GRM (GotRouter_DecodeKey pton netid key (m, b))
     | PIM m \<Rightarrow> lift_case PIM (PublishIntro_DecodeKey hash key (m, b))
     | GIM m \<Rightarrow> lift_case GIM (GotIntro_DecodeKey hash key (m, b))
     | RelayedGIM m \<Rightarrow> lift_case RelayedGIM (GotIntro_DecodeKey hash key (m, b)))"

text \<open>The \<^verbatim>\<open>switch\<close> on the message type.\<close>

definition MessageDecoder_switch :: "aligned \<Rightarrow> bool \<Rightarrow> byte \<Rightarrow> dht_message option" where
  "MessageDecoder_switch from relayed c =
     (if c = ch CHR ''F'' then Some (FIM (FindIntroMessage_from from relayed))
      else if c = ch CHR ''R'' then
        Some (if relayed then RelayedFRM (FindRouterMessage_from from) else FRM (FindRouterMessage_from from))
      else if c = ch CHR ''S'' then Some (GRM (GotRouterMessage_from from relayed))
      else if c = ch CHR ''I'' then Some (PIM PublishIntroMessage_init)
      else if c = ch CHR ''G'' then
        Some (if relayed then RelayedGIM (GotIntroMessage_from (aligned_Zero 32)) else GIM (GotIntroMessage_from from))
      else None)"

definition DecodeMesssage ::
  "(byte list \<Rightarrow> aligned) \<Rightarrow> pton \<Rightarrow> aligned \<Rightarrow> aligned \<Rightarrow> bool \<Rightarrow> llarp_buffer \<Rightarrow> (dht_message option \<times> llarp_buffer) res" where
  "DecodeMesssage hash pton netid from relayed b =
     bind_res (typed_decode (str ''A'') (MessageDecoder_switch from relayed) (dht_DecodeKey hash pton netid) (None, b))
       (\<lambda>(ok, (msg, b')). Inr (if ok then msg else None, b'))"

definition DecodeMesssageList ::
  "(byte list \<Rightarrow> aligned) \<Rightarrow> pton \<Rightarrow> aligned \<Rightarrow> aligned \<Rightarrow> bool \<Rightarrow> (dht_message list \<times> llarp_buffer) action" where
  "DecodeMesssageList hash pton netid from relayed lb = bencode_read_list (Suc (size_left (snd lb)))
     (\<lambda>has (l, b).
       if \<not> has then Inr (True, (l, b))
       else bind_res (DecodeMesssage hash pton netid from relayed b) (\<lambda>(msg, b').
         case msg of Some m \<Rightarrow> Inr (True, (l @ [m], b')) | None \<Rightarrow> Inr (False, (l, b')))) lb"

section \<open>The carriers\<close>

record DHTImmediateMessage =
  dim_msgs :: "dht_message list"
  dim_version :: u64

definition DHTImmediateMessage_Clear :: "DHTImmediateMessage \<Rightarrow> DHTImmediateMessage" where
  "DHTImmediateMessage_Clear m = m\<lparr>dim_msgs := [], dim_version := 0\<rparr>"

text \<open>The key of the session the message came in on is an argument of the reader.\<close>

definition DHTImmediate_DecodeKey ::
  "(byte list \<Rightarrow> aligned) \<Rightarrow> pton \<Rightarrow> aligned \<Rightarrow> aligned \<Rightarrow> llarp_buffer \<Rightarrow> (DHTImmediateMessage \<times> llarp_buffer) action" where
  "DHTImmediate_DecodeKey hash pton netid session key = (\<lambda>(m, b).
     if_key key (str ''m'') (decode_field (DecodeMesssageList hash pton netid session False) dim_msgs dim_msgs_update)
     (if_key key (str ''v'') (\<lambda>(m, b).
        bind_res (bencode_read_integer b) (\<lambda>(r, b').
          case r of None \<Rightarrow> Inr (False, (m, b'))
                  | Some i \<Rightarrow> Inr (i = LLARP_PROTO_VERSION, (m\<lparr>dim_version := i\<rparr>, b'))))
     (\<lambda>(read, m, b). Inr (False, (m, b)))) (False, m, b))"

definition DHTImmediate_BEncode :: "ntop \<Rightarrow> DHTImmediateMessage \<Rightarrow> llarp_buffer action" where
  "DHTImmediate_BEncode ntop m = all_steps
     (bencode_start_dict #
      ([bencode_write_bytestring (str ''a''), bencode_write_bytestring (str ''m''),
        bencode_write_bytestring (str ''m''), bencode_start_list] @
       map (dht_BEncode ntop) (dim_msgs m) @
       [bencode_end, bencode_write_uint64_entry (str ''v'') LLARP_PROTO_VERSION]) @ [bencode_end])"

record DHTMessage =
  dm_from :: aligned
  dm_S :: u64
  dm_version :: u64
  dm_M :: "dht_message list"
  dm_V :: u64

definition DHTMessage_Clear :: "DHTMessage \<Rightarrow> DHTMessage" where
  "DHTMessage_Clear m = m\<lparr>dm_M := [], dm_V := 0\<rparr>"

definition DHTMessage_DecodeKey ::
  "(byte list \<Rightarrow> aligned) \<Rightarrow> pton \<Rightarrow> aligned \<Rightarrow> llarp_buffer \<Rightarrow> (DHTMessage \<times> llarp_buffer) action" where
  "DHTMessage_DecodeKey hash pton netid key = (\<lambda>(m, b).
     if_key key (str ''M'') (decode_field (DecodeMesssageList hash pton netid (aligned_Zero 32) True) dm_M dm_M_update)
     (if_key key (str ''S'') (decode_int_if (\<lambda>_. True) (\<lambda>i. dm_S_update (\<lambda>_. i)))
     (if_key key (str ''V'') (decode_int_if (\<lambda>_. True) (\<lambda>i. dm_V_update (\<lambda>_. i)))
     (\<lambda>(read, m, b). Inr (False, (m, b))))) (False, m, b))"

definition DHTMessage_BEncode :: "ntop \<Rightarrow> DHTMessage \<Rightarrow> llarp_buffer action" where
  "DHTMessage_BEncode ntop m = all_steps
     (bencode_start_dict #
      [BEncodeWriteDictMsgType (CHR ''A'') (CHR ''M''),
       BEncodeWriteDictBEncodeList (CHR ''M'') (dht_BEncode ntop) (dm_M m),
       BEncodeWriteDictInt (CHR ''S'') (dm_S m),
       BEncodeWriteDictInt (CHR ''V'') LLARP_PROTO_VERSION] @ [bencode_end])"

section \<open>Codecs\<close>

lemma Zero_replicate: "aligned_Zero n = replicate n 0"
  by (simp add: aligned_Zero_def)

lemma decode_once_hit [key_simps]:
  "get m = None \<Longrightarrow> wf_buf b \<Longrightarrow> remaining b = wire_string k @ rest \<Longrightarrow> length k = 32 \<Longrightarrow>
   decode_once get upd (m, b) = Inr (True, (upd (\<lambda>_. Some k) m, advance (length (wire_string k)) b))"
  by (simp add: decode_once_def aligned_hit)

lemma decode_S_skip [key_simps]:
  "key_is kb [c] \<Longrightarrow> c \<noteq> ch CHR ''S'' \<Longrightarrow> decode_S_entry kb (read, m, b) = Inr (True, (read, m, b))"
  by (simp add: decode_S_entry_def)

lemma decode_S_hit [key_simps]:
  "key_is kb (str ''S'') \<Longrightarrow> bencode_read_integer b = Inr (Some i, b') \<Longrightarrow>
   decode_S_entry kb (read, m, b) = Inr (True, (True, m\<lparr>pim_hasS := True, pim_S := i\<rparr>, b'))"
  by (simp add: decode_S_entry_def Let_def)

lemma keys_decode [key_simps]:
  assumes "\<And>k. k \<in> set ks \<Longrightarrow> length k = 32" and "wf_buf b" and "remaining b = list_wire wire_string ks @ rest"
  shows "read_list_field (aligned_Zero 32) (aligned_BDecode 32) (ys, b) =
    Inr (True, (ys @ ks, advance (length (list_wire wire_string ks)) b))"
  unfolding Zero_replicate using assms by (intro aligned.list_field_decode [where rest = rest]) auto

lemma keys_emit [emit_intros]:
  assumes "\<And>k. k \<in> set ks \<Longrightarrow> length k = 32"
  shows "emits (BEncodeWriteList aligned_BEncode ks) (list_wire wire_string ks)"
  using assms by (intro aligned.list_field_emits [where sz = 32]) auto

lemma emits_write_some:
  "(\<And>x. k = Some x \<Longrightarrow> emits (f x) (w x)) \<Longrightarrow> emits (write_some k f) (case k of None \<Rightarrow> [] | Some x \<Rightarrow> w x)"
  by (auto simp: write_some_def emits_all_steps_Nil split: option.split)

lemma emits_typed:
  assumes "list_all2 emits fs ws" and "concat ws = concat (map entry_wire ((k, wire_string [ch t], \<lambda>m. m) # es))"
  shows "emits (all_steps (bencode_start_dict # fs @ [bencode_end])) (typed_wire k t es)"
  unfolding typed_wire_def using assms by (rule emits_dict)

subsection \<open>FindIntroMessage\<close>

definition FindIntro_valid :: "FindIntroMessage \<Rightarrow> bool" where
  "FindIntro_valid m \<longleftrightarrow> length (fim_S m) = 32 \<and> length (fim_N m) = 16"

definition FindIntro_entries :: "FindIntroMessage \<Rightarrow> FindIntroMessage entry list" where
  "FindIntro_entries m =
     (if Tag_Empty (fim_N m)
      then [(CHR ''R'', wire_int (fim_R m), fim_R_update (\<lambda>_. fim_R m)),
            (CHR ''S'', wire_string (fim_S m), fim_S_update (\<lambda>_. fim_S m))]
      else [(CHR ''N'', wire_string (fim_N m), fim_N_update (\<lambda>_. fim_N m)),
            (CHR ''R'', wire_int (fim_R m), fim_R_update (\<lambda>_. fim_R m))]) @
     [(CHR ''T'', wire_int (fim_T m), fim_T_update (\<lambda>_. fim_T m)),
      (CHR ''V'', wire_int LLARP_PROTO_VERSION, fim_version_update (\<lambda>_. LLARP_PROTO_VERSION))]"

lemma FindIntro_decodes:
  assumes "FindIntro_valid m"
  shows "decodes_all FindIntro_DecodeKey m0 (FindIntro_entries m)"
proof (rule decodes_all_decodes)
  fix e assume e: "e \<in> set (FindIntro_entries m)"
  have v: "length (fim_S m) = 32" "length (fim_N m) = 16" using assms by (simp_all add: FindIntro_valid_def)
  note D = FindIntro_DecodeKey_def decode_key_with_def key_simps v
  have "decodes FindIntro_DecodeKey (CHR ''R'', wire_int (fim_R m), fim_R_update (\<lambda>_. fim_R m))"
    "decodes FindIntro_DecodeKey (CHR ''S'', wire_string (fim_S m), fim_S_update (\<lambda>_. fim_S m))"
    "decodes FindIntro_DecodeKey (CHR ''N'', wire_string (fim_N m), fim_N_update (\<lambda>_. fim_N m))"
    "decodes FindIntro_DecodeKey (CHR ''T'', wire_int (fim_T m), fim_T_update (\<lambda>_. fim_T m))"
    "decodes FindIntro_DecodeKey (CHR ''V'', wire_int LLARP_PROTO_VERSION, fim_version_update (\<lambda>_. LLARP_PROTO_VERSION))"
    by (rule decodesI, simp add: D)+
  with e show "decodes FindIntro_DecodeKey e" by (auto simp: FindIntro_entries_def split: if_splits)
qed

lemma FindIntro_emits:
  "emits (FindIntro_BEncode m) (typed_wire (CHR ''A'') (CHR ''F'') (FindIntro_entries m))"
proof (cases "Tag_Empty (fim_N m)")
  case True
  show ?thesis unfolding FindIntro_BEncode_def if_P [OF True] append_Cons append_Nil
    by (rule emits_typed [where fs = "[_, _, _, _, _]", simplified], (rule emit_intros)+)
      (simp add: FindIntro_entries_def True)
next
  case False
  show ?thesis unfolding FindIntro_BEncode_def if_not_P [OF False] append_Cons append_Nil
    by (rule emits_typed [where fs = "[_, _, _, _, _]", simplified], (rule emit_intros)+)
      (simp add: FindIntro_entries_def False)
qed

subsection \<open>FindRouterMessage\<close>

definition FindRouter_entries :: "FindRouterMessage \<Rightarrow> FindRouterMessage entry list" where
  "FindRouter_entries m =
     [(CHR ''E'', wire_int (if frm_exploritory m then 1 else 0), frm_exploritory_update (\<lambda>_. frm_exploritory m)),
      (CHR ''I'', wire_int (if frm_iterative m then 1 else 0), frm_iterative_update (\<lambda>_. frm_iterative m)),
      (CHR ''K'', wire_string (frm_K m), frm_K_update (\<lambda>_. frm_K m)),
      (CHR ''T'', wire_int (frm_txid m), frm_txid_update (\<lambda>_. frm_txid m)),
      (CHR ''V'', wire_int (frm_version m), frm_version_update (\<lambda>_. frm_version m))]"

lemma FindRouter_decodes:
  assumes v: "length (frm_K m) = 32"
  shows "decodes_all FindRouter_DecodeKey m0 (FindRouter_entries m)"
proof (rule decodes_all_decodes)
  fix e assume e: "e \<in> set (FindRouter_entries m)"
  note D = FindRouter_DecodeKey_def key_simps v
  have "decodes FindRouter_DecodeKey
      (CHR ''E'', wire_int (if frm_exploritory m then 1 else 0), frm_exploritory_update (\<lambda>_. frm_exploritory m))"
    "decodes FindRouter_DecodeKey
      (CHR ''I'', wire_int (if frm_iterative m then 1 else 0), frm_iterative_update (\<lambda>_. frm_iterative m))"
    "decodes FindRouter_DecodeKey (CHR ''K'', wire_string (frm_K m), frm_K_update (\<lambda>_. frm_K m))"
    "decodes FindRouter_DecodeKey (CHR ''T'', wire_int (frm_txid m), frm_txid_update (\<lambda>_. frm_txid m))"
    "decodes FindRouter_DecodeKey (CHR ''V'', wire_int (frm_version m), frm_version_update (\<lambda>_. frm_version m))"
    by (rule decodesI, simp add: D)+
  with e show "decodes FindRouter_DecodeKey e" by (auto simp: FindRouter_entries_def)
qed

lemma FindRouter_emits:
  "emits (FindRouter_BEncode m) (typed_wire (CHR ''A'') (CHR ''R'') (FindRouter_entries m))"
  unfolding FindRouter_BEncode_def
  by (rule emits_typed, (rule emit_intros emits_write_bytestring emits_write_uint64)+)
    (simp add: FindRouter_entries_def)

subsection \<open>GotIntroMessage\<close>

definition GotIntro_valid :: "(byte list \<Rightarrow> aligned) \<Rightarrow> GotIntroMessage \<Rightarrow> bool" where
  "GotIntro_valid hash m \<longleftrightarrow> (\<forall>i \<in> set (gim_I m). IntroSet_valid hash i) \<and> (\<forall>k. gim_K m = Some k \<longrightarrow> length k = 32)"

definition GotIntro_entries :: "GotIntroMessage \<Rightarrow> GotIntroMessage entry list" where
  "GotIntro_entries m =
     [(CHR ''I'', list_wire (\<lambda>i. dict_wire (IntroSet_entries i)) (gim_I m), gim_I_update (\<lambda>xs. xs @ gim_I m))] @
     (case gim_K m of None \<Rightarrow> [] | Some k \<Rightarrow> [(CHR ''K'', wire_string k, gim_K_update (\<lambda>_. Some k))]) @
     [(CHR ''T'', wire_int (gim_T m), gim_T_update (\<lambda>_. gim_T m)),
      (CHR ''V'', wire_int (gim_version m), gim_version_update (\<lambda>_. gim_version m))]"

lemma GotIntro_decodes:
  assumes "GotIntro_valid hash m" and m0: "gim_K m0 = None"
  shows "decodes_all (GotIntro_DecodeKey hash) m0 (GotIntro_entries m)"
proof -
  have v: "\<And>i. i \<in> set (gim_I m) \<Longrightarrow> IntroSet_valid hash i" "\<And>k. gim_K m = Some k \<Longrightarrow> length k = 32"
    using assms(1) by (simp_all add: GotIntro_valid_def)
  have 1: "decodes (GotIntro_DecodeKey hash)
      (CHR ''I'', list_wire (\<lambda>i. dict_wire (IntroSet_entries i)) (gim_I m), gim_I_update (\<lambda>xs. xs @ gim_I m))"
    by (rule decodesI) (simp add: GotIntro_DecodeKey_def key_simps decode_field_def introset.list_field_decode [OF v(1)])
  have 2: "decodes (GotIntro_DecodeKey hash) (CHR ''T'', wire_int (gim_T m), gim_T_update (\<lambda>_. gim_T m))"
    "decodes (GotIntro_DecodeKey hash) (CHR ''V'', wire_int (gim_version m), gim_version_update (\<lambda>_. gim_version m))"
    by (rule decodesI, simp add: GotIntro_DecodeKey_def key_simps)+
  have 3: "decodes_at (GotIntro_DecodeKey hash) s (CHR ''K'', wire_string k, gim_K_update (\<lambda>_. Some k))"
    if "gim_K m = Some k" "gim_K s = None" for k s
    by (rule decodes_atI) (simp add: GotIntro_DecodeKey_def key_simps that v(2))
  show ?thesis
    using 1 2 3 m0 by (simp add: GotIntro_entries_def decodes_def split: option.split)
qed

lemma GotIntro_emits:
  assumes "GotIntro_valid hash m"
  shows "emits (GotIntro_BEncode m) (typed_wire (CHR ''A'') (CHR ''G'') (GotIntro_entries m))"
proof -
  have "\<And>i. i \<in> set (gim_I m) \<Longrightarrow> IntroSet_valid hash i" using assms by (simp add: GotIntro_valid_def)
  note I = introset.list_field_emits [OF this]
  show ?thesis unfolding GotIntro_BEncode_def
    by (rule emits_typed, (assumption | rule I emits_write_some emit_intros)+) (simp add: GotIntro_entries_def split: option.split)
qed

subsection \<open>GotRouterMessage\<close>

definition GotRouter_valid :: "ntop \<Rightarrow> pton \<Rightarrow> GotRouterMessage \<Rightarrow> bool" where
  "GotRouter_valid ntop pton m \<longleftrightarrow> inet_ok ntop pton \<and> (\<forall>r \<in> set (grm_R m). RouterContact_valid r) \<and>
     (\<forall>k \<in> set (grm_N m). length k = 32) \<and> (\<forall>k. grm_K m = Some k \<longrightarrow> length k = 32) \<and>
     grm_version m = LLARP_PROTO_VERSION"

definition GotRouter_entries :: "ntop \<Rightarrow> GotRouterMessage \<Rightarrow> GotRouterMessage entry list" where
  "GotRouter_entries ntop m =
     (case grm_K m of None \<Rightarrow> [] | Some k \<Rightarrow> [(CHR ''K'', wire_string k, grm_K_update (\<lambda>_. Some k))]) @
     (if grm_N m \<noteq> [] then [(CHR ''N'', list_wire wire_string (grm_N m), grm_N_update (\<lambda>xs. xs @ grm_N m))] else []) @
     [(CHR ''R'', list_wire (\<lambda>r. dict_wire (RouterContact_entries ntop r)) (grm_R m), grm_R_update (\<lambda>xs. xs @ grm_R m)),
      (CHR ''T'', wire_int (grm_txid m), grm_txid_update (\<lambda>_. grm_txid m)),
      (CHR ''V'', wire_int (grm_version m), grm_version_update (\<lambda>_. grm_version m))]"

lemma GotRouter_decodes:
  assumes "GotRouter_valid ntop pton m" and m0: "grm_K m0 = None"
  shows "decodes_all (GotRouter_DecodeKey pton netid) m0 (GotRouter_entries ntop m)"
proof -
  have v: "\<And>r. r \<in> set (grm_R m) \<Longrightarrow> inet_ok ntop pton \<and> RouterContact_valid r"
    "\<And>k. k \<in> set (grm_N m) \<Longrightarrow> length k = 32" "\<And>k. grm_K m = Some k \<Longrightarrow> length k = 32"
    "grm_version m = LLARP_PROTO_VERSION"
    using assms(1) by (simp_all add: GotRouter_valid_def)
  note D = GotRouter_DecodeKey_def key_simps decode_field_def
  have 1: "decodes (GotRouter_DecodeKey pton netid)
      (CHR ''R'', list_wire (\<lambda>r. dict_wire (RouterContact_entries ntop r)) (grm_R m), grm_R_update (\<lambda>xs. xs @ grm_R m))"
    by (rule decodesI) (simp add: D router_contact.list_field_decode [OF v(1)])
  have 2: "decodes (GotRouter_DecodeKey pton netid)
      (CHR ''N'', list_wire wire_string (grm_N m), grm_N_update (\<lambda>xs. xs @ grm_N m))"
    by (rule decodesI) (simp add: D keys_decode [OF v(2)])
  have 3: "decodes (GotRouter_DecodeKey pton netid) (CHR ''T'', wire_int (grm_txid m), grm_txid_update (\<lambda>_. grm_txid m))"
    "decodes (GotRouter_DecodeKey pton netid) (CHR ''V'', wire_int (grm_version m), grm_version_update (\<lambda>_. grm_version m))"
    by (rule decodesI, simp add: D v(4))+
  have 4: "decodes_at (GotRouter_DecodeKey pton netid) s (CHR ''K'', wire_string k, grm_K_update (\<lambda>_. Some k))"
    if "grm_K m = Some k" "grm_K s = None" for k s
    by (rule decodes_atI) (simp add: GotRouter_DecodeKey_def key_simps that v(3))
  show ?thesis
    using 1 2 3 4 m0 by (simp add: GotRouter_entries_def decodes_def split: option.split)
qed

lemma GotRouter_emits:
  assumes "GotRouter_valid ntop pton m"
  shows "emits (GotRouter_BEncode ntop m) (typed_wire (CHR ''A'') (CHR ''S'') (GotRouter_entries ntop m))"
proof -
  have "\<And>r. r \<in> set (grm_R m) \<Longrightarrow> inet_ok ntop pton \<and> RouterContact_valid r"
    and k: "\<And>k. k \<in> set (grm_N m) \<Longrightarrow> length k = 32"
    using assms by (simp_all add: GotRouter_valid_def)
  note R = router_contact.list_field_emits [OF this(1)] keys_emit [OF k]
  show ?thesis unfolding GotRouter_BEncode_def
    by (rule emits_typed, (assumption | rule R emits_write_some emit_intros)+) (simp add: GotRouter_entries_def split: option.split)
qed

subsection \<open>PublishIntroMessage\<close>

definition PublishIntro_valid :: "(byte list \<Rightarrow> aligned) \<Rightarrow> PublishIntroMessage \<Rightarrow> bool" where
  "PublishIntro_valid hash m \<longleftrightarrow> IntroSet_valid hash (pim_I m) \<and> (\<forall>k \<in> set (pim_E m). length k = 32)"

definition PublishIntro_entries :: "PublishIntroMessage \<Rightarrow> PublishIntroMessage entry list" where
  "PublishIntro_entries m =
     [(CHR ''E'', list_wire wire_string (pim_E m), pim_E_update (\<lambda>xs. xs @ pim_E m)),
      (CHR ''I'', dict_wire (IntroSet_entries (pim_I m)), pim_I_update (\<lambda>_. pim_I m)),
      (CHR ''R'', wire_int (pim_R m), pim_R_update (\<lambda>_. pim_R m)),
      (CHR ''S'', wire_int (pim_S m), \<lambda>x. x\<lparr>pim_hasS := True, pim_S := pim_S m\<rparr>),
      (CHR ''T'', wire_int (pim_txID m), pim_txID_update (\<lambda>_. pim_txID m)),
      (CHR ''V'', wire_int LLARP_PROTO_VERSION, pim_version_update (\<lambda>_. LLARP_PROTO_VERSION))]"

lemma PublishIntro_decodes:
  assumes "PublishIntro_valid hash m" and m0: "pim_I m0 = IntroSet_init"
  shows "decodes_all (PublishIntro_DecodeKey hash) m0 (PublishIntro_entries m)"
proof -
  have v: "IntroSet_valid hash (pim_I m)" "\<And>k. k \<in> set (pim_E m) \<Longrightarrow> length k = 32"
    using assms(1) by (simp_all add: PublishIntro_valid_def)
  note D = PublishIntro_DecodeKey_def key_simps
  have 1: "decodes (PublishIntro_DecodeKey hash)
      (CHR ''E'', list_wire wire_string (pim_E m), pim_E_update (\<lambda>xs. xs @ pim_E m))"
    by (rule decodesI) (simp add: D decode_field_def keys_decode [OF v(2)])
  have 2: "decodes_at (PublishIntro_DecodeKey hash) s
      (CHR ''I'', dict_wire (IntroSet_entries (pim_I m)), pim_I_update (\<lambda>_. pim_I m))" if "pim_I s = IntroSet_init" for s
    by (rule decodes_atI) (simp add: D that introset.decode_wire [OF v(1)])
  have 3: "decodes (PublishIntro_DecodeKey hash) (CHR ''R'', wire_int (pim_R m), pim_R_update (\<lambda>_. pim_R m))"
    "decodes (PublishIntro_DecodeKey hash) (CHR ''S'', wire_int (pim_S m), \<lambda>x. x\<lparr>pim_hasS := True, pim_S := pim_S m\<rparr>)"
    "decodes (PublishIntro_DecodeKey hash) (CHR ''T'', wire_int (pim_txID m), pim_txID_update (\<lambda>_. pim_txID m))"
    "decodes (PublishIntro_DecodeKey hash)
      (CHR ''V'', wire_int LLARP_PROTO_VERSION, pim_version_update (\<lambda>_. LLARP_PROTO_VERSION))"
    by (rule decodesI, simp add: D)+
  show ?thesis using 1 2 3 m0 by (simp add: PublishIntro_entries_def decodes_def)
qed

lemma PublishIntro_emits:
  assumes "PublishIntro_valid hash m"
  shows "emits (PublishIntro_BEncode m) (typed_wire (CHR ''A'') (CHR ''I'') (PublishIntro_entries m))"
proof -
  have i: "IntroSet_valid hash (pim_I m)" and k: "\<And>k. k \<in> set (pim_E m) \<Longrightarrow> length k = 32"
    using assms by (simp_all add: PublishIntro_valid_def)
  show ?thesis unfolding PublishIntro_BEncode_def
    by (rule emits_typed, (assumption | rule IntroSet_emits [OF i] keys_emit [OF k] emit_intros)+)
      (simp add: PublishIntro_entries_def)
qed

subsection \<open>Any message\<close>

primrec dht_valid :: "(byte list \<Rightarrow> aligned) \<Rightarrow> ntop \<Rightarrow> pton \<Rightarrow> dht_message \<Rightarrow> bool" where
  "dht_valid hash ntop pton (FIM m) \<longleftrightarrow> FindIntro_valid m"
| "dht_valid hash ntop pton (FRM m) \<longleftrightarrow> length (frm_K m) = 32"
| "dht_valid hash ntop pton (RelayedFRM m) \<longleftrightarrow> length (frm_K m) = 32"
| "dht_valid hash ntop pton (GRM m) \<longleftrightarrow> GotRouter_valid ntop pton m"
| "dht_valid hash ntop pton (PIM m) \<longleftrightarrow> PublishIntro_valid hash m"
| "dht_valid hash ntop pton (GIM m) \<longleftrightarrow> GotIntro_valid hash m"
| "dht_valid hash ntop pton (RelayedGIM m) \<longleftrightarrow> GotIntro_valid hash m"

primrec dht_wire :: "ntop \<Rightarrow> dht_message \<Rightarrow> byte list" where
  "dht_wire ntop (FIM m) = typed_wire (CHR ''A'') (CHR ''F'') (FindIntro_entries m)"
| "dht_wire ntop (FRM m) = typed_wire (CHR ''A'') (CHR ''R'') (FindRouter_entries m)"
| "dht_wire ntop (RelayedFRM m) = typed_wire (CHR ''A'') (CHR ''R'') (FindRouter_entries m)"
| "dht_wire ntop (GRM m) = typed_wire (CHR ''A'') (CHR ''S'') (GotRouter_entries ntop m)"
| "dht_wire ntop (PIM m) = typed_wire (CHR ''A'') (CHR ''I'') (PublishIntro_entries m)"
| "dht_wire ntop (GIM m) = typed_wire (CHR ''A'') (CHR ''G'') (GotIntro_entries m)"
| "dht_wire ntop (RelayedGIM m) = typed_wire (CHR ''A'') (CHR ''G'') (GotIntro_entries m)"

text \<open>
  A message as it arrives: whether it was relayed and the sender are set by the receiver, where the constructor of its kind takes them; the
  path id is zero. A search by tag carries no address and a search by address no tag.
\<close>

definition received_FIM :: "aligned \<Rightarrow> bool \<Rightarrow> FindIntroMessage \<Rightarrow> FindIntroMessage" where
  "received_FIM from relayed m =
     (let m = m\<lparr>fim_From := from, fim_pathID := aligned_Zero 16, fim_version := LLARP_PROTO_VERSION, fim_relayed := relayed\<rparr>
      in if Tag_Empty (fim_N m) then m\<lparr>fim_N := aligned_Zero 16\<rparr> else m\<lparr>fim_S := aligned_Zero 32\<rparr>)"

primrec dht_received :: "aligned \<Rightarrow> bool \<Rightarrow> dht_message \<Rightarrow> dht_message" where
  "dht_received from relayed (FIM m) = FIM (received_FIM from relayed m)"
| "dht_received from relayed (FRM m) =
     (if relayed then RelayedFRM else FRM) (m\<lparr>frm_From := from, frm_pathID := aligned_Zero 16\<rparr>)"
| "dht_received from relayed (RelayedFRM m) =
     (if relayed then RelayedFRM else FRM) (m\<lparr>frm_From := from, frm_pathID := aligned_Zero 16\<rparr>)"
| "dht_received from relayed (GRM m) = GRM (m\<lparr>grm_From := from, grm_pathID := aligned_Zero 16, grm_relayed := relayed\<rparr>)"
| "dht_received from relayed (PIM m) = PIM (m\<lparr>pim_From := aligned_Zero 32, pim_pathID := aligned_Zero 16,
     pim_hasS := True, pim_version := LLARP_PROTO_VERSION\<rparr>)"
| "dht_received from relayed (GIM m) =
     (if relayed then RelayedGIM (m\<lparr>gim_From := aligned_Zero 32, gim_pathID := aligned_Zero 16\<rparr>)
      else GIM (m\<lparr>gim_From := from, gim_pathID := aligned_Zero 16\<rparr>))"
| "dht_received from relayed (RelayedGIM m) =
     (if relayed then RelayedGIM (m\<lparr>gim_From := aligned_Zero 32, gim_pathID := aligned_Zero 16\<rparr>)
      else GIM (m\<lparr>gim_From := from, gim_pathID := aligned_Zero 16\<rparr>))"

lemma dht_emits: "dht_valid hash ntop pton msg \<Longrightarrow> emits (dht_BEncode ntop msg) (dht_wire ntop msg)"
  by (cases msg) (simp_all add: FindIntro_emits FindRouter_emits GotRouter_emits PublishIntro_emits GotIntro_emits)

text \<open>One case of the union: what its reader gives from the object the \<^verbatim>\<open>switch\<close> made.\<close>

lemma DecodeMesssage_case:
  assumes "decodes_all D m0 es" and "MessageDecoder_switch src relayed (ch t) = Some (C m0)"
    and "\<And>m. proj (C m) = m" and "\<And>key m b. dht_DecodeKey hash pton netid key (C m, b) = lift_case C (D key (m, b))"
    and "wf_buf b" and "remaining b = typed_wire (CHR ''A'') t es @ rest"
  shows "DecodeMesssage hash pton netid src relayed b =
    Inr (Some (C (apply_entries es m0)), advance (length (typed_wire (CHR ''A'') t es)) b)"
proof -
  note L = lift_entries_decode [of proj C "dht_DecodeKey hash pton netid" D, OF assms(3,4,1)]
  have "typed_decode [ch CHR ''A''] (MessageDecoder_switch src relayed) (dht_DecodeKey hash pton netid) (None, b) =
      Inr (True, (Some (apply_entries (lift_entries C proj es) (C m0)),
        advance (length (typed_wire (CHR ''A'') t (lift_entries C proj es))) b))"
    using assms(5,6) by (intro typed_decode_all [where rest = rest and mk = "MessageDecoder_switch src relayed"] L(1) assms(2)) simp_all
  then show ?thesis by (simp add: DecodeMesssage_def L(2))
qed

lemma DecodeMesssage_FindIntro:
  assumes "FindIntro_valid m" and "wf_buf b" and "remaining b = typed_wire (CHR ''A'') (CHR ''F'') (FindIntro_entries m) @ rest"
  shows "DecodeMesssage hash pton netid src relayed b = Inr (Some (FIM (received_FIM src relayed m)),
    advance (length (typed_wire (CHR ''A'') (CHR ''F'') (FindIntro_entries m))) b)"
proof -
  have "apply_entries (FindIntro_entries m) (FindIntroMessage_from src relayed) = received_FIM src relayed m"
    by (simp add: FindIntro_entries_def FindIntroMessage_from_def received_FIM_def Let_def)
  with DecodeMesssage_case [where D = FindIntro_DecodeKey and C = FIM and proj = "\<lambda>x. case x of FIM m \<Rightarrow> m" and t = "CHR ''F''",
      OF FindIntro_decodes [OF assms(1)] _ _ _ assms(2,3)]
  show ?thesis by (simp add: MessageDecoder_switch_def dht_DecodeKey_def)
qed

lemma DecodeMesssage_FindRouter:
  assumes "length (frm_K m) = 32" and "wf_buf b" and "remaining b = typed_wire (CHR ''A'') (CHR ''R'') (FindRouter_entries m) @ rest"
  shows "DecodeMesssage hash pton netid src relayed b =
    Inr (Some ((if relayed then RelayedFRM else FRM) (m\<lparr>frm_From := src, frm_pathID := aligned_Zero 16\<rparr>)),
      advance (length (typed_wire (CHR ''A'') (CHR ''R'') (FindRouter_entries m))) b)"
proof -
  have a: "apply_entries (FindRouter_entries m) (FindRouterMessage_from src) = m\<lparr>frm_From := src, frm_pathID := aligned_Zero 16\<rparr>"
    by (simp add: FindRouter_entries_def FindRouterMessage_from_def)
  note D = DecodeMesssage_case [where D = FindRouter_DecodeKey and t = "CHR ''R''" and hash = hash and pton = pton and netid = netid
      and src = src and relayed = relayed and ?m0.0 = "FindRouterMessage_from src",
      OF FindRouter_decodes [OF assms(1)] _ _ _ assms(2,3)]
  show ?thesis
  proof (cases relayed)
    case True
    with a D [where C = RelayedFRM and proj = "\<lambda>x. case x of RelayedFRM m \<Rightarrow> m"] show ?thesis
      by (simp add: MessageDecoder_switch_def dht_DecodeKey_def)
  next
    case False
    with a D [where C = FRM and proj = "\<lambda>x. case x of FRM m \<Rightarrow> m"] show ?thesis
      by (simp add: MessageDecoder_switch_def dht_DecodeKey_def)
  qed
qed

lemma DecodeMesssage_GotRouter:
  assumes "GotRouter_valid ntop pton m" and "wf_buf b"
    and "remaining b = typed_wire (CHR ''A'') (CHR ''S'') (GotRouter_entries ntop m) @ rest"
  shows "DecodeMesssage hash pton netid src relayed b =
    Inr (Some (GRM (m\<lparr>grm_From := src, grm_pathID := aligned_Zero 16, grm_relayed := relayed\<rparr>)),
      advance (length (typed_wire (CHR ''A'') (CHR ''S'') (GotRouter_entries ntop m))) b)"
proof -
  have "apply_entries (GotRouter_entries ntop m) (GotRouterMessage_from src relayed) =
      m\<lparr>grm_From := src, grm_pathID := aligned_Zero 16, grm_relayed := relayed\<rparr>"
    by (auto simp: GotRouter_entries_def GotRouterMessage_from_def split: option.split)
  moreover have "grm_K (GotRouterMessage_from src relayed) = None" by (simp add: GotRouterMessage_from_def)
  ultimately show ?thesis
    using DecodeMesssage_case [where D = "GotRouter_DecodeKey pton netid" and C = GRM and proj = "\<lambda>x. case x of GRM m \<Rightarrow> m"
        and t = "CHR ''S''", OF GotRouter_decodes [OF assms(1)] _ _ _ assms(2,3)]
    by (simp add: MessageDecoder_switch_def dht_DecodeKey_def)
qed

lemma DecodeMesssage_PublishIntro:
  assumes "PublishIntro_valid hash m" and "wf_buf b"
    and "remaining b = typed_wire (CHR ''A'') (CHR ''I'') (PublishIntro_entries m) @ rest"
  shows "DecodeMesssage hash pton netid src relayed b =
    Inr (Some (PIM (m\<lparr>pim_From := aligned_Zero 32, pim_pathID := aligned_Zero 16, pim_hasS := True,
        pim_version := LLARP_PROTO_VERSION\<rparr>)),
      advance (length (typed_wire (CHR ''A'') (CHR ''I'') (PublishIntro_entries m))) b)"
proof -
  have "apply_entries (PublishIntro_entries m) PublishIntroMessage_init =
      m\<lparr>pim_From := aligned_Zero 32, pim_pathID := aligned_Zero 16, pim_hasS := True, pim_version := LLARP_PROTO_VERSION\<rparr>"
    by (simp add: PublishIntro_entries_def PublishIntroMessage_init_def)
  moreover have "pim_I PublishIntroMessage_init = IntroSet_init" by (simp add: PublishIntroMessage_init_def)
  ultimately show ?thesis
    using DecodeMesssage_case [where D = "PublishIntro_DecodeKey hash" and C = PIM and proj = "\<lambda>x. case x of PIM m \<Rightarrow> m"
        and t = "CHR ''I''", OF PublishIntro_decodes [OF assms(1)] _ _ _ assms(2,3)]
    by (simp add: MessageDecoder_switch_def dht_DecodeKey_def)
qed

lemma DecodeMesssage_GotIntro:
  assumes "GotIntro_valid hash m" and "wf_buf b" and "remaining b = typed_wire (CHR ''A'') (CHR ''G'') (GotIntro_entries m) @ rest"
  shows "DecodeMesssage hash pton netid src relayed b =
    Inr (Some (if relayed then RelayedGIM (m\<lparr>gim_From := aligned_Zero 32, gim_pathID := aligned_Zero 16\<rparr>)
        else GIM (m\<lparr>gim_From := src, gim_pathID := aligned_Zero 16\<rparr>)),
      advance (length (typed_wire (CHR ''A'') (CHR ''G'') (GotIntro_entries m))) b)"
proof -
  have a: "apply_entries (GotIntro_entries m) (GotIntroMessage_from f) = m\<lparr>gim_From := f, gim_pathID := aligned_Zero 16\<rparr>"
    and k: "gim_K (GotIntroMessage_from f) = None" for f
    by (auto simp: GotIntro_entries_def GotIntroMessage_from_def split: option.split)
  note D = DecodeMesssage_case [where D = "GotIntro_DecodeKey hash" and t = "CHR ''G''" and hash = hash and pton = pton and netid = netid
      and src = src and relayed = relayed, OF GotIntro_decodes [OF assms(1)] _ _ _ assms(2,3)]
  show ?thesis
  proof (cases relayed)
    case True
    with a k D [where ?m0.0 = "GotIntroMessage_from (aligned_Zero 32)" and C = RelayedGIM and proj = "\<lambda>x. case x of RelayedGIM m \<Rightarrow> m"] show ?thesis
      by (simp add: MessageDecoder_switch_def dht_DecodeKey_def)
  next
    case False
    with a k D [where ?m0.0 = "GotIntroMessage_from src" and C = GIM and proj = "\<lambda>x. case x of GIM m \<Rightarrow> m"] show ?thesis
      by (simp add: MessageDecoder_switch_def dht_DecodeKey_def)
  qed
qed

lemma DecodeMesssage_wire:
  assumes "dht_valid hash ntop pton msg" and "wf_buf b" and "remaining b = dht_wire ntop msg @ rest"
  shows "DecodeMesssage hash pton netid src relayed b =
    Inr (Some (dht_received src relayed msg), advance (length (dht_wire ntop msg)) b)"
  using assms
  by (cases msg) (simp_all add: DecodeMesssage_FindIntro DecodeMesssage_FindRouter DecodeMesssage_GotRouter
      DecodeMesssage_PublishIntro DecodeMesssage_GotIntro)

lemma dht_wire_head: "\<exists>c cs. dht_wire ntop msg = c # cs \<and> c \<noteq> 101"
  by (cases msg) (simp_all add: typed_wire_def dict_wire_def)

lemma DecodeMesssageList_wire:
  assumes v: "\<And>x. x \<in> set xs \<Longrightarrow> dht_valid hash ntop pton x" and b: "wf_buf b"
    and rem: "remaining b = list_wire (dht_wire ntop) xs @ rest"
  shows "DecodeMesssageList hash pton netid src relayed (ys, b) =
    Inr (True, (ys @ map (dht_received src relayed) xs, advance (length (list_wire (dht_wire ntop) xs)) b))"
proof -
  have "length xs \<le> length (concat (map (dht_wire ntop) xs))"
    using dht_wire_head [of ntop] by (intro length_concat_ge) (metis list.distinct(1))
  then have n: "length xs < Suc (size_left b)" using b rem by (simp add: size_left_remaining list_wire_def)
  have "fold (\<lambda>x l. l @ [dht_received src relayed x]) xs ys = ys @ map (dht_received src relayed) xs"
    by (induction xs arbitrary: ys) auto
  moreover have "bencode_read_list (Suc (size_left b))
     (\<lambda>has (l, b). if \<not> has then Inr (True, (l, b))
       else bind_res (DecodeMesssage hash pton netid src relayed b) (\<lambda>(msg, b').
         case msg of Some m \<Rightarrow> Inr (True, (l @ [m], b')) | None \<Rightarrow> Inr (False, (l, b')))) (ys, b) =
     Inr (True, (fold (\<lambda>x l. l @ [dht_received src relayed x]) xs ys, advance (length (concat (map (dht_wire ntop) xs)) + 2) b))"
  proof (rule read_list_items [where rest = rest])
    show "dht_wire ntop x \<noteq> [] \<and> hd (dht_wire ntop x) \<noteq> 101" for x using dht_wire_head [of ntop x] by auto
  qed (use b rem n in \<open>auto simp: DecodeMesssage_wire [OF v] list_wire_def\<close>)
  ultimately show ?thesis by (simp add: DecodeMesssageList_def list_wire_def)
qed

section \<open>Properties\<close>

text \<open>
  C19: Every DHT message that is written decodes, whatever its kind: the reader finds the type in the first
  entry, and the fields that travel are those that were sent. What does not travel is set by the receiver, as \<open>dht_received\<close> spells out: the
  path id is zero in every message; the sender is the peer the decoder is given, except that it is zero in a message that publishes and in a
  relayed answer with intro sets; the relayed mark, or the relayed kind of the message, is the one the decoder is given. A search for intro
  sets carries its tag when it has one and its address otherwise, the other field is zero; a search for intro sets and a publication arrive
  with the version of the protocol, and a publication with the mark that its depth was read.
\<close>

theorem dht_message_roundtrip:
  assumes "dht_valid hash ntop pton msg" and "wf_buf b" and "length (dht_wire ntop msg) < size_left b"
  shows "\<exists>b'. dht_BEncode ntop msg b = Inr (True, b') \<and>
    DecodeMesssage hash pton netid src relayed (written_window b b') =
      Inr (Some (dht_received src relayed msg), advance (length (dht_wire ntop msg)) (written_window b b'))"
proof -
  from dht_emits [OF assms(1)] assms(2,3) obtain b' where b': "dht_BEncode ntop msg b = Inr (True, b')"
    "wf_buf b'" "consumed b' = consumed b @ dht_wire ntop msg" "bsz b' = bsz b" "cur b' = cur b + length (dht_wire ntop msg)"
    by (rule emitsE)
  with written_window [OF assms(2) b'(2,3,5)] DecodeMesssage_wire [OF assms(1), of "written_window b b'" "[]"]
  show ?thesis by auto
qed

theorem dht_message_roundtrip_witness:
  "\<exists>b'. dht_BEncode (\<lambda>a. None) (FRM (FindRouterMessage_target 7 (replicate 32 9))) (buffer_of (replicate 200 0)) = Inr (True, b') \<and>
    DecodeMesssage (\<lambda>_. []) (\<lambda>t. None) [] (replicate 32 5) True (written_window (buffer_of (replicate 200 0)) b') =
      Inr (Some (dht_received (replicate 32 5) True (FRM (FindRouterMessage_target 7 (replicate 32 9)))),
        advance (length (dht_wire (\<lambda>a. None) (FRM (FindRouterMessage_target 7 (replicate 32 9)))))
          (written_window (buffer_of (replicate 200 0)) b'))"
  by (rule dht_message_roundtrip) (simp add: FindRouterMessage_target_def, simp, code_simp)

end
