(* ===== verification/Dht_Tx.thy ===== *)
theory Dht_Tx
  imports Dht_Bucket
begin

text \<open>
  Pending lookups of the DHT: \<^verbatim>\<open>dht/txowner.hpp\<close>, \<^verbatim>\<open>dht/tx.hpp\<close> and \<^verbatim>\<open>dht/txholder.hpp\<close>. A holder is three
  containers; the multimap \<^verbatim>\<open>waiting\<close> is the list of its entries in the order it gives them, the two maps are
  association lists. What a lookup of a particular kind does is in its virtual functions: \<^verbatim>\<open>Validate\<close> and
  \<^verbatim>\<open>GetNextPeer\<close> are arguments, and the calls of \<^verbatim>\<open>Start\<close>, \<^verbatim>\<open>DoNextRequest\<close> and \<^verbatim>\<open>SendReply\<close> are returned to the
  caller, who owns the context they act on, in the order of the calls. The source makes the calls in place: \<^verbatim>\<open>SendReply\<close> comes before
  the transaction is erased, and \<^verbatim>\<open>DoNextRequest\<close> and \<^verbatim>\<open>Start\<close> come last. The model is of calls that do not come back to the same
  holder before they return.
\<close>

section \<open>Owners and transactions\<close>

record TXOwner =
  own_node :: dht_key
  own_txid :: u64

definition TXOwner_init :: TXOwner where
  "TXOwner_init = \<lparr>own_node = aligned_Zero 32, own_txid = 0\<rparr>"

definition TXOwner_less :: "TXOwner \<Rightarrow> TXOwner \<Rightarrow> bool" where
  "TXOwner_less a b \<longleftrightarrow> own_txid a < own_txid b \<or> (own_txid a = own_txid b \<and> Key_less (own_node a) (own_node b))"

record ('k, 'v, 'j) TX =
  tx_target :: 'k
  tx_peersAsked :: "dht_key set"
  tx_valuesFound :: "'v list"
  tx_whoasked :: TXOwner
  tx_job :: 'j

definition TX_new :: "TXOwner \<Rightarrow> 'k \<Rightarrow> 'j \<Rightarrow> ('k, 'v, 'j) TX" where
  "TX_new asker k job = \<lparr>tx_target = k, tx_peersAsked = {}, tx_valuesFound = [], tx_whoasked = asker, tx_job = job\<rparr>"

definition TX_OnFound ::
  "(('k, 'v, 'j) TX \<Rightarrow> 'v \<Rightarrow> bool) \<Rightarrow> dht_key \<Rightarrow> 'v \<Rightarrow> ('k, 'v, 'j) TX \<Rightarrow> ('k, 'v, 'j) TX" where
  "TX_OnFound Validate askedPeer value t =
     (let t = t\<lparr>tx_peersAsked := insert askedPeer (tx_peersAsked t)\<rparr>
      in if Validate t value then t\<lparr>tx_valuesFound := tx_valuesFound t @ [value]\<rparr> else t)"

text \<open>The second component is the peer of the call to \<^verbatim>\<open>DoNextRequest\<close>, and \<^verbatim>\<open>None\<close> where the code returns false.\<close>

definition TX_AskNextPeer ::
  "(('k, 'v, 'j) TX \<Rightarrow> dht_key set \<Rightarrow> dht_key option) \<Rightarrow> ('k \<Rightarrow> dht_key) \<Rightarrow> dht_key \<Rightarrow> dht_key option \<Rightarrow>
     ('k, 'v, 'j) TX \<Rightarrow> ('k, 'v, 'j) TX \<times> dht_key option" where
  "TX_AskNextPeer GetNextPeer key_of prevPeer next_peer t =
     (let t = t\<lparr>tx_peersAsked := insert prevPeer (tx_peersAsked t)\<rparr> in
      case next_peer of
        Some peer \<Rightarrow> (t\<lparr>tx_peersAsked := insert peer (tx_peersAsked t)\<rparr>, Some peer)
      | None \<Rightarrow>
          (case GetNextPeer t (tx_peersAsked t) of
             None \<Rightarrow> (t, None)
           | Some peer \<Rightarrow>
               let targetKey = key_of (tx_target t) in
               if Key_less (Key_xor prevPeer targetKey) (Key_xor peer targetKey) then (t, None)
               else (t\<lparr>tx_peersAsked := insert peer (tx_peersAsked t)\<rparr>, Some peer)))"

section \<open>The holder\<close>

record ('k, 'v, 'j) TXHolder =
  waiting :: "('k \<times> TXOwner) list"
  timeouts :: "('k \<times> llarp_time) list"
  tx :: "(TXOwner \<times> ('k, 'v, 'j) TX) list"

definition TXHolder_init :: "('k, 'v, 'j) TXHolder" where
  "TXHolder_init = \<lparr>waiting = [], timeouts = [], tx = []\<rparr>"

definition requestTimeoutMS :: llarp_time where
  "requestTimeoutMS = 30000"

definition HasLookupFor :: "('k, 'v, 'j) TXHolder \<Rightarrow> 'k \<Rightarrow> bool" where
  "HasLookupFor h target \<longleftrightarrow> map_of (timeouts h) target \<noteq> None"

definition GetPendingLookupFrom :: "('k, 'v, 'j) TXHolder \<Rightarrow> TXOwner \<Rightarrow> ('k, 'v, 'j) TX option" where
  "GetPendingLookupFrom h owner = map_of (tx h) owner"

definition HasPendingLookupFrom :: "('k, 'v, 'j) TXHolder \<Rightarrow> TXOwner \<Rightarrow> bool" where
  "HasPendingLookupFrom h owner \<longleftrightarrow> GetPendingLookupFrom h owner \<noteq> None"

text \<open>
  \<^verbatim>\<open>emplace\<close> takes ownership of the new transaction and destroys it when the owner has one already; the
  flag says whether \<^verbatim>\<open>t->Start(askpeer)\<close> is called.
\<close>

definition NewTX ::
  "llarp_time \<Rightarrow> TXOwner \<Rightarrow> 'k \<Rightarrow> ('k, 'v, 'j) TX \<Rightarrow> ('k, 'v, 'j) TXHolder \<Rightarrow> (bool \<times> ('k, 'v, 'j) TXHolder) res" where
  "NewTX now askpeer k t h =
     (let destroyed = (map_of (tx h) askpeer \<noteq> None);
          h = h\<lparr>tx := emplace askpeer t (tx h)\<rparr>;
          cnt = length (filter (\<lambda>w. fst w = k) (waiting h));
          h = h\<lparr>waiting := waiting h @ [(k, askpeer)]\<rparr>;
          h = h\<lparr>timeouts := emplace k (now + requestTimeoutMS) (timeouts h)\<rparr>
      in if cnt = 0 then (if destroyed then Inl UseAfterFree else Inr (True, h)) else Inr (False, h))"

text \<open>The body of the loop of \<^verbatim>\<open>Inform\<close>, and the loop; the second component are the transactions told to \<^verbatim>\<open>SendReply\<close>.\<close>

definition Inform_step ::
  "(('k, 'v, 'j) TX \<Rightarrow> 'v \<Rightarrow> bool) \<Rightarrow> dht_key \<Rightarrow> 'v list \<Rightarrow> bool \<Rightarrow> TXOwner \<Rightarrow>
     (TXOwner \<times> ('k, 'v, 'j) TX) list \<times> ('k, 'v, 'j) TX list \<Rightarrow> (TXOwner \<times> ('k, 'v, 'j) TX) list \<times> ('k, 'v, 'j) TX list" where
  "Inform_step Validate peer values sendreply owner st =
     (case map_of (fst st) owner of
        None \<Rightarrow> st
      | Some t \<Rightarrow>
          let t' = fold (TX_OnFound Validate peer) values t in
          if sendreply then (erase_key owner (fst st), snd st @ [t'])
          else (map (\<lambda>(o', s). if o' = owner then (o', t') else (o', s)) (fst st), snd st))"

definition Inform ::
  "(('k, 'v, 'j) TX \<Rightarrow> 'v \<Rightarrow> bool) \<Rightarrow> TXOwner \<Rightarrow> 'k \<Rightarrow> 'v list \<Rightarrow> bool \<Rightarrow> bool \<Rightarrow> ('k, 'v, 'j) TXHolder \<Rightarrow>
     ('k, 'v, 'j) TXHolder \<times> ('k, 'v, 'j) TX list" where
  "Inform Validate from key values sendreply removeTimeouts h =
     (let range = map snd (filter (\<lambda>w. fst w = key) (waiting h));
          (txs, replies) = fold (Inform_step Validate (own_node from) values sendreply) range (tx h, []);
          h = h\<lparr>tx := txs\<rparr>;
          h = (if sendreply then h\<lparr>waiting := erase_key key (waiting h)\<rparr> else h);
          h = (if removeTimeouts then h\<lparr>timeouts := erase_key key (timeouts h)\<rparr> else h)
      in (h, replies))"

definition Found ::
  "(('k, 'v, 'j) TX \<Rightarrow> 'v \<Rightarrow> bool) \<Rightarrow> TXOwner \<Rightarrow> 'k \<Rightarrow> 'v list \<Rightarrow> ('k, 'v, 'j) TXHolder \<Rightarrow>
     ('k, 'v, 'j) TXHolder \<times> ('k, 'v, 'j) TX list" where
  "Found Validate from k values h = Inform Validate from k values True True h"

text \<open>The last component is the transaction and the peer of \<^verbatim>\<open>DoNextRequest\<close>, where it is called.\<close>

definition NotFound ::
  "(('k, 'v, 'j) TX \<Rightarrow> 'v \<Rightarrow> bool) \<Rightarrow> (('k, 'v, 'j) TX \<Rightarrow> dht_key set \<Rightarrow> dht_key option) \<Rightarrow> ('k \<Rightarrow> dht_key) \<Rightarrow>
     TXOwner \<Rightarrow> dht_key option \<Rightarrow> ('k, 'v, 'j) TXHolder \<Rightarrow>
     ('k, 'v, 'j) TXHolder \<times> ('k, 'v, 'j) TX list \<times> (('k, 'v, 'j) TX \<times> dht_key) option" where
  "NotFound Validate GetNextPeer key_of from next_peer h =
     (case map_of (tx h) from of
        None \<Rightarrow> (h, [], None)
      | Some t \<Rightarrow>
          let (t', peer) = TX_AskNextPeer GetNextPeer key_of (own_node from) next_peer t;
              h = h\<lparr>tx := map (\<lambda>(o', s). if o' = from then (o', t') else (o', s)) (tx h)\<rparr>
          in case peer of
               Some p \<Rightarrow> (h, [], Some (t', p))
             | None \<Rightarrow> let (h', replies) = Inform Validate from (tx_target t') [] True True h in (h', replies, None))"

definition expired :: "llarp_time \<Rightarrow> llarp_time \<Rightarrow> bool" where
  "expired now t \<longleftrightarrow> now > t \<and> now - t \<ge> requestTimeoutMS"

primrec Expire_loop ::
  "(('k, 'v, 'j) TX \<Rightarrow> 'v \<Rightarrow> bool) \<Rightarrow> llarp_time \<Rightarrow> ('k \<times> llarp_time) list \<Rightarrow> ('k, 'v, 'j) TXHolder \<Rightarrow>
     ('k, 'v, 'j) TXHolder \<times> ('k, 'v, 'j) TX list" where
  "Expire_loop Validate now [] h = (h, [])"
| "Expire_loop Validate now (x # xs) h =
     (if expired now (snd x)
      then let (h', replies) = Inform Validate TXOwner_init (fst x) [] True False h;
               (h'', more) = Expire_loop Validate now xs (h'\<lparr>timeouts := erase_key (fst x) (timeouts h')\<rparr>)
           in (h'', replies @ more)
      else Expire_loop Validate now xs h)"

definition Expire ::
  "(('k, 'v, 'j) TX \<Rightarrow> 'v \<Rightarrow> bool) \<Rightarrow> llarp_time \<Rightarrow> ('k, 'v, 'j) TXHolder \<Rightarrow> ('k, 'v, 'j) TXHolder \<times> ('k, 'v, 'j) TX list" where
  "Expire Validate now h = Expire_loop Validate now (timeouts h) h"

section \<open>The invariant of a holder\<close>

text \<open>
  Owners and keys of the maps are distinct, every pending transaction waits under its target, and every key that is
  waited for has a timeout.
\<close>

definition wf_holder :: "('k, 'v, 'j) TXHolder \<Rightarrow> bool" where
  "wf_holder h \<longleftrightarrow> distinct (map fst (tx h)) \<and> distinct (map fst (timeouts h)) \<and>
     (\<forall>(o', t) \<in> set (tx h). (tx_target t, o') \<in> set (waiting h)) \<and>
     (\<forall>(k, o') \<in> set (waiting h). k \<in> fst ` set (timeouts h))"

lemma wf_holder_init [simp]: "wf_holder TXHolder_init"
  by (simp add: wf_holder_def TXHolder_init_def)

lemma wf_holderD:
  assumes "wf_holder h"
  shows "distinct (map fst (tx h))" and "distinct (map fst (timeouts h))"
    and "(o', t) \<in> set (tx h) \<Longrightarrow> (tx_target t, o') \<in> set (waiting h)"
    and "(k, o') \<in> set (waiting h) \<Longrightarrow> k \<in> fst ` set (timeouts h)"
  using assms by (auto simp: wf_holder_def)

lemma NewTX_cases:
  assumes "NewTX now askpeer k t h = Inr (start, h')"
  shows "h' = h\<lparr>tx := emplace askpeer t (tx h), waiting := waiting h @ [(k, askpeer)],
      timeouts := emplace k (now + requestTimeoutMS) (timeouts h)\<rparr>"
    and "start \<longleftrightarrow> k \<notin> fst ` set (waiting h)"
proof -
  have n: "length (filter (\<lambda>w. fst w = k) (waiting h)) = 0 \<longleftrightarrow> k \<notin> fst ` set (waiting h)"
    by (auto simp: filter_empty_conv)
  show "h' = h\<lparr>tx := emplace askpeer t (tx h), waiting := waiting h @ [(k, askpeer)],
      timeouts := emplace k (now + requestTimeoutMS) (timeouts h)\<rparr>"
    using assms by (simp add: NewTX_def Let_def split: if_splits)
  show "start \<longleftrightarrow> k \<notin> fst ` set (waiting h)"
    using assms n by (simp add: NewTX_def Let_def split: if_splits)
qed

lemma NewTX_ok: "map_of (tx h) askpeer = None \<Longrightarrow> \<exists>start h'. NewTX now askpeer k t h = Inr (start, h')"
  by (cases "length (filter (\<lambda>w. fst w = k) (waiting h)) = 0") (auto simp: NewTX_def Let_def)

lemma NewTX_wf:
  assumes "wf_holder h" and "NewTX now askpeer (tx_target t) t h = Inr (start, h')"
  shows "wf_holder h'"
proof -
  note h' = NewTX_cases(1) [OF assms(2)]
  have "distinct (map fst (tx h'))" "distinct (map fst (timeouts h'))"
    using assms(1) by (simp_all add: h' wf_holder_def distinct_emplace)
  moreover have "(tx_target s, o') \<in> set (waiting h')" if "(o', s) \<in> set (tx h')" for o' s
    using that assms(1) set_emplace [of "(o', s)" askpeer t "tx h"] by (auto simp: h' wf_holder_def)
  moreover have "k \<in> fst ` set (timeouts h')" if "(k, o') \<in> set (waiting h')" for k o'
    using that assms(1) by (auto simp: h' wf_holder_def emplace_keys)
  ultimately show ?thesis by (auto simp: wf_holder_def)
qed

subsection \<open>Informing\<close>

lemma OnFound_fold_target [simp]: "tx_target (fold (TX_OnFound V p) vs t) = tx_target t"
  by (induction vs arbitrary: t) (auto simp: TX_OnFound_def Let_def)

lemma OnFound_fold_job [simp]:
  "tx_job (fold (TX_OnFound V p) vs t) = tx_job t" "tx_whoasked (fold (TX_OnFound V p) vs t) = tx_whoasked t"
  by (induction vs arbitrary: t) (auto simp: TX_OnFound_def Let_def)

text \<open>\<open>answered txs os ol\<close>: the owners \<open>ol\<close> are those of \<open>os\<close> that have a transaction, each once.\<close>

definition answered :: "(TXOwner \<times> 'a) list \<Rightarrow> TXOwner list \<Rightarrow> TXOwner list \<Rightarrow> bool" where
  "answered txs os ol \<longleftrightarrow> distinct ol \<and> set ol = {o' \<in> set os. map_of txs o' \<noteq> None}"

lemma answered_skip:
  assumes "map_of txs o' = None"
  shows "answered txs (o' # os) ol \<longleftrightarrow> answered txs os ol"
proof -
  have "{j \<in> set (o' # os). map_of txs j \<noteq> None} = {j \<in> set os. map_of txs j \<noteq> None}"
    unfolding list.set using assms by blast
  then show ?thesis by (simp only: answered_def)
qed

lemma answered_take:
  assumes "map_of txs o' = Some t" and "answered (erase_key o' txs) os ol"
  shows "o' \<notin> set ol" and "answered txs (o' # os) (o' # ol)"
proof -
  have ol: "distinct ol" "set ol = {j \<in> set os. map_of (erase_key o' txs) j \<noteq> None}"
    using assms(2) by (simp_all only: answered_def)
  have "set ol = {j \<in> set os. j \<noteq> o' \<and> map_of txs j \<noteq> None}"
    unfolding ol(2) map_of_erase_key by (rule Collect_cong) simp
  moreover from this show "o' \<notin> set ol" by blast
  ultimately have "set (o' # ol) = {j \<in> set (o' # os). map_of txs j \<noteq> None}"
    unfolding list.set using assms(1) by blast
  with ol(1) \<open>o' \<notin> set ol\<close> show "answered txs (o' # os) (o' # ol)"
    unfolding answered_def distinct.simps by blast
qed

lemma Inform_step_None: "map_of txs o' = None \<Longrightarrow> Inform_step V p vs b o' (txs, rs) = (txs, rs)"
  by (simp add: Inform_step_def)

lemma Inform_step_Some:
  "map_of txs o' = Some t \<Longrightarrow> Inform_step V p vs True o' (txs, rs) = (erase_key o' txs, rs @ [fold (TX_OnFound V p) vs t])"
  by (simp add: Inform_step_def Let_def)

lemma Inform_steps:
  assumes "fold (Inform_step V p vs True) os (txs, rs) = (txs', rs')"
  shows "txs' = filter (\<lambda>x. fst x \<notin> set os) txs \<and>
    (\<exists>ol. answered txs os ol \<and> rs' = rs @ map (\<lambda>o'. fold (TX_OnFound V p) vs (the (map_of txs o'))) ol)"
  using assms
proof (induction os arbitrary: txs rs)
  case Nil
  then show ?case by (auto simp: answered_def)
next
  case (Cons o' os)
  show ?case
  proof (cases "map_of txs o'")
    case None
    then have "o' \<notin> fst ` set txs" by (simp add: map_of_eq_None_iff)
    then have f: "filter (\<lambda>x. fst x \<notin> set (o' # os)) txs = filter (\<lambda>x. fst x \<notin> set os) txs"
      by (intro filter_cong) auto
    note a = answered_skip [OF None]
    from None Cons.prems have "fold (Inform_step V p vs True) os (txs, rs) = (txs', rs')"
      by (simp add: Inform_step_None)
    from Cons.IH [OF this] show ?thesis unfolding f a .
  next
    case (Some t)
    with Cons.prems have
      "fold (Inform_step V p vs True) os (erase_key o' txs, rs @ [fold (TX_OnFound V p) vs t]) = (txs', rs')"
      by (simp add: Inform_step_Some)
    from Cons.IH [OF this] obtain ol where
      t: "txs' = filter (\<lambda>x. fst x \<notin> set os) (erase_key o' txs)" and a: "answered (erase_key o' txs) os ol"
      and r: "rs' = (rs @ [fold (TX_OnFound V p) vs t]) @
        map (\<lambda>o'a. fold (TX_OnFound V p) vs (the (map_of (erase_key o' txs) o'a))) ol"
      by blast
    note ol = answered_take(1) [OF Some a]
    have "txs' = filter (\<lambda>x. fst x \<notin> set (o' # os)) txs"
      unfolding t erase_key_def filter_filter by (rule filter_cong) auto
    moreover have "answered txs (o' # os) (o' # ol)"
      by (rule answered_take(2) [OF Some a])
    moreover have "map (\<lambda>j. fold (TX_OnFound V p) vs (the (map_of (erase_key o' txs) j))) ol =
        map (\<lambda>j. fold (TX_OnFound V p) vs (the (map_of txs j))) ol"
      using ol by (intro map_cong) (auto simp: map_of_erase_key)
    ultimately show ?thesis using r Some by (intro conjI exI [of _ "o' # ol"]) simp_all
  qed
qed

abbreviation waiters :: "('k, 'v, 'j) TXHolder \<Rightarrow> 'k \<Rightarrow> TXOwner list" where
  "waiters h k \<equiv> map snd (filter (\<lambda>w. fst w = k) (waiting h))"

text \<open>What \<^verbatim>\<open>Inform\<close> with a reply leaves, and whom it tells.\<close>

lemma Inform_spec:
  assumes "Inform V from k vs True rt h = (h', rs)"
  shows "h' = h\<lparr>tx := filter (\<lambda>x. fst x \<notin> set (waiters h k)) (tx h), waiting := erase_key k (waiting h),
      timeouts := if rt then erase_key k (timeouts h) else timeouts h\<rparr>"
    and "\<exists>ol. answered (tx h) (waiters h k) ol \<and>
      rs = map (\<lambda>o'. fold (TX_OnFound V (own_node from)) vs (the (map_of (tx h) o'))) ol"
proof -
  obtain txs rs' where f: "fold (Inform_step V (own_node from) vs True) (waiters h k) (tx h, []) = (txs, rs')"
    by fastforce
  with assms have eq: "rs = rs'" "h' = h\<lparr>tx := txs, waiting := erase_key k (waiting h),
      timeouts := if rt then erase_key k (timeouts h) else timeouts h\<rparr>"
    by (auto simp: Inform_def Let_def)
  note S = Inform_steps [OF f]
  show "h' = h\<lparr>tx := filter (\<lambda>x. fst x \<notin> set (waiters h k)) (tx h), waiting := erase_key k (waiting h),
      timeouts := if rt then erase_key k (timeouts h) else timeouts h\<rparr>"
    unfolding eq(2) using S by blast
  show "\<exists>ol. answered (tx h) (waiters h k) ol \<and>
      rs = map (\<lambda>o'. fold (TX_OnFound V (own_node from)) vs (the (map_of (tx h) o'))) ol"
    unfolding eq(1) using S by simp
qed

lemma distinct_keys_filter: "distinct (map fst xs) \<Longrightarrow> distinct (map fst (filter P xs))"
  by (simp add: distinct_map_filter)

lemma Inform_wf:
  assumes "wf_holder h" and "Inform V from k vs True rt h = (h', rs)"
  shows "wf_holder h'" and "k \<notin> fst ` set (waiting h')" and "(o', t) \<in> set (tx h') \<Longrightarrow> tx_target t \<noteq> k"
proof -
  note h' = Inform_spec(1) [OF assms(2)]
  have w: "(tx_target t, o') \<in> set (waiting h)" if "(o', t) \<in> set (tx h)" for o' t
    using that assms(1) by (auto simp: wf_holder_def)
  have tk: "tx_target t \<noteq> k" if "(o', t) \<in> set (tx h')" for o' t
  proof
    assume "tx_target t = k"
    from that have t: "(o', t) \<in> set (tx h)" "o' \<notin> set (waiters h k)" by (simp_all add: h')
    with w \<open>tx_target t = k\<close> have "(k, o') \<in> set (filter (\<lambda>w. fst w = k) (waiting h))" by auto
    then have "snd (k, o') \<in> set (waiters h k)" unfolding set_map by (rule imageI)
    with t show False by simp
  qed
  then show "(o', t) \<in> set (tx h') \<Longrightarrow> tx_target t \<noteq> k" .
  show "k \<notin> fst ` set (waiting h')" by (auto simp: h')
  have "(tx_target t, o') \<in> set (waiting h')" if "(o', t) \<in> set (tx h')" for o' t
    using that tk [OF that] w [of o' t] by (simp add: h')
  moreover have "j \<in> fst ` set (timeouts h')" if "(j, o') \<in> set (waiting h')" for j o'
  proof -
    from that have "(j, o') \<in> set (waiting h)" "j \<noteq> k" by (simp_all add: h')
    with assms(1) have "j \<in> fst ` set (timeouts h)" by (auto simp: wf_holder_def)
    with \<open>j \<noteq> k\<close> show ?thesis by (auto simp: h')
  qed
  moreover have "distinct (map fst (tx h'))" "distinct (map fst (timeouts h'))"
    using assms(1) by (simp_all add: h' wf_holder_def distinct_keys_filter distinct_erase_key)
  ultimately show "wf_holder h'" by (auto simp: wf_holder_def)
qed

subsection \<open>Not found\<close>

definition replace_tx :: "TXOwner \<Rightarrow> 'a \<Rightarrow> (TXOwner \<times> 'a) list \<Rightarrow> (TXOwner \<times> 'a) list" where
  "replace_tx from t' xs = map (\<lambda>(o', s). if o' = from then (o', t') else (o', s)) xs"

lemma replace_tx_keys: "map fst (replace_tx from t' xs) = map fst xs"
  by (induction xs) (auto simp: replace_tx_def)

lemma replace_tx_set: "(o', s) \<in> set (replace_tx from t' xs) \<Longrightarrow>
   (o' = from \<and> s = t') \<or> (o', s) \<in> set xs"
  by (auto simp: replace_tx_def split: if_splits)

lemma AskNextPeer_target [simp]:
  "TX_AskNextPeer G K p n t = (t', peer) \<Longrightarrow> tx_target t' = tx_target t"
  by (auto simp: TX_AskNextPeer_def Let_def split: option.splits if_splits)

lemma replace_tx_wf:
  assumes "wf_holder h" and "map_of (tx h) from = Some t" and "tx_target t' = tx_target t"
  shows "wf_holder (h\<lparr>tx := replace_tx from t' (tx h)\<rparr>)"
proof -
  have "(tx_target t, from) \<in> set (waiting h)"
    using assms(1) map_of_SomeD [OF assms(2)] by (auto simp: wf_holder_def)
  then have "(tx_target s, o') \<in> set (waiting h)" if "(o', s) \<in> set (replace_tx from t' (tx h))" for o' s
    using that replace_tx_set [of o' s "from" t' "tx h"] assms(1,3) by (auto simp: wf_holder_def)
  then show ?thesis using assms(1) by (auto simp: wf_holder_def replace_tx_keys)
qed

lemma NotFound_wf:
  assumes "wf_holder h" and "NotFound V G K from n h = (h', rs, ask)"
  shows "wf_holder h'" and "ask = Some (t', p) \<Longrightarrow> tx_target t' \<in> fst ` set (waiting h')"
proof -
  have "wf_holder h' \<and> (ask = Some (t', p) \<longrightarrow> tx_target t' \<in> fst ` set (waiting h'))"
  proof (cases "map_of (tx h) from")
    case None
    with assms show ?thesis by (auto simp: NotFound_def)
  next
    case (Some t)
    obtain s peer where a: "TX_AskNextPeer G K (own_node from) n t = (s, peer)" by fastforce
    let ?h = "h\<lparr>tx := replace_tx from s (tx h)\<rparr>"
    have wf: "wf_holder ?h" using assms(1) Some AskNextPeer_target [OF a] by (rule replace_tx_wf)
    have w: "(tx_target t, from) \<in> set (waiting h)"
      using assms(1) map_of_SomeD [OF Some] by (auto simp: wf_holder_def)
    show ?thesis
    proof (cases peer)
      case None
      obtain h2 rs2 where i: "Inform V from (tx_target s) [] True True ?h = (h2, rs2)" by fastforce
      with Some a None assms(2) have "h' = h2" "ask = None"
        by (auto simp: NotFound_def replace_tx_def Let_def)
      with Inform_wf(1) [OF wf i] show ?thesis by simp
    next
      case (Some q)
      with \<open>map_of (tx h) from = Some t\<close> a assms(2) have "h' = ?h" "ask = Some (s, q)"
        by (auto simp: NotFound_def replace_tx_def Let_def)
      moreover have "tx_target s \<in> fst ` set (waiting h)" using w AskNextPeer_target [OF a] by (auto intro: rev_image_eqI)
      ultimately show ?thesis using wf by auto
    qed
  qed
  then show "wf_holder h'" "ask = Some (t', p) \<Longrightarrow> tx_target t' \<in> fst ` set (waiting h')" by auto
qed

subsection \<open>Expiry\<close>

lemma Inform_timeouts: "Inform V from k vs True rt h = (h', rs) \<Longrightarrow>
   timeouts h' = (if rt then erase_key k (timeouts h) else timeouts h)"
  by (drule Inform_spec(1)) simp

lemma erase_timeout_wf:
  assumes "wf_holder h" and "k \<notin> fst ` set (waiting h)"
  shows "wf_holder (h\<lparr>timeouts := erase_key k (timeouts h)\<rparr>)"
proof -
  have "j \<in> fst ` set (erase_key k (timeouts h))" if "(j, o') \<in> set (waiting h)" for j o'
  proof -
    from that assms(1) have "j \<in> fst ` set (timeouts h)" by (auto simp: wf_holder_def)
    moreover have "j \<noteq> k" using assms(2) imageI [OF that, of fst] by auto
    ultimately show ?thesis by auto
  qed
  then show ?thesis using assms(1) by (auto simp: wf_holder_def distinct_erase_key)
qed

lemma Expire_loop_wf:
  assumes "wf_holder h" and "Expire_loop V now xs h = (h', rs)" and "set xs \<subseteq> set (timeouts h)"
    and "distinct (map fst xs)"
  shows "wf_holder h' \<and> timeouts h' = filter (\<lambda>y. \<not> (y \<in> set xs \<and> expired now (snd y))) (timeouts h)"
  using assms
proof (induction xs arbitrary: h rs)
  case (Cons x xs)
  show ?case
  proof (cases "expired now (snd x)")
    case False
    with Cons.prems have "Expire_loop V now xs h = (h', rs)" by simp
    moreover have "filter (\<lambda>y. \<not> (y \<in> set (x # xs) \<and> expired now (snd y))) (timeouts h) =
        filter (\<lambda>y. \<not> (y \<in> set xs \<and> expired now (snd y))) (timeouts h)"
      using False by (intro filter_cong) auto
    ultimately show ?thesis using Cons by simp
  next
    case True
    obtain h1 r1 where i: "Inform V TXOwner_init (fst x) [] True False h = (h1, r1)" by fastforce
    let ?h = "h1\<lparr>timeouts := erase_key (fst x) (timeouts h1)\<rparr>"
    obtain r2 where e: "Expire_loop V now xs ?h = (h', r2)"
      using Cons.prems(2) True i by (auto simp: Let_def split: prod.splits)
    have t: "timeouts h1 = timeouts h" using Inform_timeouts [OF i] by simp
    have wf: "wf_holder ?h" using Inform_wf [OF Cons.prems(1) i] by (intro erase_timeout_wf)
    have "set xs \<subseteq> set (timeouts ?h)"
      using Cons.prems(3,4) by (auto simp: t image_iff)
    from Cons.IH [OF wf e this] Cons.prems(4)
    have w: "wf_holder h'" and "timeouts h' = filter (\<lambda>y. \<not> (y \<in> set xs \<and> expired now (snd y))) (erase_key (fst x) (timeouts h))"
      by (auto simp: t)
    then have "timeouts h' = filter (\<lambda>y. fst y \<noteq> fst x \<and> \<not> (y \<in> set xs \<and> expired now (snd y))) (timeouts h)"
      by (simp add: erase_key_def conj_commute)
    also have "\<dots> = filter (\<lambda>y. \<not> (y \<in> set (x # xs) \<and> expired now (snd y))) (timeouts h)"
    proof (rule filter_cong)
      fix y assume y: "y \<in> set (timeouts h)"
      have "distinct (map fst (timeouts h))" using Cons.prems(1) by (simp add: wf_holder_def)
      moreover have "x \<in> set (timeouts h)" using Cons.prems(3) by simp
      ultimately have "fst y = fst x \<longleftrightarrow> y = x"
        using y eq_key_imp_eq_value [of "timeouts h" "fst x" "snd y" "snd x"] by (cases x; cases y) auto
      then show "(fst y \<noteq> fst x \<and> \<not> (y \<in> set xs \<and> expired now (snd y))) =
          (\<not> (y \<in> set (x # xs) \<and> expired now (snd y)))"
        using True by auto
    qed simp
    finally show ?thesis using w by simp
  qed
qed (simp add: filter_id_conv)

lemma Expire_wf:
  assumes "wf_holder h" and "Expire V now h = (h', rs)"
  shows "wf_holder h'" and "timeouts h' = filter (\<lambda>y. \<not> expired now (snd y)) (timeouts h)"
proof -
  have "wf_holder h' \<and> timeouts h' = filter (\<lambda>y. \<not> (y \<in> set (timeouts h) \<and> expired now (snd y))) (timeouts h)"
    using assms unfolding Expire_def by (intro Expire_loop_wf) (simp_all add: wf_holder_def)
  then show "wf_holder h'" "timeouts h' = filter (\<lambda>y. \<not> expired now (snd y)) (timeouts h)"
    by (auto intro: filter_cong)
qed

lemma answered_mem:
  assumes "distinct (map fst (tx h))" and "answered (tx h) (waiters h k) ol" and "(o', t) \<in> set (tx h)"
    and "o' \<in> set (waiters h k)"
  shows "t \<in> set (map (\<lambda>o'. the (map_of (tx h) o')) ol)"
proof -
  have m: "map_of (tx h) o' = Some t" using assms(1,3) by simp
  have "set ol = {o' \<in> set (waiters h k). map_of (tx h) o' \<noteq> None}"
    using assms(2) unfolding answered_def by (rule conjunct2)
  with assms(4) m have "o' \<in> set ol" by blast
  then have "the (map_of (tx h) o') \<in> set (map (\<lambda>o'. the (map_of (tx h) o')) ol)" unfolding set_map by (rule imageI)
  with m show ?thesis by (simp only: option.sel)
qed

lemma waiters_target:
  assumes "wf_holder h" and "(o', t) \<in> set (tx h)"
  shows "o' \<in> set (waiters h (tx_target t))"
proof -
  from wf_holderD(3) [OF assms] have "(tx_target t, o') \<in> set (filter (\<lambda>w. fst w = tx_target t) (waiting h))" by simp
  then have "snd (tx_target t, o') \<in> set (waiters h (tx_target t))" unfolding set_map by (rule imageI)
  then show ?thesis by simp
qed

lemma Expire_loop_replies:
  assumes "wf_holder h" and "Expire_loop V now xs h = (h', rs)" and "(o', t) \<in> set (tx h)"
    and "(tx_target t, tm) \<in> set xs" and "expired now tm"
  shows "t \<in> set rs"
  using assms
proof (induction xs arbitrary: h rs)
  case (Cons x xs)
  show ?case
  proof (cases "expired now (snd x)")
    case False
    with Cons.prems show ?thesis by (intro Cons.IH [of h rs]) auto
  next
    case True
    obtain h1 r1 where i: "Inform V TXOwner_init (fst x) [] True False h = (h1, r1)" by fastforce
    let ?h = "h1\<lparr>timeouts := erase_key (fst x) (timeouts h1)\<rparr>"
    obtain r2 where e: "Expire_loop V now xs ?h = (h', r2)" and rs: "rs = r1 @ r2"
      using Cons.prems(2) True i by (auto simp: Let_def split: prod.splits)
    have d: "distinct (map fst (tx h))" using Cons.prems(1) by (simp add: wf_holder_def)
    show ?thesis
    proof (cases "o' \<in> set (waiters h (fst x))")
      case o: True
      from Inform_spec(2) [OF i] obtain ol where
        "answered (tx h) (waiters h (fst x)) ol" "r1 = map (\<lambda>o'. the (map_of (tx h) o')) ol"
        by auto
      with answered_mem [OF d _ Cons.prems(3) o] show ?thesis by (simp add: rs)
    next
      case o: False
      then have "(o', t) \<in> set (tx ?h)" using Inform_spec(1) [OF i] Cons.prems(3) by simp
      moreover have "(tx_target t, tm) \<in> set xs"
      proof -
        have "fst x \<noteq> tx_target t"
        proof
          assume "fst x = tx_target t"
          with waiters_target [OF Cons.prems(1,3)] have "o' \<in> set (waiters h (fst x))" by (simp only:)
          with o show False by contradiction
        qed
        with Cons.prems(4) show ?thesis by auto
      qed
      moreover have "wf_holder ?h" using Inform_wf [OF Cons.prems(1) i] by (intro erase_timeout_wf)
      ultimately show ?thesis using Cons.IH [OF _ e] Cons.prems(5) by (simp add: rs)
    qed
  qed
qed simp

section \<open>Properties\<close>

text \<open>
  C21: A result for a key answers every transaction that waits for the key, each exactly once and with
  the validated values added, and leaves no lookup, waiter, timeout or transaction of them; every other waiter, timeout and transaction stays as
  it was, and the invariant of the holder is kept.
\<close>

theorem found_answers_every_waiter:
  assumes "wf_holder h" and "Found V from k vs h = (h', rs)"
  shows "wf_holder h' \<and> \<not> HasLookupFor h' k \<and> waiting h' = filter (\<lambda>w. fst w \<noteq> k) (waiting h) \<and> k \<notin> tx_target ` snd ` set (tx h') \<and>
    (\<exists>ol. distinct ol \<and> set ol = {o'. (k, o') \<in> set (waiting h) \<and> HasPendingLookupFrom h o'} \<and>
      rs = map (\<lambda>o'. fold (TX_OnFound V (own_node from)) vs (the (GetPendingLookupFrom h o'))) ol) \<and>
    (\<forall>o'. GetPendingLookupFrom h' o' = (if (k, o') \<in> set (waiting h) then None else GetPendingLookupFrom h o')) \<and>
    (\<forall>j. j \<noteq> k \<longrightarrow> map_of (timeouts h') j = map_of (timeouts h) j)"
proof -
  note i = assms(2) [unfolded Found_def]
  note h' = Inform_spec(1) [OF i]
  from Inform_spec(2) [OF i] obtain ol where ol: "answered (tx h) (waiters h k) ol"
    "rs = map (\<lambda>o'. fold (TX_OnFound V (own_node from)) vs (the (map_of (tx h) o'))) ol"
    by blast
  have w: "o' \<in> set (waiters h k) \<longleftrightarrow> (k, o') \<in> set (waiting h)" for o' by force
  with ol(1) have "distinct ol \<and> set ol = {o'. (k, o') \<in> set (waiting h) \<and> HasPendingLookupFrom h o'}"
    unfolding answered_def HasPendingLookupFrom_def GetPendingLookupFrom_def by blast
  moreover have "\<not> HasLookupFor h' k" "\<forall>j. j \<noteq> k \<longrightarrow> map_of (timeouts h') j = map_of (timeouts h) j"
    by (simp_all add: h' HasLookupFor_def map_of_erase_key)
  moreover have "k \<notin> tx_target ` snd ` set (tx h')"
  proof
    assume "k \<in> tx_target ` snd ` set (tx h')"
    then obtain o' t where "(o', t) \<in> set (tx h')" "tx_target t = k" by auto
    with Inform_wf(3) [OF assms(1) i] show False by blast
  qed
  moreover have "GetPendingLookupFrom h' o' = (if (k, o') \<in> set (waiting h) then None else GetPendingLookupFrom h o')" for o'
    using w [of o'] by (simp add: GetPendingLookupFrom_def h' map_of_filter_key)
  moreover have "waiting h' = filter (\<lambda>w. fst w \<noteq> k) (waiting h)" by (simp add: h' erase_key_def)
  ultimately show ?thesis
    using Inform_wf(1) [OF assms(1) i] ol(2) unfolding GetPendingLookupFrom_def by blast
qed

subsection \<open>Runs of a holder\<close>

text \<open>
  What can happen to a holder between two moments, and the transactions that are told to reply meanwhile. The owner of a new transaction is
  the peer that is asked with a new transaction id, so it is not in use.
\<close>

datatype ('k, 'v, 'j) holder_op =
    OpNew llarp_time TXOwner "('k, 'v, 'j) TX" | OpFound TXOwner 'k "'v list" | OpNotFound TXOwner "dht_key option" | OpExpire llarp_time

fun holder_do ::
  "(('k, 'v, 'j) TX \<Rightarrow> 'v \<Rightarrow> bool) \<Rightarrow> (('k, 'v, 'j) TX \<Rightarrow> dht_key set \<Rightarrow> dht_key option) \<Rightarrow> ('k \<Rightarrow> dht_key) \<Rightarrow>
     ('k, 'v, 'j) holder_op \<Rightarrow> ('k, 'v, 'j) TXHolder \<Rightarrow> (('k, 'v, 'j) TXHolder \<times> ('k, 'v, 'j) TX list) res" where
  "holder_do V G K (OpNew now askpeer t) h = bind_res (NewTX now askpeer (tx_target t) t h) (\<lambda>(_, h). Inr (h, []))"
| "holder_do V G K (OpFound from k vs) h = Inr (Found V from k vs h)"
| "holder_do V G K (OpNotFound from n) h = (let (h, rs, _) = NotFound V G K from n h in Inr (h, rs))"
| "holder_do V G K (OpExpire now) h = Inr (Expire V now h)"

primrec holder_run ::
  "(('k, 'v, 'j) TX \<Rightarrow> 'v \<Rightarrow> bool) \<Rightarrow> (('k, 'v, 'j) TX \<Rightarrow> dht_key set \<Rightarrow> dht_key option) \<Rightarrow> ('k \<Rightarrow> dht_key) \<Rightarrow>
     ('k, 'v, 'j) holder_op list \<Rightarrow> ('k, 'v, 'j) TXHolder \<Rightarrow> (('k, 'v, 'j) TXHolder \<times> ('k, 'v, 'j) TX list) res" where
  "holder_run V G K [] h = Inr (h, [])"
| "holder_run V G K (x # xs) h = bind_res (holder_do V G K x h) (\<lambda>(h, rs).
     bind_res (holder_run V G K xs h) (\<lambda>(h, more). Inr (h, rs @ more)))"

text \<open>
  A run in which nobody answers the lookup for \<open>k\<close>: no result for the key, no failure of a transaction for it, and no expiry at or after
  the deadline.
\<close>

fun unanswered :: "'k \<Rightarrow> nat \<Rightarrow> ('k, 'v, 'j) TXHolder \<Rightarrow> ('k, 'v, 'j) holder_op \<Rightarrow> bool" where
  "unanswered k deadline h (OpNew now askpeer t) \<longleftrightarrow> askpeer \<notin> snd ` set (waiting h)"
| "unanswered k deadline h (OpFound from j vs) \<longleftrightarrow> j \<noteq> k"
| "unanswered k deadline h (OpNotFound from n) \<longleftrightarrow> (case map_of (tx h) from of None \<Rightarrow> True | Some t \<Rightarrow> tx_target t \<noteq> k)"
| "unanswered k deadline h (OpExpire now) \<longleftrightarrow> unat now < deadline"

primrec unanswered_run ::
  "(('k, 'v, 'j) TX \<Rightarrow> 'v \<Rightarrow> bool) \<Rightarrow> (('k, 'v, 'j) TX \<Rightarrow> dht_key set \<Rightarrow> dht_key option) \<Rightarrow> ('k \<Rightarrow> dht_key) \<Rightarrow>
     'k \<Rightarrow> nat \<Rightarrow> ('k, 'v, 'j) holder_op list \<Rightarrow> ('k, 'v, 'j) TXHolder \<Rightarrow> bool" where
  "unanswered_run V G K k deadline [] h \<longleftrightarrow> True"
| "unanswered_run V G K k deadline (x # xs) h \<longleftrightarrow> unanswered k deadline h x \<and>
     (case holder_do V G K x h of Inl _ \<Rightarrow> True | Inr (h, _) \<Rightarrow> unanswered_run V G K k deadline xs h)"

text \<open>An owner waits only for the target of its transaction.\<close>

definition owners_ok :: "('k, 'v, 'j) TXHolder \<Rightarrow> bool" where
  "owners_ok h \<longleftrightarrow> (\<forall>(j, o') \<in> set (waiting h). \<forall>t. (o', t) \<in> set (tx h) \<longrightarrow> tx_target t = j)"

definition pending :: "TXOwner \<Rightarrow> ('k, 'v, 'j) TX \<Rightarrow> llarp_time \<Rightarrow> ('k, 'v, 'j) TXHolder \<Rightarrow> bool" where
  "pending askpeer t tm h \<longleftrightarrow> wf_holder h \<and> owners_ok h \<and> (askpeer, t) \<in> set (tx h) \<and> (tx_target t, tm) \<in> set (timeouts h)"

lemma owners_okD: "owners_ok h \<Longrightarrow> (j, o') \<in> set (waiting h) \<Longrightarrow> (o', t) \<in> set (tx h) \<Longrightarrow> tx_target t = j"
  by (auto simp: owners_ok_def)

lemma NewTX_fresh:
  assumes "wf_holder h" and "owners_ok h" and "askpeer \<notin> snd ` set (waiting h)"
  shows "\<exists>start h'. NewTX now askpeer (tx_target t) t h = Inr (start, h')"
    and "NewTX now askpeer (tx_target t) t h = Inr (start, h') \<Longrightarrow> owners_ok h' \<and> tx h' = tx h @ [(askpeer, t)]"
proof -
  have new: "askpeer \<notin> fst ` set (tx h)" using wf_holderD(3) [OF assms(1)] assms(3) by (force simp: image_iff)
  then have n: "map_of (tx h) askpeer = None" by (simp add: map_of_eq_None_iff)
  then show "\<exists>start h'. NewTX now askpeer (tx_target t) t h = Inr (start, h')" by (rule NewTX_ok)
  assume "NewTX now askpeer (tx_target t) t h = Inr (start, h')"
  from NewTX_cases(1) [OF this] n
  have e: "tx h' = tx h @ [(askpeer, t)]" "waiting h' = waiting h @ [(tx_target t, askpeer)]" by (simp_all add: emplace_def)
  have "owners_ok h'" unfolding owners_ok_def
  proof clarify
    fix j a u assume "(j, a) \<in> set (waiting h')" "(a, u) \<in> set (tx h')"
    with new assms(2,3) show "tx_target u = j" by (auto simp: e owners_ok_def rev_image_eqI)
  qed
  with e(1) show "owners_ok h' \<and> tx h' = tx h @ [(askpeer, t)]" by simp
qed

lemma pending_Inform:
  assumes p: "pending askpeer t tm h" and i: "Inform V from j vs True rt h = (h', rs)" and "j \<noteq> tx_target t"
  shows "pending askpeer t tm h'" and "r \<in> set rs \<Longrightarrow> tx_target r = j"
proof -
  note h' = Inform_spec(1) [OF i]
  have ok: "wf_holder h" "owners_ok h" and t: "(askpeer, t) \<in> set (tx h)" "(tx_target t, tm) \<in> set (timeouts h)"
    using p by (simp_all add: pending_def)
  have "askpeer \<notin> set (waiters h j)" using owners_okD [OF ok(2) _ t(1)] assms(3) by auto
  then have "(askpeer, t) \<in> set (tx h')" "(tx_target t, tm) \<in> set (timeouts h')" using t assms(3) by (simp_all add: h')
  moreover have "owners_ok h'" using ok(2) by (auto simp: owners_ok_def h')
  ultimately show "pending askpeer t tm h'" using Inform_wf(1) [OF ok(1) i] by (simp add: pending_def)
  assume "r \<in> set rs"
  with Inform_spec(2) [OF i] obtain ol o' where "answered (tx h) (waiters h j) ol" "o' \<in> set ol"
    and r: "r = fold (TX_OnFound V (own_node from)) vs (the (map_of (tx h) o'))" by auto
  then have "o' \<in> set (waiters h j)" "map_of (tx h) o' \<noteq> None" unfolding answered_def by blast+
  then obtain u where u: "(j, o') \<in> set (waiting h)" "map_of (tx h) o' = Some u" by auto
  with map_of_SomeD [OF u(2)] owners_okD [OF ok(2)] show "tx_target r = j" by (simp add: r)
qed

lemma pending_Expire_loop:
  assumes "pending askpeer t tm h" and "Expire_loop V now xs h = (h', rs)" and "list_all (\<lambda>x. expired now (snd x) \<longrightarrow> fst x \<noteq> tx_target t) xs"
  shows "pending askpeer t tm h' \<and> (\<forall>r\<in>set rs. tx_target r \<noteq> tx_target t)"
  using assms
proof (induction xs arbitrary: h rs)
  case (Cons x xs)
  show ?case
  proof (cases "expired now (snd x)")
    case False
    with Cons.prems have "Expire_loop V now xs h = (h', rs)" "list_all (\<lambda>x. expired now (snd x) \<longrightarrow> fst x \<noteq> tx_target t) xs"
      by simp_all
    with Cons.prems(1) show ?thesis by (rule Cons.IH)
  next
    case True
    with Cons.prems(3) have x: "fst x \<noteq> tx_target t" by simp
    obtain h1 r1 where i: "Inform V TXOwner_init (fst x) [] True False h = (h1, r1)" by fastforce
    let ?h = "h1\<lparr>timeouts := erase_key (fst x) (timeouts h1)\<rparr>"
    obtain r2 where e: "Expire_loop V now xs ?h = (h', r2)" and rs: "rs = r1 @ r2"
      using Cons.prems(2) True i by (auto simp: Let_def split: prod.splits)
    note p = pending_Inform [OF Cons.prems(1) i x]
    have "wf_holder h" using Cons.prems(1) by (simp add: pending_def)
    from Inform_wf [OF this i] have "wf_holder ?h" by (intro erase_timeout_wf)
    moreover have "owners_ok ?h" using p(1) by (simp add: pending_def owners_ok_def)
    moreover have "(tx_target t, tm) \<in> set (timeouts ?h)" using p(1) x by (simp add: pending_def)
    ultimately have "pending askpeer t tm ?h" using p(1) by (simp add: pending_def)
    note ih = Cons.IH [OF this e]
    have "pending askpeer t tm h' \<and> (\<forall>r\<in>set r2. tx_target r \<noteq> tx_target t)" using Cons.prems(3) by (intro ih) simp
    moreover have "\<forall>r\<in>set r1. tx_target r \<noteq> tx_target t" using x by (intro ballI) (simp add: p(2))
    ultimately show ?thesis unfolding rs set_append by blast
  qed
qed simp

lemma pending_NotFound:
  assumes p: "pending askpeer t tm h" and n: "NotFound V G K from next_peer h = (h', rs, ask)"
    and u: "\<And>u. map_of (tx h) from = Some u \<Longrightarrow> tx_target u \<noteq> tx_target t"
  shows "pending askpeer t tm h' \<and> (\<forall>r\<in>set rs. tx_target r \<noteq> tx_target t)"
proof (cases "map_of (tx h) from")
  case None
  with n p show ?thesis by (auto simp: NotFound_def)
next
  case (Some v)
  obtain s peer where a: "TX_AskNextPeer G K (own_node from) next_peer v = (s, peer)" by fastforce
  note tgt = AskNextPeer_target [OF a]
  let ?h = "h\<lparr>tx := replace_tx from s (tx h)\<rparr>"
  have wf: "wf_holder h" and ow: "owners_ok h" and t: "(askpeer, t) \<in> set (tx h)" "(tx_target t, tm) \<in> set (timeouts h)"
    using p by (simp_all add: pending_def)
  have "map_of (tx h) askpeer = Some t" using wf t(1) by (simp add: wf_holder_def)
  with u [OF Some] Some have ne: "askpeer \<noteq> from" by auto
  have "owners_ok ?h" unfolding owners_ok_def
  proof clarify
    fix j o' w assume w: "(j, o') \<in> set (waiting ?h)" "(o', w) \<in> set (tx ?h)"
    from w(2) have "(o', w) \<in> set (replace_tx from s (tx h))" by simp
    from replace_tx_set [OF this] obtain v' where "(o', v') \<in> set (tx h)" "tx_target w = tx_target v'"
      using map_of_SomeD [OF Some] tgt by blast
    with w(1) owners_okD [OF ow, of j o' v'] show "tx_target w = j" by simp
  qed
  moreover have "(askpeer, t) \<in> set (tx ?h)" using imageI [OF t(1), of "\<lambda>(o', u). if o' = from then (o', s) else (o', u)"] ne
    by (simp add: replace_tx_def)
  ultimately have ph: "pending askpeer t tm ?h" using replace_tx_wf [OF wf Some tgt] t(2) by (simp add: pending_def)
  show ?thesis
  proof (cases peer)
    case None
    obtain h1 r1 where i: "Inform V from (tx_target s) [] True True ?h = (h1, r1)" by fastforce
    with n Some None a have "h' = h1" "rs = r1" by (auto simp: NotFound_def replace_tx_def Let_def)
    have ne': "tx_target s \<noteq> tx_target t" using u [OF Some] tgt by simp
    note I = pending_Inform [OF ph i ne']
    have "\<forall>r\<in>set r1. tx_target r \<noteq> tx_target t" using ne' by (intro ballI) (simp add: I(2))
    with I(1) show ?thesis using \<open>h' = h1\<close> \<open>rs = r1\<close> by simp
  next
    case (Some q)
    with n \<open>map_of (tx h) from = Some v\<close> a have "h' = ?h" "rs = []" by (auto simp: NotFound_def replace_tx_def Let_def)
    with ph show ?thesis by simp
  qed
qed

lemma pending_do:
  assumes p: "pending askpeer t tm h" and d: "holder_do V G K x h = Inr (h', rs)" and u: "unanswered (tx_target t) deadline h x"
    and dl: "\<And>now. unat now < deadline \<Longrightarrow> \<not> expired now tm"
  shows "pending askpeer t tm h' \<and> (\<forall>r\<in>set rs. tx_target r \<noteq> tx_target t)"
proof -
  have wf: "wf_holder h" and ow: "owners_ok h" and t: "(askpeer, t) \<in> set (tx h)" "(tx_target t, tm) \<in> set (timeouts h)"
    using p by (simp_all add: pending_def)
  show ?thesis
  proof (cases x)
    case (OpNew now o' s)
    with d obtain start where n: "NewTX now o' (tx_target s) s h = Inr (start, h')" and rs: "rs = []"
      by (auto simp: bind_res_eq_Inr_iff)
    have "o' \<notin> snd ` set (waiting h)" using u OpNew by simp
    note N = NewTX_fresh(2) [OF wf ow this n]
    have "(tx_target t, tm) \<in> set (timeouts h')" using t(2) NewTX_cases(1) [OF n] by (simp add: emplace_def)
    then have "pending askpeer t tm h'" using N NewTX_wf [OF wf n] t(1) by (simp add: pending_def)
    with rs show ?thesis by simp
  next
    case (OpFound "from" j vs)
    with d have "Inform V from j vs True True h = (h', rs)" by (simp add: Found_def)
    note I = pending_Inform [OF p this]
    have j: "j \<noteq> tx_target t" using u OpFound by simp
    then have "\<forall>r\<in>set rs. tx_target r \<noteq> tx_target t" by (intro ballI) (simp add: I(2))
    with I(1) j show ?thesis by simp
  next
    case (OpNotFound "from" n)
    obtain a where "NotFound V G K from n h = (h', rs, a)"
      using d OpNotFound by (cases "NotFound V G K from n h") auto
    from pending_NotFound [OF p this] u OpNotFound show ?thesis by (auto split: option.splits)
  next
    case (OpExpire now)
    with u dl have ne: "\<not> expired now tm" by simp
    have dist: "distinct (map fst (timeouts h))" and tm: "(tx_target t, tm) \<in> set (timeouts h)" using p by (simp_all add: pending_def wf_holder_def)
    have "list_all (\<lambda>x. expired now (snd x) \<longrightarrow> fst x \<noteq> tx_target t) (timeouts h)"
      using eq_key_imp_eq_value [OF dist _ tm] ne by (auto simp: list_all_iff)
    with pending_Expire_loop [OF p] d OpExpire show ?thesis by (simp add: Expire_def)
  qed
qed

lemma pending_run:
  assumes "pending askpeer t tm h" and "holder_run V G K ops h = Inr (h', rs)" and "unanswered_run V G K (tx_target t) deadline ops h"
    and "\<And>now. unat now < deadline \<Longrightarrow> \<not> expired now tm"
  shows "pending askpeer t tm h' \<and> (\<forall>r\<in>set rs. tx_target r \<noteq> tx_target t)"
  using assms(1-3)
proof (induction ops arbitrary: h rs)
  case (Cons x ops)
  from Cons.prems(2) obtain h1 r1 r2 where d: "holder_do V G K x h = Inr (h1, r1)" and r: "holder_run V G K ops h1 = Inr (h', r2)"
    and rs: "rs = r1 @ r2"
    by (auto simp: bind_res_eq_Inr_iff)
  have u: "unanswered (tx_target t) deadline h x" "unanswered_run V G K (tx_target t) deadline ops h1" using Cons.prems(3) d by simp_all
  note s = pending_do [OF Cons.prems(1) d u(1) assms(4)]
  from s Cons.IH [OF conjunct1 [OF s] r u(2)] show ?case unfolding rs set_append by blast
qed simp

lemma Expire_loop_tx: "Expire_loop V now xs h = (h', rs) \<Longrightarrow> set (tx h') \<subseteq> set (tx h)"
proof (induction xs arbitrary: h rs)
  case (Cons x xs)
  show ?case
  proof (cases "expired now (snd x)")
    case False
    with Cons show ?thesis by simp
  next
    case True
    obtain h1 r1 where i: "Inform V TXOwner_init (fst x) [] True False h = (h1, r1)" by fastforce
    obtain r2 where e: "Expire_loop V now xs (h1\<lparr>timeouts := erase_key (fst x) (timeouts h1)\<rparr>) = (h', r2)"
      using Cons.prems True i by (auto simp: Let_def split: prod.splits)
    from Cons.IH [OF this] Inform_spec(1) [OF i] show ?thesis by auto
  qed
qed simp

lemma pending_expires:
  assumes p: "pending askpeer t tm h" and e: "Expire V now h = (h', rs)" and x: "expired now tm"
  shows "t \<in> set rs \<and> \<not> HasLookupFor h' (tx_target t) \<and> \<not> HasPendingLookupFrom h' askpeer"
proof -
  have wf: "wf_holder h" and t: "(askpeer, t) \<in> set (tx h)" and tm: "(tx_target t, tm) \<in> set (timeouts h)"
    using p by (simp_all add: pending_def)
  note W = Expire_wf [OF wf e]
  have "t \<in> set rs" using Expire_loop_replies [OF wf e [unfolded Expire_def] t tm x] .
  moreover have none: "tx_target t \<notin> fst ` set (timeouts h')"
  proof
    assume "tx_target t \<in> fst ` set (timeouts h')"
    then obtain tm' where "(tx_target t, tm') \<in> set (timeouts h)" "\<not> expired now tm'" by (auto simp: W(2))
    with eq_key_imp_eq_value [OF wf_holderD(2) [OF wf] _ tm] x show False by blast
  qed
  moreover have "map_of (tx h') askpeer = None"
  proof (rule ccontr)
    assume "map_of (tx h') askpeer \<noteq> None"
    then obtain u where u: "map_of (tx h') askpeer = Some u" by auto
    note u' = map_of_SomeD [OF u]
    with Expire_loop_tx [OF e [unfolded Expire_def]] have "(askpeer, u) \<in> set (tx h)" by blast
    with eq_key_imp_eq_value [OF wf_holderD(1) [OF wf] _ t] have "u = t" by blast
    with wf_holderD(4) [OF W(1) wf_holderD(3) [OF W(1) u']] none show False by simp
  qed
  ultimately show ?thesis by (simp add: HasLookupFor_def HasPendingLookupFrom_def GetPendingLookupFrom_def map_of_eq_None_iff)
qed

lemma expired_start:
  assumes "unat s + 60000 < 2 ^ 64"
  shows "expired now (s + requestTimeoutMS) \<longleftrightarrow> unat s + 60000 \<le> unat now"
proof -
  have u: "unat (s + 30000) = unat s + 30000" using assms unat_add_lem [of s "30000 :: u64"] by simp
  show ?thesis
  proof (cases "s + 30000 < now")
    case True
    then have "unat (now - (s + 30000)) = unat now - (unat s + 30000)" by (simp add: unat_sub u less_imp_le)
    with True show ?thesis
      by (auto simp: expired_def requestTimeoutMS_def word_le_nat_alt word_less_nat_alt u)
  next
    case False
    then show ?thesis by (simp add: expired_def requestTimeoutMS_def word_less_nat_alt u)
  qed
qed

lemma NewTX_pending:
  assumes "wf_holder h0" and "owners_ok h0" and "\<not> HasLookupFor h0 (tx_target t)" and "askpeer \<notin> snd ` set (waiting h0)"
  shows "\<exists>h. NewTX s askpeer (tx_target t) t h0 = Inr (True, h) \<and> pending askpeer t (s + requestTimeoutMS) h"
proof -
  have n2: "map_of (timeouts h0) (tx_target t) = None" using assms(3) by (simp add: HasLookupFor_def)
  obtain start h where n: "NewTX s askpeer (tx_target t) t h0 = Inr (start, h)" using NewTX_fresh(1) [OF assms(1,2,4)] by blast
  note N = NewTX_fresh(2) [OF assms(1,2,4) n]
  have "tx_target t \<notin> fst ` set (timeouts h0)" using n2 by (simp add: map_of_eq_None_iff)
  then have "tx_target t \<notin> fst ` set (waiting h0)" using wf_holderD(4) [OF assms(1)] by auto
  then have "start" using NewTX_cases(2) [OF n] by simp
  have "(tx_target t, s + requestTimeoutMS) \<in> set (timeouts h)" using n2 NewTX_cases(1) [OF n] by (simp add: emplace_def)
  then have "pending askpeer t (s + requestTimeoutMS) h" using N NewTX_wf [OF assms(1) n] by (simp add: pending_def)
  with n \<open>start\<close> show ?thesis by simp
qed

text \<open>
  C22: A lookup started at time \<open>s\<close> for a key that had none, with an owner nobody uses, stays pending through every run of new transactions,
  results and failures of other lookups and expiries earlier than \<open>s\<close> plus 60 seconds, and no transaction for the key is told to reply
  meanwhile; the first expiry at or after that time makes it reply and ends it. The timeout of 30 seconds is waited for twice.
\<close>

theorem lookup_expires_after_a_minute:
  assumes "wf_holder h0" and "owners_ok h0" and "\<not> HasLookupFor h0 (tx_target t)" and "askpeer \<notin> snd ` set (waiting h0)"
    and "unat s + 60000 < 2 ^ 64"
  shows "\<exists>h. NewTX s askpeer (tx_target t) t h0 = Inr (True, h) \<and>
    (\<forall>ops h1 rs1. holder_run V G K ops h = Inr (h1, rs1) \<longrightarrow> unanswered_run V G K (tx_target t) (unat s + 60000) ops h \<longrightarrow>
      GetPendingLookupFrom h1 askpeer = Some t \<and> HasLookupFor h1 (tx_target t) \<and> (\<forall>r\<in>set rs1. tx_target r \<noteq> tx_target t) \<and>
      (\<forall>now h2 rs2. Expire V now h1 = (h2, rs2) \<longrightarrow> unat s + 60000 \<le> unat now \<longrightarrow>
         t \<in> set rs2 \<and> \<not> HasLookupFor h2 (tx_target t) \<and> \<not> HasPendingLookupFrom h2 askpeer))"
proof -
  note ex = expired_start [OF assms(5)]
  obtain h where n: "NewTX s askpeer (tx_target t) t h0 = Inr (True, h)" and p: "pending askpeer t (s + requestTimeoutMS) h"
    using NewTX_pending [OF assms(1-4)] by blast
  have "GetPendingLookupFrom h1 askpeer = Some t \<and> HasLookupFor h1 (tx_target t) \<and> (\<forall>r\<in>set rs1. tx_target r \<noteq> tx_target t) \<and>
      (\<forall>now h2 rs2. Expire V now h1 = (h2, rs2) \<longrightarrow> unat s + 60000 \<le> unat now \<longrightarrow>
         t \<in> set rs2 \<and> \<not> HasLookupFor h2 (tx_target t) \<and> \<not> HasPendingLookupFrom h2 askpeer)"
    if r: "holder_run V G K ops h = Inr (h1, rs1)" and u: "unanswered_run V G K (tx_target t) (unat s + 60000) ops h" for ops h1 rs1
  proof -
    have p1: "pending askpeer t (s + requestTimeoutMS) h1 \<and> (\<forall>r\<in>set rs1. tx_target r \<noteq> tx_target t)"
      by (rule pending_run [OF p r u]) (simp add: ex)
    then have "map_of (tx h1) askpeer = Some t" "map_of (timeouts h1) (tx_target t) \<noteq> None"
      by (auto simp: pending_def wf_holder_def)
    with p1 pending_expires [OF conjunct1 [OF p1]] ex show ?thesis unfolding GetPendingLookupFrom_def HasLookupFor_def by blast
  qed
  with n show ?thesis by blast
qed

definition demo_tx :: "(nat, nat, unit) TX" where
  "demo_tx = TX_new TXOwner_init 7 ()"

definition demo_tx2 :: "(nat, nat, unit) TX" where
  "demo_tx2 = TX_new TXOwner_init 8 ()"

definition demo_owner :: TXOwner where
  "demo_owner = \<lparr>own_node = aligned_Zero 32, own_txid = 5\<rparr>"

definition demo_ops :: "(nat, nat, unit) holder_op list" where
  "demo_ops = [OpNew 2000 demo_owner demo_tx2, OpExpire 60999, OpFound demo_owner 8 [3]]"

definition demo_pending :: "(nat, nat, unit) TXHolder" where
  "demo_pending = \<lparr>waiting = [(7, TXOwner_init)], timeouts = [(7, 31000)], tx = [(TXOwner_init, demo_tx)]\<rparr>"

lemma demo_run:
  "NewTX 1000 TXOwner_init 7 demo_tx TXHolder_init = Inr (True, demo_pending)"
  "holder_run (\<lambda>t v. True) (\<lambda>t e. None) (\<lambda>k. []) demo_ops demo_pending =
     Inr (demo_pending, [TX_OnFound (\<lambda>t v. True) (aligned_Zero 32) 3 demo_tx2])"
  "unanswered_run (\<lambda>t v. True) (\<lambda>t e. None) (\<lambda>k. []) 7 61000 demo_ops demo_pending"
  by (simp_all add: NewTX_def TXHolder_init_def emplace_def requestTimeoutMS_def demo_pending_def demo_ops_def demo_tx2_def TX_new_def
      demo_owner_def TXOwner_init_def Expire_def expired_def Found_def Inform_def Inform_step_def erase_key_def)

theorem lookup_expires_after_a_minute_witness:
  "GetPendingLookupFrom demo_pending TXOwner_init = Some demo_tx \<and>
   demo_tx \<in> set (snd (Expire (\<lambda>t v. True) 61000 demo_pending)) \<and> \<not> HasLookupFor (fst (Expire (\<lambda>t v. True) 61000 demo_pending)) 7"
proof -
  have a: "wf_holder (TXHolder_init :: (nat, nat, unit) TXHolder)" "owners_ok (TXHolder_init :: (nat, nat, unit) TXHolder)"
    "\<not> HasLookupFor (TXHolder_init :: (nat, nat, unit) TXHolder) (tx_target demo_tx)"
    "TXOwner_init \<notin> snd ` set (waiting (TXHolder_init :: (nat, nat, unit) TXHolder))" "unat (1000 :: u64) + 60000 < 2 ^ 64"
    by (simp_all add: TXHolder_init_def HasLookupFor_def owners_ok_def wf_holder_def)
  have k: "tx_target demo_tx = 7" by (simp add: demo_tx_def TX_new_def)
  have d: "unat (1000 :: u64) + 60000 = 61000" "unat (61000 :: u64) = 61000" by simp_all
  from lookup_expires_after_a_minute [OF a, of "\<lambda>t v. True" "\<lambda>t e. None" "\<lambda>k. []", unfolded k demo_run(1) d]
  have all: "\<And>ops h1 rs1. holder_run (\<lambda>t v. True) (\<lambda>t e. None) (\<lambda>k. []) ops demo_pending = Inr (h1, rs1) \<Longrightarrow>
      unanswered_run (\<lambda>t v. True) (\<lambda>t e. None) (\<lambda>k. []) 7 61000 ops demo_pending \<Longrightarrow>
      GetPendingLookupFrom h1 TXOwner_init = Some demo_tx \<and>
      (\<forall>now h2 rs2. Expire (\<lambda>t v. True) now h1 = (h2, rs2) \<longrightarrow> 61000 \<le> unat now \<longrightarrow> demo_tx \<in> set rs2 \<and> \<not> HasLookupFor h2 7)"
    by auto
  show ?thesis using all [OF demo_run(2,3)] surjective_pairing d(2) by (metis order_refl)
qed

theorem found_answers_every_waiter_witness:
  "\<not> HasLookupFor (fst (Found (\<lambda>t v. True) TXOwner_init 7 [3] demo_pending)) 7 \<and>
   GetPendingLookupFrom (fst (Found (\<lambda>t v. True) TXOwner_init 7 [3] demo_pending)) TXOwner_init = None \<and>
   snd (Found (\<lambda>t v. True) TXOwner_init 7 [3] demo_pending) = [TX_OnFound (\<lambda>t v. True) (aligned_Zero 32) 3 demo_tx]"
proof -
  have "wf_holder demo_pending" by (simp add: wf_holder_def demo_pending_def demo_tx_def TX_new_def)
  moreover have f: "Found (\<lambda>t v. True) TXOwner_init 7 [3] demo_pending =
      (\<lparr>waiting = [], timeouts = [], tx = []\<rparr>, [TX_OnFound (\<lambda>t v. True) (aligned_Zero 32) 3 demo_tx])"
    by (simp add: demo_pending_def Found_def Inform_def Inform_step_def Let_def erase_key_def TXOwner_init_def)
  ultimately show ?thesis
    using found_answers_every_waiter [of demo_pending "\<lambda>t v. True" TXOwner_init 7 "[3]"] by (auto simp: demo_pending_def)
qed

end
