(* ===== verification/Dht_Context.thy ===== *)
theory Dht_Context
  imports Dht_Messages Dht_Tx
begin

text \<open>
  The DHT of a router: the kinds of lookup (\<^verbatim>\<open>dht/*lookup.*\<close>, \<^verbatim>\<open>dht/*job.*\<close>), the context (\<^verbatim>\<open>dht/context.cpp\<close>)
  and what each message does to it (\<^verbatim>\<open>HandleMessage\<close> in \<^verbatim>\<open>dht/messages/\<close> and of the two carriers). The
  context is a record; what it does to the rest of the router is a log of effects in the order of the calls.
  Result handlers (\<^verbatim>\<open>std::function\<close>) are named by numbers and their calls are logged.
\<close>

section \<open>Nodes of the buckets\<close>

record RCNode =
  rcn_rc :: RouterContact
  rcn_ID :: dht_key

definition RCNode_of :: "RouterContact \<Rightarrow> RCNode" where
  "RCNode_of other = \<lparr>rcn_rc = other, rcn_ID = rc_pubkey other\<rparr>"

definition RCNode_less :: "RCNode \<Rightarrow> RCNode \<Rightarrow> bool" where
  "RCNode_less a b \<longleftrightarrow> rc_last_updated (rcn_rc a) < rc_last_updated (rcn_rc b)"

record ISNode =
  isn_introset :: IntroSet
  isn_ID :: dht_key

text \<open>A key stays zero when the address cannot be calculated.\<close>

definition ISNode_of :: "(byte list \<Rightarrow> aligned) \<Rightarrow> IntroSet \<Rightarrow> ISNode res" where
  "ISNode_of hash other = bind_res (ServiceInfo_CalculateAddress hash (is_A other)) (\<lambda>a.
     Inr \<lparr>isn_introset = other, isn_ID = (case a of None \<Rightarrow> aligned_Zero 32 | Some k \<Rightarrow> k)\<rparr>)"

definition ISNode_less :: "ISNode \<Rightarrow> ISNode \<Rightarrow> bool" where
  "ISNode_less a b \<longleftrightarrow> is_T (isn_introset a) < is_T (isn_introset b)"

section \<open>Lookups\<close>

datatype lookup_handler = Handler nat | HandleDHTLookupForExplore aligned

datatype router_job = RecursiveRouterLookup "lookup_handler option" | LocalRouterLookup aligned
datatype introset_job =
    ServiceAddressLookup "nat option" u64 | LocalServiceAddressLookup aligned
  | PublishServiceJob u64 "dht_key set" IntroSet
datatype tag_job = TagLookup u64 | LocalTagLookup aligned
datatype explore_job = ExploreNetworkJob

type_synonym router_tx = "(aligned, RouterContact, router_job) TX"
type_synonym introset_tx = "(aligned, IntroSet, introset_job) TX"
type_synonym tag_tx = "(aligned, IntroSet, tag_job) TX"
type_synonym explore_tx = "(aligned, aligned, explore_job) TX"

section \<open>The context\<close>

text \<open>
  \<open>Send\<close> is \<^verbatim>\<open>DHTSendTo\<close>: the message is queued for the peer and the session kept until the given time;
  \<open>SendOnPath\<close> a routing message on a path.
\<close>

datatype dht_effect =
    Send aligned dht_message llarp_time | SendOnPath aligned dht_message | StoreRC RouterContact
  | RouterResult lookup_handler "RouterContact list" | IntroSetResult nat "IntroSet list"

record dht_context =
  ctx_ids :: u64
  ctx_ourKey :: dht_key
  ctx_nodes :: "RCNode bucket"
  ctx_services :: "ISNode bucket"
  ctx_allowTransit :: bool
  ctx_introsets :: "(aligned, IntroSet, introset_job) TXHolder"
  ctx_tags :: "(aligned, IntroSet, tag_job) TXHolder"
  ctx_routers :: "(aligned, RouterContact, router_job) TXHolder"
  ctx_explore :: "(aligned, aligned, explore_job) TXHolder"
  ctx_out :: "dht_effect list"

text \<open>
  What the context asks of the rest of the router: the clock, our contact, the network's policy, the node database,
  the profiles, the local paths and path sets, the cryptography and the random generator (whose output may depend on
  everything that happened).
\<close>

record dht_router =
  r_now :: llarp_time
  r_rc :: RouterContact
  r_allowed :: "aligned \<Rightarrow> bool"
  r_nodedb :: "aligned \<Rightarrow> RouterContact option"
  r_bad :: "aligned \<Rightarrow> bool"
  r_path :: "aligned \<Rightarrow> bool"
  r_pathset :: "dht_message \<Rightarrow> aligned \<Rightarrow> bool"
  r_connected :: nat
  r_netid :: aligned
  r_block_bogons :: bool
  r_verify :: "aligned \<Rightarrow> byte list \<Rightarrow> aligned \<Rightarrow> bool"
  r_hash :: "byte list \<Rightarrow> aligned"
  r_shorthash :: "byte list \<Rightarrow> aligned option"
  r_ntop :: ntop
  r_randint :: "dht_context \<Rightarrow> u64"
  r_randkey :: "dht_context \<Rightarrow> aligned"

definition Context_Init :: "dht_key \<Rightarrow> u64 \<Rightarrow> dht_context" where
  "Context_Init us ids = \<lparr>ctx_ids = ids, ctx_ourKey = us, ctx_nodes = Bucket us, ctx_services = Bucket us,
     ctx_allowTransit = False, ctx_introsets = TXHolder_init, ctx_tags = TXHolder_init, ctx_routers = TXHolder_init,
     ctx_explore = TXHolder_init, ctx_out = []\<rparr>"

definition llarp_dht_allow_transit :: "dht_context \<Rightarrow> dht_context" where
  "llarp_dht_allow_transit c = c\<lparr>ctx_allowTransit := True\<rparr>"

definition llarp_dht_remove_peer :: "dht_key \<Rightarrow> dht_context \<Rightarrow> dht_context" where
  "llarp_dht_remove_peer k c = c\<lparr>ctx_nodes := DelNode (ctx_nodes c) k\<rparr>"

definition PutRCNodeAsync :: "RCNode \<Rightarrow> dht_context \<Rightarrow> dht_context" where
  "PutRCNodeAsync val c = c\<lparr>ctx_nodes := PutNode rcn_ID RCNode_less (ctx_nodes c) val\<rparr>"

definition DelRCNodeAsync :: "dht_key \<Rightarrow> dht_context \<Rightarrow> dht_context" where
  "DelRCNodeAsync k c = c\<lparr>ctx_nodes := DelNode (ctx_nodes c) k\<rparr>"

definition effect :: "dht_effect \<Rightarrow> dht_context \<Rightarrow> dht_context" where
  "effect e c = c\<lparr>ctx_out := ctx_out c @ [e]\<rparr>"

definition DHTSendTo :: "dht_router \<Rightarrow> aligned \<Rightarrow> dht_message \<Rightarrow> dht_context \<Rightarrow> dht_context" where
  "DHTSendTo r peer msg c = effect (Send peer msg (r_now r + 60000)) c"

text \<open>\<^verbatim>\<open>++ids\<close>, and the owner of the next request to a peer.\<close>

definition next_owner :: "dht_key \<Rightarrow> dht_context \<Rightarrow> TXOwner \<times> dht_context" where
  "next_owner askpeer c = (let c = c\<lparr>ctx_ids := ctx_ids c + 1\<rparr> in (\<lparr>own_node = askpeer, own_txid = ctx_ids c\<rparr>, c))"

definition closest_excluding :: "dht_context \<Rightarrow> dht_key \<Rightarrow> dht_key set \<Rightarrow> dht_key option" where
  "closest_excluding c k exclude =
     (let (found, peer) = FindCloseExcluding (ctx_nodes c) k (aligned_Zero 32) exclude in if found then Some peer else None)"

section \<open>Router lookups\<close>

definition router_Validate :: "dht_router \<Rightarrow> router_tx \<Rightarrow> RouterContact \<Rightarrow> bool" where
  "router_Validate r t rc \<longleftrightarrow>
     RouterContact_Verify (r_ntop r) (r_verify r) (r_netid r) (r_block_bogons r) rc (r_now r) True = Inr True"

definition router_GetNextPeer :: "dht_context \<Rightarrow> router_tx \<Rightarrow> dht_key set \<Rightarrow> dht_key option" where
  "router_GetNextPeer c t exclude = closest_excluding c (tx_target t) exclude"

definition router_Start :: "dht_router \<Rightarrow> TXOwner \<Rightarrow> router_tx \<Rightarrow> dht_context \<Rightarrow> dht_context" where
  "router_Start r peer t = DHTSendTo r (own_node peer) (FRM (FindRouterMessage_target (own_txid peer) (tx_target t)))"

definition new_router_lookup ::
  "dht_router \<Rightarrow> TXOwner \<Rightarrow> aligned \<Rightarrow> dht_key \<Rightarrow> router_job \<Rightarrow> dht_context \<Rightarrow> dht_context res" where
  "new_router_lookup r asker target askpeer job c =
     (let (peer, c) = next_owner askpeer c;
          t = (TX_new asker target job)\<lparr>tx_peersAsked := {ctx_ourKey c}\<rparr>
      in bind_res (NewTX (r_now r) peer target t (ctx_routers c)) (\<lambda>(start, h).
           let c = c\<lparr>ctx_routers := h\<rparr> in Inr (if start then router_Start r peer t c else c)))"

definition LookupRouterRecursive ::
  "dht_router \<Rightarrow> aligned \<Rightarrow> dht_key \<Rightarrow> u64 \<Rightarrow> dht_key \<Rightarrow> lookup_handler option \<Rightarrow> dht_context \<Rightarrow> dht_context res" where
  "LookupRouterRecursive r target whoasked txid askpeer handler c =
     new_router_lookup r \<lparr>own_node = whoasked, own_txid = txid\<rparr> target askpeer (RecursiveRouterLookup handler) c"

definition LookupRouterForPath ::
  "dht_router \<Rightarrow> aligned \<Rightarrow> u64 \<Rightarrow> aligned \<Rightarrow> dht_key \<Rightarrow> dht_context \<Rightarrow> dht_context res" where
  "LookupRouterForPath r target txid path askpeer c =
     new_router_lookup r \<lparr>own_node = ctx_ourKey c, own_txid = txid\<rparr> target askpeer (LocalRouterLookup path) c"

definition LookupRouter ::
  "dht_router \<Rightarrow> aligned \<Rightarrow> lookup_handler option \<Rightarrow> dht_context \<Rightarrow> (bool \<times> dht_context) res" where
  "LookupRouter r target result c =
     (let (found, askpeer) = FindClosest (ctx_nodes c) target (aligned_Zero 32) in
      if \<not> found then Inr (False, c)
      else bind_res (LookupRouterRecursive r target (ctx_ourKey c) 0 askpeer result c) (\<lambda>c. Inr (True, c)))"

definition HasRouterLookup :: "dht_context \<Rightarrow> aligned \<Rightarrow> bool" where
  "HasRouterLookup c target \<longleftrightarrow> HasLookupFor (ctx_routers c) target"

definition router_DoNextRequest :: "dht_router \<Rightarrow> router_tx \<Rightarrow> dht_key \<Rightarrow> dht_context \<Rightarrow> dht_context res" where
  "router_DoNextRequest r t peer =
     LookupRouterRecursive r (tx_target t) (own_node (tx_whoasked t)) (own_txid (tx_whoasked t)) peer
       (case tx_job t of RecursiveRouterLookup h \<Rightarrow> h | LocalRouterLookup path \<Rightarrow> None)"

text \<open>\<^verbatim>\<open>RecursiveRouterLookup\<close> keeps the newest contact; \<^verbatim>\<open>LocalRouterLookup\<close> asks the other way round.\<close>

definition newest_RC :: "aligned \<Rightarrow> RouterContact list \<Rightarrow> RouterContact list" where
  "newest_RC netid values =
     (if values = [] then []
      else [foldl (\<lambda>found rc. if RouterContact_OtherIsNewer found rc then rc else found) (RouterContact_init netid) values])"

definition local_RC :: "aligned \<Rightarrow> RouterContact list \<Rightarrow> RouterContact list" where
  "local_RC netid values =
     (if values = [] then []
      else [foldl (\<lambda>found rc. if RouterContact_OtherIsNewer rc found then rc else found) (RouterContact_init netid) values])"

definition RecursiveRouterLookup_SendReply ::
  "dht_router \<Rightarrow> lookup_handler option \<Rightarrow> router_tx \<Rightarrow> dht_context \<Rightarrow> dht_context" where
  "RecursiveRouterLookup_SendReply r h t c =
     (let values = newest_RC (r_netid r) (tx_valuesFound t);
          c = (case h of
                 Some f \<Rightarrow> effect (RouterResult f values) c
               | None \<Rightarrow>
                   if own_node (tx_whoasked t) \<noteq> ctx_ourKey c
                   then DHTSendTo r (own_node (tx_whoasked t))
                     (GRM (GotRouterMessage_results (aligned_Zero 32) (own_txid (tx_whoasked t)) values False)) c
                   else c)
      in (case values of [] \<Rightarrow> c | v # vs \<Rightarrow> effect (StoreRC v) c))"

definition LocalRouterLookup_SendReply :: "dht_router \<Rightarrow> aligned \<Rightarrow> router_tx \<Rightarrow> dht_context \<Rightarrow> dht_context" where
  "LocalRouterLookup_SendReply r path t c =
     (if \<not> r_path r path then c
      else effect (SendOnPath path (GRM (GotRouterMessage_results (ctx_ourKey c) (own_txid (tx_whoasked t))
             (local_RC (r_netid r) (tx_valuesFound t)) True))) c)"

definition router_SendReply :: "dht_router \<Rightarrow> router_tx \<Rightarrow> dht_context \<Rightarrow> dht_context" where
  "router_SendReply r t =
     (case tx_job t of
        RecursiveRouterLookup h \<Rightarrow> RecursiveRouterLookup_SendReply r h t
      | LocalRouterLookup path \<Rightarrow> LocalRouterLookup_SendReply r path t)"

section \<open>Intro set lookups\<close>

text \<open>
  \<^verbatim>\<open>A.Addr()\<close>. The writers never leave their buffer, so the fault of \<open>ServiceInfo_Addr\<close> does not occur.
\<close>

definition IntroSet_addr :: "dht_router \<Rightarrow> IntroSet \<Rightarrow> aligned" where
  "IntroSet_addr r i = (case ServiceInfo_Addr (r_hash r) (is_A i) of Inr (a, _) \<Rightarrow> a | Inl _ \<Rightarrow> aligned_Zero 32)"

text \<open>
  A proof of work with a lifetime of zero that is checked in the millisecond of its timestamp is a fault of \<open>PoW_IsValid\<close>; it counts as
  refused here and where an intro set is published.
\<close>

definition IntroSet_verified :: "dht_router \<Rightarrow> IntroSet \<Rightarrow> bool" where
  "IntroSet_verified r i \<longleftrightarrow> IntroSet_Verify (r_verify r) (r_shorthash r) i (r_now r) = Inr True"

definition PublishServiceJob_Validate :: "IntroSet \<Rightarrow> IntroSet \<Rightarrow> bool" where
  "PublishServiceJob_Validate I introset \<longleftrightarrow> ServiceInfo_eq (is_A I) (is_A introset)"

definition introset_Validate :: "dht_router \<Rightarrow> introset_tx \<Rightarrow> IntroSet \<Rightarrow> bool" where
  "introset_Validate r t value \<longleftrightarrow>
     (case tx_job t of
        PublishServiceJob S dontTell I \<Rightarrow> PublishServiceJob_Validate I value
      | _ \<Rightarrow> IntroSet_verified r value \<and> IntroSet_addr r value = tx_target t)"

definition introset_GetNextPeer :: "dht_context \<Rightarrow> introset_tx \<Rightarrow> dht_key set \<Rightarrow> dht_key option" where
  "introset_GetNextPeer c t exclude =
     (case tx_job t of PublishServiceJob S dontTell I \<Rightarrow> None | _ \<Rightarrow> closest_excluding c (tx_target t) exclude)"

definition PublishServiceJob_Start ::
  "dht_router \<Rightarrow> u64 \<Rightarrow> dht_key set \<Rightarrow> IntroSet \<Rightarrow> TXOwner \<Rightarrow> dht_context \<Rightarrow> dht_context" where
  "PublishServiceJob_Start r S dontTell I peer =
     DHTSendTo r (own_node peer) (PIM (PublishIntroMessage_of I (own_txid peer) S (sorted_list_of_set dontTell)))"

text \<open>
  \<^verbatim>\<open>new FindIntroMessage(peer.txid, target, R)\<close>: the constructor's third parameter is the flag \<^verbatim>\<open>iterate\<close>, to
  which the number converts.
\<close>

definition introset_Start :: "dht_router \<Rightarrow> TXOwner \<Rightarrow> introset_tx \<Rightarrow> dht_context \<Rightarrow> dht_context" where
  "introset_Start r peer t =
     (let ask = (\<lambda>R :: u64. DHTSendTo r (own_node peer)
            (FIM (FindIntroMessage_addr (own_txid peer) (tx_target t) (R \<noteq> 0))))
      in case tx_job t of
           ServiceAddressLookup h R \<Rightarrow> ask R
         | LocalServiceAddressLookup path \<Rightarrow> ask 5
         | PublishServiceJob S dontTell I \<Rightarrow> PublishServiceJob_Start r S dontTell I peer)"

definition new_introset_lookup ::
  "dht_router \<Rightarrow> TXOwner \<Rightarrow> aligned \<Rightarrow> dht_key \<Rightarrow> dht_key set \<Rightarrow> introset_job \<Rightarrow> dht_context \<Rightarrow> dht_context res" where
  "new_introset_lookup r asker addr askpeer asked job c =
     (let (peer, c) = next_owner askpeer c;
          t = (TX_new asker addr job)\<lparr>tx_peersAsked := asked\<rparr>
      in bind_res (NewTX (r_now r) peer addr t (ctx_introsets c)) (\<lambda>(start, h).
           let c = c\<lparr>ctx_introsets := h\<rparr> in Inr (if start then introset_Start r peer t c else c)))"

definition LookupIntroSetForPath ::
  "dht_router \<Rightarrow> aligned \<Rightarrow> u64 \<Rightarrow> aligned \<Rightarrow> dht_key \<Rightarrow> dht_context \<Rightarrow> dht_context res" where
  "LookupIntroSetForPath r addr txid path askpeer c =
     new_introset_lookup r \<lparr>own_node = ctx_ourKey c, own_txid = txid\<rparr> addr askpeer {ctx_ourKey c}
       (LocalServiceAddressLookup path) c"

definition PropagateIntroSetTo ::
  "dht_router \<Rightarrow> dht_key \<Rightarrow> u64 \<Rightarrow> IntroSet \<Rightarrow> dht_key \<Rightarrow> u64 \<Rightarrow> dht_key set \<Rightarrow> dht_context \<Rightarrow> dht_context res" where
  "PropagateIntroSetTo r from txid introset tellpeer S exclude c =
     new_introset_lookup r \<lparr>own_node = from, own_txid = txid\<rparr> (IntroSet_addr r introset) tellpeer {}
       (PublishServiceJob S exclude introset) c"

definition LookupIntroSetRecursive ::
  "dht_router \<Rightarrow> aligned \<Rightarrow> dht_key \<Rightarrow> u64 \<Rightarrow> dht_key \<Rightarrow> u64 \<Rightarrow> nat option \<Rightarrow> dht_context \<Rightarrow> dht_context res" where
  "LookupIntroSetRecursive r addr whoasked txid askpeer R handler c =
     new_introset_lookup r \<lparr>own_node = whoasked, own_txid = txid\<rparr> addr askpeer {ctx_ourKey c}
       (ServiceAddressLookup handler R) c"

definition LookupIntroSetIterative ::
  "dht_router \<Rightarrow> aligned \<Rightarrow> dht_key \<Rightarrow> u64 \<Rightarrow> dht_key \<Rightarrow> nat option \<Rightarrow> dht_context \<Rightarrow> dht_context res" where
  "LookupIntroSetIterative r addr whoasked txid askpeer handler c =
     new_introset_lookup r \<lparr>own_node = whoasked, own_txid = txid\<rparr> addr askpeer {ctx_ourKey c}
       (ServiceAddressLookup handler 0) c"

definition introset_DoNextRequest :: "dht_router \<Rightarrow> introset_tx \<Rightarrow> dht_key \<Rightarrow> dht_context \<Rightarrow> dht_context res" where
  "introset_DoNextRequest r t ask c =
     (let w = tx_whoasked t;
          go = (\<lambda>R. if R \<noteq> 0
             then LookupIntroSetRecursive r (tx_target t) (own_node w) (own_txid w) ask (R - 1) None c
             else LookupIntroSetIterative r (tx_target t) (own_node w) (own_txid w) ask None c)
      in case tx_job t of
           ServiceAddressLookup h R \<Rightarrow> go R
         | LocalServiceAddressLookup path \<Rightarrow> go 5
         | PublishServiceJob S dontTell I \<Rightarrow> Inr c)"

definition newest_IntroSet :: "IntroSet list \<Rightarrow> IntroSet list" where
  "newest_IntroSet values =
     (if values = [] then []
      else [foldl (\<lambda>found i. if IntroSet_OtherIsNewer found i then i else found) IntroSet_init values])"

definition ServiceAddressLookup_SendReply ::
  "dht_router \<Rightarrow> nat option \<Rightarrow> introset_tx \<Rightarrow> dht_context \<Rightarrow> dht_context" where
  "ServiceAddressLookup_SendReply r h t c =
     (let w = tx_whoasked t; values = newest_IntroSet (tx_valuesFound t) in
      DHTSendTo r (own_node w) (GIM (GotIntroMessage_results values (own_txid w)))
        (case h of Some f \<Rightarrow> effect (IntroSetResult f values) c | None \<Rightarrow> c))"

definition LocalServiceAddressLookup_SendReply ::
  "dht_router \<Rightarrow> aligned \<Rightarrow> introset_tx \<Rightarrow> dht_context \<Rightarrow> dht_context" where
  "LocalServiceAddressLookup_SendReply r path t c =
     (if \<not> r_path r path then c
      else effect (SendOnPath path
             (GIM (GotIntroMessage_results (newest_IntroSet (tx_valuesFound t)) (own_txid (tx_whoasked t))))) c)"

definition introset_SendReply :: "dht_router \<Rightarrow> introset_tx \<Rightarrow> dht_context \<Rightarrow> dht_context" where
  "introset_SendReply r t c =
     (case tx_job t of
        ServiceAddressLookup h R \<Rightarrow> ServiceAddressLookup_SendReply r h t c
      | LocalServiceAddressLookup path \<Rightarrow> LocalServiceAddressLookup_SendReply r path t c
      | PublishServiceJob S dontTell I \<Rightarrow> c)"

definition GetIntroSetByServiceAddress :: "dht_context \<Rightarrow> aligned \<Rightarrow> IntroSet option" where
  "GetIntroSetByServiceAddress c addr =
     map_option isn_introset (smap_find (XorMetric (bucket_us (ctx_services c))) addr (bucket_nodes (ctx_services c)))"

section \<open>Tag lookups\<close>

text \<open>A \<^verbatim>\<open>std::set< IntroSet >\<close> is ordered by the address; it is its elements in that order, with their addresses.\<close>

type_synonym introset_set = "(aligned \<times> IntroSet) list"

definition introset_insert :: "dht_router \<Rightarrow> IntroSet \<Rightarrow> introset_set \<Rightarrow> introset_set" where
  "introset_insert r i s =
     (let a = IntroSet_addr r i in
      if smap_find aligned_less a s \<noteq> None then s else smap_put aligned_less a i s)"

primrec collect_tagged ::
  "dht_router \<Rightarrow> byte list \<Rightarrow> nat \<Rightarrow> introset_set \<Rightarrow> introset_set \<Rightarrow> (dht_key \<times> ISNode) list \<Rightarrow> introset_set" where
  "collect_tagged r tagname max_n exclude found [] = found"
| "collect_tagged r tagname max_n exclude found (x # xs) =
     (let i = isn_introset (snd x) in
      if Tag_ToString (is_topic i) = tagname \<and> smap_find aligned_less (IntroSet_addr r i) exclude = None
      then let found = introset_insert r i found in
           if length found = max_n then found else collect_tagged r tagname max_n exclude found xs
      else collect_tagged r tagname max_n exclude found xs)"

definition FindRandomIntroSetsWithTagExcluding ::
  "dht_router \<Rightarrow> dht_context \<Rightarrow> aligned \<Rightarrow> nat \<Rightarrow> introset_set \<Rightarrow> introset_set" where
  "FindRandomIntroSetsWithTagExcluding r c tag max_n exclude =
     (let nodes = bucket_nodes (ctx_services c) in
      if nodes = [] then []
      else let start = unat (r_randint r c) mod length nodes
           in collect_tagged r (Tag_ToString tag) max_n exclude [] (drop start nodes @ take start nodes))"

definition tag_Validate :: "dht_router \<Rightarrow> tag_tx \<Rightarrow> IntroSet \<Rightarrow> bool" where
  "tag_Validate r t introset \<longleftrightarrow> IntroSet_verified r introset \<and> is_topic introset = tx_target t"

definition tag_Start :: "dht_router \<Rightarrow> TXOwner \<Rightarrow> tag_tx \<Rightarrow> dht_context \<Rightarrow> dht_context" where
  "tag_Start r peer t =
     DHTSendTo r (own_node peer)
       (FIM (FindIntroMessage_tag (tx_target t) (own_txid peer)
         ((case tx_job t of TagLookup R \<Rightarrow> R | LocalTagLookup path \<Rightarrow> 0) \<noteq> 0)))"

definition new_tag_lookup ::
  "dht_router \<Rightarrow> TXOwner \<Rightarrow> aligned \<Rightarrow> dht_key \<Rightarrow> tag_job \<Rightarrow> dht_context \<Rightarrow> dht_context res" where
  "new_tag_lookup r asker tag askpeer job c =
     (let (peer, c) = next_owner askpeer c; t = TX_new asker tag job
      in bind_res (NewTX (r_now r) peer tag t (ctx_tags c)) (\<lambda>(start, h).
           let c = c\<lparr>ctx_tags := h\<rparr> in Inr (if start then tag_Start r peer t c else c)))"

definition LookupTagRecursive ::
  "dht_router \<Rightarrow> aligned \<Rightarrow> dht_key \<Rightarrow> u64 \<Rightarrow> dht_key \<Rightarrow> u64 \<Rightarrow> dht_context \<Rightarrow> dht_context res" where
  "LookupTagRecursive r tag whoasked whoaskedTX askpeer R c =
     new_tag_lookup r \<lparr>own_node = whoasked, own_txid = whoaskedTX\<rparr> tag askpeer (TagLookup R) c"

definition LookupTagForPath ::
  "dht_router \<Rightarrow> aligned \<Rightarrow> u64 \<Rightarrow> aligned \<Rightarrow> dht_key \<Rightarrow> dht_context \<Rightarrow> dht_context res" where
  "LookupTagForPath r tag txid path askpeer c =
     new_tag_lookup r \<lparr>own_node = ctx_ourKey c, own_txid = txid\<rparr> tag askpeer (LocalTagLookup path) c"

definition TagLookup_SendReply :: "dht_router \<Rightarrow> tag_tx \<Rightarrow> dht_context \<Rightarrow> dht_context" where
  "TagLookup_SendReply r t c =
     (let w = tx_whoasked t;
          found = foldl (\<lambda>s i. introset_insert r i s) [] (tx_valuesFound t);
          found = (if length found < 2
                   then foldl (\<lambda>s x. introset_insert r (snd x) s) found
                          (FindRandomIntroSetsWithTagExcluding r c (tx_target t) 1 found)
                   else found)
      in DHTSendTo r (own_node w) (GIM (GotIntroMessage_results (map snd found) (own_txid w))) c)"

definition LocalTagLookup_SendReply :: "dht_router \<Rightarrow> aligned \<Rightarrow> tag_tx \<Rightarrow> dht_context \<Rightarrow> dht_context" where
  "LocalTagLookup_SendReply r path t c =
     (if \<not> r_path r path then c
      else effect (SendOnPath path (GIM (GotIntroMessage_results (tx_valuesFound t) (own_txid (tx_whoasked t))))) c)"

definition tag_SendReply :: "dht_router \<Rightarrow> tag_tx \<Rightarrow> dht_context \<Rightarrow> dht_context" where
  "tag_SendReply r t =
     (case tx_job t of
        TagLookup R \<Rightarrow> TagLookup_SendReply r t
      | LocalTagLookup path \<Rightarrow> LocalTagLookup_SendReply r path t)"

section \<open>Exploration\<close>

definition explore_Validate :: "explore_tx \<Rightarrow> aligned \<Rightarrow> bool" where
  "explore_Validate t pk \<longleftrightarrow> True"

definition explore_Start :: "dht_router \<Rightarrow> TXOwner \<Rightarrow> dht_context \<Rightarrow> dht_context" where
  "explore_Start r peer c = DHTSendTo r (own_node peer) (FRM (FindRouterMessage_explore (own_txid peer) (r_randkey r c))) c"

definition ExploreNetworkVia :: "dht_router \<Rightarrow> dht_key \<Rightarrow> dht_context \<Rightarrow> dht_context res" where
  "ExploreNetworkVia r askpeer c =
     (let (peer, c) = next_owner askpeer c; t = TX_new TXOwner_init askpeer ExploreNetworkJob
      in bind_res (NewTX (r_now r) peer askpeer t (ctx_explore c)) (\<lambda>(start, h).
           let c = c\<lparr>ctx_explore := h\<rparr> in Inr (if start then explore_Start r peer c else c)))"

text \<open>Calls one after the other on the context.\<close>

primrec each :: "('a \<Rightarrow> dht_context \<Rightarrow> dht_context res) \<Rightarrow> 'a list \<Rightarrow> dht_context \<Rightarrow> dht_context res" where
  "each f [] c = Inr c"
| "each f (x # xs) c = bind_res (f x c) (each f xs)"

definition explore_SendReply :: "dht_router \<Rightarrow> explore_tx \<Rightarrow> dht_context \<Rightarrow> dht_context res" where
  "explore_SendReply r t = each (\<lambda>pk c.
     bind_res (LookupRouter r pk (Some (HandleDHTLookupForExplore pk)) c) (\<lambda>(ok, c). Inr c)) (tx_valuesFound t)"

definition Explore :: "dht_router \<Rightarrow> u64 list \<Rightarrow> nat \<Rightarrow> dht_context \<Rightarrow> dht_context res" where
  "Explore r rnd N c =
     (case GetManyRandom (ctx_nodes c) rnd {} N of
        None \<Rightarrow> Inl OutOfFuel
      | Some (ok, peers) \<Rightarrow> if ok then each (ExploreNetworkVia r) (sorted_list_of_set peers) c else Inr c)"

definition handle_explore_timer :: "dht_router \<Rightarrow> u64 list \<Rightarrow> dht_context \<Rightarrow> dht_context res" where
  "handle_explore_timer r rnd c =
     (let num = min (r_connected r) 4 in if num \<noteq> 0 then Explore r rnd num c else Inr c)"

section \<open>Results and expiry\<close>

definition routers_reply :: "dht_router \<Rightarrow> (aligned, RouterContact, router_job) TXHolder \<times> router_tx list \<Rightarrow> dht_context \<Rightarrow> dht_context" where
  "routers_reply r hr c = fold (router_SendReply r) (snd hr) (c\<lparr>ctx_routers := fst hr\<rparr>)"

definition introsets_reply :: "dht_router \<Rightarrow> (aligned, IntroSet, introset_job) TXHolder \<times> introset_tx list \<Rightarrow> dht_context \<Rightarrow> dht_context" where
  "introsets_reply r hr c = fold (introset_SendReply r) (snd hr) (c\<lparr>ctx_introsets := fst hr\<rparr>)"

definition tags_reply :: "dht_router \<Rightarrow> (aligned, IntroSet, tag_job) TXHolder \<times> tag_tx list \<Rightarrow> dht_context \<Rightarrow> dht_context" where
  "tags_reply r hr c = fold (tag_SendReply r) (snd hr) (c\<lparr>ctx_tags := fst hr\<rparr>)"

definition explore_reply :: "dht_router \<Rightarrow> (aligned, aligned, explore_job) TXHolder \<times> explore_tx list \<Rightarrow> dht_context \<Rightarrow> dht_context res" where
  "explore_reply r hr c = each (explore_SendReply r) (snd hr) (c\<lparr>ctx_explore := fst hr\<rparr>)"

definition routers_NotFound :: "dht_router \<Rightarrow> TXOwner \<Rightarrow> dht_key option \<Rightarrow> dht_context \<Rightarrow> dht_context res" where
  "routers_NotFound r owner K c =
     (let (h, replies, ask) = NotFound (router_Validate r) (router_GetNextPeer c) (\<lambda>k. k) owner K (ctx_routers c);
          c = routers_reply r (h, replies) c
      in case ask of None \<Rightarrow> Inr c | Some (t, peer) \<Rightarrow> router_DoNextRequest r t peer c)"

definition introsets_NotFound :: "dht_router \<Rightarrow> TXOwner \<Rightarrow> dht_key option \<Rightarrow> dht_context \<Rightarrow> dht_context res" where
  "introsets_NotFound r owner K c =
     (let (h, replies, ask) = NotFound (introset_Validate r) (introset_GetNextPeer c) (\<lambda>k. k) owner K (ctx_introsets c);
          c = introsets_reply r (h, replies) c
      in case ask of None \<Rightarrow> Inr c | Some (t, peer) \<Rightarrow> introset_DoNextRequest r t peer c)"

text \<open>\<^verbatim>\<open>ExploreNetworkJob::DoNextRequest\<close> does nothing, and there is no next peer unless the answer names one.\<close>

definition explore_NotFound :: "dht_router \<Rightarrow> TXOwner \<Rightarrow> dht_key option \<Rightarrow> dht_context \<Rightarrow> dht_context res" where
  "explore_NotFound r owner K c =
     (let (h, replies, ask) = NotFound explore_Validate (\<lambda>t exclude. None) (\<lambda>k. k) owner K (ctx_explore c)
      in explore_reply r (h, replies) c)"

definition CleanupTX :: "dht_router \<Rightarrow> dht_context \<Rightarrow> dht_context res" where
  "CleanupTX r c =
     (let now = r_now r;
          c = routers_reply r (Expire (router_Validate r) now (ctx_routers c)) c;
          c = introsets_reply r (Expire (introset_Validate r) now (ctx_introsets c)) c;
          c = tags_reply r (Expire (tag_Validate r) now (ctx_tags c)) c
      in explore_reply r (Expire explore_Validate now (ctx_explore c)) c)"

definition handle_cleaner_timer :: "dht_router \<Rightarrow> dht_context \<Rightarrow> dht_context res" where
  "handle_cleaner_timer r c =
     bind_res (CleanupTX r c) (\<lambda>c.
       Inr (c\<lparr>ctx_services := (ctx_services c)\<lparr>bucket_nodes :=
         filter (\<lambda>x. \<not> IntroSet_IsExpired (isn_introset (snd x)) (r_now r)) (bucket_nodes (ctx_services c))\<rparr>\<rparr>))"

section \<open>Handling messages\<close>

text \<open>The replies a handler appends are returned after the result.\<close>

type_synonym handled = "(bool \<times> dht_message list \<times> dht_context) res"

definition answer :: "dht_message \<Rightarrow> dht_context \<Rightarrow> handled" where
  "answer m c = Inr (True, [m], c)"

definition refuse :: "dht_context \<Rightarrow> handled" where
  "refuse c = Inr (False, [], c)"

definition after :: "dht_context res \<Rightarrow> handled" where
  "after rc = bind_res rc (\<lambda>c. Inr (True, [], c))"

definition FindIntro_HandleMessage :: "dht_router \<Rightarrow> FindIntroMessage \<Rightarrow> dht_context \<Rightarrow> handled" where
  "FindIntro_HandleMessage r m c =
     (let From = fim_From m; R = fim_R m; S = fim_S m; N = fim_N m; T = fim_T m; us = ctx_ourKey c;
          exclude = {us, From};
          not_found = answer (GIM (GotIntroMessage_results [] T)) c
      in
      if R > 5 then refuse c
      else if HasPendingLookupFrom (ctx_introsets c) \<lparr>own_node = From, own_txid = T\<rparr> then refuse c
      else if Tag_Empty N then
        (case GetIntroSetByServiceAddress c S of
           Some i \<Rightarrow> answer (GIM (GotIntroMessage_results [i] T)) c
         | None \<Rightarrow>
             if R = 0 then
               let (found, closer) = FindClosest (ctx_nodes c) S (aligned_Zero 32) in
               if \<not> found then refuse c
               else if fim_relayed m then after (LookupIntroSetForPath r S T (fim_pathID m) closer c)
               else answer (GIM (GotIntroMessage_closer From closer T)) c
             else
               (case closest_excluding c S exclude of
                  Some peer \<Rightarrow>
                    if fim_relayed m then after (LookupIntroSetForPath r S T (fim_pathID m) peer c)
                    else if Key_less (Key_xor us S) (Key_xor peer S) then not_found
                    else if R > 0 then after (LookupIntroSetRecursive r S From T peer (R - 1) None c)
                    else after (LookupIntroSetIterative r S From T peer None c)
                | None \<Rightarrow> not_found))
      else
        let (found, peer) = GetRandomNodeExcluding (ctx_nodes c) (r_randint r c) (aligned_Zero 32) exclude in
        if fim_relayed m then
          (if found then after (LookupTagForPath r N T (fim_pathID m) peer c) else not_found)
        else if R = 0 then
          answer (GIM (GotIntroMessage_results (map snd (FindRandomIntroSetsWithTagExcluding r c N 2 [])) T)) c
        else if R < 5 then
          (if found then after (LookupTagRecursive r N From T peer (R - 1) c) else not_found)
        else not_found)"

definition HandleExploritoryRouterLookup :: "dht_router \<Rightarrow> dht_key \<Rightarrow> u64 \<Rightarrow> aligned \<Rightarrow> dht_context \<Rightarrow> handled" where
  "HandleExploritoryRouterLookup r requester txid target c =
     (let nodeCount = bucket_size (ctx_nodes c) in
      if nodeCount = 0 then refuse c
      else let (ok, foundRouters) =
                 GetManyNearExcluding (ctx_nodes c) target {} (min nodeCount 4) {ctx_ourKey c, requester}
           in if \<not> ok then refuse c
              else answer (GRM (GotRouterMessage_near txid
                     (filter (\<lambda>f. \<not> r_bad r f) (sorted_list_of_set foundRouters)) False)) c)"

definition LookupRouterRelayed :: "dht_router \<Rightarrow> dht_key \<Rightarrow> u64 \<Rightarrow> dht_key \<Rightarrow> bool \<Rightarrow> dht_context \<Rightarrow> handled" where
  "LookupRouterRelayed r requester txid target recursive c =
     (let not_found = answer (GRM (GotRouterMessage_results requester txid [] False)) c in
      if target = ctx_ourKey c then answer (GRM (GotRouterMessage_results requester txid [r_rc r] False)) c
      else case closest_excluding c target {requester, ctx_ourKey c} of
             Some next_peer \<Rightarrow>
               if next_peer = target then after (LookupRouterRecursive r target requester txid next_peer None c)
               else if recursive then
                 (if Key_less (Key_xor next_peer target) (Key_xor (ctx_ourKey c) target)
                  then after (LookupRouterRecursive r target requester txid next_peer None c)
                  else not_found)
               else answer (GRM (GotRouterMessage_closer requester next_peer txid False)) c
           | None \<Rightarrow> not_found)"

definition FindRouter_HandleMessage :: "dht_router \<Rightarrow> FindRouterMessage \<Rightarrow> dht_context \<Rightarrow> handled" where
  "FindRouter_HandleMessage r m c =
     (let From = frm_From m; K = frm_K m; txid = frm_txid m in
      if \<not> ctx_allowTransit c then refuse c
      else if HasPendingLookupFrom (ctx_routers c) \<lparr>own_node = From, own_txid = txid\<rparr> then refuse c
      else if frm_exploritory m then HandleExploritoryRouterLookup r From txid K c
      else if \<not> r_allowed r K then answer (GRM (GotRouterMessage_results K txid [] False)) c
      else case r_nodedb r K of
             Some found \<Rightarrow> answer (GRM (GotRouterMessage_results K txid [found] False)) c
           | None \<Rightarrow> LookupRouterRelayed r From txid K (\<not> frm_iterative m) c)"

definition RelayedFindRouter_HandleMessage :: "dht_router \<Rightarrow> FindRouterMessage \<Rightarrow> dht_context \<Rightarrow> handled" where
  "RelayedFindRouter_HandleMessage r m c =
     (let K = frm_K m; txid = frm_txid m; us = ctx_ourKey c;
          not_found = answer (GRM (GotRouterMessage_results K txid [] False)) c in
      if K = us then
        (if r_path r (frm_pathID m) then answer (GRM (GotRouterMessage_results K txid [r_rc r] False)) c else refuse c)
      else if \<not> r_allowed r K then not_found
      else case r_nodedb r K of
             Some found \<Rightarrow> answer (GRM (GotRouterMessage_results K txid [found] False)) c
           | None \<Rightarrow>
               let (found, peer) = FindClosest (ctx_nodes c) K (aligned_Zero 32) in
               if \<not> found \<or> peer = us then not_found
               else after (LookupRouterForPath r K txid (frm_pathID m) peer c))"

definition GotIntro_HandleMessage :: "dht_router \<Rightarrow> GotIntroMessage \<Rightarrow> dht_context \<Rightarrow> handled" where
  "GotIntro_HandleMessage r m c =
     (let owner = \<lparr>own_node = gim_From m, own_txid = gim_T m\<rparr> in
      if \<not> list_all (IntroSet_verified r) (gim_I m) then refuse c
      else case GetPendingLookupFrom (ctx_tags c) owner of
             Some t \<Rightarrow> after (Inr (tags_reply r (Found (tag_Validate r) owner (tx_target t) (gim_I m) (ctx_tags c)) c))
           | None \<Rightarrow>
               (case GetPendingLookupFrom (ctx_introsets c) owner of
                  Some t \<Rightarrow>
                    if gim_I m \<noteq> []
                    then after (Inr (introsets_reply r
                           (Found (introset_Validate r) owner (tx_target t) (gim_I m) (ctx_introsets c)) c))
                    else after (introsets_NotFound r owner (gim_K m) c)
                | None \<Rightarrow> refuse c))"

text \<open>A relayed answer is given to the path set it belongs to, whose result is returned.\<close>

definition RelayedGotIntro_HandleMessage :: "dht_router \<Rightarrow> GotIntroMessage \<Rightarrow> dht_context \<Rightarrow> handled" where
  "RelayedGotIntro_HandleMessage r m c = Inr (r_pathset r (RelayedGIM m) (gim_pathID m), [], c)"

definition GotRouter_HandleMessage :: "dht_router \<Rightarrow> GotRouterMessage \<Rightarrow> dht_context \<Rightarrow> handled" where
  "GotRouter_HandleMessage r m c =
     (if grm_relayed m then Inr (r_pathset r (GRM m) (grm_pathID m), [], c)
      else let owner = \<lparr>own_node = grm_From m, own_txid = grm_txid m\<rparr> in
        if HasPendingLookupFrom (ctx_explore c) owner then
          after (if grm_N m = [] then explore_NotFound r owner (grm_K m) c
                 else explore_reply r (Found explore_Validate owner (grm_From m) (grm_N m) (ctx_explore c)) c)
        else if HasPendingLookupFrom (ctx_routers c) owner then
          after (case grm_R m of
                   [] \<Rightarrow> routers_NotFound r owner (grm_K m) c
                 | rc # rest \<Rightarrow>
                     Inr (routers_reply r (Found (router_Validate r) owner (rc_pubkey rc) (grm_R m) (ctx_routers c)) c))
        else refuse c)"

definition PublishIntro_HandleMessage :: "dht_router \<Rightarrow> PublishIntroMessage \<Rightarrow> dht_context \<Rightarrow> handled" where
  "PublishIntro_HandleMessage r m c =
     (let now = r_now r; I = pim_I m; nack = answer (GIM (GotIntroMessage_results [] (pim_txID m))) c in
      if pim_S m > 5 then refuse c
      else if \<not> IntroSet_verified r I then nack
      else if is_W I \<noteq> None \<and> PoW_IsValid (r_shorthash r) (the (is_W I)) now \<noteq> Inr True then nack
      else bind_res (ServiceInfo_CalculateAddress (r_hash r) (is_A I)) (\<lambda>a.
        case a of
          None \<Rightarrow> refuse c
        | Some addr \<Rightarrow>
            if IntroSet_IsExpired I (now + MAX_INTROSET_TIME_DELTA) then nack
            else bind_res (ISNode_of (r_hash r) I) (\<lambda>node.
              let c = c\<lparr>ctx_services := PutNode isn_ID ISNode_less (ctx_services c) node\<rparr>;
                  ack = GIM (GotIntroMessage_results [I] (pim_txID m));
                  exclude = insert (ctx_ourKey c) (insert (pim_From m) (set (pim_E m)))
              in case (if pim_S m \<noteq> 0 then closest_excluding c addr exclude else None) of
                   Some peer \<Rightarrow>
                     bind_res (PropagateIntroSetTo r (pim_From m) (pim_txID m) I peer (pim_S m - 1) exclude c)
                       (\<lambda>c. answer ack c)
                 | None \<Rightarrow> answer ack c)))"

primrec dht_HandleMessage :: "dht_router \<Rightarrow> dht_message \<Rightarrow> dht_context \<Rightarrow> handled" where
  "dht_HandleMessage r (FIM m) = FindIntro_HandleMessage r m"
| "dht_HandleMessage r (FRM m) = FindRouter_HandleMessage r m"
| "dht_HandleMessage r (RelayedFRM m) = RelayedFindRouter_HandleMessage r m"
| "dht_HandleMessage r (GRM m) = GotRouter_HandleMessage r m"
| "dht_HandleMessage r (PIM m) = PublishIntro_HandleMessage r m"
| "dht_HandleMessage r (GIM m) = GotIntro_HandleMessage r m"
| "dht_HandleMessage r (RelayedGIM m) = RelayedGotIntro_HandleMessage r m"

text \<open>A link message with DHT messages; the replies go back to the session as one message when all were handled.\<close>

primrec handle_all :: "dht_router \<Rightarrow> dht_message list \<Rightarrow> dht_context \<Rightarrow> handled" where
  "handle_all r [] c = Inr (True, [], c)"
| "handle_all r (m # ms) c =
     bind_res (dht_HandleMessage r m c) (\<lambda>(ok, reps, c).
       bind_res (handle_all r ms c) (\<lambda>(ok', reps', c). Inr (ok \<and> ok', reps @ reps', c)))"

definition DHTImmediate_HandleMessage ::
  "dht_router \<Rightarrow> DHTImmediateMessage \<Rightarrow> dht_context \<Rightarrow> (DHTImmediateMessage option \<times> dht_context) res" where
  "DHTImmediate_HandleMessage r m c =
     bind_res (handle_all r (dim_msgs m) c) (\<lambda>(result, reps, c).
       Inr (if reps \<noteq> [] \<and> result then Some \<lparr>dim_msgs = reps, dim_version = LLARP_PROTO_VERSION\<rparr> else None, c))"

text \<open>
  A message that came over a path: the result and the replies to send on the path. \<open>send\<close> stands for
  \<^verbatim>\<open>SendRoutingMessage\<close>.
\<close>

definition RelayRequestForPath ::
  "dht_router \<Rightarrow> (aligned \<Rightarrow> dht_message list \<Rightarrow> bool) \<Rightarrow> aligned \<Rightarrow> dht_message \<Rightarrow> dht_context \<Rightarrow> (bool \<times> dht_context) res" where
  "RelayRequestForPath r send path_id msg c =
     bind_res (dht_HandleMessage r msg c) (\<lambda>(ok, reply, c).
       if \<not> ok then Inr (False, c)
       else if reply \<noteq> [] then Inr (r_path r path_id \<and> send path_id reply, c)
       else Inr (True, c))"

text \<open>\<^verbatim>\<open>DHTMessage::HandleMessage\<close>: the messages of a routing message, each marked as coming from us over its path.\<close>

primrec set_source :: "aligned \<Rightarrow> aligned \<Rightarrow> dht_message \<Rightarrow> dht_message" where
  "set_source us p (FIM m) = FIM (m\<lparr>fim_From := us, fim_pathID := p\<rparr>)"
| "set_source us p (FRM m) = FRM (m\<lparr>frm_From := us, frm_pathID := p\<rparr>)"
| "set_source us p (RelayedFRM m) = RelayedFRM (m\<lparr>frm_From := us, frm_pathID := p\<rparr>)"
| "set_source us p (GRM m) = GRM (m\<lparr>grm_From := us, grm_pathID := p\<rparr>)"
| "set_source us p (PIM m) = PIM (m\<lparr>pim_From := us, pim_pathID := p\<rparr>)"
| "set_source us p (GIM m) = GIM (m\<lparr>gim_From := us, gim_pathID := p\<rparr>)"
| "set_source us p (RelayedGIM m) = RelayedGIM (m\<lparr>gim_From := us, gim_pathID := p\<rparr>)"

primrec DHTMessage_loop ::
  "(dht_message \<Rightarrow> dht_context \<Rightarrow> (bool \<times> dht_context) res) \<Rightarrow> aligned \<Rightarrow> aligned \<Rightarrow> dht_message list \<Rightarrow> dht_context \<Rightarrow>
     (bool \<times> dht_context) res" where
  "DHTMessage_loop handle us from [] c = Inr (True, c)"
| "DHTMessage_loop handle us from (m # ms) c =
     bind_res (handle (set_source us from m) c) (\<lambda>(ok, c).
       if \<not> ok then Inr (False, c) else DHTMessage_loop handle us from ms c)"

definition DHTMessage_HandleMessage ::
  "dht_router \<Rightarrow> (dht_message \<Rightarrow> dht_context \<Rightarrow> (bool \<times> dht_context) res) \<Rightarrow> DHTMessage \<Rightarrow> dht_context \<Rightarrow>
     (bool \<times> dht_context) res" where
  "DHTMessage_HandleMessage r handle m c = DHTMessage_loop handle (rc_pubkey (r_rc r)) (dm_from m) (dm_M m) c"

section \<open>The invariant of the context\<close>

definition wf_dht :: "dht_context \<Rightarrow> bool" where
  "wf_dht c \<longleftrightarrow> is_key (ctx_ourKey c) \<and> wf_bucket (ctx_nodes c) \<and> wf_bucket (ctx_services c) \<and>
     wf_holder (ctx_introsets c) \<and> wf_holder (ctx_tags c) \<and> wf_holder (ctx_routers c) \<and> wf_holder (ctx_explore c)"

definition keeps :: "(dht_context \<Rightarrow> dht_context res) \<Rightarrow> bool" where
  "keeps f \<longleftrightarrow> (\<forall>c c'. wf_dht c \<longrightarrow> f c = Inr c' \<longrightarrow> wf_dht c')"

definition keeps_handled :: "(dht_context \<Rightarrow> handled) \<Rightarrow> bool" where
  "keeps_handled f \<longleftrightarrow> (\<forall>c ok reps c'. wf_dht c \<longrightarrow> f c = Inr (ok, reps, c') \<longrightarrow> wf_dht c')"

lemma wf_dht_out [simp]: "wf_dht (c\<lparr>ctx_out := x\<rparr>) = wf_dht c" "wf_dht (c\<lparr>ctx_ids := i\<rparr>) = wf_dht c"
  by (simp_all add: wf_dht_def)

lemma wf_dht_send [simp]: "wf_dht (effect e c) = wf_dht c" "wf_dht (DHTSendTo r p m c) = wf_dht c"
  by (simp_all add: effect_def DHTSendTo_def)

lemma wf_dht_start [simp]:
  "wf_dht (router_Start r o' t c) = wf_dht c" "wf_dht (introset_Start r o' u c) = wf_dht c"
  "wf_dht (tag_Start r o' v c) = wf_dht c" "wf_dht (explore_Start r o' c) = wf_dht c"
  by (simp_all add: router_Start_def introset_Start_def PublishServiceJob_Start_def tag_Start_def explore_Start_def Let_def
      split: introset_job.split)

lemma wf_dht_SendReply [simp]:
  "wf_dht (router_SendReply r t c) = wf_dht c" "wf_dht (introset_SendReply r u c) = wf_dht c"
  "wf_dht (tag_SendReply r v c) = wf_dht c"
  by (auto simp: router_SendReply_def introset_SendReply_def tag_SendReply_def RecursiveRouterLookup_SendReply_def
      LocalRouterLookup_SendReply_def ServiceAddressLookup_SendReply_def LocalServiceAddressLookup_SendReply_def
      TagLookup_SendReply_def LocalTagLookup_SendReply_def Let_def
      split: router_job.split introset_job.split tag_job.split option.split list.split)

lemma wf_dht_fold [simp]:
  "wf_dht (fold (router_SendReply r) ts c) = wf_dht c" "wf_dht (fold (introset_SendReply r) us c) = wf_dht c"
  "wf_dht (fold (tag_SendReply r) vs c) = wf_dht c"
proof -
  show "wf_dht (fold (router_SendReply r) ts c) = wf_dht c" by (induction ts arbitrary: c) simp_all
  show "wf_dht (fold (introset_SendReply r) us c) = wf_dht c" by (induction us arbitrary: c) simp_all
  show "wf_dht (fold (tag_SendReply r) vs c) = wf_dht c" by (induction vs arbitrary: c) simp_all
qed

lemma wf_dht_holders [simp]:
  "wf_dht c \<Longrightarrow> wf_holder h \<Longrightarrow> wf_dht (c\<lparr>ctx_routers := h\<rparr>)" "wf_dht c \<Longrightarrow> wf_holder h' \<Longrightarrow> wf_dht (c\<lparr>ctx_introsets := h'\<rparr>)"
  "wf_dht c \<Longrightarrow> wf_holder h'' \<Longrightarrow> wf_dht (c\<lparr>ctx_tags := h''\<rparr>)" "wf_dht c \<Longrightarrow> wf_holder g \<Longrightarrow> wf_dht (c\<lparr>ctx_explore := g\<rparr>)"
  by (simp_all add: wf_dht_def)

lemma wf_dhtD:
  assumes "wf_dht c"
  shows "wf_holder (ctx_routers c)" "wf_holder (ctx_introsets c)" "wf_holder (ctx_tags c)" "wf_holder (ctx_explore c)"
    "wf_bucket (ctx_nodes c)" "wf_bucket (ctx_services c)" "is_key (ctx_ourKey c)"
  using assms by (simp_all add: wf_dht_def)

lemma wf_dht_reply:
  "wf_dht c \<Longrightarrow> wf_holder (fst a) \<Longrightarrow> wf_dht (routers_reply r a c)"
  "wf_dht c \<Longrightarrow> wf_holder (fst b) \<Longrightarrow> wf_dht (introsets_reply r b c)"
  "wf_dht c \<Longrightarrow> wf_holder (fst d) \<Longrightarrow> wf_dht (tags_reply r d c)"
  by (simp_all add: routers_reply_def introsets_reply_def tags_reply_def)

lemma Found_wf: "wf_holder h \<Longrightarrow> wf_holder (fst (Found V owner k vs h))"
  unfolding Found_def using Inform_wf(1) by (metis prod.collapse)

lemma Expire_fst_wf: "wf_holder h \<Longrightarrow> wf_holder (fst (Expire V now h))"
  using Expire_wf(1) by (metis prod.collapse)

lemma keepsI: "(\<And>c c'. wf_dht c \<Longrightarrow> f c = Inr c' \<Longrightarrow> wf_dht c') \<Longrightarrow> keeps f"
  by (simp add: keeps_def)

lemma keepsD: "keeps f \<Longrightarrow> wf_dht c \<Longrightarrow> f c = Inr c' \<Longrightarrow> wf_dht c'"
  unfolding keeps_def by blast

lemma bind_res_InrE:
  assumes "bind_res x f = Inr y"
  obtains z where "x = Inr z" "f z = Inr y"
  using assms by (cases x) auto

lemma keeps_each: "(\<And>x. keeps (f x)) \<Longrightarrow> keeps (each f xs)"
proof (induction xs)
  case Nil
  then show ?case by (simp add: keeps_def)
next
  case (Cons x xs)
  show ?case
  proof (rule keepsI)
    fix c c' assume c: "wf_dht c" "each f (x # xs) c = Inr c'"
    then obtain c1 where "f x c = Inr c1" "each f xs c1 = Inr c'" by (auto elim: bind_res_InrE)
    with c Cons show "wf_dht c'" by (metis keepsD)
  qed
qed

subsection \<open>New lookups\<close>

lemma next_owner_wf: "next_owner k c = (o', c') \<Longrightarrow> wf_dht c' = wf_dht c"
  by (auto simp: next_owner_def Let_def)

lemma keeps_new_router_lookup: "keeps (new_router_lookup r asker target askpeer job)"
proof (rule keepsI)
  fix c c' assume wf: "wf_dht c" and new: "new_router_lookup r asker target askpeer job c = Inr c'"
  obtain o' c1 where n: "next_owner askpeer c = (o', c1)" by fastforce
  let ?t = "(TX_new asker target job)\<lparr>tx_peersAsked := {ctx_ourKey c1}\<rparr>"
  from new n obtain start h where N: "NewTX (r_now r) o' target ?t (ctx_routers c1) = Inr (start, h)"
    and c': "c' = (let c = c1\<lparr>ctx_routers := h\<rparr> in if start then router_Start r o' ?t c else c)"
    by (auto simp: new_router_lookup_def Let_def elim!: bind_res_InrE)
  have wf1: "wf_dht c1" using wf next_owner_wf [OF n] by simp
  have "wf_holder h" using NewTX_wf [OF wf_dhtD(1) [OF wf1], of "r_now r" o' ?t start h] N by (simp add: TX_new_def)
  with wf1 show "wf_dht c'" by (simp add: c' Let_def)
qed

lemma keeps_new_introset_lookup: "keeps (new_introset_lookup r asker addr askpeer asked job)"
proof (rule keepsI)
  fix c c' assume wf: "wf_dht c" and new: "new_introset_lookup r asker addr askpeer asked job c = Inr c'"
  obtain o' c1 where n: "next_owner askpeer c = (o', c1)" by fastforce
  let ?t = "(TX_new asker addr job)\<lparr>tx_peersAsked := asked\<rparr>"
  from new n obtain start h where N: "NewTX (r_now r) o' addr ?t (ctx_introsets c1) = Inr (start, h)"
    and c': "c' = (let c = c1\<lparr>ctx_introsets := h\<rparr> in if start then introset_Start r o' ?t c else c)"
    by (auto simp: new_introset_lookup_def Let_def elim!: bind_res_InrE)
  have wf1: "wf_dht c1" using wf next_owner_wf [OF n] by simp
  have "wf_holder h" using NewTX_wf [OF wf_dhtD(2) [OF wf1], of "r_now r" o' ?t start h] N by (simp add: TX_new_def)
  with wf1 show "wf_dht c'" by (simp add: c' Let_def)
qed

lemma keeps_new_tag_lookup: "keeps (new_tag_lookup r asker tag askpeer job)"
proof (rule keepsI)
  fix c c' assume wf: "wf_dht c" and new: "new_tag_lookup r asker tag askpeer job c = Inr c'"
  obtain o' c1 where n: "next_owner askpeer c = (o', c1)" by fastforce
  let ?t = "TX_new asker tag job"
  from new n obtain start h where N: "NewTX (r_now r) o' tag ?t (ctx_tags c1) = Inr (start, h)"
    and c': "c' = (let c = c1\<lparr>ctx_tags := h\<rparr> in if start then tag_Start r o' ?t c else c)"
    by (auto simp: new_tag_lookup_def Let_def elim!: bind_res_InrE)
  have wf1: "wf_dht c1" using wf next_owner_wf [OF n] by simp
  have "wf_holder h" using NewTX_wf [OF wf_dhtD(3) [OF wf1], of "r_now r" o' ?t start h] N by (simp add: TX_new_def)
  with wf1 show "wf_dht c'" by (simp add: c' Let_def)
qed

lemma keeps_ExploreNetworkVia: "keeps (ExploreNetworkVia r askpeer)"
proof (rule keepsI)
  fix c c' assume wf: "wf_dht c" and new: "ExploreNetworkVia r askpeer c = Inr c'"
  obtain o' c1 where n: "next_owner askpeer c = (o', c1)" by fastforce
  let ?t = "TX_new TXOwner_init askpeer ExploreNetworkJob"
  from new n obtain start h where N: "NewTX (r_now r) o' askpeer ?t (ctx_explore c1) = Inr (start, h)"
    and c': "c' = (let c = c1\<lparr>ctx_explore := h\<rparr> in if start then explore_Start r o' c else c)"
    by (auto simp: ExploreNetworkVia_def Let_def elim!: bind_res_InrE)
  have wf1: "wf_dht c1" using wf next_owner_wf [OF n] by simp
  have "wf_holder h" using NewTX_wf [OF wf_dhtD(4) [OF wf1], of "r_now r" o' ?t start h] N by (simp add: TX_new_def)
  with wf1 show "wf_dht c'" by (simp add: c' Let_def)
qed

lemma keeps_lookups:
  "keeps (LookupRouterRecursive r k w i p h)" "keeps (LookupRouterForPath r k i q p)"
  "keeps (LookupIntroSetForPath r k i q p)" "keeps (PropagateIntroSetTo r f i s p S ex)"
  "keeps (LookupIntroSetRecursive r k w i p R h')" "keeps (LookupIntroSetIterative r k w i p h')"
  "keeps (LookupTagRecursive r k w i p R)" "keeps (LookupTagForPath r k i q p)"
  unfolding LookupRouterRecursive_def LookupRouterForPath_def LookupIntroSetForPath_def PropagateIntroSetTo_def
    LookupIntroSetRecursive_def LookupIntroSetIterative_def LookupTagRecursive_def LookupTagForPath_def
  by (rule keepsI, (erule (1) keepsD [OF keeps_new_router_lookup] | erule (1) keepsD [OF keeps_new_introset_lookup] |
    erule (1) keepsD [OF keeps_new_tag_lookup]))+

lemma LookupRouter_wf: "wf_dht c \<Longrightarrow> LookupRouter r k h c = Inr (ok, c') \<Longrightarrow> wf_dht c'"
  by (auto simp: LookupRouter_def split: prod.splits if_splits elim!: bind_res_InrE intro: keepsD [OF keeps_lookups(1)])

lemma keeps_explore_SendReply: "keeps (explore_SendReply r t)"
  unfolding explore_SendReply_def
  by (rule keeps_each) (auto intro!: keepsI elim!: bind_res_InrE split: prod.splits intro: LookupRouter_wf)

lemma explore_reply_wf: "wf_dht c \<Longrightarrow> wf_holder (fst a) \<Longrightarrow> explore_reply r a c = Inr c' \<Longrightarrow> wf_dht c'"
  unfolding explore_reply_def by (rule keepsD [OF keeps_each [OF keeps_explore_SendReply]]) simp_all

subsection \<open>Not found, expiry and exploration\<close>

lemma keeps_DoNextRequest: "keeps (router_DoNextRequest r t p)" "keeps (introset_DoNextRequest r u p)"
proof -
  show "keeps (router_DoNextRequest r t p)" by (simp add: router_DoNextRequest_def keeps_lookups)
  show "keeps (introset_DoNextRequest r u p)"
    by (rule keepsI)
      (auto simp: introset_DoNextRequest_def Let_def split: introset_job.splits if_splits
        intro: keepsD [OF keeps_lookups(5)] keepsD [OF keeps_lookups(6)])
qed

lemma keeps_routers_NotFound: "keeps (routers_NotFound r owner K)"
proof (rule keepsI)
  fix c c' assume wf: "wf_dht c" and e: "routers_NotFound r owner K c = Inr c'"
  obtain h rs ask where n: "NotFound (router_Validate r) (router_GetNextPeer c) (\<lambda>k. k) owner K (ctx_routers c) = (h, rs, ask)"
    by (metis prod_cases3)
  have "wf_dht (routers_reply r (h, rs) c)" using wf_dht_reply(1) [OF wf] NotFound_wf(1) [OF wf_dhtD(1) [OF wf] n] by simp
  with e n show "wf_dht c'"
    by (auto simp: routers_NotFound_def Let_def split: option.splits intro: keepsD [OF keeps_DoNextRequest(1)])
qed

lemma keeps_introsets_NotFound: "keeps (introsets_NotFound r owner K)"
proof (rule keepsI)
  fix c c' assume wf: "wf_dht c" and e: "introsets_NotFound r owner K c = Inr c'"
  obtain h rs ask where
    n: "NotFound (introset_Validate r) (introset_GetNextPeer c) (\<lambda>k. k) owner K (ctx_introsets c) = (h, rs, ask)"
    by (metis prod_cases3)
  have "wf_dht (introsets_reply r (h, rs) c)"
    using wf_dht_reply(2) [OF wf] NotFound_wf(1) [OF wf_dhtD(2) [OF wf] n] by simp
  with e n show "wf_dht c'"
    by (auto simp: introsets_NotFound_def Let_def split: option.splits intro: keepsD [OF keeps_DoNextRequest(2)])
qed

lemma keeps_explore_NotFound: "keeps (explore_NotFound r owner K)"
proof (rule keepsI)
  fix c c' assume wf: "wf_dht c" and e: "explore_NotFound r owner K c = Inr c'"
  obtain h rs ask where n: "NotFound explore_Validate (\<lambda>t exclude. None) (\<lambda>k. k) owner K (ctx_explore c) = (h, rs, ask)"
    by (metis prod_cases3)
  with e explore_reply_wf [OF wf, of "(h, rs)" r c'] NotFound_wf(1) [OF wf_dhtD(4) [OF wf] n]
  show "wf_dht c'" by (simp add: explore_NotFound_def)
qed

lemma keeps_CleanupTX: "keeps (CleanupTX r)"
proof (rule keepsI)
  fix c c' assume wf: "wf_dht c" and e: "CleanupTX r c = Inr c'"
  define c1 where "c1 = routers_reply r (Expire (router_Validate r) (r_now r) (ctx_routers c)) c"
  define c2 where "c2 = introsets_reply r (Expire (introset_Validate r) (r_now r) (ctx_introsets c1)) c1"
  define c3 where "c3 = tags_reply r (Expire (tag_Validate r) (r_now r) (ctx_tags c2)) c2"
  have "wf_dht c1" unfolding c1_def by (intro wf_dht_reply wf Expire_fst_wf wf_dhtD)
  then have "wf_dht c2" unfolding c2_def by (intro wf_dht_reply Expire_fst_wf wf_dhtD)
  then have "wf_dht c3" unfolding c3_def by (intro wf_dht_reply Expire_fst_wf wf_dhtD)
  moreover from this have "wf_holder (fst (Expire explore_Validate (r_now r) (ctx_explore c3)))"
    by (intro Expire_fst_wf wf_dhtD)
  ultimately show "wf_dht c'"
    using e unfolding CleanupTX_def Let_def c1_def [symmetric] c2_def [symmetric] c3_def [symmetric]
    by (rule explore_reply_wf)
qed

lemma wf_bucket_filter:
  assumes "wf_bucket b"
  shows "wf_bucket (b\<lparr>bucket_nodes := filter P (bucket_nodes b)\<rparr>)"
  using assms by (auto simp: wf_bucket_def sorted_wrt_filter)

lemma keeps_cleaner: "keeps (handle_cleaner_timer r)"
proof (rule keepsI)
  fix c c' assume wf: "wf_dht c" and "handle_cleaner_timer r c = Inr c'"
  then obtain c1 where "CleanupTX r c = Inr c1" and c': "c' = c1\<lparr>ctx_services := (ctx_services c1)\<lparr>bucket_nodes :=
      filter (\<lambda>x. \<not> IntroSet_IsExpired (isn_introset (snd x)) (r_now r)) (bucket_nodes (ctx_services c1))\<rparr>\<rparr>"
    by (auto simp: handle_cleaner_timer_def elim!: bind_res_InrE)
  with keepsD [OF keeps_CleanupTX wf] have "wf_dht c1" by simp
  then show "wf_dht c'" unfolding c' wf_dht_def using wf_bucket_filter [of "ctx_services c1"] by simp
qed

lemma keeps_explore_timer: "keeps (handle_explore_timer r rnd)"
proof (rule keepsI)
  fix c c' assume "wf_dht c" "handle_explore_timer r rnd c = Inr c'"
  then show "wf_dht c'"
    by (auto simp: handle_explore_timer_def Explore_def Let_def split: if_splits option.splits prod.splits
        intro: keepsD [OF keeps_each [OF keeps_ExploreNetworkVia]])
qed

subsection \<open>Messages\<close>

lemma keeps_handledI: "(\<And>c ok reps c'. wf_dht c \<Longrightarrow> f c = Inr (ok, reps, c') \<Longrightarrow> wf_dht c') \<Longrightarrow> keeps_handled f"
  by (simp add: keeps_handled_def)

lemma handled_simps:
  "answer m c = Inr (ok, reps, c') \<longleftrightarrow> ok \<and> reps = [m] \<and> c' = c"
  "refuse c = Inr (ok, reps, c') \<longleftrightarrow> \<not> ok \<and> reps = [] \<and> c' = c"
  "after x = Inr (ok, reps, c') \<longleftrightarrow> ok \<and> reps = [] \<and> x = Inr c'"
  by (auto simp: answer_def refuse_def after_def elim!: bind_res_InrE)

lemmas handled_splits = if_splits option.splits prod.splits list.splits

lemma FindIntro_wf: "wf_dht c \<Longrightarrow> FindIntro_HandleMessage r m c = Inr (ok, reps, c') \<Longrightarrow> wf_dht c'"
  unfolding FindIntro_HandleMessage_def Let_def
  by (auto simp: handled_simps split: handled_splits
      intro: keepsD [OF keeps_lookups(3)] keepsD [OF keeps_lookups(5)] keepsD [OF keeps_lookups(6)]
        keepsD [OF keeps_lookups(7)] keepsD [OF keeps_lookups(8)])

lemma FindRouter_wf: "wf_dht c \<Longrightarrow> FindRouter_HandleMessage r m c = Inr (ok, reps, c') \<Longrightarrow> wf_dht c'"
  unfolding FindRouter_HandleMessage_def HandleExploritoryRouterLookup_def LookupRouterRelayed_def Let_def
  by (auto simp: handled_simps split: handled_splits intro: keepsD [OF keeps_lookups(1)])

lemma RelayedFindRouter_wf: "wf_dht c \<Longrightarrow> RelayedFindRouter_HandleMessage r m c = Inr (ok, reps, c') \<Longrightarrow> wf_dht c'"
  unfolding RelayedFindRouter_HandleMessage_def Let_def
  by (auto simp: handled_simps split: handled_splits intro: keepsD [OF keeps_lookups(2)])

lemma GotIntro_wf: "wf_dht c \<Longrightarrow> GotIntro_HandleMessage r m c = Inr (ok, reps, c') \<Longrightarrow> wf_dht c'"
  unfolding GotIntro_HandleMessage_def Let_def
  by (auto simp: handled_simps split: handled_splits
      intro: keepsD [OF keeps_introsets_NotFound] intro!: wf_dht_reply Found_wf wf_dhtD)

lemma GotRouter_wf: "wf_dht c \<Longrightarrow> GotRouter_HandleMessage r m c = Inr (ok, reps, c') \<Longrightarrow> wf_dht c'"
  unfolding GotRouter_HandleMessage_def Let_def
  by (auto simp: handled_simps split: handled_splits
      intro: keepsD [OF keeps_explore_NotFound] keepsD [OF keeps_routers_NotFound]
        explore_reply_wf [OF _ Found_wf [OF wf_dhtD(4)]] intro!: wf_dht_reply Found_wf wf_dhtD)

text \<open>The hash of an address has 32 bytes.\<close>

definition router_ok :: "dht_router \<Rightarrow> bool" where
  "router_ok r \<longleftrightarrow> (\<forall>x. length (r_hash r x) = 32)"

lemma ISNode_key:
  assumes "router_ok r" and "ISNode_of (r_hash r) i = Inr n"
  shows "is_key (isn_ID n)"
proof -
  from assms(2) obtain a where a: "ServiceInfo_CalculateAddress (r_hash r) (is_A i) = Inr a"
    and n: "isn_ID n = (case a of None \<Rightarrow> aligned_Zero 32 | Some k \<Rightarrow> k)"
    by (auto simp: ISNode_of_def elim!: bind_res_InrE)
  have "length k = 32" if "a = Some k" for k
    using a that assms(1)
    by (auto simp: ServiceInfo_CalculateAddress_def router_ok_def split: if_splits elim!: bind_res_InrE)
  then show ?thesis by (simp add: n is_key_def aligned_Zero_def split: option.split)
qed

lemma PublishIntro_wf:
  assumes "router_ok r" and "wf_dht c" and "PublishIntro_HandleMessage r m c = Inr (ok, reps, c')"
  shows "wf_dht c'"
proof -
  have put: "wf_dht (c\<lparr>ctx_services := PutNode isn_ID ISNode_less (ctx_services c) n\<rparr>)"
    if "ISNode_of (r_hash r) i = Inr n" for i n
    using assms(2) PutNode_refines(1) [where ID = isn_ID and val = n and lt = ISNode_less, OF wf_dhtD(6) [OF assms(2)]]
      ISNode_key [OF assms(1) that] by (simp add: wf_dht_def)
  from assms(2,3) show ?thesis
    unfolding PublishIntro_HandleMessage_def Let_def
    by (auto simp: handled_simps split: handled_splits elim!: bind_res_InrE
        dest!: put) (erule (1) keepsD [OF keeps_lookups(4)])+
qed

lemma dht_HandleMessage_wf:
  "router_ok r \<Longrightarrow> wf_dht c \<Longrightarrow> dht_HandleMessage r m c = Inr (ok, reps, c') \<Longrightarrow> wf_dht c'"
  by (cases m) (auto intro: FindIntro_wf FindRouter_wf RelayedFindRouter_wf GotRouter_wf PublishIntro_wf GotIntro_wf
      simp: RelayedGotIntro_HandleMessage_def)

section \<open>Runs\<close>

text \<open>
  One step of the DHT: a message arrives, a timer fires, the router adds or removes a peer, starts a lookup
  or allows transit. The clock, the policies and the random numbers may differ from step to step.
\<close>

inductive dht_step :: "dht_router \<Rightarrow> dht_context \<Rightarrow> dht_context \<Rightarrow> bool" for r where
  message: "dht_HandleMessage r m c = Inr (ok, reps, c') \<Longrightarrow> dht_step r c c'"
| cleaner: "handle_cleaner_timer r c = Inr c' \<Longrightarrow> dht_step r c c'"
| explore: "handle_explore_timer r rnd c = Inr c' \<Longrightarrow> dht_step r c c'"
| put_peer: "is_key (rcn_ID n) \<Longrightarrow> dht_step r c (PutRCNodeAsync n c)"
| del_peer: "is_key k \<Longrightarrow> dht_step r c (DelRCNodeAsync k c)"
| lookup: "LookupRouter r k h c = Inr (ok, c') \<Longrightarrow> dht_step r c c'"
| transit: "dht_step r c (llarp_dht_allow_transit c)"

inductive dht_reachable :: "dht_context \<Rightarrow> bool" where
  init: "is_key us \<Longrightarrow> dht_reachable (Context_Init us ids)"
| step: "dht_reachable c \<Longrightarrow> router_ok r \<Longrightarrow> dht_step r c c' \<Longrightarrow> dht_reachable c'"

inductive_cases dht_stepE: "dht_step r c c'"

lemma dht_step_wf:
  assumes "dht_step r c c'" and "router_ok r" and "wf_dht c"
  shows "wf_dht c'"
  using assms
proof (induction rule: dht_step.induct)
  case (put_peer n c)
  then show ?case using PutNode_refines(1) [OF wf_dhtD(5), of c rcn_ID n RCNode_less]
    by (simp add: PutRCNodeAsync_def wf_dht_def)
next
  case (del_peer k c)
  then show ?case using DelNode_refines(1) [OF wf_dhtD(5), of c k] by (simp add: DelRCNodeAsync_def wf_dht_def)
next
  case (transit c)
  then show ?case by (simp add: llarp_dht_allow_transit_def wf_dht_def)
qed (auto intro: dht_HandleMessage_wf keepsD [OF keeps_cleaner] keepsD [OF keeps_explore_timer] LookupRouter_wf)

section \<open>Properties\<close>

text \<open>
  C2: In every state the DHT can reach, both buckets are ordered by the distance to our key, every pending
  lookup waits under its target, and every key that is waited for has a timeout, so that no lookup can be lost.
\<close>

theorem reachable_dht_is_wf:
  assumes "dht_reachable c"
  shows "wf_dht c"
  using assms
proof (induction rule: dht_reachable.induct)
  case (init us ids)
  then show ?case by (simp add: wf_dht_def Context_Init_def wf_Bucket)
next
  case (step c r c')
  then show ?case by (metis dht_step_wf)
qed

theorem reachable_dht_is_wf_witness:
  "wf_dht (llarp_dht_allow_transit (Context_Init (replicate 32 1) 9))"
proof (rule reachable_dht_is_wf)
  have "dht_reachable (Context_Init (replicate 32 1) 9)" by (rule init) (simp add: is_key_def)
  then show "dht_reachable (llarp_dht_allow_transit (Context_Init (replicate 32 1) 9))"
    by (rule dht_reachable.step [where r = "undefined\<lparr>r_hash := \<lambda>_. replicate 32 0\<rparr>"]) (simp add: router_ok_def, rule transit)
qed

text \<open>
  C36: A lookup of an intro set asks its peer with the wrong depth: \<^verbatim>\<open>ServiceAddressLookup::Start\<close> passes the recursion
  depth where the constructor of the message takes the flag \<^verbatim>\<open>iterate\<close>, so any depth above zero is sent as 0 and the depth 0 as 1.
\<close>

theorem recursion_depth_is_lost:
  assumes "addr \<notin> fst ` set (waiting (ctx_introsets c))"
    and "\<not> HasPendingLookupFrom (ctx_introsets c) \<lparr>own_node = askpeer, own_txid = ctx_ids c + 1\<rparr>"
  shows "\<exists>c' m. LookupIntroSetRecursive r addr whoasked txid askpeer R h c = Inr c' \<and>
    ctx_out c' = ctx_out c @ [Send askpeer (FIM m) (r_now r + 60000)] \<and>
    fim_S m = addr \<and> fim_R m = (if R = 0 then 1 else 0)"
proof -
  let ?o = "\<lparr>own_node = askpeer, own_txid = ctx_ids c + 1\<rparr>"
  let ?t = "(TX_new \<lparr>own_node = whoasked, own_txid = txid\<rparr> addr (ServiceAddressLookup h R) :: introset_tx)
    \<lparr>tx_peersAsked := {ctx_ourKey c}\<rparr>"
  have "map_of (tx (ctx_introsets c)) ?o = None"
    using assms(2) by (simp add: HasPendingLookupFrom_def GetPendingLookupFrom_def)
  then obtain start g where n: "NewTX (r_now r) ?o addr ?t (ctx_introsets c) = Inr (start, g)" 
    using NewTX_ok [of "ctx_introsets c" ?o "r_now r" addr ?t] by blast
  with NewTX_cases(2) [OF n] assms(1) have "start" by simp
  with n show ?thesis
    by (simp add: LookupIntroSetRecursive_def new_introset_lookup_def next_owner_def Let_def introset_Start_def
        DHTSendTo_def effect_def TX_new_def FindIntroMessage_addr_def)
qed

definition demo_router :: dht_router where
  "demo_router = undefined\<lparr>r_now := 5, r_hash := \<lambda>_. replicate 32 0\<rparr>"

theorem recursion_depth_is_lost_witness:
  "\<exists>c' m. LookupIntroSetRecursive demo_router (replicate 32 3) (replicate 32 4) 1 (replicate 32 5) 4 None
      (Context_Init (replicate 32 1) 9) = Inr c' \<and>
    ctx_out c' = ctx_out (Context_Init (replicate 32 1) 9) @ [Send (replicate 32 5) (FIM m) (r_now demo_router + 60000)] \<and>
    fim_S m = replicate 32 3 \<and> fim_R m = (if (4 :: u64) = 0 then 1 else 0)"
  by (rule recursion_depth_is_lost)
    (simp_all add: Context_Init_def TXHolder_init_def HasPendingLookupFrom_def GetPendingLookupFrom_def)

lemma routers_reply_Nil: "routers_reply r (h, []) c = c\<lparr>ctx_routers := h\<rparr>"
  by (simp add: routers_reply_def)

lemma NotFound_next:
  assumes "map_of (tx h) owner = Some t"
  obtains h' t' where "NotFound V G K owner (Some peer) h = (h', [], Some (t', peer))" and "waiting h' = waiting h"
    and "map fst (tx h') = map fst (tx h)" and "tx_target t' = tx_target t"
  using assms replace_tx_keys [of owner _ "tx h"]
  by (simp add: NotFound_def TX_AskNextPeer_def replace_tx_def)

text \<open>
  When a peer answers a router lookup with a closer peer, a transaction for that peer is added but its request is
  not sent: \<^verbatim>\<open>NewTX\<close> starts only the first transaction of a key, and the one that was answered still waits under it.
\<close>

theorem next_peer_is_not_asked:
  assumes "wf_dht c" and "GetPendingLookupFrom (ctx_routers c) owner = Some t"
    and "\<not> HasPendingLookupFrom (ctx_routers c) \<lparr>own_node = peer, own_txid = ctx_ids c + 1\<rparr>"
  shows "\<exists>c'. routers_NotFound r owner (Some peer) c = Inr c' \<and> ctx_out c' = ctx_out c \<and>
    HasPendingLookupFrom (ctx_routers c') \<lparr>own_node = peer, own_txid = ctx_ids c + 1\<rparr>"
proof -
  let ?o = "\<lparr>own_node = peer, own_txid = ctx_ids c + 1\<rparr>"
  from assms(2) have t: "map_of (tx (ctx_routers c)) owner = Some t" by (simp add: GetPendingLookupFrom_def)
  then obtain h t' where nf: "NotFound (router_Validate r) (router_GetNextPeer c) (\<lambda>k. k) owner (Some peer) (ctx_routers c)
      = (h, [], Some (t', peer))" and h: "waiting h = waiting (ctx_routers c)"
      "map fst (tx h) = map fst (tx (ctx_routers c))" "tx_target t' = tx_target t"
    by (rule NotFound_next)
  have "(tx_target t, owner) \<in> set (waiting (ctx_routers c))"
    using wf_dhtD(1) [OF assms(1)] map_of_SomeD [OF t] by (auto simp: wf_holder_def)
  then have w: "tx_target t' \<in> fst ` set (waiting h)" by (force simp: h)
  from assms(3) have "?o \<notin> set (map fst (tx (ctx_routers c)))"
    by (simp add: HasPendingLookupFrom_def GetPendingLookupFrom_def map_of_eq_None_iff)
  then have "map_of (tx h) ?o = None" unfolding h(2) [symmetric] by (simp add: map_of_eq_None_iff)
  let ?u = "(TX_new \<lparr>own_node = own_node (tx_whoasked t'), own_txid = own_txid (tx_whoasked t')\<rparr> (tx_target t') (RecursiveRouterLookup
    (case tx_job t' of RecursiveRouterLookup h \<Rightarrow> h | LocalRouterLookup path \<Rightarrow> None)) :: router_tx)\<lparr>tx_peersAsked := {ctx_ourKey c}\<rparr>"
  from \<open>map_of (tx h) ?o = None\<close> obtain start g where n: "NewTX (r_now r) ?o (tx_target t') ?u h = Inr (start, g)"
    using NewTX_ok [of h ?o "r_now r" "tx_target t'" ?u] by blast
  from NewTX_cases [OF n] w have ng: "\<not> start" and "HasPendingLookupFrom g ?o"
    by (simp_all add: HasPendingLookupFrom_def GetPendingLookupFrom_def emplace_def \<open>map_of (tx h) ?o = None\<close>)
  from n ng have "router_DoNextRequest r t' peer (c\<lparr>ctx_routers := h\<rparr>) = Inr (c\<lparr>ctx_routers := g, ctx_ids := ctx_ids c + 1\<rparr>)"
    by (simp add: router_DoNextRequest_def LookupRouterRecursive_def new_router_lookup_def next_owner_def Let_def
        split del: if_split)
  with \<open>HasPendingLookupFrom g ?o\<close> show ?thesis
    by (simp add: routers_NotFound_def nf routers_reply_Nil)
qed

definition demo_context :: dht_context where
  "demo_context = (Context_Init (replicate 32 1) 9)\<lparr>ctx_routers :=
     TXHolder_init\<lparr>tx := [(\<lparr>own_node = replicate 32 2, own_txid = 9\<rparr>,
         (TX_new TXOwner_init (replicate 32 3) (RecursiveRouterLookup None))\<lparr>tx_peersAsked := {replicate 32 1}\<rparr>)],
       waiting := [(replicate 32 3, \<lparr>own_node = replicate 32 2, own_txid = 9\<rparr>)], timeouts := [(replicate 32 3, 30000)]\<rparr>\<rparr>"

theorem next_peer_is_not_asked_witness:
  "\<exists>c'. routers_NotFound demo_router \<lparr>own_node = replicate 32 2, own_txid = 9\<rparr> (Some (replicate 32 4)) demo_context = Inr c' \<and>
    ctx_out c' = ctx_out demo_context \<and>
    HasPendingLookupFrom (ctx_routers c') \<lparr>own_node = replicate 32 4, own_txid = ctx_ids demo_context + 1\<rparr>"
proof (rule next_peer_is_not_asked)
  show "wf_dht demo_context"
    by (simp add: demo_context_def wf_dht_def Context_Init_def TXHolder_init_def wf_holder_def wf_Bucket is_key_def TX_new_def)
qed (simp_all add: demo_context_def Context_Init_def TXHolder_init_def HasPendingLookupFrom_def GetPendingLookupFrom_def)

text \<open>
  C37: A router lookup for a path answers with an empty contact whatever was found: \<^verbatim>\<open>LocalRouterLookup::SendReply\<close> compares
  the contacts the wrong way round, and no contact is older than the empty one.
\<close>

theorem local_router_lookup_sends_empty_contact:
  assumes "tx_job t = LocalRouterLookup path" and "r_path r path" and "tx_valuesFound t \<noteq> []"
  shows "\<exists>m. router_SendReply r t c = effect (SendOnPath path (GRM m)) c \<and> grm_R m = [RouterContact_init (r_netid r)]"
proof -
  have "foldl (\<lambda>found rc. if RouterContact_OtherIsNewer rc found then rc else found) (RouterContact_init n) vs
      = RouterContact_init n" for n vs
    by (induction vs) (simp_all add: RouterContact_OtherIsNewer_def RouterContact_init_def)
  with assms show ?thesis
    by (intro exI [of _ "GotRouterMessage_results (ctx_ourKey c) (own_txid (tx_whoasked t))
        [RouterContact_init (r_netid r)] True"])
      (simp add: router_SendReply_def LocalRouterLookup_SendReply_def local_RC_def GotRouterMessage_results_def)
qed

theorem local_router_lookup_sends_empty_contact_witness:
  "\<exists>m. router_SendReply (demo_router\<lparr>r_path := \<lambda>_. True\<rparr>)
      ((TX_new TXOwner_init (replicate 32 3) (LocalRouterLookup (replicate 16 7)))
        \<lparr>tx_valuesFound := [(RouterContact_init [])\<lparr>rc_last_updated := 5\<rparr>]\<rparr>) demo_context =
      effect (SendOnPath (replicate 16 7) (GRM m)) demo_context \<and>
    grm_R m = [RouterContact_init (r_netid (demo_router\<lparr>r_path := \<lambda>_. True\<rparr>))]"
  by (rule local_router_lookup_sends_empty_contact) (simp_all add: TX_new_def)

text \<open>
  A router with at most four DHT peers refuses the exploratory lookup of each of these peers: it asks for as many
  peers as it has while the requester, who is one of them, is excluded.
\<close>

theorem small_network_refuses_exploration:
  assumes "wf_dht c" and "is_key target" and "requester \<in> bucket_keys (ctx_nodes c)" and "bucket_size (ctx_nodes c) \<le> 4"
  shows "HandleExploritoryRouterLookup r requester txid target c = Inr (False, [], c)"
proof -
  let ?b = "ctx_nodes c" and ?ex = "{ctx_ourKey c, requester}"
  have "near_keys ?b target ?ex \<subset> bucket_keys ?b" using assms(3) by (auto simp: near_keys_def)
  then have "card (near_keys ?b target ?ex) < card (bucket_keys ?b)" by (simp add: psubset_card_mono)
  also have "\<dots> \<le> bucket_size ?b" by (metis bucket_size_def card_length length_map set_map)
  finally have "\<not> fst (GetManyNearExcluding ?b target {} (min (bucket_size ?b) 4) ?ex)"
    using GetManyNear_loop_spec [OF wf_dhtD(5) [OF assms(1)] assms(2), of "bucket_size ?b" "aligned_Zero 32" ?ex "{}"] assms(4)
    unfolding GetManyNearExcluding_def by auto
  then show ?thesis
    by (cases "GetManyNearExcluding ?b target {} (min (bucket_size ?b) 4) ?ex")
      (simp add: HandleExploritoryRouterLookup_def Let_def refuse_def)
qed

theorem small_network_refuses_exploration_witness:
  "HandleExploritoryRouterLookup demo_router (replicate 32 4) 7 (replicate 32 3)
      (PutRCNodeAsync (RCNode_of ((RouterContact_init [])\<lparr>rc_pubkey := replicate 32 4\<rparr>)) demo_context) =
    Inr (False, [], PutRCNodeAsync (RCNode_of ((RouterContact_init [])\<lparr>rc_pubkey := replicate 32 4\<rparr>)) demo_context)"
proof (rule small_network_refuses_exploration)
  show "wf_dht (PutRCNodeAsync (RCNode_of ((RouterContact_init [])\<lparr>rc_pubkey := replicate 32 4\<rparr>)) demo_context)"
    by (simp add: demo_context_def wf_dht_def Context_Init_def TXHolder_init_def wf_holder_def wf_Bucket is_key_def TX_new_def
        PutRCNodeAsync_def RCNode_of_def PutNode_refines(1))
qed (simp_all add: is_key_def demo_context_def Context_Init_def PutRCNodeAsync_def RCNode_of_def PutNode_def Bucket_def
    bucket_size_def)

end
