(* ===== verification/Protocol.thy ===== *)
theory Protocol
  imports Introset "HOL-Library.Multiset"
begin

text \<open>
  Frames between hidden services (\<^verbatim>\<open>service/protocol.*\<close>) and the conversations of an endpoint (\<^verbatim>\<open>service/session.*\<close>,
  the session store of \<^verbatim>\<open>service/endpoint.cpp\<close>). A \<^verbatim>\<open>ProtocolMessage\<close> is encoded, encrypted and put into a
  \<^verbatim>\<open>ProtocolFrame\<close>, which is encoded again and signed. The cipher, the key exchanges, the hashes and the signatures
  are arguments, collected in a record.
\<close>

section \<open>Encoding into a local array\<close>

text \<open>
  \<^verbatim>\<open>std::array< byte_t, n > tmp; llarp_buffer_t buf(tmp); if(!x.BEncode(&buf)) \<dots>; buf.sz = buf.cur - buf.base\<close>:
  the bytes written, if they fit.
\<close>

definition encode_in :: "nat \<Rightarrow> llarp_buffer action \<Rightarrow> byte list option res" where
  "encode_in n BEncode = bind_res (BEncode (buffer_of (replicate n 0))) (\<lambda>(ok, b). Inr (if ok then Some (consumed b) else None))"

lemma encode_in_emits:
  assumes "emits f w" and "length w < n"
  shows "encode_in n f = Inr (Some w)"
proof -
  let ?b = "buffer_of (replicate n (0 :: byte))"
  have "wf_buf ?b" "length w < size_left ?b" "consumed ?b = []"
    using assms(2) by (simp_all add: size_left_def buffer_of_def consumed_def wf_buf_def)
  with assms(1) obtain b' where "f ?b = Inr (True, b')" "consumed b' = w" by (metis append_Nil emitsE)
  then show ?thesis by (simp add: encode_in_def)
qed

section \<open>The inner message\<close>

record ProtocolMessage =
  pm_proto :: u64
  pm_queued :: llarp_time
  pm_payload :: "byte list"
  pm_introReply :: Introduction
  pm_sender :: ServiceInfo
  pm_tag :: aligned
  pm_seqno :: u64
  pm_version :: u64

definition ProtocolMessage_of :: "aligned \<Rightarrow> ProtocolMessage" where
  "ProtocolMessage_of t = \<lparr>pm_proto = 1, pm_queued = 0, pm_payload = [], pm_introReply = Introduction_init,
     pm_sender = ServiceInfo_init, pm_tag = t, pm_seqno = 0, pm_version = LLARP_PROTO_VERSION\<rparr>"

definition ProtocolMessage_init :: ProtocolMessage where
  "ProtocolMessage_init = ProtocolMessage_of (aligned_Zero 16)"

definition ProtocolMessage_PutBuffer :: "byte list \<Rightarrow> ProtocolMessage \<Rightarrow> ProtocolMessage" where
  "ProtocolMessage_PutBuffer buf m = m\<lparr>pm_payload := buf\<rparr>"

definition ProtocolMessage_less :: "ProtocolMessage \<Rightarrow> ProtocolMessage \<Rightarrow> bool" where
  "ProtocolMessage_less a b \<longleftrightarrow> pm_seqno a < pm_seqno b"

definition read_payload :: "(ProtocolMessage \<times> llarp_buffer) action" where
  "read_payload = (\<lambda>(m, b).
     bind_res (bencode_read_string b) (\<lambda>(r, b').
       case r of
         None \<Rightarrow> Inr (False, (m, b'))
       | Some strbuf \<Rightarrow> bind_res (load (bsz strbuf) strbuf) (\<lambda>bs. Inr (True, (ProtocolMessage_PutBuffer bs m, b')))))"

definition ProtocolMessage_DecodeKey ::
  "(byte list \<Rightarrow> aligned) \<Rightarrow> llarp_buffer \<Rightarrow> (ProtocolMessage \<times> llarp_buffer) action" where
  "ProtocolMessage_DecodeKey hash k = (\<lambda>(m, b).
     entries_then [BEncodeMaybeReadDictInt (CHR ''a'') pm_proto_update k]
     (if_key k (str ''d'') read_payload
     (entries_then
       [BEncodeMaybeReadDictEntry (CHR ''i'') Introduction_BDecode pm_introReply pm_introReply_update k,
        BEncodeMaybeReadDictInt (CHR ''n'') pm_seqno_update k,
        BEncodeMaybeReadDictEntry (CHR ''s'') (ServiceInfo_BDecode hash) pm_sender pm_sender_update k,
        BEncodeMaybeReadDictEntry (CHR ''t'') (aligned_BDecode 16) pm_tag pm_tag_update k,
        BEncodeMaybeReadDictInt (CHR ''v'') pm_version_update k]
      return_read)) (False, m, b))"

definition ProtocolMessage_BEncode :: "ProtocolMessage \<Rightarrow> llarp_buffer action" where
  "ProtocolMessage_BEncode m = all_steps
     (bencode_start_dict #
      [BEncodeWriteDictInt (CHR ''a'') (pm_proto m),
       bencode_write_bytestring (str ''d''),
       bencode_write_bytestring (pm_payload m),
       BEncodeWriteDictEntry (CHR ''i'') (Introduction_BEncode (pm_introReply m)),
       BEncodeWriteDictInt (CHR ''n'') (pm_seqno m),
       BEncodeWriteDictEntry (CHR ''s'') (ServiceInfo_BEncode (pm_sender m)),
       only_if (\<not> aligned_IsZero (pm_tag m)) (BEncodeWriteDictEntry (CHR ''t'') (aligned_BEncode (pm_tag m))),
       BEncodeWriteDictInt (CHR ''v'') (pm_version m)] @ [bencode_end])"

section \<open>The frame\<close>

text \<open>The fields of the routing message it derives from come first. \<open>encrypted_assign\<close> is \<^verbatim>\<open>Encrypted::operator=\<close>.\<close>

record ProtocolFrame =
  pf_from :: aligned
  pf_S :: u64
  pf_version :: u64
  pf_C :: aligned
  pf_D :: "byte list"
  pf_R :: u64
  pf_N :: aligned
  pf_Z :: aligned
  pf_F :: aligned
  pf_T :: aligned

definition encrypted_assign :: "nat \<Rightarrow> byte list \<Rightarrow> byte list \<Rightarrow> byte list" where
  "encrypted_assign bufsz old buf = (if length buf \<le> bufsz then buf else old)"

definition ProtocolFrame_Clear :: "ProtocolFrame \<Rightarrow> ProtocolFrame" where
  "ProtocolFrame_Clear f = f\<lparr>pf_C := aligned_Zero 1048, pf_D := [], pf_F := aligned_Zero 16, pf_T := aligned_Zero 16,
     pf_N := aligned_Zero 32, pf_Z := aligned_Zero 64, pf_R := 0, pf_version := LLARP_PROTO_VERSION\<rparr>"

definition ProtocolFrame_init :: ProtocolFrame where
  "ProtocolFrame_init = ProtocolFrame_Clear \<lparr>pf_from = aligned_Zero 16, pf_S = 0, pf_version = LLARP_PROTO_VERSION,
     pf_C = aligned_Zero 1048, pf_D = [], pf_R = 0, pf_N = aligned_Zero 32, pf_Z = aligned_Zero 64,
     pf_F = aligned_Zero 16, pf_T = aligned_Zero 16\<rparr>"

definition ProtocolFrame_eq :: "ProtocolFrame \<Rightarrow> ProtocolFrame \<Rightarrow> bool" where
  "ProtocolFrame_eq f other \<longleftrightarrow> pf_C f = pf_C other \<and> pf_D f = pf_D other \<and> pf_N f = pf_N other \<and> pf_Z f = pf_Z other \<and>
     pf_T f = pf_T other \<and> pf_S f = pf_S other \<and> pf_version f = pf_version other"

definition ProtocolFrame_assign :: "ProtocolFrame \<Rightarrow> ProtocolFrame \<Rightarrow> ProtocolFrame" where
  "ProtocolFrame_assign f other = f\<lparr>pf_C := pf_C other, pf_D := pf_D other, pf_F := pf_F other, pf_N := pf_N other,
     pf_Z := pf_Z other, pf_T := pf_T other, pf_R := pf_R other, pf_S := pf_S other, pf_version := pf_version other\<rparr>"

definition ProtocolFrame_BEncode :: "ProtocolFrame \<Rightarrow> llarp_buffer action" where
  "ProtocolFrame_BEncode f = all_steps
     (bencode_start_dict #
      [BEncodeWriteDictMsgType (CHR ''A'') (CHR ''H''),
       only_if (\<not> aligned_IsZero (pf_C f)) (BEncodeWriteDictEntry (CHR ''C'') (aligned_BEncode (pf_C f))),
       only_if (length (pf_D f) > 0) (BEncodeWriteDictEntry (CHR ''D'') (encrypted_BEncode (pf_D f))),
       BEncodeWriteDictEntry (CHR ''F'') (aligned_BEncode (pf_F f)),
       only_if (\<not> aligned_IsZero (pf_N f)) (BEncodeWriteDictEntry (CHR ''N'') (aligned_BEncode (pf_N f))),
       only_if (pf_R f \<noteq> 0) (BEncodeWriteDictInt (CHR ''R'') (pf_R f)),
       only_if (\<not> aligned_IsZero (pf_T f)) (BEncodeWriteDictEntry (CHR ''T'') (aligned_BEncode (pf_T f))),
       BEncodeWriteDictInt (CHR ''V'') (pf_version f),
       BEncodeWriteDictEntry (CHR ''Z'') (aligned_BEncode (pf_Z f))] @ [bencode_end])"

text \<open>The type letter of a frame inside another message.\<close>

definition read_type :: "byte \<Rightarrow> ('m \<times> llarp_buffer) action" where
  "read_type t = (\<lambda>(m, b).
     bind_res (bencode_read_string b) (\<lambda>(r, b').
       case r of
         None \<Rightarrow> Inr (False, (m, b'))
       | Some strbuf \<Rightarrow> if bsz strbuf \<noteq> 1 then Inr (False, (m, b')) else bind_res (deref strbuf) (\<lambda>c. Inr (c = t, (m, b')))))"

definition ProtocolFrame_DecodeKey :: "llarp_buffer \<Rightarrow> (ProtocolFrame \<times> llarp_buffer) action" where
  "ProtocolFrame_DecodeKey key = (\<lambda>(f, b).
     if_key key (str ''A'') (read_type (ch CHR ''H''))
     (entries_then
       [BEncodeMaybeReadDictEntry (CHR ''D'') (encrypted_BDecode 2048) pf_D pf_D_update key,
        BEncodeMaybeReadDictEntry (CHR ''F'') (aligned_BDecode 16) pf_F pf_F_update key,
        BEncodeMaybeReadDictEntry (CHR ''C'') (aligned_BDecode 1048) pf_C pf_C_update key,
        BEncodeMaybeReadDictEntry (CHR ''N'') (aligned_BDecode 32) pf_N pf_N_update key,
        BEncodeMaybeReadDictInt (CHR ''S'') pf_S_update key,
        BEncodeMaybeReadDictInt (CHR ''R'') pf_R_update key,
        BEncodeMaybeReadDictEntry (CHR ''T'') (aligned_BDecode 16) pf_T pf_T_update key,
        BEncodeMaybeVerifyVersion (CHR ''V'') pf_version_update LLARP_PROTO_VERSION key,
        BEncodeMaybeReadDictEntry (CHR ''Z'') (aligned_BDecode 64) pf_Z pf_Z_update key]
      return_read) (False, f, b))"

definition ProtocolFrame_BDecode :: "(ProtocolFrame \<times> llarp_buffer) action" where
  "ProtocolFrame_BDecode = decode_dict ProtocolFrame_DecodeKey"

subsection \<open>Encryption and signatures\<close>

text \<open>
  \<open>fc_xchacha20\<close> is the cipher on a buffer with key and nonce; \<open>fc_sign\<close> signs with our identity; \<open>fc_pqe_decrypt\<close>
  and \<open>fc_dh_server\<close> (with a public key and a nonce) are the two key exchanges with our secret keys.
\<close>

record frame_crypto =
  fc_xchacha20 :: "byte list \<Rightarrow> aligned \<Rightarrow> aligned \<Rightarrow> byte list"
  fc_sign :: "byte list \<Rightarrow> aligned option"
  fc_verify :: "aligned \<Rightarrow> byte list \<Rightarrow> aligned \<Rightarrow> bool"
  fc_hash :: "byte list \<Rightarrow> aligned"
  fc_shorthash :: "byte list \<Rightarrow> aligned"
  fc_pqe_decrypt :: "aligned \<Rightarrow> aligned option"
  fc_dh_server :: "aligned \<Rightarrow> aligned \<Rightarrow> aligned option"

text \<open>
  \<^verbatim>\<open>Encrypted::Buffer\<close>: a buffer over the first bytes of the backing array; \<open>tail\<close> are the bytes of the array behind them.
\<close>

definition Encrypted_Buffer :: "byte list \<Rightarrow> byte list \<Rightarrow> llarp_buffer" where
  "Encrypted_Buffer tail data = \<lparr>mem = data @ tail, cur = 0, bsz = length data\<rparr>"

definition MAX_PROTOCOL_MESSAGE_SIZE :: nat where
  "MAX_PROTOCOL_MESSAGE_SIZE = 2048 * 2"

definition DecryptPayloadInto ::
  "frame_crypto \<Rightarrow> byte list \<Rightarrow> aligned \<Rightarrow> ProtocolFrame \<Rightarrow> ProtocolMessage \<Rightarrow> (bool \<times> ProtocolMessage) res" where
  "DecryptPayloadInto fc tail sharedkey f msg =
     bind_res (decode_dict (ProtocolMessage_DecodeKey (fc_hash fc))
         (msg, Encrypted_Buffer tail (fc_xchacha20 fc (pf_D f) sharedkey (pf_N f))))
       (\<lambda>(ok, (m, b)). Inr (ok, m))"

definition ProtocolFrame_Sign :: "frame_crypto \<Rightarrow> ProtocolFrame action" where
  "ProtocolFrame_Sign fc f =
     (let f = f\<lparr>pf_Z := aligned_Zero 64\<rparr> in
      bind_res (encode_in MAX_PROTOCOL_MESSAGE_SIZE (ProtocolFrame_BEncode f)) (\<lambda>r.
        case r of
          None \<Rightarrow> Inr (False, f)
        | Some bs \<Rightarrow> (case fc_sign fc bs of None \<Rightarrow> Inr (False, f) | Some z \<Rightarrow> Inr (True, f\<lparr>pf_Z := z\<rparr>))))"

definition EncryptAndSign :: "frame_crypto \<Rightarrow> ProtocolMessage \<Rightarrow> aligned \<Rightarrow> ProtocolFrame action" where
  "EncryptAndSign fc msg sessionKey f =
     bind_res (encode_in MAX_PROTOCOL_MESSAGE_SIZE (ProtocolMessage_BEncode msg)) (\<lambda>r.
       case r of
         None \<Rightarrow> Inr (False, f)
       | Some bs \<Rightarrow>
           let f = f\<lparr>pf_D := encrypted_assign 2048 (pf_D f) (fc_xchacha20 fc bs sessionKey (pf_N f))\<rparr>;
               f = f\<lparr>pf_Z := aligned_Zero 64\<rparr>
           in bind_res (encode_in MAX_PROTOCOL_MESSAGE_SIZE (ProtocolFrame_BEncode f)) (\<lambda>r2.
                case r2 of
                  None \<Rightarrow> Inr (False, f)
                | Some bs2 \<Rightarrow> (case fc_sign fc bs2 of None \<Rightarrow> Inr (False, f) | Some z \<Rightarrow> Inr (True, f\<lparr>pf_Z := z\<rparr>))))"

definition ProtocolFrame_Verify :: "frame_crypto \<Rightarrow> ProtocolFrame \<Rightarrow> ServiceInfo \<Rightarrow> bool res" where
  "ProtocolFrame_Verify fc f svc =
     bind_res (encode_in MAX_PROTOCOL_MESSAGE_SIZE (ProtocolFrame_BEncode (f\<lparr>pf_Z := aligned_Zero 64\<rparr>))) (\<lambda>r.
       case r of None \<Rightarrow> Inr False | Some bs \<Rightarrow> Inr (fc_verify fc (si_signkey svc) bs (pf_Z f)))"

section \<open>Conversations\<close>

record Session =
  ses_replyIntro :: Introduction
  ses_sharedKey :: aligned
  ses_remote :: ServiceInfo
  ses_intro :: Introduction
  ses_lastInboundIntro :: Introduction
  ses_lastUsed :: llarp_time
  ses_seqno :: u64
  ses_inbound :: bool

definition Session_init :: Session where
  "Session_init = \<lparr>ses_replyIntro = Introduction_init, ses_sharedKey = aligned_Zero 32, ses_remote = ServiceInfo_init,
     ses_intro = Introduction_init, ses_lastInboundIntro = Introduction_init, ses_lastUsed = 0, ses_seqno = 0,
     ses_inbound = False\<rparr>"

definition Session_IsExpired :: "Session \<Rightarrow> llarp_time \<Rightarrow> llarp_time \<Rightarrow> bool" where
  "Session_IsExpired s now lifetime \<longleftrightarrow>
     now > ses_lastUsed s \<and> (now - ses_lastUsed s > lifetime \<or> Introduction_IsExpired (ses_intro s) now)"

text \<open>What an endpoint uses of the path a frame came over.\<close>

record recv_path =
  rp_intro :: Introduction
  rp_Endpoint :: aligned
  rp_ExpireTime :: llarp_time

text \<open>
  The part of the endpoint that conversations use. The session store is an \<^verbatim>\<open>unordered_map\<close>: an association list with
  distinct keys.
\<close>

record endpoint =
  ep_Sessions :: "(aligned \<times> Session) list"
  ep_RecvQueue :: "(recv_path \<times> aligned \<times> ProtocolMessage) list"
  ep_InboundTrafficQueue :: "ProtocolMessage list"
  ep_SendQueue :: "(ProtocolFrame \<times> aligned \<times> recv_path) list"

definition HasConvoTag :: "endpoint \<Rightarrow> aligned \<Rightarrow> bool" where
  "HasConvoTag e t \<longleftrightarrow> map_of (ep_Sessions e) t \<noteq> None"

definition change_session :: "aligned \<Rightarrow> (Session \<Rightarrow> Session) \<Rightarrow> endpoint \<Rightarrow> endpoint" where
  "change_session tag g e = e\<lparr>ep_Sessions := map (\<lambda>(t, s). if t = tag then (t, g s) else (t, s)) (ep_Sessions e)\<rparr>"

definition add_session :: "aligned \<Rightarrow> endpoint \<Rightarrow> endpoint" where
  "add_session tag e = e\<lparr>ep_Sessions := ep_Sessions e @ [(tag, Session_init)]\<rparr>"

definition PutSenderFor :: "llarp_time \<Rightarrow> aligned \<Rightarrow> ServiceInfo \<Rightarrow> bool \<Rightarrow> endpoint \<Rightarrow> endpoint" where
  "PutSenderFor now tag info inbound e =
     change_session tag (ses_lastUsed_update (\<lambda>_. now))
       (if HasConvoTag e tag then e
        else change_session tag (\<lambda>s. s\<lparr>ses_inbound := inbound, ses_remote := info\<rparr>) (add_session tag e))"

definition GetSenderFor :: "aligned \<Rightarrow> endpoint \<Rightarrow> ServiceInfo option" where
  "GetSenderFor tag e = map_option ses_remote (map_of (ep_Sessions e) tag)"

definition PutIntroFor :: "llarp_time \<Rightarrow> aligned \<Rightarrow> Introduction \<Rightarrow> endpoint \<Rightarrow> endpoint" where
  "PutIntroFor now tag intro e = change_session tag (\<lambda>s. s\<lparr>ses_intro := intro, ses_lastUsed := now\<rparr>) e"

definition GetIntroFor :: "aligned \<Rightarrow> endpoint \<Rightarrow> Introduction option" where
  "GetIntroFor tag e = map_option ses_intro (map_of (ep_Sessions e) tag)"

definition PutReplyIntroFor :: "llarp_time \<Rightarrow> aligned \<Rightarrow> Introduction \<Rightarrow> endpoint \<Rightarrow> endpoint" where
  "PutReplyIntroFor now tag intro e = change_session tag (\<lambda>s. s\<lparr>ses_replyIntro := intro, ses_lastUsed := now\<rparr>) e"

definition GetReplyIntroFor :: "aligned \<Rightarrow> endpoint \<Rightarrow> Introduction option" where
  "GetReplyIntroFor tag e = map_option ses_replyIntro (map_of (ep_Sessions e) tag)"

definition GetCachedSessionKeyFor :: "aligned \<Rightarrow> endpoint \<Rightarrow> aligned option" where
  "GetCachedSessionKeyFor tag e = map_option ses_sharedKey (map_of (ep_Sessions e) tag)"

definition PutCachedSessionKeyFor :: "llarp_time \<Rightarrow> aligned \<Rightarrow> aligned \<Rightarrow> endpoint \<Rightarrow> endpoint" where
  "PutCachedSessionKeyFor now tag k e =
     change_session tag (\<lambda>s. s\<lparr>ses_sharedKey := k, ses_lastUsed := now\<rparr>)
       (if HasConvoTag e tag then e else add_session tag e)"

definition MarkConvoTagActive :: "llarp_time \<Rightarrow> aligned \<Rightarrow> endpoint \<Rightarrow> endpoint" where
  "MarkConvoTagActive now tag e = change_session tag (ses_lastUsed_update (\<lambda>_. now)) e"

definition RemoveConvoTag :: "aligned \<Rightarrow> endpoint \<Rightarrow> endpoint" where
  "RemoveConvoTag t e = e\<lparr>ep_Sessions := filter (\<lambda>x. fst x \<noteq> t) (ep_Sessions e)\<rparr>"

definition GetSeqNoForConvo :: "aligned \<Rightarrow> endpoint \<Rightarrow> u64 \<times> endpoint" where
  "GetSeqNoForConvo tag e =
     (case map_of (ep_Sessions e) tag of
        None \<Rightarrow> (0, e)
      | Some s \<Rightarrow> (ses_seqno s + 1, change_session tag (ses_seqno_update (\<lambda>n. n + 1)) e))"

definition ExpireConvoSessions :: "llarp_time \<Rightarrow> endpoint \<Rightarrow> endpoint" where
  "ExpireConvoSessions now e =
     e\<lparr>ep_Sessions := filter (\<lambda>x. \<not> Session_IsExpired (snd x) now (default_lifetime * 2)) (ep_Sessions e)\<rparr>"

text \<open>\<^verbatim>\<open>remote.Addr()\<close>: the cached address; the sessions hold infos whose address was calculated when they were decoded.\<close>

definition HasInboundConvo :: "aligned \<Rightarrow> endpoint \<Rightarrow> bool" where
  "HasInboundConvo addr e \<longleftrightarrow>
     list_ex (\<lambda>x. si_CachedAddr (ses_remote (snd x)) = addr \<and> ses_inbound (snd x)) (ep_Sessions e)"

definition GetConvoTagsForService :: "aligned \<Rightarrow> aligned set \<Rightarrow> endpoint \<Rightarrow> bool \<times> aligned set" where
  "GetConvoTagsForService addr tags e =
     foldl (\<lambda>(inserted, tags) x.
        if si_CachedAddr (ses_remote (snd x)) = addr then (inserted \<or> fst x \<notin> tags, insert (fst x) tags)
        else (inserted, tags)) (False, tags) (ep_Sessions e)"

subsection \<open>Receiving\<close>

definition ProcessDataMessage :: "ProtocolMessage \<Rightarrow> endpoint \<Rightarrow> bool \<times> endpoint" where
  "ProcessDataMessage msg e =
     (if pm_proto msg = 1 \<or> pm_proto msg = 2
      then (True, e\<lparr>ep_InboundTrafficQueue := ep_InboundTrafficQueue e @ [msg]\<rparr>)
      else (pm_proto msg = 0, e))"

definition HandleDataMessage ::
  "llarp_time \<Rightarrow> recv_path \<Rightarrow> aligned \<Rightarrow> ProtocolMessage \<Rightarrow> endpoint \<Rightarrow> bool \<times> endpoint" where
  "HandleDataMessage now path from msg e =
     (let e = PutSenderFor now (pm_tag msg) (pm_sender msg) True e;
          e = PutReplyIntroFor now (pm_tag msg) (rp_intro path) e;
          intro = Introduction_init\<lparr>intro_pathID := from, intro_router := rp_Endpoint path,
            intro_expiresAt := min (rp_ExpireTime path) (intro_expiresAt (pm_introReply msg))\<rparr>;
          e = PutIntroFor now (pm_tag msg) intro e
      in ProcessDataMessage msg e)"

definition QueueRecvData :: "recv_path \<Rightarrow> aligned \<Rightarrow> ProtocolMessage \<Rightarrow> endpoint \<Rightarrow> endpoint" where
  "QueueRecvData path from msg e = e\<lparr>ep_RecvQueue := ep_RecvQueue e @ [(path, from, msg)]\<rparr>"

definition FlushRecvData :: "llarp_time \<Rightarrow> endpoint \<Rightarrow> endpoint" where
  "FlushRecvData now e =
     foldl (\<lambda>e (path, from, msg). snd (HandleDataMessage now path from msg e)) (e\<lparr>ep_RecvQueue := []\<rparr>) (ep_RecvQueue e)"

text \<open>
  \<^verbatim>\<open>AsyncFrameDecrypt::Work\<close>, for a frame that starts a conversation. The job runs on a worker and hands the message to the
  logic thread at its end; here both happen at once.
\<close>

definition AsyncFrameDecrypt_Work ::
  "frame_crypto \<Rightarrow> llarp_time \<Rightarrow> byte list \<Rightarrow> recv_path \<Rightarrow> ProtocolFrame \<Rightarrow> endpoint \<Rightarrow> endpoint res" where
  "AsyncFrameDecrypt_Work fc now tail path frame e =
     (case fc_pqe_decrypt fc (pf_C frame) of
        None \<Rightarrow> Inr e
      | Some K \<Rightarrow>
          bind_res (decode_dict (ProtocolMessage_DecodeKey (fc_hash fc))
              (ProtocolMessage_init, Encrypted_Buffer tail (fc_xchacha20 fc (pf_D frame) K (pf_N frame))))
            (\<lambda>(ok, (msg, _)).
              if \<not> ok then Inr e
              else bind_res (ProtocolFrame_Verify fc frame (pm_sender msg)) (\<lambda>valid.
                if \<not> valid then Inr e
                else if HasConvoTag e (pm_tag msg) then Inr e
                else case fc_dh_server fc (si_enckey (pm_sender msg)) (pf_N frame) of
                       None \<Rightarrow> Inr e
                     | Some sharedSecret \<Rightarrow>
                         let sharedKey = fc_shorthash fc (K @ sharedSecret);
                             e = PutIntroFor now (pm_tag msg) (pm_introReply msg) e;
                             e = PutReplyIntroFor now (pm_tag msg) (rp_intro path) e;
                             e = PutSenderFor now (pm_tag msg) (pm_sender msg) True e;
                             e = PutCachedSessionKeyFor now (pm_tag msg) sharedKey e
                         in Inr (snd (HandleDataMessage now path (pf_F frame) msg e)))))"

definition AsyncDecryptAndVerify ::
  "frame_crypto \<Rightarrow> llarp_time \<Rightarrow> byte list \<Rightarrow> recv_path \<Rightarrow> ProtocolFrame \<Rightarrow> endpoint \<Rightarrow> (bool \<times> endpoint) res" where
  "AsyncDecryptAndVerify fc now tail path frame e =
     (if aligned_IsZero (pf_T frame)
      then bind_res (AsyncFrameDecrypt_Work fc now tail path frame e) (\<lambda>e. Inr (True, e))
      else case (GetCachedSessionKeyFor (pf_T frame) e, GetSenderFor (pf_T frame) e) of
             (Some shared, Some si) \<Rightarrow>
               bind_res (ProtocolFrame_Verify fc frame si) (\<lambda>valid.
                 if \<not> valid then Inr (True, e)
                 else bind_res (DecryptPayloadInto fc tail shared frame ProtocolMessage_init) (\<lambda>(ok, msg).
                   if \<not> ok then Inr (True, e) else Inr (True, QueueRecvData path (pf_F frame) msg e)))
           | _ \<Rightarrow> Inr (False, e))"

definition HandleHiddenServiceFrame ::
  "frame_crypto \<Rightarrow> llarp_time \<Rightarrow> byte list \<Rightarrow> recv_path \<Rightarrow> ProtocolFrame \<Rightarrow> endpoint \<Rightarrow> (bool \<times> endpoint) res" where
  "HandleHiddenServiceFrame fc now tail p frame e =
     (if pf_R frame \<noteq> 0 then
        (case GetSenderFor (pf_T frame) e of
           None \<Rightarrow> Inr (False, e)
         | Some si \<Rightarrow> bind_res (ProtocolFrame_Verify fc frame si) (\<lambda>valid.
             if \<not> valid then Inr (False, e) else Inr (True, RemoveConvoTag (pf_T frame) e)))
      else bind_res (AsyncDecryptAndVerify fc now tail p frame e) (\<lambda>(ok, e).
        if ok then Inr (True, e)
        else let f = ProtocolFrame_init\<lparr>pf_R := 1, pf_T := pf_T frame, pf_F := intro_pathID (rp_intro p)\<rparr>
             in bind_res (ProtocolFrame_Sign fc f) (\<lambda>(signed, f).
                  if \<not> signed then Inr (False, e)
                  else Inr (True, e\<lparr>ep_SendQueue := ep_SendQueue e @ [(f, pf_F frame, p)]\<rparr>))))"

text \<open>
  The loop of \<^verbatim>\<open>Endpoint::Pump\<close> over the priority queue, whose top is a message no other is greater than. Among equal
  messages the one queued first is taken.
\<close>

definition queue_top :: "ProtocolMessage list \<Rightarrow> ProtocolMessage" where
  "queue_top q = foldl (\<lambda>m x. if ProtocolMessage_less m x then x else m) (hd q) (tl q)"

function Pump_loop :: "ProtocolMessage list \<Rightarrow> ProtocolMessage list" where
  "Pump_loop q = (if q = [] then [] else queue_top q # Pump_loop (remove1 (queue_top q) q))"
  by pat_completeness auto

lemma foldl_choose_in: "foldl (\<lambda>m x. if P m x then x else m) a xs \<in> set (a # xs)"
proof (induction xs arbitrary: a)
  case (Cons y ys)
  from Cons [of "if P a y then y else a"] show ?case by (auto split: if_splits)
qed simp

lemma queue_top_in: "q \<noteq> [] \<Longrightarrow> queue_top q \<in> set q"
  using foldl_choose_in [of ProtocolMessage_less "hd q" "tl q"] by (cases q) (auto simp: queue_top_def)

termination Pump_loop
  by (relation "measure length") (auto simp: length_remove1 queue_top_in)

declare Pump_loop.simps [simp del]

section \<open>The codecs\<close>

definition ProtocolMessage_entries :: "ProtocolMessage \<Rightarrow> ProtocolMessage entry list" where
  "ProtocolMessage_entries m =
     [(CHR ''a'', wire_int (pm_proto m), pm_proto_update (\<lambda>_. pm_proto m)),
      (CHR ''d'', wire_string (pm_payload m), pm_payload_update (\<lambda>_. pm_payload m)),
      (CHR ''i'', dict_wire (Introduction_entries (pm_introReply m)), pm_introReply_update (\<lambda>_. pm_introReply m)),
      (CHR ''n'', wire_int (pm_seqno m), pm_seqno_update (\<lambda>_. pm_seqno m)),
      (CHR ''s'', dict_wire (ServiceInfo_entries (pm_sender m)), pm_sender_update (\<lambda>_. pm_sender m))] @
     (if \<not> aligned_IsZero (pm_tag m) then [(CHR ''t'', wire_string (pm_tag m), pm_tag_update (\<lambda>_. pm_tag m))] else []) @
     [(CHR ''v'', wire_int (pm_version m), pm_version_update (\<lambda>_. pm_version m))]"

definition ProtocolMessage_valid :: "(byte list \<Rightarrow> aligned) \<Rightarrow> ProtocolMessage \<Rightarrow> bool" where
  "ProtocolMessage_valid hash m \<longleftrightarrow> Introduction_valid (pm_introReply m) \<and> ServiceInfo_valid hash (pm_sender m) \<and>
     length (pm_tag m) = 16 \<and> length (pm_payload m) < 10 ^ 9 \<and> pm_queued m = 0"

lemma read_payload_hit [key_simps]:
  assumes "wf_buf b" and "remaining b = wire_string x @ rest" and "length x < 10 ^ 9"
  shows "read_payload (m, b) = Inr (True, (m\<lparr>pm_payload := x\<rparr>, advance (length (wire_string x)) b))"
proof -
  from read_string_key [OF assms] obtain kb where kb: "bencode_read_string b = Inr (Some kb, advance (length (wire_string x)) b)"
    "wf_buf kb" "remaining kb = x" "bsz kb = length x"
    by blast
  then have "load (bsz kb) kb = Inr x" by (simp add: load_remaining)
  with kb show ?thesis by (simp add: read_payload_def ProtocolMessage_PutBuffer_def)
qed

lemma ProtocolMessage_decodes:
  assumes "ProtocolMessage_valid hash m" and "pm_introReply m0 = Introduction_init" and "pm_sender m0 = ServiceInfo_init"
  shows "decodes_all (ProtocolMessage_DecodeKey hash) m0 (ProtocolMessage_entries m)"
proof -
  have v: "length (pm_tag m) = 16" "length (pm_payload m) < 10 ^ 9" "Introduction_valid (pm_introReply m)"
    "ServiceInfo_valid hash (pm_sender m)"
    using assms(1) by (simp_all add: ProtocolMessage_valid_def)
  show ?thesis
    unfolding ProtocolMessage_entries_def
    by (auto intro!: decodes_atI
        simp: ProtocolMessage_DecodeKey_def key_simps v assms(2,3) read_payload_hit [OF _ _ v(2)] introduction.decode_wire [OF v(3)]
        service_info.decode_wire [OF v(4)])
qed

lemma ProtocolMessage_emits: "ProtocolMessage_valid hash m \<Longrightarrow> emits (ProtocolMessage_BEncode m) (dict_wire (ProtocolMessage_entries m))"
  unfolding ProtocolMessage_BEncode_def ProtocolMessage_valid_def
  by (rule emits_dict, (assumption | rule Introduction_emits ServiceInfo_emits emit_intros emits_write_bytestring)+)
    (auto simp: ProtocolMessage_entries_def)

lemma ProtocolMessage_apply:
  "ProtocolMessage_valid hash m \<Longrightarrow> apply_entries (ProtocolMessage_entries m) ProtocolMessage_init = m"
  by (auto simp: ProtocolMessage_entries_def ProtocolMessage_init_def ProtocolMessage_of_def ProtocolMessage_valid_def
      aligned_IsZero_iff)

lemma ProtocolMessage_decode:
  assumes "ProtocolMessage_valid hash m" and "wf_buf b" and "remaining b = dict_wire (ProtocolMessage_entries m) @ rest"
  shows "decode_dict (ProtocolMessage_DecodeKey hash) (ProtocolMessage_init, b) =
    Inr (True, (m, advance (length (dict_wire (ProtocolMessage_entries m))) b))"
proof -
  have "decodes_all (ProtocolMessage_DecodeKey hash) ProtocolMessage_init (ProtocolMessage_entries m)"
    by (rule ProtocolMessage_decodes [OF assms(1)]) (simp_all add: ProtocolMessage_init_def ProtocolMessage_of_def)
  from decode_dict_all [OF this assms(2,3)] show ?thesis by (simp add: ProtocolMessage_apply [OF assms(1)])
qed

definition ProtocolFrame_entries :: "ProtocolFrame \<Rightarrow> ProtocolFrame entry list" where
  "ProtocolFrame_entries f =
     (if \<not> aligned_IsZero (pf_C f) then [(CHR ''C'', wire_string (pf_C f), pf_C_update (\<lambda>_. pf_C f))] else []) @
     (if pf_D f \<noteq> [] then [(CHR ''D'', wire_string (pf_D f), pf_D_update (\<lambda>_. pf_D f))] else []) @
     [(CHR ''F'', wire_string (pf_F f), pf_F_update (\<lambda>_. pf_F f))] @
     (if \<not> aligned_IsZero (pf_N f) then [(CHR ''N'', wire_string (pf_N f), pf_N_update (\<lambda>_. pf_N f))] else []) @
     (if pf_R f \<noteq> 0 then [(CHR ''R'', wire_int (pf_R f), pf_R_update (\<lambda>_. pf_R f))] else []) @
     (if \<not> aligned_IsZero (pf_T f) then [(CHR ''T'', wire_string (pf_T f), pf_T_update (\<lambda>_. pf_T f))] else []) @
     [(CHR ''V'', wire_int (pf_version f), pf_version_update (\<lambda>_. pf_version f)),
      (CHR ''Z'', wire_string (pf_Z f), pf_Z_update (\<lambda>_. pf_Z f))]"

definition ProtocolFrame_sizes :: "ProtocolFrame \<Rightarrow> bool" where
  "ProtocolFrame_sizes f \<longleftrightarrow> length (pf_C f) = 1048 \<and> length (pf_D f) \<le> 2048 \<and> length (pf_N f) = 32 \<and>
     length (pf_F f) = 16 \<and> length (pf_T f) = 16 \<and> length (pf_Z f) = 64"

text \<open>The text of a frame, with its type.\<close>

definition ProtocolFrame_wire :: "ProtocolFrame \<Rightarrow> byte list" where
  "ProtocolFrame_wire f = typed_wire (CHR ''A'') (CHR ''H'') (ProtocolFrame_entries f)"

lemma encrypted_hit [key_simps]:
  "wf_buf b \<Longrightarrow> remaining b = wire_string x @ rest \<Longrightarrow> length x \<le> sz \<Longrightarrow> sz < 10 ^ 9 \<Longrightarrow>
   encrypted_BDecode sz (y, b) = Inr (True, (x, advance (length (wire_string x)) b))"
  by (rule encrypted_decode_wire)

lemma emits_encrypted [emit_intros]: "emits (encrypted_BEncode x) (wire_string x)"
  by (simp add: encrypted_BEncode_def emits_write_bytestring)

lemma read_type_hit [key_simps]:
  assumes "wf_buf b" and "remaining b = wire_string [t] @ rest"
  shows "read_type t (m, b) = Inr (True, (m, advance (length (wire_string [t])) b))"
proof -
  from read_string_key [OF assms] obtain kb where kb: "bencode_read_string b = Inr (Some kb, advance (length (wire_string [t])) b)"
    "wf_buf kb" "remaining kb = [t]" "bsz kb = 1"
    by auto
  moreover have "deref kb = Inr t" using kb(2,3) by (intro deref_remaining [where cs = "[]"]) simp_all
  ultimately show ?thesis by (simp add: read_type_def)
qed

lemma ProtocolFrame_decodes:
  assumes "ProtocolFrame_sizes f" and "pf_version f = LLARP_PROTO_VERSION" and "e \<in> set (ProtocolFrame_entries f)"
  shows "decodes ProtocolFrame_DecodeKey e"
proof -
  have v: "length (pf_C f) = 1048" "length (pf_D f) \<le> 2048" "length (pf_N f) = 32" "length (pf_F f) = 16"
    "length (pf_T f) = 16" "length (pf_Z f) = 64"
    using assms(1) by (simp_all add: ProtocolFrame_sizes_def)
  show ?thesis
    using assms(3) unfolding ProtocolFrame_entries_def
    by (auto split: if_splits intro!: decodesI simp: ProtocolFrame_DecodeKey_def key_simps v assms(2))
qed

lemma ProtocolFrame_emits: "emits (ProtocolFrame_BEncode f) (ProtocolFrame_wire f)"
  unfolding ProtocolFrame_BEncode_def ProtocolFrame_wire_def typed_wire_def
  by (rule emits_dict, rule emit_intros, (rule emit_intros)+) (auto simp: ProtocolFrame_entries_def)

lemma ProtocolFrame_wire_le:
  assumes "ProtocolFrame_sizes f"
  shows "length (ProtocolFrame_wire f) < 4096"
proof -
  have "length (wire_string (pf_C f)) \<le> 1053" "length (wire_string (pf_D f)) \<le> 2053" "length (wire_string (pf_N f)) \<le> 37"
    "length (wire_string (pf_F f)) \<le> 21" "length (wire_string (pf_T f)) \<le> 21" "length (wire_string (pf_Z f)) \<le> 69"
    using assms wire_string_le [of "pf_C f"] wire_string_le [of "pf_D f"] wire_string_le [of "pf_N f"]
      wire_string_le [of "pf_F f"] wire_string_le [of "pf_T f"] wire_string_le [of "pf_Z f"]
    by (simp_all add: ProtocolFrame_sizes_def)
  then show ?thesis
    using wire_int_le [of "pf_R f"] wire_int_le [of "pf_version f"]
    by (simp add: ProtocolFrame_wire_def typed_wire_def ProtocolFrame_entries_def length_dict_wire length_wire_char)
qed

lemma encode_frame:
  "ProtocolFrame_sizes f \<Longrightarrow> encode_in MAX_PROTOCOL_MESSAGE_SIZE (ProtocolFrame_BEncode f) = Inr (Some (ProtocolFrame_wire f))"
  using encode_in_emits [OF ProtocolFrame_emits] ProtocolFrame_wire_le by (simp add: MAX_PROTOCOL_MESSAGE_SIZE_def)

lemma Verify_wire:
  "ProtocolFrame_sizes f \<Longrightarrow>
    ProtocolFrame_Verify fc f svc = Inr (fc_verify fc (si_signkey svc) (ProtocolFrame_wire (f\<lparr>pf_Z := aligned_Zero 64\<rparr>)) (pf_Z f))"
  using encode_frame [of "f\<lparr>pf_Z := aligned_Zero 64\<rparr>"]
  by (simp add: ProtocolFrame_Verify_def ProtocolFrame_sizes_def aligned_Zero_def)

lemma DecryptPayload_wire:
  assumes "ProtocolMessage_valid (fc_hash fc) msg"
    and "fc_xchacha20 fc (pf_D f) K (pf_N f) = dict_wire (ProtocolMessage_entries msg)"
  shows "DecryptPayloadInto fc tail K f ProtocolMessage_init = Inr (True, msg)"
proof -
  let ?b = "Encrypted_Buffer tail (dict_wire (ProtocolMessage_entries msg))"
  have "wf_buf ?b" "remaining ?b = dict_wire (ProtocolMessage_entries msg) @ []"
    by (simp_all add: Encrypted_Buffer_def wf_buf_def remaining_def)
  from ProtocolMessage_decode [OF assms(1) this] show ?thesis by (simp add: DecryptPayloadInto_def assms(2))
qed

section \<open>The session store\<close>

lemma map_of_change_session [simp]:
  "map_of (ep_Sessions (change_session tag g e)) t =
    (if t = tag then map_option g (map_of (ep_Sessions e) t) else map_of (ep_Sessions e) t)"
proof -
  have "map_of (map (\<lambda>(t, s). if t = tag then (t, g s) else (t, s)) xs) t =
      (if t = tag then map_option g (map_of xs t) else map_of xs t)" for xs
    by (induction xs) auto
  then show ?thesis by (simp add: change_session_def)
qed

lemma map_of_add_session [simp]:
  "map_of (ep_Sessions (add_session tag e)) t =
    (case map_of (ep_Sessions e) t of None \<Rightarrow> if t = tag then Some Session_init else None | Some s \<Rightarrow> Some s)"
  by (auto simp: add_session_def map_add_def split: option.split)

lemma map_of_RemoveConvoTag [simp]:
  "map_of (ep_Sessions (RemoveConvoTag tag e)) t = (if t = tag then None else map_of (ep_Sessions e) t)"
proof -
  have "map_of (filter (\<lambda>x. fst x \<noteq> tag) xs) t = (if t = tag then None else map_of xs t)" for xs
    by (induction xs) auto
  from this [of "ep_Sessions e"] show ?thesis by (simp add: RemoveConvoTag_def)
qed

lemma RemoveConvoTag_queues [simp]:
  "ep_RecvQueue (RemoveConvoTag tag e) = ep_RecvQueue e" "ep_InboundTrafficQueue (RemoveConvoTag tag e) = ep_InboundTrafficQueue e"
  by (simp_all add: RemoveConvoTag_def)

lemmas session_ops = PutSenderFor_def PutIntroFor_def PutReplyIntroFor_def PutCachedSessionKeyFor_def HasConvoTag_def

lemma HandleDataMessage_sessions:
  "map_of (ep_Sessions (snd (HandleDataMessage now p src msg e))) t =
    (if t \<noteq> pm_tag msg then map_of (ep_Sessions e) t
     else Some (let s = (case map_of (ep_Sessions e) t of
                   None \<Rightarrow> Session_init\<lparr>ses_inbound := True, ses_remote := pm_sender msg\<rparr> | Some s \<Rightarrow> s)
                in s\<lparr>ses_lastUsed := now, ses_replyIntro := rp_intro p,
                     ses_intro := Introduction_init\<lparr>intro_pathID := src, intro_router := rp_Endpoint p,
                       intro_expiresAt := min (rp_ExpireTime p) (intro_expiresAt (pm_introReply msg))\<rparr>\<rparr>))"
  by (auto simp: HandleDataMessage_def ProcessDataMessage_def session_ops Let_def split: option.split)

lemma QueueRecvData_sessions [simp]: "ep_Sessions (QueueRecvData p src msg e) = ep_Sessions e"
  by (simp add: QueueRecvData_def)

section \<open>Properties\<close>

text \<open>
  C4: A frame carries its message: what \<^verbatim>\<open>EncryptAndSign\<close> makes of a message that fits is accepted by \<^verbatim>\<open>Verify\<close>
  with the key of the sender, and \<^verbatim>\<open>DecryptPayloadInto\<close> with the same session key gives the message back. The
  cipher is taken to be its own inverse and to keep the length, and signatures to verify.
\<close>

theorem frame_carries_message:
  assumes "ProtocolFrame_sizes f" and "ProtocolMessage_valid (fc_hash fcB) msg"
    and "length (dict_wire (ProtocolMessage_entries msg)) \<le> 2048"
    and "\<And>bs. fc_xchacha20 fcB (fc_xchacha20 fcA bs K (pf_N f)) K (pf_N f) = bs"
    and "\<And>bs. length (fc_xchacha20 fcA bs K (pf_N f)) = length bs"
    and "\<And>bs. \<exists>z. fc_sign fcA bs = Some z \<and> length z = 64 \<and> fc_verify fcB (si_signkey svc) bs z"
  shows "\<exists>f'. EncryptAndSign fcA msg K f = Inr (True, f') \<and> ProtocolFrame_Verify fcB f' svc = Inr True \<and>
    DecryptPayloadInto fcB tail K f' ProtocolMessage_init = Inr (True, msg)"
proof -
  let ?w = "dict_wire (ProtocolMessage_entries msg)"
  define f1 where "f1 = f\<lparr>pf_D := fc_xchacha20 fcA ?w K (pf_N f), pf_Z := aligned_Zero 64\<rparr>"
  have m: "encode_in MAX_PROTOCOL_MESSAGE_SIZE (ProtocolMessage_BEncode msg) = Inr (Some ?w)"
    using encode_in_emits [OF ProtocolMessage_emits [OF assms(2)]] assms(3) by (simp add: MAX_PROTOCOL_MESSAGE_SIZE_def)
  have s1: "ProtocolFrame_sizes f1" using assms(1,3,5) by (simp add: f1_def ProtocolFrame_sizes_def aligned_Zero_def)
  obtain z where z: "fc_sign fcA (ProtocolFrame_wire f1) = Some z" "length z = 64"
    "fc_verify fcB (si_signkey svc) (ProtocolFrame_wire f1) z"
    using assms(6) by blast
  have "EncryptAndSign fcA msg K f = Inr (True, f1\<lparr>pf_Z := z\<rparr>)"
    using encode_frame [OF s1] z(1) assms(3,5) by (simp add: EncryptAndSign_def m encrypted_assign_def f1_def)
  moreover have "ProtocolFrame_Verify fcB (f1\<lparr>pf_Z := z\<rparr>) svc = Inr True"
    using Verify_wire [of "f1\<lparr>pf_Z := z\<rparr>" fcB svc] s1 z(2,3) by (simp add: ProtocolFrame_sizes_def f1_def)
  moreover have "DecryptPayloadInto fcB tail K (f1\<lparr>pf_Z := z\<rparr>) ProtocolMessage_init = Inr (True, msg)"
    by (rule DecryptPayload_wire [OF assms(2)]) (simp add: f1_def assms(4))
  ultimately show ?thesis by blast
qed

definition demo_sender :: ServiceInfo where
  "demo_sender = ServiceInfo_init\<lparr>si_CachedAddr := aligned_Zero 32\<rparr>"

definition demo_crypto :: frame_crypto where
  "demo_crypto = \<lparr>fc_xchacha20 = (\<lambda>bs k n. map NOT bs), fc_sign = (\<lambda>_. Some (replicate 64 7)),
     fc_verify = (\<lambda>k bs z. z = replicate 64 7), fc_hash = (\<lambda>_. aligned_Zero 32), fc_shorthash = (\<lambda>_. aligned_Zero 32),
     fc_pqe_decrypt = (\<lambda>_. None), fc_dh_server = (\<lambda>_ _. None)\<rparr>"

definition demo_message :: ProtocolMessage where
  "demo_message = (ProtocolMessage_of (replicate 16 5))\<lparr>pm_payload := [1, 2, 3], pm_sender := demo_sender\<rparr>"

lemma demo_message_valid: "ProtocolMessage_valid (fc_hash demo_crypto) demo_message"
  by (simp add: ProtocolMessage_valid_def demo_message_def ProtocolMessage_of_def demo_sender_def ServiceInfo_valid_def
      ServiceInfo_sizes_def ServiceInfo_init_def Introduction_valid_def Introduction_init_def aligned_Zero_def demo_crypto_def)

lemma ProtocolMessage_wire_le:
  assumes "ProtocolMessage_valid hash m" and "length (pm_payload m) < 10000"
  shows "length (dict_wire (ProtocolMessage_entries m)) \<le> 600 + length (pm_payload m)"
proof -
  have v: "length (pm_tag m) = 16" "Introduction_valid (pm_introReply m)" "ServiceInfo_sizes (pm_sender m)"
    using assms(1) by (simp_all add: ProtocolMessage_valid_def ServiceInfo_valid_def)
  have "length (wire_string (pm_tag m)) \<le> 21" using wire_string_le [of "pm_tag m"] v(1) by simp
  then show ?thesis
    using Introduction_wire_le [OF v(2)] ServiceInfo_wire_fits [OF v(3)] wire_string_le [OF assms(2)]
      wire_int_le [of "pm_proto m"] wire_int_le [of "pm_seqno m"] wire_int_le [of "pm_version m"]
    by (simp add: ProtocolMessage_entries_def length_dict_wire)
qed

lemma demo_message_fits: "length (dict_wire (ProtocolMessage_entries demo_message)) \<le> 2048"
  using ProtocolMessage_wire_le [OF demo_message_valid] by (simp add: demo_message_def)

lemma ProtocolFrame_init_sizes: "ProtocolFrame_sizes ProtocolFrame_init"
  by (simp add: ProtocolFrame_sizes_def ProtocolFrame_init_def ProtocolFrame_Clear_def aligned_Zero_def)

theorem frame_carries_message_witness:
  "\<exists>f'. EncryptAndSign demo_crypto demo_message (replicate 32 3) ProtocolFrame_init = Inr (True, f') \<and>
    ProtocolFrame_Verify demo_crypto f' demo_sender = Inr True \<and>
    DecryptPayloadInto demo_crypto [0] (replicate 32 3) f' ProtocolMessage_init = Inr (True, demo_message)"
  by (rule frame_carries_message [OF ProtocolFrame_init_sizes demo_message_valid demo_message_fits])
    (simp_all add: demo_crypto_def comp_def)

text \<open>
  C38: A message of more than 2048 bytes is lost without an error: \<^verbatim>\<open>EncryptAndSign\<close> accepts up to 4096 bytes, but the assignment
  to the payload \<^verbatim>\<open>D\<close> of the frame does nothing, and the frame is signed with the payload it had before.
\<close>

theorem oversized_message_is_dropped:
  assumes "ProtocolFrame_sizes f" and "ProtocolMessage_valid hash msg"
    and "2048 < length (dict_wire (ProtocolMessage_entries msg))" and "length (dict_wire (ProtocolMessage_entries msg)) < 4096"
    and "\<And>bs. length (fc_xchacha20 fc bs K (pf_N f)) = length bs" and "\<And>bs. fc_sign fc bs \<noteq> None"
  shows "\<exists>f'. EncryptAndSign fc msg K f = Inr (True, f') \<and> pf_D f' = pf_D f"
proof -
  have m: "encode_in MAX_PROTOCOL_MESSAGE_SIZE (ProtocolMessage_BEncode msg) = Inr (Some (dict_wire (ProtocolMessage_entries msg)))"
    using encode_in_emits [OF ProtocolMessage_emits [OF assms(2)]] assms(4) by (simp add: MAX_PROTOCOL_MESSAGE_SIZE_def)
  have "ProtocolFrame_sizes (f\<lparr>pf_Z := aligned_Zero 64\<rparr>)" using assms(1) by (simp add: ProtocolFrame_sizes_def aligned_Zero_def)
  moreover obtain z where "fc_sign fc (ProtocolFrame_wire (f\<lparr>pf_Z := aligned_Zero 64\<rparr>)) = Some z" using assms(6) by fastforce
  ultimately show ?thesis
    using assms(3,5) encode_frame [of "f\<lparr>pf_Z := aligned_Zero 64\<rparr>"] by (simp add: EncryptAndSign_def m encrypted_assign_def)
qed

theorem oversized_message_is_dropped_witness:
  "\<exists>f'. EncryptAndSign demo_crypto (demo_message\<lparr>pm_payload := replicate 2100 9\<rparr>) (replicate 32 3)
      (ProtocolFrame_init\<lparr>pf_D := [4]\<rparr>) = Inr (True, f') \<and> pf_D f' = pf_D (ProtocolFrame_init\<lparr>pf_D := [4]\<rparr>)"
proof -
  let ?m = "demo_message\<lparr>pm_payload := replicate 2100 9\<rparr>"
  have v: "ProtocolMessage_valid (fc_hash demo_crypto) ?m" using demo_message_valid by (simp add: ProtocolMessage_valid_def)
  have "length (dict_wire (ProtocolMessage_entries ?m)) < 4096" using ProtocolMessage_wire_le [OF v] by simp
  moreover have "2048 < length (dict_wire (ProtocolMessage_entries ?m))"
    by (simp add: ProtocolMessage_entries_def length_dict_wire length_wire_string)
  moreover have "ProtocolFrame_sizes (ProtocolFrame_init\<lparr>pf_D := [4]\<rparr>)" using ProtocolFrame_init_sizes by (simp add: ProtocolFrame_sizes_def)
  ultimately show ?thesis using v by (intro oversized_message_is_dropped) (simp_all add: demo_crypto_def)
qed

lemma session_ops_queues:
  "ep_RecvQueue (snd (HandleDataMessage now p src msg e)) = ep_RecvQueue e"
  "ep_InboundTrafficQueue (snd (HandleDataMessage now p src msg e)) =
     (if pm_proto msg = 1 \<or> pm_proto msg = 2 then ep_InboundTrafficQueue e @ [msg] else ep_InboundTrafficQueue e)"
  "ep_RecvQueue (PutCachedSessionKeyFor now t k e) = ep_RecvQueue e"
  "ep_InboundTrafficQueue (PutCachedSessionKeyFor now t k e) = ep_InboundTrafficQueue e"
  "ep_RecvQueue (PutSenderFor now t si b e) = ep_RecvQueue e" "ep_InboundTrafficQueue (PutSenderFor now t si b e) = ep_InboundTrafficQueue e"
  "ep_RecvQueue (PutReplyIntroFor now t i e) = ep_RecvQueue e" "ep_InboundTrafficQueue (PutReplyIntroFor now t i e) = ep_InboundTrafficQueue e"
  "ep_RecvQueue (PutIntroFor now t i e) = ep_RecvQueue e" "ep_InboundTrafficQueue (PutIntroFor now t i e) = ep_InboundTrafficQueue e"
  by (simp_all add: HandleDataMessage_def ProcessDataMessage_def session_ops change_session_def add_session_def Let_def)

lemma Work_sessions:
  assumes "AsyncFrameDecrypt_Work fc now tail p f e = Inr e'"
  shows "map_of (ep_Sessions e) t = Some s \<Longrightarrow> map_of (ep_Sessions e') t = Some s"
    and "map_of (ep_Sessions e) t = None \<Longrightarrow> map_of (ep_Sessions e') t = Some s \<Longrightarrow> ProtocolFrame_Verify fc f (ses_remote s) = Inr True"
    and "ep_RecvQueue e' = ep_RecvQueue e"
    and "ep_InboundTrafficQueue e' \<noteq> ep_InboundTrafficQueue e \<Longrightarrow> \<exists>msg. map_of (ep_Sessions e) (pm_tag msg) = None \<and>
      ProtocolFrame_Verify fc f (pm_sender msg) = Inr True \<and> ep_InboundTrafficQueue e' = ep_InboundTrafficQueue e @ [msg]"
proof -
  have w: "e' = e \<or> (\<exists>msg key. map_of (ep_Sessions e) (pm_tag msg) = None \<and> ProtocolFrame_Verify fc f (pm_sender msg) = Inr True \<and>
      e' = snd (HandleDataMessage now p (pf_F f) msg (PutCachedSessionKeyFor now (pm_tag msg) key
        (PutSenderFor now (pm_tag msg) (pm_sender msg) True (PutReplyIntroFor now (pm_tag msg) (rp_intro p)
          (PutIntroFor now (pm_tag msg) (pm_introReply msg) e))))))"
    using assms
    by (auto simp: AsyncFrameDecrypt_Work_def HasConvoTag_def Let_def bind_res_eq_Inr_iff split: option.splits if_splits)
  then show "map_of (ep_Sessions e) t = Some s \<Longrightarrow> map_of (ep_Sessions e') t = Some s"
    "map_of (ep_Sessions e) t = None \<Longrightarrow> map_of (ep_Sessions e') t = Some s \<Longrightarrow> ProtocolFrame_Verify fc f (ses_remote s) = Inr True"
    by (auto simp: HandleDataMessage_sessions session_ops split: if_splits)
  from w show "ep_RecvQueue e' = ep_RecvQueue e" by (auto simp: session_ops_queues)
  from w show "\<exists>msg. map_of (ep_Sessions e) (pm_tag msg) = None \<and>
      ProtocolFrame_Verify fc f (pm_sender msg) = Inr True \<and> ep_InboundTrafficQueue e' = ep_InboundTrafficQueue e @ [msg]"
    if "ep_InboundTrafficQueue e' \<noteq> ep_InboundTrafficQueue e"
    using that by (elim disjE exE conjE) (auto simp: session_ops_queues split: if_splits)
qed

text \<open>
  C12: Handling a frame changes no conversation without a valid signature: every session is kept as it was, except that the
  one named by the frame may be removed when the frame is signed by its remote; and a new session belongs to a service
  that signed the frame. A message is queued for a conversation only when the frame names a session, is signed by the remote of it and
  decrypts to the message with its key; and traffic is queued at once only for a message that starts a conversation and whose sender signed
  the frame. In both cases the message is put behind what is queued already.
\<close>

theorem frames_change_only_signed_conversations:
  assumes "HandleHiddenServiceFrame fc now tail p f e = Inr (ok, e')"
  shows "(\<forall>t s. map_of (ep_Sessions e) t = Some s \<longrightarrow> map_of (ep_Sessions e') t \<noteq> Some s \<longrightarrow>
      t = pf_T f \<and> map_of (ep_Sessions e') t = None \<and> ProtocolFrame_Verify fc f (ses_remote s) = Inr True) \<and>
    (\<forall>t s. map_of (ep_Sessions e) t = None \<longrightarrow> map_of (ep_Sessions e') t = Some s \<longrightarrow>
      ProtocolFrame_Verify fc f (ses_remote s) = Inr True) \<and>
    (ep_RecvQueue e' \<noteq> ep_RecvQueue e \<longrightarrow>
      (\<exists>s msg. map_of (ep_Sessions e) (pf_T f) = Some s \<and> ProtocolFrame_Verify fc f (ses_remote s) = Inr True \<and>
        DecryptPayloadInto fc tail (ses_sharedKey s) f ProtocolMessage_init = Inr (True, msg) \<and>
        ep_RecvQueue e' = ep_RecvQueue e @ [(p, pf_F f, msg)])) \<and>
    (ep_InboundTrafficQueue e' \<noteq> ep_InboundTrafficQueue e \<longrightarrow>
      (\<exists>msg. map_of (ep_Sessions e) (pm_tag msg) = None \<and> ProtocolFrame_Verify fc f (pm_sender msg) = Inr True \<and>
        ep_InboundTrafficQueue e' = ep_InboundTrafficQueue e @ [msg]))"
proof (cases "pf_R f \<noteq> 0")
  case True
  with assms show ?thesis
    by (auto simp: HandleHiddenServiceFrame_def GetSenderFor_def split: option.splits if_splits
        elim!: bind_res_eq_Inr_iff [THEN iffD1, elim_format])
next
  case False
  with assms obtain ok1 e1 where a: "AsyncDecryptAndVerify fc now tail p f e = Inr (ok1, e1)" and e1: "ep_Sessions e' = ep_Sessions e1"
      "ep_RecvQueue e' = ep_RecvQueue e1" "ep_InboundTrafficQueue e' = ep_InboundTrafficQueue e1"
    by (auto simp: HandleHiddenServiceFrame_def Let_def bind_res_eq_Inr_iff split: if_splits)
  show ?thesis
  proof (cases "aligned_IsZero (pf_T f)")
    case True
    with a have "AsyncFrameDecrypt_Work fc now tail p f e = Inr e1" by (simp add: AsyncDecryptAndVerify_def bind_res_eq_Inr_iff)
    from Work_sessions [OF this] show ?thesis unfolding e1 by fastforce
  next
    case False
    with a have "e1 = e \<or> (\<exists>s msg. map_of (ep_Sessions e) (pf_T f) = Some s \<and> ProtocolFrame_Verify fc f (ses_remote s) = Inr True \<and>
        DecryptPayloadInto fc tail (ses_sharedKey s) f ProtocolMessage_init = Inr (True, msg) \<and> e1 = QueueRecvData p (pf_F f) msg e)"
      by (auto simp: AsyncDecryptAndVerify_def GetCachedSessionKeyFor_def GetSenderFor_def bind_res_eq_Inr_iff split: option.splits if_splits)
    then show ?thesis unfolding e1 by (auto simp: QueueRecvData_def)
  qed
qed

definition demo_endpoint :: endpoint where
  "demo_endpoint = \<lparr>ep_Sessions =
     [(replicate 16 4, Session_init\<lparr>ses_remote := demo_sender\<rparr>),
      (replicate 16 5, Session_init\<lparr>ses_remote := demo_sender\<lparr>si_signkey := replicate 32 8\<rparr>\<rparr>)],
     ep_RecvQueue = [], ep_InboundTrafficQueue = [], ep_SendQueue = []\<rparr>"

definition demo_path :: recv_path where
  "demo_path = \<lparr>rp_intro = Introduction_init, rp_Endpoint = replicate 32 2, rp_ExpireTime = 900\<rparr>"

definition demo_frame :: ProtocolFrame where
  "demo_frame = ProtocolFrame_init\<lparr>pf_T := replicate 16 4, pf_F := replicate 16 6, pf_Z := replicate 64 7,
     pf_D := map NOT (dict_wire (ProtocolMessage_entries demo_message))\<rparr>"

lemma demo_frame_sizes: "ProtocolFrame_sizes demo_frame"
  using demo_message_fits ProtocolFrame_init_sizes by (simp add: ProtocolFrame_sizes_def demo_frame_def)

lemma demo_frame_verified: "ProtocolFrame_Verify demo_crypto demo_frame svc = Inr True"
  using Verify_wire [OF demo_frame_sizes] by (simp add: demo_crypto_def demo_frame_def)

theorem frames_change_only_signed_conversations_witness:
  "\<exists>e'. HandleHiddenServiceFrame demo_crypto 3 [] demo_path (demo_frame\<lparr>pf_R := 1\<rparr>) demo_endpoint = Inr (True, e') \<and>
    map_of (ep_Sessions e') (replicate 16 5) = map_of (ep_Sessions demo_endpoint) (replicate 16 5)"
proof -
  let ?f = "demo_frame\<lparr>pf_R := 1\<rparr>"
  have "ProtocolFrame_sizes ?f" using demo_frame_sizes by (simp add: ProtocolFrame_sizes_def)
  from Verify_wire [OF this] have "ProtocolFrame_Verify demo_crypto ?f svc = Inr True" for svc
    by (simp add: demo_crypto_def demo_frame_def)
  then have h: "HandleHiddenServiceFrame demo_crypto 3 [] demo_path ?f demo_endpoint =
      Inr (True, RemoveConvoTag (replicate 16 4) demo_endpoint)"
    by (simp add: HandleHiddenServiceFrame_def GetSenderFor_def demo_endpoint_def demo_frame_def)
  have "replicate 16 5 \<noteq> pf_T ?f" by (simp add: demo_frame_def)
  moreover obtain s where "map_of (ep_Sessions demo_endpoint) (replicate 16 5) = Some s" by (simp add: demo_endpoint_def)
  ultimately show ?thesis using frames_change_only_signed_conversations [OF h] h by metis
qed

text \<open>
  C39: A frame is checked against the remote of the conversation it names, but the message inside may name another
  conversation: when it is handled, the replies of that other conversation are redirected to the path of the sender.
\<close>

theorem inner_tag_is_not_checked:
  assumes "\<not> aligned_IsZero (pf_T f)" and "pf_R f = 0" and "map_of (ep_Sessions e) (pf_T f) = Some s"
    and "ProtocolFrame_Verify fc f (ses_remote s) = Inr True"
    and "DecryptPayloadInto fc tail (ses_sharedKey s) f ProtocolMessage_init = Inr (True, msg)"
    and "pm_tag msg \<noteq> pf_T f" and "map_of (ep_Sessions e) (pm_tag msg) = Some victim" and "ep_RecvQueue e = []"
  shows "\<exists>e' i. HandleHiddenServiceFrame fc now tail p f e = Inr (True, e') \<and>
    GetIntroFor (pm_tag msg) (FlushRecvData now e') = Some i \<and> intro_pathID i = pf_F f \<and> intro_router i = rp_Endpoint p \<and>
    GetSenderFor (pm_tag msg) (FlushRecvData now e') = Some (ses_remote victim)"
proof -
  have "HandleHiddenServiceFrame fc now tail p f e = Inr (True, QueueRecvData p (pf_F f) msg e)"
    using assms(1-5)
    by (simp add: HandleHiddenServiceFrame_def AsyncDecryptAndVerify_def GetCachedSessionKeyFor_def GetSenderFor_def)
  moreover have "FlushRecvData now (QueueRecvData p (pf_F f) msg e) = snd (HandleDataMessage now p (pf_F f) msg (e\<lparr>ep_RecvQueue := []\<rparr>))"
    using assms(8) by (simp add: FlushRecvData_def QueueRecvData_def)
  ultimately show ?thesis
    using assms(7) by (auto simp: GetIntroFor_def GetSenderFor_def HandleDataMessage_sessions Let_def)
qed

theorem inner_tag_is_not_checked_witness:
  "\<exists>e' i. HandleHiddenServiceFrame demo_crypto 3 [] demo_path demo_frame demo_endpoint = Inr (True, e') \<and>
    GetIntroFor (pm_tag demo_message) (FlushRecvData 3 e') = Some i \<and> intro_pathID i = pf_F demo_frame \<and>
    intro_router i = rp_Endpoint demo_path \<and>
    GetSenderFor (pm_tag demo_message) (FlushRecvData 3 e') = Some (demo_sender\<lparr>si_signkey := replicate 32 8\<rparr>)"
proof -
  have d: "DecryptPayloadInto demo_crypto [] K demo_frame ProtocolMessage_init = Inr (True, demo_message)" for K
    by (rule DecryptPayload_wire [OF demo_message_valid]) (simp add: demo_crypto_def demo_frame_def comp_def)
  have "\<not> aligned_IsZero (pf_T demo_frame)" "pf_R demo_frame = 0" "pm_tag demo_message \<noteq> pf_T demo_frame"
    by (simp_all add: demo_frame_def aligned_IsZero_def list_all_iff demo_message_def ProtocolMessage_of_def ProtocolFrame_init_def
        ProtocolFrame_Clear_def)
  moreover have "map_of (ep_Sessions demo_endpoint) (pf_T demo_frame) = Some (Session_init\<lparr>ses_remote := demo_sender\<rparr>)"
    "map_of (ep_Sessions demo_endpoint) (pm_tag demo_message) =
      Some (Session_init\<lparr>ses_remote := demo_sender\<lparr>si_signkey := replicate 32 8\<rparr>\<rparr>)" "ep_RecvQueue demo_endpoint = []"
    by (simp_all add: demo_endpoint_def demo_frame_def demo_message_def ProtocolMessage_of_def)
  ultimately show ?thesis
    using inner_tag_is_not_checked [OF _ _ _ demo_frame_verified d] by fastforce
qed

lemma choose_max:
  fixes f :: "'a \<Rightarrow> 'b :: linorder"
  shows "x \<in> set (a # xs) \<Longrightarrow> f x \<le> f (foldl (\<lambda>m x. if f m < f x then x else m) a xs)"
proof (induction xs arbitrary: a x)
  case (Cons y ys)
  let ?a = "if f a < f y then y else a"
  let ?r = "foldl (\<lambda>m x. if f m < f x then x else m) ?a ys"
  have a: "f a \<le> f ?a" "f y \<le> f ?a" by auto
  have "f ?a \<le> f ?r" by (rule Cons.IH) simp
  with a have "f a \<le> f ?r" "f y \<le> f ?r" by (blast intro: order_trans)+
  moreover have "x \<in> set ys \<Longrightarrow> f x \<le> f ?r" by (rule Cons.IH) simp
  moreover from Cons.prems have "x = a \<or> x = y \<or> x \<in> set ys" by simp
  ultimately have "f x \<le> f ?r" by blast
  then show ?case by (simp only: foldl.simps)
qed simp

lemma queue_top_max: "x \<in> set q \<Longrightarrow> pm_seqno x \<le> pm_seqno (queue_top q)"
  using choose_max [of x "hd q" "tl q" pm_seqno] by (cases q) (simp_all add: queue_top_def ProtocolMessage_less_def)

text \<open>
  C31: The queue of received packets is emptied from the highest sequence number down, so the packets that arrived
  together are delivered in the reverse of the order they were sent in; each is delivered once.
\<close>

theorem pump_delivers_newest_first:
  "mset (Pump_loop q) = mset q \<and> sorted_wrt (\<lambda>a b. pm_seqno b \<le> pm_seqno a) (Pump_loop q)"
proof (induction q rule: Pump_loop.induct)
  case (1 q)
  show ?case
  proof (cases "q = []")
    case True
    then show ?thesis by (simp add: Pump_loop.simps)
  next
    case False
    let ?q = "remove1 (queue_top q) q"
    from 1 [OF False] have IH: "mset (Pump_loop ?q) = mset ?q" "sorted_wrt (\<lambda>a b. pm_seqno b \<le> pm_seqno a) (Pump_loop ?q)" by auto
    have "set (Pump_loop ?q) \<subseteq> set q" using IH(1) by (metis mset_eq_setD set_remove1_subset)
    then have "\<forall>b \<in> set (Pump_loop ?q). pm_seqno b \<le> pm_seqno (queue_top q)" using queue_top_max by blast
    with IH queue_top_in [OF False] show ?thesis
      using Pump_loop.simps [of q] False by simp
  qed
qed

end
