(* ===== verification/Routing_Messages.thy ===== *)
theory Routing_Messages
  imports Protocol Dht_Messages
begin

text \<open>
  The messages that travel inside a path (\<^verbatim>\<open>routing/*\<close>, \<^verbatim>\<open>exit/exit_messages.*\<close>, \<^verbatim>\<open>exit/policy.*\<close>, the routing part of
  \<^verbatim>\<open>messages/discard.hpp\<close>) and the parser that reads them (\<^verbatim>\<open>routing/message_parser.cpp\<close>). The parser owns one object
  of each type and decodes every message into the object of its type; the objects are cleared after use. Every record
  starts with the fields of \<^verbatim>\<open>routing::IMessage\<close>.
\<close>

section \<open>Path messages\<close>

record DataDiscardMessage =
  ddm_from :: aligned
  ddm_S :: u64
  ddm_version :: u64
  ddm_P :: aligned

definition DataDiscardMessage_init :: DataDiscardMessage where
  "DataDiscardMessage_init = \<lparr>ddm_from = aligned_Zero 16, ddm_S = 0, ddm_version = LLARP_PROTO_VERSION, ddm_P = aligned_Zero 16\<rparr>"

definition DataDiscardMessage_of :: "aligned \<Rightarrow> u64 \<Rightarrow> DataDiscardMessage" where
  "DataDiscardMessage_of dst s = DataDiscardMessage_init\<lparr>ddm_P := dst, ddm_S := s, ddm_version := LLARP_PROTO_VERSION\<rparr>"

definition DataDiscard_Clear :: "DataDiscardMessage \<Rightarrow> DataDiscardMessage" where
  "DataDiscard_Clear m = m\<lparr>ddm_version := 0\<rparr>"

definition DataDiscard_DecodeKey :: "llarp_buffer \<Rightarrow> (DataDiscardMessage \<times> llarp_buffer) action" where
  "DataDiscard_DecodeKey k = decode_key_with
     [BEncodeMaybeReadDictEntry (CHR ''P'') (aligned_BDecode 16) ddm_P ddm_P_update k,
      BEncodeMaybeReadDictInt (CHR ''S'') ddm_S_update k,
      BEncodeMaybeReadDictInt (CHR ''V'') ddm_version_update k]"

definition DataDiscard_BEncode :: "DataDiscardMessage \<Rightarrow> llarp_buffer action" where
  "DataDiscard_BEncode m = all_steps
     (bencode_start_dict #
      [BEncodeWriteDictMsgType (CHR ''A'') (CHR ''D''),
       BEncodeWriteDictEntry (CHR ''P'') (aligned_BEncode (ddm_P m)),
       BEncodeWriteDictInt (CHR ''S'') (ddm_S m),
       BEncodeWriteDictInt (CHR ''V'') (ddm_version m)] @ [bencode_end])"

record PathLatencyMessage =
  plm_from :: aligned
  plm_S :: u64
  plm_version :: u64
  plm_T :: u64
  plm_L :: u64

definition PathLatencyMessage_init :: PathLatencyMessage where
  "PathLatencyMessage_init = \<lparr>plm_from = aligned_Zero 16, plm_S = 0, plm_version = LLARP_PROTO_VERSION, plm_T = 0, plm_L = 0\<rparr>"

definition PathLatency_Clear :: "PathLatencyMessage \<Rightarrow> PathLatencyMessage" where
  "PathLatency_Clear m = m\<lparr>plm_T := 0, plm_L := 0, plm_version := 0\<rparr>"

definition PathLatency_DecodeKey :: "llarp_buffer \<Rightarrow> (PathLatencyMessage \<times> llarp_buffer) action" where
  "PathLatency_DecodeKey key = decode_key_with
     [BEncodeMaybeReadDictInt (CHR ''L'') plm_L_update key,
      BEncodeMaybeReadDictInt (CHR ''S'') plm_S_update key,
      BEncodeMaybeReadDictInt (CHR ''T'') plm_T_update key]"

definition PathLatency_BEncode :: "PathLatencyMessage \<Rightarrow> llarp_buffer action" where
  "PathLatency_BEncode m = all_steps
     (bencode_start_dict #
      [BEncodeWriteDictMsgType (CHR ''A'') (CHR ''L''),
       only_if (plm_L m \<noteq> 0) (BEncodeWriteDictInt (CHR ''L'') (plm_L m)),
       only_if (plm_T m \<noteq> 0) (BEncodeWriteDictInt (CHR ''T'') (plm_T m)),
       BEncodeWriteDictInt (CHR ''S'') (plm_S m)] @ [bencode_end])"

record PathConfirmMessage =
  pcm_from :: aligned
  pcm_S :: u64
  pcm_version :: u64
  pcm_pathLifetime :: u64
  pcm_pathCreated :: u64

definition PathConfirmMessage_init :: PathConfirmMessage where
  "PathConfirmMessage_init = \<lparr>pcm_from = aligned_Zero 16, pcm_S = 0, pcm_version = LLARP_PROTO_VERSION, pcm_pathLifetime = 0,
     pcm_pathCreated = 0\<rparr>"

definition PathConfirmMessage_of :: "llarp_time \<Rightarrow> u64 \<Rightarrow> PathConfirmMessage" where
  "PathConfirmMessage_of now lifetime = PathConfirmMessage_init\<lparr>pcm_pathLifetime := lifetime, pcm_pathCreated := now\<rparr>"

definition PathConfirm_Clear :: "PathConfirmMessage \<Rightarrow> PathConfirmMessage" where
  "PathConfirm_Clear m = m\<lparr>pcm_pathLifetime := 0, pcm_pathCreated := 0, pcm_version := 0\<rparr>"

definition PathConfirm_DecodeKey :: "llarp_buffer \<Rightarrow> (PathConfirmMessage \<times> llarp_buffer) action" where
  "PathConfirm_DecodeKey key = decode_key_with
     [BEncodeMaybeReadDictInt (CHR ''L'') pcm_pathLifetime_update key,
      BEncodeMaybeReadDictInt (CHR ''S'') pcm_S_update key,
      BEncodeMaybeReadDictInt (CHR ''T'') pcm_pathCreated_update key,
      BEncodeMaybeReadDictInt (CHR ''V'') pcm_version_update key]"

definition PathConfirm_BEncode :: "PathConfirmMessage \<Rightarrow> llarp_buffer action" where
  "PathConfirm_BEncode m = all_steps
     (bencode_start_dict #
      [BEncodeWriteDictMsgType (CHR ''A'') (CHR ''P''),
       BEncodeWriteDictInt (CHR ''L'') (pcm_pathLifetime m),
       BEncodeWriteDictInt (CHR ''S'') (pcm_S m),
       BEncodeWriteDictInt (CHR ''T'') (pcm_pathCreated m),
       BEncodeWriteDictInt (CHR ''V'') (pcm_version m)] @ [bencode_end])"

record PathTransferMessage =
  ptm_from :: aligned
  ptm_S :: u64
  ptm_version :: u64
  ptm_P :: aligned
  ptm_T :: ProtocolFrame
  ptm_Y :: aligned

definition PathTransferMessage_init :: PathTransferMessage where
  "PathTransferMessage_init = \<lparr>ptm_from = aligned_Zero 16, ptm_S = 0, ptm_version = LLARP_PROTO_VERSION, ptm_P = aligned_Zero 16,
     ptm_T = ProtocolFrame_init, ptm_Y = aligned_Zero 32\<rparr>"

definition PathTransfer_Clear :: "PathTransferMessage \<Rightarrow> PathTransferMessage" where
  "PathTransfer_Clear m = m\<lparr>ptm_P := aligned_Zero 16, ptm_T := ProtocolFrame_Clear (ptm_T m), ptm_Y := aligned_Zero 32,
     ptm_version := 0\<rparr>"

definition PathTransfer_DecodeKey :: "llarp_buffer \<Rightarrow> (PathTransferMessage \<times> llarp_buffer) action" where
  "PathTransfer_DecodeKey key = decode_key_with
     [BEncodeMaybeReadDictEntry (CHR ''P'') (aligned_BDecode 16) ptm_P ptm_P_update key,
      BEncodeMaybeReadDictInt (CHR ''S'') ptm_S_update key,
      BEncodeMaybeReadDictEntry (CHR ''T'') ProtocolFrame_BDecode ptm_T ptm_T_update key,
      BEncodeMaybeReadDictInt (CHR ''V'') ptm_version_update key,
      BEncodeMaybeReadDictEntry (CHR ''Y'') (aligned_BDecode 32) ptm_Y ptm_Y_update key]"

definition PathTransfer_BEncode :: "PathTransferMessage \<Rightarrow> llarp_buffer action" where
  "PathTransfer_BEncode m = all_steps
     (bencode_start_dict #
      [BEncodeWriteDictMsgType (CHR ''A'') (CHR ''T''),
       BEncodeWriteDictEntry (CHR ''P'') (aligned_BEncode (ptm_P m)),
       BEncodeWriteDictInt (CHR ''S'') (ptm_S m),
       BEncodeWriteDictEntry (CHR ''T'') (ProtocolFrame_BEncode (ptm_T m)),
       BEncodeWriteDictInt (CHR ''V'') LLARP_PROTO_VERSION,
       BEncodeWriteDictEntry (CHR ''Y'') (aligned_BEncode (ptm_Y m))] @ [bencode_end])"

definition MaxExitMTU :: nat where
  "MaxExitMTU = 1500"

definition ExitOverhead :: nat where
  "ExitOverhead = 8"

record TransferTrafficMessage =
  ttm_from :: aligned
  ttm_S :: u64
  ttm_version :: u64
  ttm_X :: "byte list list"
  ttm_size :: nat

definition TransferTrafficMessage_init :: TransferTrafficMessage where
  "TransferTrafficMessage_init = \<lparr>ttm_from = aligned_Zero 16, ttm_S = 0, ttm_version = LLARP_PROTO_VERSION, ttm_X = [], ttm_size = 0\<rparr>"

definition TransferTraffic_Clear :: "TransferTrafficMessage \<Rightarrow> TransferTrafficMessage" where
  "TransferTraffic_Clear m = m\<lparr>ttm_X := [], ttm_size := 0, ttm_version := 0\<rparr>"

definition PutBuffer :: "byte list \<Rightarrow> u64 \<Rightarrow> TransferTrafficMessage \<Rightarrow> bool \<times> TransferTrafficMessage" where
  "PutBuffer buf counter m =
     (if length buf > MaxExitMTU then (False, m)
      else (True, m\<lparr>ttm_X := ttm_X m @ [htobe64buf counter @ buf], ttm_size := ttm_size m + length buf + 16\<rparr>))"

definition TransferTraffic_DecodeKey :: "llarp_buffer \<Rightarrow> (TransferTrafficMessage \<times> llarp_buffer) action" where
  "TransferTraffic_DecodeKey key = decode_key_with
     [BEncodeMaybeReadDictInt (CHR ''S'') ttm_S_update key,
      BEncodeMaybeReadDictInt (CHR ''V'') ttm_version_update key,
      MaybeReadDictList (CHR ''X'') [] (encrypted_BDecode (MaxExitMTU + ExitOverhead)) ttm_X_update ttm_X key]"

definition TransferTraffic_BEncode :: "TransferTrafficMessage \<Rightarrow> llarp_buffer action" where
  "TransferTraffic_BEncode m = all_steps
     (bencode_start_dict #
      [BEncodeWriteDictMsgType (CHR ''A'') (CHR ''I''),
       BEncodeWriteDictInt (CHR ''S'') (ttm_S m),
       BEncodeWriteDictInt (CHR ''V'') (ttm_version m),
       BEncodeWriteDictList (CHR ''X'') encrypted_BEncode (ttm_X m)] @ [bencode_end])"

section \<open>Exit messages\<close>

record exit_Policy =
  pol_proto :: u64
  pol_port :: u64
  pol_drop :: u64
  pol_version :: u64

definition Policy_init :: exit_Policy where
  "Policy_init = \<lparr>pol_proto = 0, pol_port = 0, pol_drop = 0, pol_version = LLARP_PROTO_VERSION\<rparr>"

definition Policy_DecodeKey :: "llarp_buffer \<Rightarrow> (exit_Policy \<times> llarp_buffer) action" where
  "Policy_DecodeKey k = decode_key_with
     [BEncodeMaybeReadDictInt (CHR ''a'') pol_proto_update k,
      BEncodeMaybeReadDictInt (CHR ''b'') pol_port_update k,
      BEncodeMaybeReadDictInt (CHR ''d'') pol_drop_update k,
      BEncodeMaybeReadDictInt (CHR ''v'') pol_version_update k]"

definition Policy_BDecode :: "(exit_Policy \<times> llarp_buffer) action" where
  "Policy_BDecode = decode_dict Policy_DecodeKey"

definition Policy_BEncode :: "exit_Policy \<Rightarrow> llarp_buffer action" where
  "Policy_BEncode p = all_steps
     (bencode_start_dict #
      [BEncodeWriteDictInt (CHR ''a'') (pol_proto p),
       BEncodeWriteDictInt (CHR ''b'') (pol_port p),
       BEncodeWriteDictInt (CHR ''d'') (pol_drop p),
       BEncodeWriteDictInt (CHR ''v'') (pol_version p)] @ [bencode_end])"

text \<open>
  \<^verbatim>\<open>Sign\<close> and \<^verbatim>\<open>Verify\<close> of a message on the bytes of its encoding in an array of \<open>n\<close> bytes; \<open>sign\<close> and \<open>verify\<close> stand for the
  signature scheme with the keys given.
\<close>

definition sign_encoding :: "nat \<Rightarrow> (byte list \<Rightarrow> aligned option) \<Rightarrow> llarp_buffer action \<Rightarrow> aligned option res" where
  "sign_encoding n sign BEncode = bind_res (encode_in n BEncode) (\<lambda>r. Inr (case r of None \<Rightarrow> None | Some bs \<Rightarrow> sign bs))"

definition verify_encoding :: "nat \<Rightarrow> (byte list \<Rightarrow> aligned \<Rightarrow> bool) \<Rightarrow> llarp_buffer action \<Rightarrow> aligned \<Rightarrow> bool res" where
  "verify_encoding n verify BEncode z =
     bind_res (encode_in n BEncode) (\<lambda>r. Inr (case r of None \<Rightarrow> False | Some bs \<Rightarrow> verify bs z))"

record ObtainExitMessage =
  oem_from :: aligned
  oem_S :: u64
  oem_version :: u64
  oem_B :: "exit_Policy list"
  oem_E :: u64
  oem_I :: aligned
  oem_T :: u64
  oem_W :: "exit_Policy list"
  oem_X :: u64
  oem_Z :: aligned

definition ObtainExitMessage_init :: ObtainExitMessage where
  "ObtainExitMessage_init = \<lparr>oem_from = aligned_Zero 16, oem_S = 0, oem_version = LLARP_PROTO_VERSION, oem_B = [], oem_E = 0,
     oem_I = aligned_Zero 32, oem_T = 0, oem_W = [], oem_X = 0, oem_Z = aligned_Zero 64\<rparr>"

definition ObtainExit_Clear :: "ObtainExitMessage \<Rightarrow> ObtainExitMessage" where
  "ObtainExit_Clear m = m\<lparr>oem_B := [], oem_E := 0, oem_I := aligned_Zero 32, oem_T := 0, oem_W := [], oem_X := 0,
     oem_Z := aligned_Zero 64\<rparr>"

definition ObtainExit_BEncode :: "ObtainExitMessage \<Rightarrow> llarp_buffer action" where
  "ObtainExit_BEncode m = all_steps
     (bencode_start_dict #
      [BEncodeWriteDictMsgType (CHR ''A'') (CHR ''O''),
       BEncodeWriteDictArray (CHR ''B'') Policy_BEncode (oem_B m),
       BEncodeWriteDictInt (CHR ''E'') (oem_E m),
       BEncodeWriteDictEntry (CHR ''I'') (aligned_BEncode (oem_I m)),
       BEncodeWriteDictInt (CHR ''S'') (oem_S m),
       BEncodeWriteDictInt (CHR ''T'') (oem_T m),
       BEncodeWriteDictInt (CHR ''V'') (oem_version m),
       BEncodeWriteDictArray (CHR ''W'') Policy_BEncode (oem_W m),
       BEncodeWriteDictInt (CHR ''X'') (oem_X m),
       BEncodeWriteDictEntry (CHR ''Z'') (aligned_BEncode (oem_Z m))] @ [bencode_end])"

definition ObtainExit_DecodeKey :: "llarp_buffer \<Rightarrow> (ObtainExitMessage \<times> llarp_buffer) action" where
  "ObtainExit_DecodeKey k = decode_key_with
     [MaybeReadDictList (CHR ''B'') Policy_init Policy_BDecode oem_B_update oem_B k,
      BEncodeMaybeReadDictInt (CHR ''E'') oem_E_update k,
      BEncodeMaybeReadDictEntry (CHR ''I'') (aligned_BDecode 32) oem_I oem_I_update k,
      BEncodeMaybeReadDictInt (CHR ''S'') oem_S_update k,
      BEncodeMaybeReadDictInt (CHR ''T'') oem_T_update k,
      BEncodeMaybeReadDictInt (CHR ''V'') oem_version_update k,
      MaybeReadDictList (CHR ''W'') Policy_init Policy_BDecode oem_W_update oem_W k,
      BEncodeMaybeReadDictInt (CHR ''X'') oem_X_update k,
      BEncodeMaybeReadDictEntry (CHR ''Z'') (aligned_BDecode 64) oem_Z oem_Z_update k]"

text \<open>\<open>pk\<close> is the public key of the secret key that \<open>sign\<close> uses.\<close>

definition ObtainExit_Sign :: "aligned \<Rightarrow> (byte list \<Rightarrow> aligned option) \<Rightarrow> ObtainExitMessage action" where
  "ObtainExit_Sign pk sign m =
     (let m = m\<lparr>oem_I := pk, oem_Z := aligned_Zero 64\<rparr> in
      bind_res (sign_encoding 1024 sign (ObtainExit_BEncode m)) (\<lambda>r.
        case r of None \<Rightarrow> Inr (False, m) | Some z \<Rightarrow> Inr (True, m\<lparr>oem_Z := z\<rparr>)))"

definition ObtainExit_Verify :: "(aligned \<Rightarrow> byte list \<Rightarrow> aligned \<Rightarrow> bool) \<Rightarrow> ObtainExitMessage \<Rightarrow> bool res" where
  "ObtainExit_Verify verify m =
     verify_encoding 1024 (verify (oem_I m)) (ObtainExit_BEncode (m\<lparr>oem_Z := aligned_Zero 64\<rparr>)) (oem_Z m)"

record GrantExitMessage =
  gem_from :: aligned
  gem_S :: u64
  gem_version :: u64
  gem_T :: u64
  gem_Y :: aligned
  gem_Z :: aligned

definition GrantExitMessage_init :: GrantExitMessage where
  "GrantExitMessage_init = \<lparr>gem_from = aligned_Zero 16, gem_S = 0, gem_version = LLARP_PROTO_VERSION, gem_T = 0,
     gem_Y = aligned_Zero 16, gem_Z = aligned_Zero 64\<rparr>"

definition GrantExit_Clear :: "GrantExitMessage \<Rightarrow> GrantExitMessage" where
  "GrantExit_Clear m = m\<lparr>gem_T := 0, gem_Y := aligned_Zero 16, gem_Z := aligned_Zero 64\<rparr>"

definition GrantExit_BEncode :: "GrantExitMessage \<Rightarrow> llarp_buffer action" where
  "GrantExit_BEncode m = all_steps
     (bencode_start_dict #
      [BEncodeWriteDictMsgType (CHR ''A'') (CHR ''G''),
       BEncodeWriteDictInt (CHR ''S'') (gem_S m),
       BEncodeWriteDictInt (CHR ''T'') (gem_T m),
       BEncodeWriteDictInt (CHR ''V'') (gem_version m),
       BEncodeWriteDictEntry (CHR ''Y'') (aligned_BEncode (gem_Y m)),
       BEncodeWriteDictEntry (CHR ''Z'') (aligned_BEncode (gem_Z m))] @ [bencode_end])"

definition GrantExit_DecodeKey :: "llarp_buffer \<Rightarrow> (GrantExitMessage \<times> llarp_buffer) action" where
  "GrantExit_DecodeKey k = decode_key_with
     [BEncodeMaybeReadDictInt (CHR ''S'') gem_S_update k,
      BEncodeMaybeReadDictInt (CHR ''T'') gem_T_update k,
      BEncodeMaybeReadDictInt (CHR ''V'') gem_version_update k,
      BEncodeMaybeReadDictEntry (CHR ''Y'') (aligned_BDecode 16) gem_Y gem_Y_update k,
      BEncodeMaybeReadDictEntry (CHR ''Z'') (aligned_BDecode 64) gem_Z gem_Z_update k]"

text \<open>\<open>nonce\<close> is the outcome of \<^verbatim>\<open>Y.Randomize()\<close>.\<close>

definition GrantExit_Sign :: "aligned \<Rightarrow> (byte list \<Rightarrow> aligned option) \<Rightarrow> GrantExitMessage action" where
  "GrantExit_Sign nonce sign m =
     (let m = m\<lparr>gem_Z := aligned_Zero 64, gem_Y := nonce\<rparr> in
      bind_res (sign_encoding 512 sign (GrantExit_BEncode m)) (\<lambda>r.
        case r of None \<Rightarrow> Inr (False, m) | Some z \<Rightarrow> Inr (True, m\<lparr>gem_Z := z\<rparr>)))"

definition GrantExit_Verify :: "(byte list \<Rightarrow> aligned \<Rightarrow> bool) \<Rightarrow> GrantExitMessage \<Rightarrow> bool res" where
  "GrantExit_Verify verify m = verify_encoding 512 verify (GrantExit_BEncode (m\<lparr>gem_Z := aligned_Zero 64\<rparr>)) (gem_Z m)"

record RejectExitMessage =
  rem_from :: aligned
  rem_S :: u64
  rem_version :: u64
  rem_B :: u64
  rem_R :: "exit_Policy list"
  rem_T :: u64
  rem_Y :: aligned
  rem_Z :: aligned

definition RejectExitMessage_init :: RejectExitMessage where
  "RejectExitMessage_init = \<lparr>rem_from = aligned_Zero 16, rem_S = 0, rem_version = LLARP_PROTO_VERSION, rem_B = 0, rem_R = [],
     rem_T = 0, rem_Y = aligned_Zero 16, rem_Z = aligned_Zero 64\<rparr>"

definition RejectExit_Clear :: "RejectExitMessage \<Rightarrow> RejectExitMessage" where
  "RejectExit_Clear m = m\<lparr>rem_B := 0, rem_R := [], rem_T := 0, rem_Y := aligned_Zero 16, rem_Z := aligned_Zero 64\<rparr>"

definition RejectExit_BEncode :: "RejectExitMessage \<Rightarrow> llarp_buffer action" where
  "RejectExit_BEncode m = all_steps
     (bencode_start_dict #
      [BEncodeWriteDictMsgType (CHR ''A'') (CHR ''J''),
       BEncodeWriteDictInt (CHR ''B'') (rem_B m),
       BEncodeWriteDictList (CHR ''R'') Policy_BEncode (rem_R m),
       BEncodeWriteDictInt (CHR ''S'') (rem_S m),
       BEncodeWriteDictInt (CHR ''T'') (rem_T m),
       BEncodeWriteDictInt (CHR ''V'') (rem_version m),
       BEncodeWriteDictEntry (CHR ''Y'') (aligned_BEncode (rem_Y m)),
       BEncodeWriteDictEntry (CHR ''Z'') (aligned_BEncode (rem_Z m))] @ [bencode_end])"

definition RejectExit_DecodeKey :: "llarp_buffer \<Rightarrow> (RejectExitMessage \<times> llarp_buffer) action" where
  "RejectExit_DecodeKey k = decode_key_with
     [BEncodeMaybeReadDictInt (CHR ''B'') rem_B_update k,
      MaybeReadDictList (CHR ''R'') Policy_init Policy_BDecode rem_R_update rem_R k,
      BEncodeMaybeReadDictInt (CHR ''S'') rem_S_update k,
      BEncodeMaybeReadDictInt (CHR ''T'') rem_T_update k,
      BEncodeMaybeReadDictInt (CHR ''V'') rem_version_update k,
      BEncodeMaybeReadDictEntry (CHR ''Y'') (aligned_BDecode 16) rem_Y rem_Y_update k,
      BEncodeMaybeReadDictEntry (CHR ''Z'') (aligned_BDecode 64) rem_Z rem_Z_update k]"

definition RejectExit_Sign :: "aligned \<Rightarrow> (byte list \<Rightarrow> aligned option) \<Rightarrow> RejectExitMessage action" where
  "RejectExit_Sign nonce sign m =
     (let m = m\<lparr>rem_Z := aligned_Zero 64, rem_Y := nonce\<rparr> in
      bind_res (sign_encoding 512 sign (RejectExit_BEncode m)) (\<lambda>r.
        case r of None \<Rightarrow> Inr (False, m) | Some z \<Rightarrow> Inr (True, m\<lparr>rem_Z := z\<rparr>)))"

definition RejectExit_Verify :: "(byte list \<Rightarrow> aligned \<Rightarrow> bool) \<Rightarrow> RejectExitMessage \<Rightarrow> bool res" where
  "RejectExit_Verify verify m = verify_encoding 512 verify (RejectExit_BEncode (m\<lparr>rem_Z := aligned_Zero 64\<rparr>)) (rem_Z m)"

record UpdateExitMessage =
  uem_from :: aligned
  uem_S :: u64
  uem_version :: u64
  uem_P :: aligned
  uem_T :: u64
  uem_Y :: aligned
  uem_Z :: aligned

definition UpdateExitMessage_init :: UpdateExitMessage where
  "UpdateExitMessage_init = \<lparr>uem_from = aligned_Zero 16, uem_S = 0, uem_version = LLARP_PROTO_VERSION, uem_P = aligned_Zero 16,
     uem_T = 0, uem_Y = aligned_Zero 16, uem_Z = aligned_Zero 64\<rparr>"

definition UpdateExit_Clear :: "UpdateExitMessage \<Rightarrow> UpdateExitMessage" where
  "UpdateExit_Clear m = m\<lparr>uem_P := aligned_Zero 16, uem_T := 0, uem_Y := aligned_Zero 16, uem_Z := aligned_Zero 64\<rparr>"

definition UpdateExit_BEncode :: "UpdateExitMessage \<Rightarrow> llarp_buffer action" where
  "UpdateExit_BEncode m = all_steps
     (bencode_start_dict #
      [BEncodeWriteDictMsgType (CHR ''A'') (CHR ''V''),
       BEncodeWriteDictEntry (CHR ''P'') (aligned_BEncode (uem_P m)),
       BEncodeWriteDictInt (CHR ''S'') (uem_S m),
       BEncodeWriteDictInt (CHR ''T'') (uem_T m),
       BEncodeWriteDictInt (CHR ''V'') (uem_version m),
       BEncodeWriteDictEntry (CHR ''Z'') (aligned_BEncode (uem_Z m))] @ [bencode_end])"

definition UpdateExit_DecodeKey :: "llarp_buffer \<Rightarrow> (UpdateExitMessage \<times> llarp_buffer) action" where
  "UpdateExit_DecodeKey k = decode_key_with
     [BEncodeMaybeReadDictInt (CHR ''S'') uem_S_update k,
      BEncodeMaybeReadDictInt (CHR ''T'') uem_T_update k,
      BEncodeMaybeReadDictInt (CHR ''V'') uem_version_update k,
      BEncodeMaybeReadDictEntry (CHR ''P'') (aligned_BDecode 16) uem_P uem_P_update k,
      BEncodeMaybeReadDictEntry (CHR ''Z'') (aligned_BDecode 64) uem_Z uem_Z_update k]"

text \<open>Unlike the other messages, the old signature is not zeroed before signing.\<close>

definition UpdateExit_Sign :: "aligned \<Rightarrow> (byte list \<Rightarrow> aligned option) \<Rightarrow> UpdateExitMessage action" where
  "UpdateExit_Sign nonce sign m =
     (let m = m\<lparr>uem_Y := nonce\<rparr> in
      bind_res (sign_encoding 512 sign (UpdateExit_BEncode m)) (\<lambda>r.
        case r of None \<Rightarrow> Inr (False, m) | Some z \<Rightarrow> Inr (True, m\<lparr>uem_Z := z\<rparr>)))"

definition UpdateExit_Verify :: "(byte list \<Rightarrow> aligned \<Rightarrow> bool) \<Rightarrow> UpdateExitMessage \<Rightarrow> bool res" where
  "UpdateExit_Verify verify m = verify_encoding 512 verify (UpdateExit_BEncode (m\<lparr>uem_Z := aligned_Zero 64\<rparr>)) (uem_Z m)"

record UpdateExitVerifyMessage =
  uvm_from :: aligned
  uvm_S :: u64
  uvm_version :: u64
  uvm_T :: u64
  uvm_Y :: aligned
  uvm_Z :: aligned

definition UpdateExitVerify_Clear :: "UpdateExitVerifyMessage \<Rightarrow> UpdateExitVerifyMessage" where
  "UpdateExitVerify_Clear m = m\<lparr>uvm_T := 0, uvm_Y := aligned_Zero 16, uvm_Z := aligned_Zero 64\<rparr>"

definition UpdateExitVerify_BEncode :: "UpdateExitVerifyMessage \<Rightarrow> llarp_buffer action" where
  "UpdateExitVerify_BEncode m = all_steps
     (bencode_start_dict #
      [BEncodeWriteDictMsgType (CHR ''A'') (CHR ''V''),
       BEncodeWriteDictInt (CHR ''S'') (uvm_S m),
       BEncodeWriteDictInt (CHR ''T'') (uvm_T m),
       BEncodeWriteDictInt (CHR ''V'') (uvm_version m)] @ [bencode_end])"

definition UpdateExitVerify_DecodeKey :: "llarp_buffer \<Rightarrow> (UpdateExitVerifyMessage \<times> llarp_buffer) action" where
  "UpdateExitVerify_DecodeKey k = decode_key_with
     [BEncodeMaybeReadDictInt (CHR ''S'') uvm_S_update k,
      BEncodeMaybeReadDictInt (CHR ''T'') uvm_T_update k,
      BEncodeMaybeReadDictInt (CHR ''V'') uvm_version_update k]"

record CloseExitMessage =
  cem_from :: aligned
  cem_S :: u64
  cem_version :: u64
  cem_Y :: aligned
  cem_Z :: aligned

definition CloseExitMessage_init :: CloseExitMessage where
  "CloseExitMessage_init = \<lparr>cem_from = aligned_Zero 16, cem_S = 0, cem_version = LLARP_PROTO_VERSION, cem_Y = aligned_Zero 16,
     cem_Z = aligned_Zero 64\<rparr>"

definition CloseExit_Clear :: "CloseExitMessage \<Rightarrow> CloseExitMessage" where
  "CloseExit_Clear m = m\<lparr>cem_Y := aligned_Zero 16, cem_Z := aligned_Zero 64\<rparr>"

definition CloseExit_BEncode :: "CloseExitMessage \<Rightarrow> llarp_buffer action" where
  "CloseExit_BEncode m = all_steps
     (bencode_start_dict #
      [BEncodeWriteDictMsgType (CHR ''A'') (CHR ''C''),
       BEncodeWriteDictInt (CHR ''S'') (cem_S m),
       BEncodeWriteDictInt (CHR ''V'') (cem_version m),
       BEncodeWriteDictEntry (CHR ''Y'') (aligned_BEncode (cem_Y m)),
       BEncodeWriteDictEntry (CHR ''Z'') (aligned_BEncode (cem_Z m))] @ [bencode_end])"

definition CloseExit_DecodeKey :: "llarp_buffer \<Rightarrow> (CloseExitMessage \<times> llarp_buffer) action" where
  "CloseExit_DecodeKey k = decode_key_with
     [BEncodeMaybeReadDictInt (CHR ''S'') cem_S_update k,
      BEncodeMaybeReadDictInt (CHR ''V'') cem_version_update k,
      BEncodeMaybeReadDictEntry (CHR ''Y'') (aligned_BDecode 16) cem_Y cem_Y_update k,
      BEncodeMaybeReadDictEntry (CHR ''Z'') (aligned_BDecode 64) cem_Z cem_Z_update k]"

definition CloseExit_Sign :: "aligned \<Rightarrow> (byte list \<Rightarrow> aligned option) \<Rightarrow> CloseExitMessage action" where
  "CloseExit_Sign nonce sign m =
     (let m = m\<lparr>cem_Z := aligned_Zero 64, cem_Y := nonce\<rparr> in
      bind_res (sign_encoding 512 sign (CloseExit_BEncode m)) (\<lambda>r.
        case r of None \<Rightarrow> Inr (False, m) | Some z \<Rightarrow> Inr (True, m\<lparr>cem_Z := z\<rparr>)))"

definition CloseExit_Verify :: "(byte list \<Rightarrow> aligned \<Rightarrow> bool) \<Rightarrow> CloseExitMessage \<Rightarrow> bool res" where
  "CloseExit_Verify verify m = verify_encoding 512 verify (CloseExit_BEncode (m\<lparr>cem_Z := aligned_Zero 64\<rparr>)) (cem_Z m)"

section \<open>Any message\<close>

datatype routing_message =
    RD DataDiscardMessage | RL PathLatencyMessage | RM DHTMessage | RP PathConfirmMessage | RT PathTransferMessage
  | RH ProtocolFrame | RI TransferTrafficMessage | RG GrantExitMessage | RJ RejectExitMessage | RO ObtainExitMessage
  | RU UpdateExitMessage | RC CloseExitMessage

primrec routing_BEncode :: "ntop \<Rightarrow> routing_message \<Rightarrow> llarp_buffer action" where
  "routing_BEncode ntop (RD m) = DataDiscard_BEncode m"
| "routing_BEncode ntop (RL m) = PathLatency_BEncode m"
| "routing_BEncode ntop (RM m) = DHTMessage_BEncode ntop m"
| "routing_BEncode ntop (RP m) = PathConfirm_BEncode m"
| "routing_BEncode ntop (RT m) = PathTransfer_BEncode m"
| "routing_BEncode ntop (RH m) = ProtocolFrame_BEncode m"
| "routing_BEncode ntop (RI m) = TransferTraffic_BEncode m"
| "routing_BEncode ntop (RG m) = GrantExit_BEncode m"
| "routing_BEncode ntop (RJ m) = RejectExit_BEncode m"
| "routing_BEncode ntop (RO m) = ObtainExit_BEncode m"
| "routing_BEncode ntop (RU m) = UpdateExit_BEncode m"
| "routing_BEncode ntop (RC m) = CloseExit_BEncode m"

definition routing_DecodeKey ::
  "(byte list \<Rightarrow> aligned) \<Rightarrow> pton \<Rightarrow> aligned \<Rightarrow> llarp_buffer \<Rightarrow> (routing_message \<times> llarp_buffer) action" where
  "routing_DecodeKey hash pton netid key = (\<lambda>(msg, b).
     case msg of
       RD m \<Rightarrow> lift_case RD (DataDiscard_DecodeKey key (m, b))
     | RL m \<Rightarrow> lift_case RL (PathLatency_DecodeKey key (m, b))
     | RM m \<Rightarrow> lift_case RM (DHTMessage_DecodeKey hash pton netid key (m, b))
     | RP m \<Rightarrow> lift_case RP (PathConfirm_DecodeKey key (m, b))
     | RT m \<Rightarrow> lift_case RT (PathTransfer_DecodeKey key (m, b))
     | RH m \<Rightarrow> lift_case RH (ProtocolFrame_DecodeKey key (m, b))
     | RI m \<Rightarrow> lift_case RI (TransferTraffic_DecodeKey key (m, b))
     | RG m \<Rightarrow> lift_case RG (GrantExit_DecodeKey key (m, b))
     | RJ m \<Rightarrow> lift_case RJ (RejectExit_DecodeKey key (m, b))
     | RO m \<Rightarrow> lift_case RO (ObtainExit_DecodeKey key (m, b))
     | RU m \<Rightarrow> lift_case RU (UpdateExit_DecodeKey key (m, b))
     | RC m \<Rightarrow> lift_case RC (CloseExit_DecodeKey key (m, b)))"

primrec routing_Clear :: "routing_message \<Rightarrow> routing_message" where
  "routing_Clear (RD m) = RD (DataDiscard_Clear m)"
| "routing_Clear (RL m) = RL (PathLatency_Clear m)"
| "routing_Clear (RM m) = RM (DHTMessage_Clear m)"
| "routing_Clear (RP m) = RP (PathConfirm_Clear m)"
| "routing_Clear (RT m) = RT (PathTransfer_Clear m)"
| "routing_Clear (RH m) = RH (ProtocolFrame_Clear m)"
| "routing_Clear (RI m) = RI (TransferTraffic_Clear m)"
| "routing_Clear (RG m) = RG (GrantExit_Clear m)"
| "routing_Clear (RJ m) = RJ (RejectExit_Clear m)"
| "routing_Clear (RO m) = RO (ObtainExit_Clear m)"
| "routing_Clear (RU m) = RU (UpdateExit_Clear m)"
| "routing_Clear (RC m) = RC (CloseExit_Clear m)"

text \<open>The assignments \<^verbatim>\<open>msg->version = v\<close> and \<^verbatim>\<open>msg->from = f\<close>.\<close>

primrec set_version :: "u64 \<Rightarrow> routing_message \<Rightarrow> routing_message" where
  "set_version v (RD m) = RD (m\<lparr>ddm_version := v\<rparr>)"
| "set_version v (RL m) = RL (m\<lparr>plm_version := v\<rparr>)"
| "set_version v (RM m) = RM (m\<lparr>dm_version := v\<rparr>)"
| "set_version v (RP m) = RP (m\<lparr>pcm_version := v\<rparr>)"
| "set_version v (RT m) = RT (m\<lparr>ptm_version := v\<rparr>)"
| "set_version v (RH m) = RH (m\<lparr>pf_version := v\<rparr>)"
| "set_version v (RI m) = RI (m\<lparr>ttm_version := v\<rparr>)"
| "set_version v (RG m) = RG (m\<lparr>gem_version := v\<rparr>)"
| "set_version v (RJ m) = RJ (m\<lparr>rem_version := v\<rparr>)"
| "set_version v (RO m) = RO (m\<lparr>oem_version := v\<rparr>)"
| "set_version v (RU m) = RU (m\<lparr>uem_version := v\<rparr>)"
| "set_version v (RC m) = RC (m\<lparr>cem_version := v\<rparr>)"

primrec set_from :: "aligned \<Rightarrow> routing_message \<Rightarrow> routing_message" where
  "set_from f (RD m) = RD (m\<lparr>ddm_from := f\<rparr>)"
| "set_from f (RL m) = RL (m\<lparr>plm_from := f\<rparr>)"
| "set_from f (RM m) = RM (m\<lparr>dm_from := f\<rparr>)"
| "set_from f (RP m) = RP (m\<lparr>pcm_from := f\<rparr>)"
| "set_from f (RT m) = RT (m\<lparr>ptm_from := f\<rparr>)"
| "set_from f (RH m) = RH (m\<lparr>pf_from := f\<rparr>)"
| "set_from f (RI m) = RI (m\<lparr>ttm_from := f\<rparr>)"
| "set_from f (RG m) = RG (m\<lparr>gem_from := f\<rparr>)"
| "set_from f (RJ m) = RJ (m\<lparr>rem_from := f\<rparr>)"
| "set_from f (RO m) = RO (m\<lparr>oem_from := f\<rparr>)"
| "set_from f (RU m) = RU (m\<lparr>uem_from := f\<rparr>)"
| "set_from f (RC m) = RC (m\<lparr>cem_from := f\<rparr>)"

section \<open>The parser\<close>

record MessageHolder =
  mh_D :: DataDiscardMessage
  mh_L :: PathLatencyMessage
  mh_M :: DHTMessage
  mh_P :: PathConfirmMessage
  mh_T :: PathTransferMessage
  mh_H :: ProtocolFrame
  mh_I :: TransferTrafficMessage
  mh_G :: GrantExitMessage
  mh_J :: RejectExitMessage
  mh_O :: ObtainExitMessage
  mh_U :: UpdateExitMessage
  mh_C :: CloseExitMessage

definition MessageHolder_init :: MessageHolder where
  "MessageHolder_init = \<lparr>mh_D = DataDiscardMessage_init, mh_L = PathLatencyMessage_init,
     mh_M = \<lparr>dm_from = aligned_Zero 16, dm_S = 0, dm_version = LLARP_PROTO_VERSION, dm_M = [], dm_V = 0\<rparr>,
     mh_P = PathConfirmMessage_init, mh_T = PathTransferMessage_init, mh_H = ProtocolFrame_init,
     mh_I = TransferTrafficMessage_init, mh_G = GrantExitMessage_init, mh_J = RejectExitMessage_init,
     mh_O = ObtainExitMessage_init, mh_U = UpdateExitMessage_init, mh_C = CloseExitMessage_init\<rparr>"

text \<open>The \<^verbatim>\<open>switch\<close> that points \<^verbatim>\<open>msg\<close> at an object of the holder, and the object after the message was used.\<close>

definition holder_get :: "MessageHolder \<Rightarrow> byte \<Rightarrow> routing_message option" where
  "holder_get h c =
     (if c = ch CHR ''D'' then Some (RD (mh_D h)) else if c = ch CHR ''L'' then Some (RL (mh_L h))
      else if c = ch CHR ''M'' then Some (RM (mh_M h)) else if c = ch CHR ''P'' then Some (RP (mh_P h))
      else if c = ch CHR ''T'' then Some (RT (mh_T h)) else if c = ch CHR ''H'' then Some (RH (mh_H h))
      else if c = ch CHR ''I'' then Some (RI (mh_I h)) else if c = ch CHR ''G'' then Some (RG (mh_G h))
      else if c = ch CHR ''J'' then Some (RJ (mh_J h)) else if c = ch CHR ''O'' then Some (RO (mh_O h))
      else if c = ch CHR ''U'' then Some (RU (mh_U h)) else if c = ch CHR ''C'' then Some (RC (mh_C h))
      else None)"

primrec holder_put :: "routing_message \<Rightarrow> MessageHolder \<Rightarrow> MessageHolder" where
  "holder_put (RD m) h = h\<lparr>mh_D := m\<rparr>"
| "holder_put (RL m) h = h\<lparr>mh_L := m\<rparr>"
| "holder_put (RM m) h = h\<lparr>mh_M := m\<rparr>"
| "holder_put (RP m) h = h\<lparr>mh_P := m\<rparr>"
| "holder_put (RT m) h = h\<lparr>mh_T := m\<rparr>"
| "holder_put (RH m) h = h\<lparr>mh_H := m\<rparr>"
| "holder_put (RI m) h = h\<lparr>mh_I := m\<rparr>"
| "holder_put (RG m) h = h\<lparr>mh_G := m\<rparr>"
| "holder_put (RJ m) h = h\<lparr>mh_J := m\<rparr>"
| "holder_put (RO m) h = h\<lparr>mh_O := m\<rparr>"
| "holder_put (RU m) h = h\<lparr>mh_U := m\<rparr>"
| "holder_put (RC m) h = h\<lparr>mh_C := m\<rparr>"

text \<open>
  \<open>handle\<close> is the handler's method for the message, on a state of its own. The parser's \<^verbatim>\<open>version\<close> is zero between calls.
  When \<^verbatim>\<open>bencode_read_dict\<close> succeeds there is a message, because the sink refuses an empty dictionary.
\<close>

definition ParseMessageBuffer ::
  "(byte list \<Rightarrow> aligned) \<Rightarrow> pton \<Rightarrow> aligned \<Rightarrow> (routing_message \<Rightarrow> 's \<Rightarrow> bool \<times> 's) \<Rightarrow> aligned \<Rightarrow> byte list \<Rightarrow>
     MessageHolder \<times> 's \<Rightarrow> (bool \<times> MessageHolder \<times> 's) res" where
  "ParseMessageBuffer hash pton netid handle from buf = (\<lambda>(h, st).
     bind_res (BEncodeSeekDictVersion (Suc (length buf)) (ch CHR ''V'') (0, buffer_of buf)) (\<lambda>(found, (v, copy)).
       let version = (if found then v else 0) in
       bind_res (typed_decode (str ''A'') (\<lambda>c. map_option (set_version version) (holder_get h c))
           (routing_DecodeKey hash pton netid) (None, copy)) (\<lambda>(ok, (msg, _)).
         case msg of
           None \<Rightarrow> Inr (False, (h, st))
         | Some m \<Rightarrow>
             if ok then let m = set_from from m; (result, st) = handle m st in Inr (result, (holder_put (routing_Clear m) h, st))
             else Inr (False, (holder_put (routing_Clear m) h, st)))))"

section \<open>Looking for the version\<close>

text \<open>The values the version search skips: everything the writers produce.\<close>

definition is_bvalue :: "byte list \<Rightarrow> bool" where
  "is_bvalue w \<longleftrightarrow> (\<exists>v. bvalid v \<and> bwire v = w)"

named_theorems bvalue_intros \<open>texts that are bencode values\<close>

lemma is_bvalue_scalar [bvalue_intros]: "is_bvalue (wire_int i)" "length s < 10 ^ 9 \<Longrightarrow> is_bvalue (wire_string s)"
  by (auto simp: is_bvalue_def intro: exI [of _ "BInt i"] exI [of _ "BStr s"])

lemma is_bvalue_list [bvalue_intros]:
  assumes "\<And>x. x \<in> set xs \<Longrightarrow> is_bvalue (wire x)"
  shows "is_bvalue (list_wire wire xs)"
proof -
  from assms obtain f where "\<And>x. x \<in> set xs \<Longrightarrow> bvalid (f x) \<and> bwire (f x) = wire x" unfolding is_bvalue_def by metis
  then have "bvalid (BList (map f xs))" "bwire (BList (map f xs)) = list_wire wire xs"
    by (auto simp: list_wire_def intro: arg_cong [where f = concat])
  then show ?thesis unfolding is_bvalue_def by blast
qed

lemma is_bvalue_dict [bvalue_intros]:
  assumes "\<And>k w u. (k, w, u) \<in> set es \<Longrightarrow> is_bvalue w"
  shows "is_bvalue (dict_wire es)"
proof -
  have "\<forall>e \<in> set es. \<exists>v. bvalid v \<and> bwire v = fst (snd e)" using assms unfolding is_bvalue_def by auto
  then obtain f where f: "\<And>e. e \<in> set es \<Longrightarrow> bvalid (f e) \<and> bwire (f e) = fst (snd e)" by metis
  let ?d = "BDict (map (\<lambda>e. ([ch (fst e)], f e)) es)"
  have "bvalid ?d" using f by auto
  moreover have "bwire ?d = dict_wire es"
    using f by (auto simp: dict_wire_def entry_wire_def split_def comp_def intro!: arg_cong [where f = concat])
  ultimately show ?thesis unfolding is_bvalue_def by blast
qed

lemma is_bvalue_typed [bvalue_intros]:
  "(\<And>k w u. (k, w, u) \<in> set es \<Longrightarrow> is_bvalue w) \<Longrightarrow> is_bvalue (typed_wire k t es)"
  unfolding typed_wire_def by (rule is_bvalue_dict) (auto intro: bvalue_intros)

lemma discard_bvalue:
  assumes "is_bvalue w" and "wf_buf b" and "remaining b = w @ rest" and "length w \<le> n"
  shows "bencode_discard (Suc n) (u, b) = Inr (True, (u, advance (length w) b))"
  using assms discard_bwire unfolding is_bvalue_def by blast

text \<open>Entries the search can pass: the version is always the same integer.\<close>

definition seekable :: "u64 \<Rightarrow> 'm entry list \<Rightarrow> bool" where
  "seekable i es \<longleftrightarrow> list_all (\<lambda>(k, w, u). if k = CHR ''V'' then w = wire_int i else is_bvalue w) es"

lemma byte_of_char: "(of_nat (of_char c) :: byte) = ch c"
  by (cases c) (simp add: of_char_def)

lemma one_letter: "ch k = ch j \<longleftrightarrow> k = j"
proof
  assume "ch k = ch j"
  then have "(of_nat (of_char k) :: byte) = of_nat (of_char j)" by (simp only: byte_of_char)
  then have "unat (of_nat (of_char k) :: byte) = unat (of_nat (of_char j) :: byte)" by (rule arg_cong)
  then have "(of_char k :: nat) = of_char j" by (simp add: unat_of_nat_byte nat_of_char_less_256)
  then show "k = j" by simp
qed simp

lemma SeekDictVersion_dict:
  assumes s: "seekable i es"
  shows "BEncodeSeekDictVersion (Suc (length (dict_wire es))) (ch CHR ''V'') (v, buffer_of (dict_wire es)) =
    Inr (True, (if CHR ''V'' \<in> fst ` set es then i else v, buffer_of (dict_wire es)))"
proof -
  let ?n = "length (dict_wire es)" and ?b = "buffer_of (dict_wire es)"
  let ?upd = "\<lambda>e v. if fst e = CHR ''V'' then i else v"
  have fold: "fold ?upd es v = (if CHR ''V'' \<in> fst ` set es then i else v)"
    by (induction es arbitrary: v) auto
  have ew: "map entry_wire es = map (\<lambda>e. wire_string [ch (fst e)] @ fst (snd e)) es"
    by (simp add: entry_wire_def split_def)
  have w_le: "length (fst (snd e)) \<le> ?n" if "e \<in> set es" for e
    using length_concat_mem [OF that, of entry_wire] by (auto simp: dict_wire_def entry_wire_def split_def)
  have A: "bencode_read_dict (Suc ?n) (\<lambda>key (v, b).
      case key of
        None \<Rightarrow> Inr (True, (v, b))
      | Some kb \<Rightarrow> bind_res (if bsz kb = 1 then deref kb else Inr (ch CHR ''V'' + 1)) (\<lambda>c.
          if bsz kb = 1 \<and> c = ch CHR ''V'' then
            bind_res (bencode_read_integer b) (\<lambda>(r, b').
              case r of None \<Rightarrow> Inr (False, (v, b')) | Some i \<Rightarrow> Inr (True, (i, b')))
          else bind_res (bencode_discard (Suc ?n) ((), b)) (\<lambda>(ok, (_, b')). Inr (ok, (v, b'))))) (v, ?b) =
    Inr (True, (fold ?upd es v, advance (length (concat (map (\<lambda>e. wire_string [ch (fst e)] @ fst (snd e)) es)) + 2) ?b))"
    (is "bencode_read_dict _ ?sink _ = _")
  proof (rule read_dict_items_at [where rest = "[]"])
    fix ys e zs b kb rest
    assume es: "es = ys @ e # zs" and b: "wf_buf b" "wf_buf kb" "remaining kb = [ch (fst e)]" "remaining b = fst (snd e) @ rest"
      and sz: "bsz kb = length [ch (fst e)]"
    have kb: "deref kb = Inr (ch (fst e))" using b(2,3) by (intro deref_remaining [where cs = "[]"])
    have se: "if fst e = CHR ''V'' then fst (snd e) = wire_int i else is_bvalue (fst (snd e))"
      using s es by (auto simp: seekable_def split_def)
    have el: "length (fst (snd e)) \<le> ?n" using es by (intro w_le) simp
    show "?sink (Some kb) (fold ?upd ys v, b) = Inr (True, (?upd e (fold ?upd ys v), advance (length (fst (snd e))) b))"
      using se el b sz kb bencode_read_integer_wire [of b i rest] discard_bvalue [of "fst (snd e)" b rest ?n "()"]
        one_letter [of "fst e" "CHR ''V''"]
      by (cases "fst e = CHR ''V''") (simp_all del: bencode_discard.simps)
  next
    show "length es < Suc ?n" using dict_wire_length [of es] by simp
    show "remaining ?b = 100 # concat (map (\<lambda>e. wire_string [ch (fst e)] @ fst (snd e)) es) @ 101 # []"
      unfolding ew [symmetric] by (simp add: dict_wire_def)
  qed simp_all
  show ?thesis
    unfolding BEncodeSeekDictVersion_def by (simp only: prod.case A bind_res_Inr) (simp add: fold buffer_of_def advance_def)
qed

section \<open>Codecs\<close>

lemma emits_DictArray:
  assumes "\<And>x. x \<in> set xs \<Longrightarrow> emits (f x) (w x)"
  shows "emits (BEncodeWriteDictArray k f xs) (wire_string [ch k] @ list_wire w xs)"
    and "emits (BEncodeWriteDictBEncodeList k f xs) (wire_string [ch k] @ list_wire w xs)"
proof -
  have "emits (all_steps ([bencode_write_bytestring [ch k]] @ ([bencode_start_list] @ map f xs @ [bencode_end])))
      (wire_string [ch k] @ list_wire w xs)"
  proof (rule emits_all_steps_append)
    show "emits (all_steps [bencode_write_bytestring [ch k]]) (wire_string [ch k])"
      using emits_all_steps_Cons [OF emits_write_bytestring emits_all_steps_Nil] by simp
    show "emits (all_steps ([bencode_start_list] @ map f xs @ [bencode_end])) (list_wire w xs)"
      unfolding list_wire_def by (rule emits_steps_between) (auto intro: emit_intros assms)
  qed
  then show "emits (BEncodeWriteDictArray k f xs) (wire_string [ch k] @ list_wire w xs)"
    "emits (BEncodeWriteDictBEncodeList k f xs) (wire_string [ch k] @ list_wire w xs)"
    by (simp_all add: BEncodeWriteDictArray_def BEncodeWriteDictBEncodeList_def)
qed

definition DataDiscard_entries :: "DataDiscardMessage \<Rightarrow> DataDiscardMessage entry list" where
  "DataDiscard_entries m =
     [(CHR ''P'', wire_string (ddm_P m), ddm_P_update (\<lambda>_. ddm_P m)),
      (CHR ''S'', wire_int (ddm_S m), ddm_S_update (\<lambda>_. ddm_S m)),
      (CHR ''V'', wire_int (ddm_version m), ddm_version_update (\<lambda>_. ddm_version m))]"

definition PathLatency_entries :: "PathLatencyMessage \<Rightarrow> PathLatencyMessage entry list" where
  "PathLatency_entries m =
     (if plm_L m \<noteq> 0 then [(CHR ''L'', wire_int (plm_L m), plm_L_update (\<lambda>_. plm_L m))] else []) @
     (if plm_T m \<noteq> 0 then [(CHR ''T'', wire_int (plm_T m), plm_T_update (\<lambda>_. plm_T m))] else []) @
     [(CHR ''S'', wire_int (plm_S m), plm_S_update (\<lambda>_. plm_S m))]"

definition PathConfirm_entries :: "PathConfirmMessage \<Rightarrow> PathConfirmMessage entry list" where
  "PathConfirm_entries m =
     [(CHR ''L'', wire_int (pcm_pathLifetime m), pcm_pathLifetime_update (\<lambda>_. pcm_pathLifetime m)),
      (CHR ''S'', wire_int (pcm_S m), pcm_S_update (\<lambda>_. pcm_S m)),
      (CHR ''T'', wire_int (pcm_pathCreated m), pcm_pathCreated_update (\<lambda>_. pcm_pathCreated m)),
      (CHR ''V'', wire_int (pcm_version m), pcm_version_update (\<lambda>_. pcm_version m))]"

text \<open>A frame inside another message is read into the frame that is there, which keeps the fields that are not sent.\<close>

definition frame_into :: "ProtocolFrame \<Rightarrow> ProtocolFrame \<Rightarrow> ProtocolFrame" where
  "frame_into f0 f = f\<lparr>pf_S := pf_S f0, pf_from := pf_from f0\<rparr>"

definition PathTransfer_entries :: "PathTransferMessage \<Rightarrow> PathTransferMessage entry list" where
  "PathTransfer_entries m =
     [(CHR ''P'', wire_string (ptm_P m), ptm_P_update (\<lambda>_. ptm_P m)),
      (CHR ''S'', wire_int (ptm_S m), ptm_S_update (\<lambda>_. ptm_S m)),
      (CHR ''T'', ProtocolFrame_wire (ptm_T m), ptm_T_update (\<lambda>f0. frame_into f0 (ptm_T m))),
      (CHR ''V'', wire_int LLARP_PROTO_VERSION, ptm_version_update (\<lambda>_. LLARP_PROTO_VERSION)),
      (CHR ''Y'', wire_string (ptm_Y m), ptm_Y_update (\<lambda>_. ptm_Y m))]"

definition TransferTraffic_entries :: "TransferTrafficMessage \<Rightarrow> TransferTrafficMessage entry list" where
  "TransferTraffic_entries m =
     [(CHR ''S'', wire_int (ttm_S m), ttm_S_update (\<lambda>_. ttm_S m)),
      (CHR ''V'', wire_int (ttm_version m), ttm_version_update (\<lambda>_. ttm_version m)),
      (CHR ''X'', list_wire wire_string (ttm_X m), ttm_X_update (\<lambda>xs. xs @ ttm_X m))]"

definition Policy_entries :: "exit_Policy \<Rightarrow> exit_Policy entry list" where
  "Policy_entries p =
     [(CHR ''a'', wire_int (pol_proto p), pol_proto_update (\<lambda>_. pol_proto p)),
      (CHR ''b'', wire_int (pol_port p), pol_port_update (\<lambda>_. pol_port p)),
      (CHR ''d'', wire_int (pol_drop p), pol_drop_update (\<lambda>_. pol_drop p)),
      (CHR ''v'', wire_int (pol_version p), pol_version_update (\<lambda>_. pol_version p))]"

abbreviation policies_wire :: "exit_Policy list \<Rightarrow> byte list" where
  "policies_wire ps \<equiv> list_wire (\<lambda>p. dict_wire (Policy_entries p)) ps"

definition ObtainExit_entries :: "ObtainExitMessage \<Rightarrow> ObtainExitMessage entry list" where
  "ObtainExit_entries m =
     [(CHR ''B'', policies_wire (oem_B m), oem_B_update (\<lambda>xs. xs @ oem_B m)),
      (CHR ''E'', wire_int (oem_E m), oem_E_update (\<lambda>_. oem_E m)),
      (CHR ''I'', wire_string (oem_I m), oem_I_update (\<lambda>_. oem_I m)),
      (CHR ''S'', wire_int (oem_S m), oem_S_update (\<lambda>_. oem_S m)),
      (CHR ''T'', wire_int (oem_T m), oem_T_update (\<lambda>_. oem_T m)),
      (CHR ''V'', wire_int (oem_version m), oem_version_update (\<lambda>_. oem_version m)),
      (CHR ''W'', policies_wire (oem_W m), oem_W_update (\<lambda>xs. xs @ oem_W m)),
      (CHR ''X'', wire_int (oem_X m), oem_X_update (\<lambda>_. oem_X m)),
      (CHR ''Z'', wire_string (oem_Z m), oem_Z_update (\<lambda>_. oem_Z m))]"

definition GrantExit_entries :: "GrantExitMessage \<Rightarrow> GrantExitMessage entry list" where
  "GrantExit_entries m =
     [(CHR ''S'', wire_int (gem_S m), gem_S_update (\<lambda>_. gem_S m)),
      (CHR ''T'', wire_int (gem_T m), gem_T_update (\<lambda>_. gem_T m)),
      (CHR ''V'', wire_int (gem_version m), gem_version_update (\<lambda>_. gem_version m)),
      (CHR ''Y'', wire_string (gem_Y m), gem_Y_update (\<lambda>_. gem_Y m)),
      (CHR ''Z'', wire_string (gem_Z m), gem_Z_update (\<lambda>_. gem_Z m))]"

definition RejectExit_entries :: "RejectExitMessage \<Rightarrow> RejectExitMessage entry list" where
  "RejectExit_entries m =
     [(CHR ''B'', wire_int (rem_B m), rem_B_update (\<lambda>_. rem_B m)),
      (CHR ''R'', policies_wire (rem_R m), rem_R_update (\<lambda>xs. xs @ rem_R m)),
      (CHR ''S'', wire_int (rem_S m), rem_S_update (\<lambda>_. rem_S m)),
      (CHR ''T'', wire_int (rem_T m), rem_T_update (\<lambda>_. rem_T m)),
      (CHR ''V'', wire_int (rem_version m), rem_version_update (\<lambda>_. rem_version m)),
      (CHR ''Y'', wire_string (rem_Y m), rem_Y_update (\<lambda>_. rem_Y m)),
      (CHR ''Z'', wire_string (rem_Z m), rem_Z_update (\<lambda>_. rem_Z m))]"

definition UpdateExit_entries :: "UpdateExitMessage \<Rightarrow> UpdateExitMessage entry list" where
  "UpdateExit_entries m =
     [(CHR ''P'', wire_string (uem_P m), uem_P_update (\<lambda>_. uem_P m)),
      (CHR ''S'', wire_int (uem_S m), uem_S_update (\<lambda>_. uem_S m)),
      (CHR ''T'', wire_int (uem_T m), uem_T_update (\<lambda>_. uem_T m)),
      (CHR ''V'', wire_int (uem_version m), uem_version_update (\<lambda>_. uem_version m)),
      (CHR ''Z'', wire_string (uem_Z m), uem_Z_update (\<lambda>_. uem_Z m))]"

definition CloseExit_entries :: "CloseExitMessage \<Rightarrow> CloseExitMessage entry list" where
  "CloseExit_entries m =
     [(CHR ''S'', wire_int (cem_S m), cem_S_update (\<lambda>_. cem_S m)),
      (CHR ''V'', wire_int (cem_version m), cem_version_update (\<lambda>_. cem_version m)),
      (CHR ''Y'', wire_string (cem_Y m), cem_Y_update (\<lambda>_. cem_Y m)),
      (CHR ''Z'', wire_string (cem_Z m), cem_Z_update (\<lambda>_. cem_Z m))]"

definition DHTMessage_entries :: "ntop \<Rightarrow> DHTMessage \<Rightarrow> DHTMessage entry list" where
  "DHTMessage_entries ntop m =
     [(CHR ''M'', list_wire (dht_wire ntop) (dm_M m), dm_M_update (\<lambda>xs. xs @ map (dht_received (aligned_Zero 32) True) (dm_M m))),
      (CHR ''S'', wire_int (dm_S m), dm_S_update (\<lambda>_. dm_S m)),
      (CHR ''V'', wire_int LLARP_PROTO_VERSION, dm_V_update (\<lambda>_. LLARP_PROTO_VERSION))]"

lemmas routing_entries_defs = DataDiscard_entries_def PathLatency_entries_def PathConfirm_entries_def PathTransfer_entries_def
  TransferTraffic_entries_def ObtainExit_entries_def GrantExit_entries_def RejectExit_entries_def UpdateExit_entries_def
  CloseExit_entries_def DHTMessage_entries_def

interpretation policy: bencode_codec Policy_BEncode Policy_BDecode "\<lambda>p. dict_wire (Policy_entries p)" "\<lambda>p. True" Policy_init
proof
  fix p b rest assume "wf_buf b" "remaining b = dict_wire (Policy_entries p) @ rest"
  moreover have "decodes Policy_DecodeKey e" if "e \<in> set (Policy_entries p)" for e
    using that unfolding Policy_entries_def by (auto intro!: decodesI simp: Policy_DecodeKey_def key_simps)
  moreover have "apply_entries (Policy_entries p) Policy_init = p" by (simp add: Policy_entries_def)
  ultimately show "Policy_BDecode (Policy_init, b) = Inr (True, (p, advance (length (dict_wire (Policy_entries p))) b))"
    unfolding Policy_BDecode_def by (metis decode_dict_entries)
next
  fix p show "emits (Policy_BEncode p) (dict_wire (Policy_entries p))"
    unfolding Policy_BEncode_def
    by (rule emits_dict, rule emit_intros, (rule emit_intros)+) (simp add: Policy_entries_def)
qed (rule dict_wire_head)

lemma policies_hit [key_simps]:
  "wf_buf b \<Longrightarrow> remaining b = policies_wire ps @ rest \<Longrightarrow>
   read_list_field Policy_init Policy_BDecode (ys, b) = Inr (True, (ys @ ps, advance (length (policies_wire ps)) b))"
  by (rule policy.list_field_decode) simp_all

lemma packets_hit [key_simps]:
  "(\<And>x. x \<in> set xs \<Longrightarrow> length x \<le> n) \<Longrightarrow> n < 10 ^ 9 \<Longrightarrow> wf_buf b \<Longrightarrow> remaining b = list_wire wire_string xs @ rest \<Longrightarrow>
   read_list_field [] (encrypted_BDecode n) (ys, b) = Inr (True, (ys @ xs, advance (length (list_wire wire_string xs)) b))"
  by (rule encrypted.list_field_decode) auto

lemma frame_hit:
  assumes "ProtocolFrame_sizes f" and "pf_version f = LLARP_PROTO_VERSION" and "ProtocolFrame_Clear f0 = f0"
    and "wf_buf b" and "remaining b = ProtocolFrame_wire f @ rest"
  shows "ProtocolFrame_BDecode (f0, b) = Inr (True, (frame_into f0 f, advance (length (ProtocolFrame_wire f)) b))"
proof -
  let ?es = "(CHR ''A'', wire_string [ch CHR ''H''], \<lambda>f. f) # ProtocolFrame_entries f"
  have d: "decodes ProtocolFrame_DecodeKey e" if "e \<in> set ?es" for e
  proof (cases "e \<in> set (ProtocolFrame_entries f)")
    case False
    with that have "e = (CHR ''A'', wire_string [ch CHR ''H''], \<lambda>f. f)" by simp
    then show ?thesis by (auto intro!: decodesI simp: ProtocolFrame_DecodeKey_def key_simps)
  qed (rule ProtocolFrame_decodes [OF assms(1,2)])
  have "pf_C f0 = aligned_Zero 1048" "pf_D f0 = []" "pf_F f0 = aligned_Zero 16" "pf_T f0 = aligned_Zero 16"
    "pf_N f0 = aligned_Zero 32" "pf_Z f0 = aligned_Zero 64" "pf_R f0 = 0"
    by (subst assms(3) [symmetric], simp add: ProtocolFrame_Clear_def)+
  then have "apply_entries ?es f0 = frame_into f0 f"
    using assms(1) by (auto simp: ProtocolFrame_entries_def frame_into_def ProtocolFrame_sizes_def aligned_IsZero_iff)
  then show ?thesis
    using decode_dict_entries [of ?es ProtocolFrame_DecodeKey b rest f0, OF d assms(4)] assms(5)
    by (simp add: ProtocolFrame_BDecode_def ProtocolFrame_wire_def typed_wire_def)
qed

lemma dht_list_hit [key_simps]:
  "(\<And>x. x \<in> set xs \<Longrightarrow> dht_valid hash ntop pton x) \<Longrightarrow> wf_buf b \<Longrightarrow> remaining b = list_wire (dht_wire ntop) xs @ rest \<Longrightarrow>
   DecodeMesssageList hash pton netid src relayed (ys, b) =
     Inr (True, (ys @ map (dht_received src relayed) xs, advance (length (list_wire (dht_wire ntop) xs)) b))"
  by (rule DecodeMesssageList_wire)

text \<open>The messages that can be sent: field sizes, and the version that frames are checked for.\<close>

primrec routing_valid :: "(byte list \<Rightarrow> aligned) \<Rightarrow> ntop \<Rightarrow> pton \<Rightarrow> routing_message \<Rightarrow> bool" where
  "routing_valid hash ntop pton (RD m) \<longleftrightarrow> length (ddm_P m) = 16"
| "routing_valid hash ntop pton (RL m) \<longleftrightarrow> True"
| "routing_valid hash ntop pton (RM m) \<longleftrightarrow> list_all (dht_valid hash ntop pton) (dm_M m)"
| "routing_valid hash ntop pton (RP m) \<longleftrightarrow> True"
| "routing_valid hash ntop pton (RT m) \<longleftrightarrow> length (ptm_P m) = 16 \<and> length (ptm_Y m) = 32 \<and> ProtocolFrame_sizes (ptm_T m) \<and>
     pf_version (ptm_T m) = LLARP_PROTO_VERSION"
| "routing_valid hash ntop pton (RH m) \<longleftrightarrow> ProtocolFrame_sizes m \<and> pf_version m = LLARP_PROTO_VERSION"
| "routing_valid hash ntop pton (RI m) \<longleftrightarrow> list_all (\<lambda>x. length x \<le> MaxExitMTU + ExitOverhead) (ttm_X m)"
| "routing_valid hash ntop pton (RG m) \<longleftrightarrow> length (gem_Y m) = 16 \<and> length (gem_Z m) = 64"
| "routing_valid hash ntop pton (RJ m) \<longleftrightarrow> length (rem_Y m) = 16 \<and> length (rem_Z m) = 64"
| "routing_valid hash ntop pton (RO m) \<longleftrightarrow> length (oem_I m) = 32 \<and> length (oem_Z m) = 64"
| "routing_valid hash ntop pton (RU m) \<longleftrightarrow> length (uem_P m) = 16 \<and> length (uem_Z m) = 64"
| "routing_valid hash ntop pton (RC m) \<longleftrightarrow> length (cem_Y m) = 16 \<and> length (cem_Z m) = 64"

text \<open>The type letter the encoder writes, and the letter the parser expects for the object.\<close>

primrec written_type :: "routing_message \<Rightarrow> char" where
  "written_type (RD m) = CHR ''D''" | "written_type (RL m) = CHR ''L''" | "written_type (RM m) = CHR ''M''"
| "written_type (RP m) = CHR ''P''" | "written_type (RT m) = CHR ''T''" | "written_type (RH m) = CHR ''H''"
| "written_type (RI m) = CHR ''I''" | "written_type (RG m) = CHR ''G''" | "written_type (RJ m) = CHR ''J''"
| "written_type (RO m) = CHR ''O''" | "written_type (RU m) = CHR ''V''" | "written_type (RC m) = CHR ''C''"

primrec routing_entries :: "ntop \<Rightarrow> routing_message \<Rightarrow> routing_message entry list" where
  "routing_entries ntop (RD m) = lift_entries RD (\<lambda>x. case x of RD m \<Rightarrow> m) (DataDiscard_entries m)"
| "routing_entries ntop (RL m) = lift_entries RL (\<lambda>x. case x of RL m \<Rightarrow> m) (PathLatency_entries m)"
| "routing_entries ntop (RM m) = lift_entries RM (\<lambda>x. case x of RM m \<Rightarrow> m) (DHTMessage_entries ntop m)"
| "routing_entries ntop (RP m) = lift_entries RP (\<lambda>x. case x of RP m \<Rightarrow> m) (PathConfirm_entries m)"
| "routing_entries ntop (RT m) = lift_entries RT (\<lambda>x. case x of RT m \<Rightarrow> m) (PathTransfer_entries m)"
| "routing_entries ntop (RH m) = lift_entries RH (\<lambda>x. case x of RH m \<Rightarrow> m) (ProtocolFrame_entries m)"
| "routing_entries ntop (RI m) = lift_entries RI (\<lambda>x. case x of RI m \<Rightarrow> m) (TransferTraffic_entries m)"
| "routing_entries ntop (RG m) = lift_entries RG (\<lambda>x. case x of RG m \<Rightarrow> m) (GrantExit_entries m)"
| "routing_entries ntop (RJ m) = lift_entries RJ (\<lambda>x. case x of RJ m \<Rightarrow> m) (RejectExit_entries m)"
| "routing_entries ntop (RO m) = lift_entries RO (\<lambda>x. case x of RO m \<Rightarrow> m) (ObtainExit_entries m)"
| "routing_entries ntop (RU m) = lift_entries RU (\<lambda>x. case x of RU m \<Rightarrow> m) (UpdateExit_entries m)"
| "routing_entries ntop (RC m) = lift_entries RC (\<lambda>x. case x of RC m \<Rightarrow> m) (CloseExit_entries m)"

definition routing_wire :: "ntop \<Rightarrow> routing_message \<Rightarrow> byte list" where
  "routing_wire ntop m = typed_wire (CHR ''A'') (written_type m) (routing_entries ntop m)"

lemma routing_emits:
  assumes "routing_valid hash ntop pton m"
  shows "emits (routing_BEncode ntop m) (routing_wire ntop m)"
proof (cases m)
  case (RD x)
  show ?thesis unfolding routing_wire_def RD routing_BEncode.simps DataDiscard_BEncode_def routing_entries.simps lift_entries_wire
    by (rule emits_typed, rule emit_intros, (rule emit_intros)+) (simp add: DataDiscard_entries_def)
next
  case (RL x)
  show ?thesis unfolding routing_wire_def RL routing_BEncode.simps PathLatency_BEncode_def routing_entries.simps lift_entries_wire
    by (rule emits_typed, rule emit_intros, (rule emit_intros)+) (simp add: PathLatency_entries_def)
next
  case (RM x)
  have M: "emits (BEncodeWriteDictBEncodeList (CHR ''M'') (dht_BEncode ntop) (dm_M x))
      (wire_string [ch CHR ''M''] @ list_wire (dht_wire ntop) (dm_M x))"
    using assms RM by (intro emits_DictArray(2)) (auto simp: list_all_iff intro: dht_emits)
  show ?thesis unfolding routing_wire_def RM routing_BEncode.simps DHTMessage_BEncode_def routing_entries.simps lift_entries_wire
    by (rule emits_typed, rule emit_intros, (rule M emit_intros)+) (simp add: DHTMessage_entries_def)
next
  case (RP x)
  show ?thesis unfolding routing_wire_def RP routing_BEncode.simps PathConfirm_BEncode_def routing_entries.simps lift_entries_wire
    by (rule emits_typed, rule emit_intros, (rule emit_intros)+) (simp add: PathConfirm_entries_def)
next
  case (RT x)
  show ?thesis unfolding routing_wire_def RT routing_BEncode.simps PathTransfer_BEncode_def routing_entries.simps lift_entries_wire
    by (rule emits_typed, rule emit_intros, (rule ProtocolFrame_emits emit_intros)+) (simp add: PathTransfer_entries_def)
next
  case (RH x)
  show ?thesis using ProtocolFrame_emits [of x] by (simp add: routing_wire_def RH ProtocolFrame_wire_def)
next
  case (RI x)
  have X: "emits (BEncodeWriteList encrypted_BEncode (ttm_X x)) (list_wire wire_string (ttm_X x))"
    using assms RI by (intro encrypted.list_field_emits [where bufsz = "MaxExitMTU + ExitOverhead"])
      (simp add: list_all_iff MaxExitMTU_def ExitOverhead_def)
  show ?thesis unfolding routing_wire_def RI routing_BEncode.simps TransferTraffic_BEncode_def routing_entries.simps lift_entries_wire
    by (rule emits_typed, rule emit_intros, (rule X emit_intros)+) (simp add: TransferTraffic_entries_def)
next
  case (RG x)
  show ?thesis unfolding routing_wire_def RG routing_BEncode.simps GrantExit_BEncode_def routing_entries.simps lift_entries_wire
    by (rule emits_typed, rule emit_intros, (rule emit_intros)+) (simp add: GrantExit_entries_def)
next
  case (RJ x)
  show ?thesis unfolding routing_wire_def RJ routing_BEncode.simps RejectExit_BEncode_def routing_entries.simps lift_entries_wire
    by (rule emits_typed, rule emit_intros, (rule policy.list_field_emits emit_intros TrueI)+) (simp add: RejectExit_entries_def)
next
  case (RO x)
  show ?thesis unfolding routing_wire_def RO routing_BEncode.simps ObtainExit_BEncode_def routing_entries.simps lift_entries_wire
    by (rule emits_typed, rule emit_intros, (rule emits_DictArray(1) policy.encode_emits emit_intros TrueI)+)
      (simp add: ObtainExit_entries_def)
next
  case (RU x)
  show ?thesis unfolding routing_wire_def RU routing_BEncode.simps UpdateExit_BEncode_def routing_entries.simps lift_entries_wire
    by (rule emits_typed, rule emit_intros, (rule emit_intros)+) (simp add: UpdateExit_entries_def)
next
  case (RC x)
  show ?thesis unfolding routing_wire_def RC routing_BEncode.simps CloseExit_BEncode_def routing_entries.simps lift_entries_wire
    by (rule emits_typed, rule emit_intros, (rule emit_intros)+) (simp add: CloseExit_entries_def)
qed

subsection \<open>Every message passes the search for its version\<close>

definition bvalue_entries :: "'m entry list \<Rightarrow> bool" where
  "bvalue_entries es \<longleftrightarrow> list_all (\<lambda>(k, w, u). is_bvalue w) es"

lemma bvalue_entries_simps [simp]:
  "bvalue_entries []" "bvalue_entries ((k, w, u) # es) \<longleftrightarrow> is_bvalue w \<and> bvalue_entries es"
  "bvalue_entries (es @ fs) \<longleftrightarrow> bvalue_entries es \<and> bvalue_entries fs" "bvalue_entries (lift_entries C proj es) = bvalue_entries es"
  by (simp_all add: bvalue_entries_def lift_entries_def list.pred_map comp_def split_def)

lemma is_bvalue_simps [simp]:
  "is_bvalue (wire_int i)" "bvalue_entries es \<Longrightarrow> is_bvalue (dict_wire es)" "bvalue_entries es \<Longrightarrow> is_bvalue (typed_wire k t es)"
  by (auto intro!: bvalue_intros simp: bvalue_entries_def list_all_iff)

lemma is_bvalue_short: "length s \<le> 10000 \<Longrightarrow> is_bvalue (wire_string s)"
  by (rule bvalue_intros) simp

lemma Introduction_bvalue: "Introduction_valid i \<Longrightarrow> bvalue_entries (Introduction_entries i)"
  by (simp add: Introduction_valid_def Introduction_entries_def is_bvalue_short)

lemma ServiceInfo_bvalue: "ServiceInfo_valid hash i \<Longrightarrow> bvalue_entries (ServiceInfo_entries i)"
  by (simp add: ServiceInfo_valid_def ServiceInfo_sizes_def ServiceInfo_entries_def is_bvalue_short)

lemma IntroSet_bvalue: "IntroSet_valid hash i \<Longrightarrow> bvalue_entries (IntroSet_entries i)"
  by (auto simp: IntroSet_valid_def IntroSet_entries_def is_bvalue_short Introduction_bvalue ServiceInfo_bvalue
      intro!: is_bvalue_list split: option.split)

lemma ntop_bvalue: "inet_ok ntop pton \<Longrightarrow> length a = 16 \<Longrightarrow> is_bvalue (wire_string (the (ntop a)))"
  by (erule (1) inet_okE) (simp add: is_bvalue_short)

lemma RouterContact_bvalue:
  assumes "inet_ok ntop pton" and "RouterContact_valid r"
  shows "bvalue_entries (RouterContact_entries ntop r)"
proof -
  have "bvalue_entries (AddressInfo_entries ntop a)" if "a \<in> set (rc_addrs r)" for a
    using that assms by (fastforce simp: RouterContact_valid_def AddressInfo_valid_def AddressInfo_entries_def ntop_bvalue intro!: is_bvalue_short)
  moreover have "bvalue_entries (ExitInfo_entries ntop x)" if "x \<in> set (rc_exits r)" for x
    using that assms by (fastforce simp: RouterContact_valid_def ExitInfo_valid_def ExitInfo_entries_def ntop_bvalue intro!: is_bvalue_short)
  moreover have "length (c_string (rc_netID r)) \<le> 10000" "length (RouterContact_Nick r) \<le> 10000"
    using assms(2) padded_length [of 8 "rc_netID r"] padded_length [of 32 "rc_nickname r"]
    by (simp_all add: RouterContact_valid_def RouterContact_Nick_def)
  ultimately show ?thesis
    using assms(2) by (auto simp: RouterContact_entries_def RouterContact_valid_def is_bvalue_short intro!: is_bvalue_list)
qed

lemma dht_bvalue:
  assumes "dht_valid hash ntop pton m"
  shows "is_bvalue (dht_wire ntop m)"
proof -
  have "GotIntro_valid hash x \<Longrightarrow> bvalue_entries (GotIntro_entries x)" for x
    by (auto simp: GotIntro_valid_def GotIntro_entries_def is_bvalue_short IntroSet_bvalue split: option.split intro!: is_bvalue_list)
  moreover have "GotRouter_valid ntop pton x \<Longrightarrow> bvalue_entries (GotRouter_entries ntop x)" for x
    by (auto simp: GotRouter_valid_def GotRouter_entries_def is_bvalue_short RouterContact_bvalue split: option.split intro!: is_bvalue_list)
  moreover have "PublishIntro_valid hash x \<Longrightarrow> bvalue_entries (PublishIntro_entries x)" for x
    by (auto simp: PublishIntro_valid_def PublishIntro_entries_def is_bvalue_short IntroSet_bvalue intro!: is_bvalue_list)
  ultimately show ?thesis
    using assms
    by (cases m) (simp_all add: FindIntro_valid_def FindIntro_entries_def FindRouter_entries_def is_bvalue_short)
qed

lemma frame_bvalue: "ProtocolFrame_sizes f \<Longrightarrow> bvalue_entries (ProtocolFrame_entries f)"
  by (simp add: ProtocolFrame_sizes_def ProtocolFrame_entries_def is_bvalue_short)

lemma seekable_simps [simp]:
  "seekable i []" "seekable i ((k, w, u) # es) \<longleftrightarrow> (if k = CHR ''V'' then w = wire_int i else is_bvalue w) \<and> seekable i es"
  "seekable i (es @ fs) \<longleftrightarrow> seekable i es \<and> seekable i fs" "seekable i (lift_entries C proj es) = seekable i es"
  by (simp_all add: seekable_def lift_entries_def list.pred_map comp_def split_def)

text \<open>The version an encoded message shows to the search: zero when it writes none.\<close>

primrec shown_version :: "routing_message \<Rightarrow> u64" where
  "shown_version (RD m) = ddm_version m" | "shown_version (RL m) = 0" | "shown_version (RM m) = LLARP_PROTO_VERSION"
| "shown_version (RP m) = pcm_version m" | "shown_version (RT m) = LLARP_PROTO_VERSION" | "shown_version (RH m) = pf_version m"
| "shown_version (RI m) = ttm_version m" | "shown_version (RG m) = gem_version m" | "shown_version (RJ m) = rem_version m"
| "shown_version (RO m) = oem_version m" | "shown_version (RU m) = uem_version m" | "shown_version (RC m) = cem_version m"

lemma routing_seekable:
  assumes "routing_valid hash ntop pton m"
  shows "seekable (shown_version m) (routing_entries ntop m)"
  using assms
  by (cases m) (auto simp: routing_entries_defs ProtocolFrame_entries_def ProtocolFrame_sizes_def is_bvalue_short list_all_iff
      MaxExitMTU_def ExitOverhead_def ProtocolFrame_wire_def dht_bvalue Policy_entries_def intro!: is_bvalue_list)

lemma routing_seek:
  assumes "routing_valid hash ntop pton m"
  shows "BEncodeSeekDictVersion (Suc (length (routing_wire ntop m))) (ch CHR ''V'') (0, buffer_of (routing_wire ntop m)) =
    Inr (True, (shown_version m, buffer_of (routing_wire ntop m)))"
proof -
  let ?es = "(CHR ''A'', wire_string [ch (written_type m)], \<lambda>m. m) # routing_entries ntop m"
  have "CHR ''V'' \<notin> fst ` set ?es \<Longrightarrow> shown_version m = 0"
    by (cases m) (auto simp: routing_entries_defs ProtocolFrame_entries_def lift_entries_def)
  with SeekDictVersion_dict [of "shown_version m" ?es 0] routing_seekable [OF assms] show ?thesis
    by (simp add: routing_wire_def typed_wire_def is_bvalue_short)
qed

section \<open>Reading what was written\<close>

lemma DataDiscard_decodes: "length (ddm_P m) = 16 \<Longrightarrow> e \<in> set (DataDiscard_entries m) \<Longrightarrow> decodes DataDiscard_DecodeKey e"
  by (auto intro!: decodesI simp: DataDiscard_entries_def DataDiscard_DecodeKey_def key_simps)

lemma PathLatency_decodes: "e \<in> set (PathLatency_entries m) \<Longrightarrow> decodes PathLatency_DecodeKey e"
  by (auto intro!: decodesI simp: PathLatency_entries_def PathLatency_DecodeKey_def key_simps)

lemma PathConfirm_decodes: "e \<in> set (PathConfirm_entries m) \<Longrightarrow> decodes PathConfirm_DecodeKey e"
  by (auto intro!: decodesI simp: PathConfirm_entries_def PathConfirm_DecodeKey_def key_simps)

lemma TransferTraffic_decodes:
  assumes "list_all (\<lambda>x. length x \<le> MaxExitMTU + ExitOverhead) (ttm_X m)" and "e \<in> set (TransferTraffic_entries m)"
  shows "decodes TransferTraffic_DecodeKey e"
proof -
  have l: "\<And>x. x \<in> set (ttm_X m) \<Longrightarrow> length x \<le> MaxExitMTU + ExitOverhead" using assms(1) by (simp add: list_all_iff)
  have "MaxExitMTU + ExitOverhead < 10 ^ 9" by (simp add: MaxExitMTU_def ExitOverhead_def)
  then show ?thesis using assms(2)
    by (auto intro!: decodesI simp: TransferTraffic_entries_def TransferTraffic_DecodeKey_def key_simps packets_hit [OF l])
qed

lemma ObtainExit_decodes:
  "length (oem_I m) = 32 \<Longrightarrow> length (oem_Z m) = 64 \<Longrightarrow> e \<in> set (ObtainExit_entries m) \<Longrightarrow> decodes ObtainExit_DecodeKey e"
  by (auto intro!: decodesI simp: ObtainExit_entries_def ObtainExit_DecodeKey_def key_simps)

lemma GrantExit_decodes:
  "length (gem_Y m) = 16 \<Longrightarrow> length (gem_Z m) = 64 \<Longrightarrow> e \<in> set (GrantExit_entries m) \<Longrightarrow> decodes GrantExit_DecodeKey e"
  by (auto intro!: decodesI simp: GrantExit_entries_def GrantExit_DecodeKey_def key_simps)

lemma RejectExit_decodes:
  "length (rem_Y m) = 16 \<Longrightarrow> length (rem_Z m) = 64 \<Longrightarrow> e \<in> set (RejectExit_entries m) \<Longrightarrow> decodes RejectExit_DecodeKey e"
  by (auto intro!: decodesI simp: RejectExit_entries_def RejectExit_DecodeKey_def key_simps)

lemma CloseExit_decodes:
  "length (cem_Y m) = 16 \<Longrightarrow> length (cem_Z m) = 64 \<Longrightarrow> e \<in> set (CloseExit_entries m) \<Longrightarrow> decodes CloseExit_DecodeKey e"
  by (auto intro!: decodesI simp: CloseExit_entries_def CloseExit_DecodeKey_def key_simps)

lemma DHTMessage_decodes:
  assumes "list_all (dht_valid hash ntop pton) (dm_M m)" and "e \<in> set (DHTMessage_entries ntop m)"
  shows "decodes (DHTMessage_DecodeKey hash pton netid) e"
proof -
  have l: "\<And>x. x \<in> set (dm_M m) \<Longrightarrow> dht_valid hash ntop pton x" using assms(1) by (simp add: list_all_iff)
  show ?thesis using assms(2)
    by (auto intro!: decodesI simp: DHTMessage_entries_def DHTMessage_DecodeKey_def key_simps dht_list_hit [OF l])
qed

lemma PathTransfer_decodes:
  assumes "length (ptm_P m) = 16" and "length (ptm_Y m) = 32" and "ProtocolFrame_sizes (ptm_T m)"
    and "pf_version (ptm_T m) = LLARP_PROTO_VERSION" and "ProtocolFrame_Clear (ptm_T m0) = ptm_T m0"
  shows "decodes_all PathTransfer_DecodeKey m0 (PathTransfer_entries m)"
  by (auto intro!: decodes_atI simp: PathTransfer_entries_def PathTransfer_DecodeKey_def key_simps assms(1,2)
      frame_hit [OF assms(3,4,5)])

text \<open>Between two calls the objects of the parser have no optional field, no list element and no frame left from a message.\<close>

definition holder_clear :: "MessageHolder \<Rightarrow> bool" where
  "holder_clear h \<longleftrightarrow> plm_L (mh_L h) = 0 \<and> plm_T (mh_L h) = 0 \<and> dm_M (mh_M h) = [] \<and>
     ProtocolFrame_Clear (ptm_T (mh_T h)) = ptm_T (mh_T h) \<and> ProtocolFrame_Clear (mh_H h) = mh_H h \<and>
     ttm_X (mh_I h) = [] \<and> ttm_size (mh_I h) = 0 \<and> rem_R (mh_J h) = [] \<and> oem_B (mh_O h) = [] \<and> oem_W (mh_O h) = []"

text \<open>
  What the receiver of \<open>m\<close> sees: the path the message came from, the fields of \<open>m\<close>, and for the fields that are not sent what the
  parser's object has.
\<close>

primrec routing_received :: "aligned \<Rightarrow> MessageHolder \<Rightarrow> routing_message \<Rightarrow> routing_message" where
  "routing_received src h (RD m) = RD (m\<lparr>ddm_from := src\<rparr>)"
| "routing_received src h (RL m) = RL (m\<lparr>plm_from := src, plm_version := 0\<rparr>)"
| "routing_received src h (RM m) = RM (m\<lparr>dm_from := src, dm_version := LLARP_PROTO_VERSION, dm_V := LLARP_PROTO_VERSION,
     dm_M := map (dht_received (aligned_Zero 32) True) (dm_M m)\<rparr>)"
| "routing_received src h (RP m) = RP (m\<lparr>pcm_from := src\<rparr>)"
| "routing_received src h (RT m) = RT (m\<lparr>ptm_from := src, ptm_version := LLARP_PROTO_VERSION,
     ptm_T := frame_into (ptm_T (mh_T h)) (ptm_T m)\<rparr>)"
| "routing_received src h (RH m) = RH (m\<lparr>pf_from := src, pf_S := pf_S (mh_H h)\<rparr>)"
| "routing_received src h (RI m) = RI (m\<lparr>ttm_from := src, ttm_size := 0\<rparr>)"
| "routing_received src h (RG m) = RG (m\<lparr>gem_from := src\<rparr>)"
| "routing_received src h (RJ m) = RJ (m\<lparr>rem_from := src\<rparr>)"
| "routing_received src h (RO m) = RO (m\<lparr>oem_from := src\<rparr>)"
| "routing_received src h (RU m) = RU (m\<lparr>uem_from := src\<rparr>)"
| "routing_received src h (RC m) = RC (m\<lparr>cem_from := src\<rparr>)"

text \<open>The object of the holder that a message is read into.\<close>

primrec holder_object :: "MessageHolder \<Rightarrow> routing_message \<Rightarrow> routing_message" where
  "holder_object h (RD m) = RD (mh_D h)" | "holder_object h (RL m) = RL (mh_L h)" | "holder_object h (RM m) = RM (mh_M h)"
| "holder_object h (RP m) = RP (mh_P h)" | "holder_object h (RT m) = RT (mh_T h)" | "holder_object h (RH m) = RH (mh_H h)"
| "holder_object h (RI m) = RI (mh_I h)" | "holder_object h (RG m) = RG (mh_G h)" | "holder_object h (RJ m) = RJ (mh_J h)"
| "holder_object h (RO m) = RO (mh_O h)" | "holder_object h (RU m) = RU (mh_U h)" | "holder_object h (RC m) = RC (mh_C h)"

lemma holder_get_written: "written_type m \<noteq> CHR ''V'' \<Longrightarrow> holder_get h (ch (written_type m)) = Some (holder_object h m)"
  by (cases m) (simp_all add: holder_get_def)

lemma ProtocolFrame_apply:
  assumes "ProtocolFrame_sizes f" and "ProtocolFrame_Clear f0 = f0"
  shows "apply_entries (ProtocolFrame_entries f) (f0\<lparr>pf_version := v\<rparr>) = f\<lparr>pf_S := pf_S f0, pf_from := pf_from f0\<rparr>"
proof -
  have "pf_C f0 = aligned_Zero 1048" "pf_D f0 = []" "pf_F f0 = aligned_Zero 16" "pf_T f0 = aligned_Zero 16"
    "pf_N f0 = aligned_Zero 32" "pf_Z f0 = aligned_Zero 64" "pf_R f0 = 0"
    by (subst assms(2) [symmetric], simp add: ProtocolFrame_Clear_def)+
  then show ?thesis
    using assms(1) by (auto simp: ProtocolFrame_entries_def ProtocolFrame_sizes_def aligned_IsZero_iff)
qed

lemma apply_lift_entries:
  "(\<And>m. proj (C m) = m) \<Longrightarrow> apply_entries (lift_entries C proj es) (C m) = C (apply_entries es m)"
  by (induction es arbitrary: m) (auto simp: lift_entries_def apply_entries_def)

lemma routing_decodes:
  assumes "routing_valid hash ntop pton m" and "holder_clear h" and "written_type m \<noteq> CHR ''V''"
  shows "decodes_all (routing_DecodeKey hash pton netid) (set_version v (holder_object h m)) (routing_entries ntop m)"
proof -
  note L = lift_entries_decode(1) [where D' = "routing_DecodeKey hash pton netid"]
  note A = DataDiscard_decodes PathLatency_decodes PathConfirm_decodes TransferTraffic_decodes ObtainExit_decodes GrantExit_decodes
    RejectExit_decodes CloseExit_decodes DHTMessage_decodes ProtocolFrame_decodes
  note all_fields = A [THEN decodes_all_decodes] PathTransfer_decodes
  from assms show ?thesis
    by (cases m) (auto simp: routing_DecodeKey_def holder_clear_def intro!: L all_fields)
qed

lemma routing_apply:
  assumes "routing_valid hash ntop pton m" and "holder_clear h" and "written_type m \<noteq> CHR ''V''"
  shows "set_from src (apply_entries (routing_entries ntop m) (set_version (shown_version m) (holder_object h m))) =
      routing_received src h m"
  using assms
  by (cases m) (auto simp: holder_clear_def apply_lift_entries ProtocolFrame_apply routing_entries_defs)

lemma holder_put_clear: "holder_clear h \<Longrightarrow> holder_clear (holder_put (routing_Clear m) h)"
  by (cases m) (simp_all add: holder_clear_def PathLatency_Clear_def DHTMessage_Clear_def PathTransfer_Clear_def ProtocolFrame_Clear_def
      TransferTraffic_Clear_def RejectExit_Clear_def ObtainExit_Clear_def)

lemma holder_init_clear: "holder_clear MessageHolder_init"
  by (simp add: holder_clear_def MessageHolder_init_def PathLatencyMessage_init_def PathTransferMessage_init_def ProtocolFrame_init_def
      ProtocolFrame_Clear_def TransferTrafficMessage_init_def RejectExitMessage_init_def ObtainExitMessage_init_def)

text \<open>A dictionary whose type letter is not known is refused at its first entry, and no message is made.\<close>

lemma typed_decode_unknown:
  assumes "wf_buf b" and "remaining b = typed_wire k t es @ rest" and "mk (ch t) = None"
  shows "\<exists>b'. typed_decode [ch k] mk DecodeKey (None, b) = Inr (False, (None, b'))"
proof -
  let ?ws = "concat (map entry_wire es) @ 101 # rest"
  have rem: "remaining b = 100 # wire_string [ch k] @ wire_string [ch t] @ ?ws"
    using assms(2) by (simp add: typed_wire_def dict_wire_def entry_wire_def)
  define b1 where "b1 = advance (Suc 0) b"
  have r1: "remaining b1 = wire_string [ch k] @ wire_string [ch t] @ ?ws" and w1: "wf_buf b1"
    using assms(1) rem by (auto simp: b1_def intro: wf_buf_advance)
  obtain kb where kb: "bencode_read_string b1 = Inr (Some kb, advance (length (wire_string [ch k])) b1)"
      "wf_buf kb" "remaining kb = [ch k]"
    using read_string_key [OF w1 r1] by auto
  define b2 where "b2 = advance (length (wire_string [ch k])) b1"
  have r2: "remaining b2 = wire_string [ch t] @ ?ws" and w2: "wf_buf b2"
    using w1 r1 by (auto simp: b2_def intro: wf_buf_advance)
  obtain tb where tb: "bencode_read_string b2 = Inr (Some tb, advance (length (wire_string [ch t])) b2)"
      "wf_buf tb" "remaining tb = [ch t]" "bsz tb = 1"
    using read_string_key [OF w2 r2] by auto
  have d: "deref tb = Inr (ch t)" "deref b = Inr 100"
    using tb(2,3) assms(1) rem by (auto intro: deref_remaining)
  have "key_is kb [ch k]" using kb by (simp add: key_is_def)
  then have "typed_DecodeKey [ch k] mk DecodeKey kb (None, b2) = Inr (False, (None, advance (length (wire_string [ch t])) b2))"
    using tb(1,4) d(1) assms(3) by (simp add: typed_DecodeKey_def)
  moreover obtain c cs where wx: "wire_string [ch k] = c # cs" "c \<noteq> 101"
    using hd_wire_string [of "[ch k]"] isdigit_not by blast
  moreover have "size_left b1 \<noteq> 0" "deref b1 = Inr c" and two: "\<not> size_left b < 2"
    using w1 r1 wx assms(1) rem by (auto simp: size_left_remaining intro: deref_remaining)
  moreover have "bencode_read_string b1 = Inr (Some kb, b2)" using kb(1) by (simp only: b2_def)
  ultimately have "dict_loop (Suc (size_left b)) (case_option (\<lambda>(s, b). Inr (s \<noteq> None, (s, b))) (typed_DecodeKey [ch k] mk DecodeKey))
      (None, b1) = Inr (False, (None, advance (length (wire_string [ch t])) b2))"
    by (simp add: and_then_def)
  with d(2) two show ?thesis
    by (simp add: typed_decode_def bencode_read_dict_def and_then_def b1_def [symmetric])
qed

lemma parse_wire:
  assumes "routing_valid hash ntop pton m" and "written_type m \<noteq> CHR ''V''" and "holder_clear h"
    and "handle (routing_received src h m) st = (result, st')"
  shows "ParseMessageBuffer hash pton netid handle src (routing_wire ntop m) (h, st) =
    Inr (result, (holder_put (routing_Clear (routing_received src h m)) h, st'))"
proof -
  let ?w = "routing_wire ntop m" and ?o = "set_version (shown_version m) (holder_object h m)"
  have "typed_decode [ch CHR ''A''] (\<lambda>c. map_option (set_version (shown_version m)) (holder_get h c))
      (routing_DecodeKey hash pton netid) (None, buffer_of ?w) =
      Inr (True, (Some (apply_entries (routing_entries ntop m) ?o), advance (length ?w) (buffer_of ?w)))"
    unfolding routing_wire_def
    by (rule typed_decode_all [where rest = "[]"])
      (use assms in \<open>simp_all add: routing_decodes holder_get_written remaining_def buffer_of_def wf_buf_def\<close>)
  with routing_seek [OF assms(1)] routing_apply [OF assms(1,3,2), of src] assms(4) show ?thesis
    by (simp add: ParseMessageBuffer_def Let_def)
qed

definition demo_transfer :: routing_message where
  "demo_transfer = RT (PathTransferMessage_init\<lparr>ptm_P := replicate 16 7, ptm_S := 3, ptm_Y := replicate 32 9\<rparr>)"

lemma ProtocolFrame_init_version: "pf_version ProtocolFrame_init = LLARP_PROTO_VERSION"
  by (simp add: ProtocolFrame_init_def ProtocolFrame_Clear_def)

lemma demo_transfer_valid:
  "routing_valid (\<lambda>_. []) (\<lambda>_. None) (\<lambda>_. None) demo_transfer" "written_type demo_transfer \<noteq> CHR ''V''"
  by (simp_all add: demo_transfer_def PathTransferMessage_init_def ProtocolFrame_init_sizes ProtocolFrame_init_version)

text \<open>
  C3: The parser of routing messages hands over what was sent. For every message with fields of their sizes, of any of the eleven types
  whose letter the encoder and the parser agree on, the encoder with enough room writes a text that the parser, between two calls,
  accepts: the search for the version finds the one that was written, the handler is called once, with the message of the same fields
  from the given path, the parser returns what the handler returned, and it is again ready for a next message.
\<close>

theorem parser_delivers_what_was_sent:
  assumes "routing_valid hash ntop pton m" and "written_type m \<noteq> CHR ''V''" and "holder_clear h" and "length (routing_wire ntop m) < n"
    and "handle (routing_received src h m) st = (result, st')"
  shows "\<exists>buf h'. encode_in n (routing_BEncode ntop m) = Inr (Some buf) \<and>
    ParseMessageBuffer hash pton netid handle src buf (h, st) = Inr (result, (h', st')) \<and> holder_clear h'"
  using parse_wire [where handle = handle, OF assms(1,2,3,5)] holder_put_clear [OF assms(3)] encode_in_emits [OF routing_emits [OF assms(1)] assms(4)]
  by blast

theorem parser_delivers_what_was_sent_witness:
  "\<exists>buf h'. encode_in (Suc (length (routing_wire (\<lambda>_. None) demo_transfer))) (routing_BEncode (\<lambda>_. None) demo_transfer) = Inr (Some buf) \<and>
    ParseMessageBuffer (\<lambda>_. []) (\<lambda>_. None) [] (\<lambda>m st. (True, m # st)) (replicate 16 1) buf (MessageHolder_init, []) =
      Inr (True, (h', [routing_received (replicate 16 1) MessageHolder_init demo_transfer])) \<and> holder_clear h'"
  by (rule parser_delivers_what_was_sent [OF demo_transfer_valid holder_init_clear]) simp_all

text \<open>
  C27: Whatever arrives, the parser is ready for the next message: for every text and every handler, when the call returns, no optional
  field, no list element and no frame of the text is left in the parser's objects, the ones of refused texts included.
\<close>

theorem parser_keeps_nothing:
  assumes "holder_clear h" and "ParseMessageBuffer hash pton netid handle src buf (h, st) = Inr (result, (h', st'))"
  shows "holder_clear h'"
proof -
  obtain found v copy where "BEncodeSeekDictVersion (Suc (length buf)) (ch CHR ''V'') (0, buffer_of buf) = Inr (found, (v, copy))"
    using assms(2) unfolding ParseMessageBuffer_def prod.case bind_res_eq_Inr_iff by auto
  with assms(2) obtain ok msg where
    "(case msg of None \<Rightarrow> Inr (False, (h, st)) | Some m \<Rightarrow>
       if ok then let m = set_from src m; (result, st) = handle m st in Inr (result, (holder_put (routing_Clear m) h, st))
       else Inr (False, (holder_put (routing_Clear m) h, st))) = (Inr (result, (h', st')) :: (bool \<times> MessageHolder \<times> 'a) res)"
    unfolding ParseMessageBuffer_def Let_def by (auto simp: bind_res_eq_Inr_iff)
  then show ?thesis
    using holder_put_clear [OF assms(1)] assms(1) by (auto simp: Let_def split: option.splits if_splits prod.splits)
qed

theorem parser_keeps_nothing_witness:
  "holder_clear (holder_put (routing_Clear (routing_received (replicate 16 1) MessageHolder_init demo_transfer)) MessageHolder_init)"
  by (rule parser_keeps_nothing [OF holder_init_clear parse_wire [OF demo_transfer_valid holder_init_clear, where st = "[]" and handle = "\<lambda>m st. (True, m # st)"]])
    simp

text \<open>
  An exit update is never received. The encoder writes the type letter V for it while the parser knows it under U, so the parser
  refuses every encoded exit update: the handler is not called and nothing changes.
\<close>

theorem encoded_exit_update_is_refused:
  assumes "length (uem_P m) = 16" and "length (uem_Z m) = 64" and "length (routing_wire ntop (RU m)) < n"
  shows "\<exists>buf. encode_in n (UpdateExit_BEncode m) = Inr (Some buf) \<and>
    ParseMessageBuffer hash pton netid handle src buf (h, st) = Inr (False, (h, st))"
proof -
  let ?m = "RU m" and ?w = "routing_wire ntop (RU m)"
  have v: "routing_valid hash ntop pton ?m" using assms by simp
  have "holder_get h (ch CHR ''V'') = None" by (simp add: holder_get_def)
  then obtain b' where "typed_decode [ch CHR ''A''] (\<lambda>c. map_option (set_version (shown_version ?m)) (holder_get h c))
      (routing_DecodeKey hash pton netid) (None, buffer_of ?w) = Inr (False, (None, b'))"
    using typed_decode_unknown [of "buffer_of ?w" "CHR ''A''" "CHR ''V''" "routing_entries ntop ?m" "[]"
        "\<lambda>c. map_option (set_version (shown_version ?m)) (holder_get h c)" "routing_DecodeKey hash pton netid"]
    by (auto simp: routing_wire_def remaining_def buffer_of_def wf_buf_def)
  with routing_seek [OF v] have "ParseMessageBuffer hash pton netid handle src ?w (h, st) = Inr (False, (h, st))"
    by (simp add: ParseMessageBuffer_def Let_def)
  with encode_in_emits [OF routing_emits [OF v] assms(3)] show ?thesis by auto
qed

theorem encoded_exit_update_is_refused_witness:
  "\<exists>buf. encode_in (Suc (length (routing_wire (\<lambda>_. None) (RU UpdateExitMessage_init)))) (UpdateExit_BEncode UpdateExitMessage_init) =
      Inr (Some buf) \<and>
    ParseMessageBuffer (\<lambda>_. []) (\<lambda>_. None) [] (\<lambda>m st. (True, m # st)) (replicate 16 1) buf (MessageHolder_init, []) =
      Inr (False, (MessageHolder_init, []))"
  by (rule encoded_exit_update_is_refused [where ntop = "\<lambda>_. None"]) (simp_all add: UpdateExitMessage_init_def aligned_Zero_def)

end
