(* ===== verification/Crypto.thy ===== *)
theory Crypto
  imports Aligned
begin

text \<open>
  The cryptography of the program (\<^verbatim>\<open>crypto/crypto_libsodium.cpp\<close>) over the functions of libsodium it calls, which are
  arguments. Both key exchanges of the program, of paths and of link sessions, are the pair \<open>dh_client\<close> and \<open>dh_server\<close>.
\<close>

section \<open>What is used of libsodium\<close>

text \<open>
  \<open>None\<close> is the return value \<^verbatim>\<open>-1\<close>. \<open>so_generichash n m k\<close> is the BLAKE2b hash of \<open>m\<close> with \<open>n\<close> bytes and the key \<open>k\<close>, which is
  empty for an unkeyed hash; hashing in parts is hashing their concatenation.
\<close>

record sodium =
  so_scalarmult :: "byte list \<Rightarrow> byte list \<Rightarrow> aligned option"
  so_scalarmult_base :: "byte list \<Rightarrow> aligned"
  so_generichash :: "nat \<Rightarrow> byte list \<Rightarrow> byte list \<Rightarrow> aligned option"
  so_xchacha20_xor :: "byte list \<Rightarrow> byte list \<Rightarrow> byte list \<Rightarrow> byte list"
  so_sign_detached :: "byte list \<Rightarrow> aligned \<Rightarrow> aligned option"
  so_sign_verify :: "aligned \<Rightarrow> byte list \<Rightarrow> aligned \<Rightarrow> bool"
  so_seed_keypair :: "byte list \<Rightarrow> (aligned \<times> aligned) option"
  so_sk_to_seed :: "aligned \<Rightarrow> byte list option"

section \<open>Keys\<close>

text \<open>A secret key has 64 bytes, the second half is the public key.\<close>

definition seckey_topublic :: "aligned \<Rightarrow> aligned" where
  "seckey_topublic sec = take 32 (drop 32 sec)"

definition encryption_keygen :: "sodium \<Rightarrow> byte list \<Rightarrow> aligned" where
  "encryption_keygen so random = random @ so_scalarmult_base so random"

definition seed_to_secretkey :: "sodium \<Rightarrow> byte list \<Rightarrow> aligned option" where
  "seed_to_secretkey so seed = map_option snd (so_seed_keypair so seed)"

definition check_identity_privkey :: "sodium \<Rightarrow> aligned \<Rightarrow> bool" where
  "check_identity_privkey so keys =
     (case so_sk_to_seed so keys of
        None \<Rightarrow> False
      | Some seed \<Rightarrow>
          (case so_seed_keypair so seed of
             None \<Rightarrow> False
           | Some (pk, sk) \<Rightarrow> seckey_topublic keys = pk \<and> sk = keys))"

section \<open>Key exchange\<close>

definition sodium_dh :: "sodium \<Rightarrow> aligned \<Rightarrow> aligned \<Rightarrow> aligned \<Rightarrow> aligned \<Rightarrow> aligned option" where
  "sodium_dh so client_pk server_pk themPub usSec =
     (case so_scalarmult so (take 32 usSec) themPub of
        None \<Rightarrow> None
      | Some shared \<Rightarrow> so_generichash so 32 (client_pk @ server_pk @ shared) [])"

definition dh_client :: "sodium \<Rightarrow> aligned \<Rightarrow> aligned \<Rightarrow> aligned \<Rightarrow> aligned option" where
  "dh_client so pk sk n =
     (case sodium_dh so (seckey_topublic sk) pk pk sk of
        None \<Rightarrow> None
      | Some dh_result \<Rightarrow> so_generichash so 32 n dh_result)"

definition dh_server :: "sodium \<Rightarrow> aligned \<Rightarrow> aligned \<Rightarrow> aligned \<Rightarrow> aligned option" where
  "dh_server so pk sk n =
     (case sodium_dh so pk (seckey_topublic sk) pk sk of
        None \<Rightarrow> None
      | Some dh_result \<Rightarrow> so_generichash so 32 n dh_result)"

definition transport_dh_client :: "sodium \<Rightarrow> aligned \<Rightarrow> aligned \<Rightarrow> aligned \<Rightarrow> aligned option" where
  "transport_dh_client so pk sk n = dh_client so pk sk n"

definition transport_dh_server :: "sodium \<Rightarrow> aligned \<Rightarrow> aligned \<Rightarrow> aligned \<Rightarrow> aligned option" where
  "transport_dh_server so pk sk n = dh_server so pk sk n"

section \<open>Ciphers, hashes and signatures\<close>

text \<open>The stream cipher uses the first 24 bytes of the nonce.\<close>

definition xchacha20 :: "sodium \<Rightarrow> byte list \<Rightarrow> aligned \<Rightarrow> aligned \<Rightarrow> byte list" where
  "xchacha20 so buff k n = so_xchacha20_xor so buff (take 24 n) k"

definition xchacha20_alt :: "sodium \<Rightarrow> nat \<Rightarrow> byte list \<Rightarrow> aligned \<Rightarrow> byte list \<Rightarrow> byte list option" where
  "xchacha20_alt so outsz buff k n = (if length buff > outsz then None else Some (so_xchacha20_xor so buff (take 24 n) k))"

definition shorthash :: "sodium \<Rightarrow> byte list \<Rightarrow> aligned option" where
  "shorthash so buff = so_generichash so 32 buff []"

definition hmac :: "sodium \<Rightarrow> byte list \<Rightarrow> aligned \<Rightarrow> aligned option" where
  "hmac so buff secret = so_generichash so 32 buff secret"

definition crypto_sign :: "sodium \<Rightarrow> aligned \<Rightarrow> byte list \<Rightarrow> aligned option" where
  "crypto_sign so secret buf = so_sign_detached so buf secret"

definition crypto_verify :: "sodium \<Rightarrow> aligned \<Rightarrow> byte list \<Rightarrow> aligned \<Rightarrow> bool" where
  "crypto_verify so pub buf sig \<longleftrightarrow> so_sign_verify so sig buf pub"

section \<open>What libsodium promises\<close>

text \<open>
  Scalar multiplication commutes on public keys; the hash of 32 bytes always exists; the stream cipher is an exclusive or with a key
  stream, so it is its own inverse; a signature by a secret key is accepted for its public half.
\<close>

definition scalarmult_ok :: "sodium \<Rightarrow> bool" where
  "scalarmult_ok so \<longleftrightarrow> (\<forall>a b. length a = 32 \<longrightarrow> length b = 32 \<longrightarrow>
       so_scalarmult so a (so_scalarmult_base so b) = so_scalarmult so b (so_scalarmult_base so a)) \<and>
     (\<forall>a. length (so_scalarmult_base so a) = 32)"

definition stream_ok :: "sodium \<Rightarrow> bool" where
  "stream_ok so \<longleftrightarrow> (\<forall>m n k. so_xchacha20_xor so (so_xchacha20_xor so m n k) n k = m \<and> length (so_xchacha20_xor so m n k) = length m)"

definition hash_ok :: "sodium \<Rightarrow> bool" where
  "hash_ok so \<longleftrightarrow> (\<forall>m k. \<exists>h. so_generichash so 32 m k = Some h \<and> length h = 32)"

definition encryption_key :: "sodium \<Rightarrow> aligned \<Rightarrow> bool" where
  "encryption_key so sk \<longleftrightarrow> length sk = 64 \<and> seckey_topublic sk = so_scalarmult_base so (take 32 sk)"

lemma xchacha20_xchacha20: "stream_ok so \<Longrightarrow> xchacha20 so (xchacha20 so m k n) k n = m"
  by (simp add: xchacha20_def stream_ok_def)

lemma length_xchacha20: "stream_ok so \<Longrightarrow> length (xchacha20 so m k n) = length m"
  by (simp add: xchacha20_def stream_ok_def)

lemma hash_okE:
  assumes "hash_ok so"
  obtains h where "hmac so m k = Some h" and "length h = 32"
  using assms unfolding hash_ok_def hmac_def by blast

lemma shorthash_okE:
  assumes "hash_ok so"
  obtains h where "shorthash so m = Some h" and "length h = 32"
  using assms unfolding hash_ok_def shorthash_def by blast

lemma encryption_keygen_key:
  "scalarmult_ok so \<Longrightarrow> length random = 32 \<Longrightarrow> encryption_key so (encryption_keygen so random)"
  by (simp add: encryption_key_def encryption_keygen_def seckey_topublic_def scalarmult_ok_def)

text \<open>Both sides of a key exchange get the same key, or both fail.\<close>

lemma dh_agrees:
  assumes "scalarmult_ok so" and "encryption_key so csk" and "encryption_key so ssk"
  shows "dh_client so (seckey_topublic ssk) csk n = dh_server so (seckey_topublic csk) ssk n"
proof -
  have "so_scalarmult so (take 32 csk) (seckey_topublic ssk) = so_scalarmult so (take 32 ssk) (seckey_topublic csk)"
    using assms unfolding encryption_key_def scalarmult_ok_def by simp
  then show ?thesis by (simp add: dh_client_def dh_server_def sodium_dh_def)
qed

end
