(* ===== verification/Encrypted_Frame.thy ===== *)
theory Encrypted_Frame
  imports Crypto Buffer
begin

text \<open>
  The frames of a path build (\<^verbatim>\<open>crypto/encrypted_frame.cpp\<close>): a record of one hop, encrypted with a key agreed with that hop and
  authenticated. The layout is 32 bytes of keyed hash, 32 bytes of nonce, 32 bytes of public key and the encrypted body. A frame is
  the list of its first \<^verbatim>\<open>_sz\<close> bytes, and \<open>tail\<close> are the bytes of the array behind it; the array always has \<open>EncryptedFrameSize\<close> bytes.
\<close>

section \<open>Frames\<close>

definition EncryptedFrameOverheadSize :: nat where
  "EncryptedFrameOverheadSize = 32 + 32 + 32"

definition EncryptedFrameBodySize :: nat where
  "EncryptedFrameBodySize = 128 * 6"

definition EncryptedFrameSize :: nat where
  "EncryptedFrameSize = EncryptedFrameOverheadSize + EncryptedFrameBodySize"

lemmas frame_size_defs = EncryptedFrameOverheadSize_def EncryptedFrameBodySize_def EncryptedFrameSize_def

definition EncryptedFrame_of :: "nat \<Rightarrow> byte list" where
  "EncryptedFrame_of sz = replicate (min sz EncryptedFrameBodySize + EncryptedFrameOverheadSize) 0"

definition EncryptedFrame_init :: "byte list" where
  "EncryptedFrame_init = EncryptedFrame_of EncryptedFrameBodySize"

text \<open>A write at a fixed offset of the array; bytes behind \<^verbatim>\<open>_sz\<close> are not part of the frame.\<close>

definition frame_put :: "nat \<Rightarrow> byte list \<Rightarrow> byte list \<Rightarrow> byte list" where
  "frame_put off bs frame = map (\<lambda>i. if off \<le> i \<and> i < off + length bs then bs ! (i - off) else frame ! i) [0..<length frame]"

text \<open>
  The lengths given to the hash and to the cipher are differences of \<^verbatim>\<open>size_t\<close>, which wrap. What they then read are \<open>n\<close> bytes from an offset
  of the array; more than it has is a fault.
\<close>

definition size_sub :: "nat \<Rightarrow> nat \<Rightarrow> nat" where
  "size_sub a b = (if b \<le> a then a - b else a + 2 ^ 64 - b)"

definition array_bytes :: "byte list \<Rightarrow> nat \<Rightarrow> nat \<Rightarrow> byte list res" where
  "array_bytes arr off n = (if off + n \<le> length arr then Inr (take n (drop off arr)) else Inl OutOfBounds)"

text \<open>
  \<^verbatim>\<open>DoEncrypt\<close>: with the flag \<^verbatim>\<open>noDH\<close> the nonce and the public key are random, \<open>noDH = Some (nonce, pubkey)\<close>.
\<close>

definition DoEncrypt :: "sodium \<Rightarrow> aligned \<Rightarrow> (aligned \<times> aligned) option \<Rightarrow> byte list \<Rightarrow> byte list action" where
  "DoEncrypt so shared noDH tail frame =
     (let sz = length frame;
          frame = (case noDH of None \<Rightarrow> frame | Some (nonce, pubkey) \<Rightarrow> frame_put 64 pubkey (frame_put 32 nonce frame));
          nonce = take 32 (drop 32 (frame @ tail))
      in bind_res (array_bytes (frame @ tail) EncryptedFrameOverheadSize (size_sub sz EncryptedFrameOverheadSize)) (\<lambda>body.
           let frame = take 96 frame @ xchacha20 so body shared nonce
           in bind_res (array_bytes (frame @ tail) 32 (size_sub sz 32)) (\<lambda>rest.
                case hmac so rest shared of
                  None \<Rightarrow> Inr (False, frame)
                | Some hash \<Rightarrow> Inr (True, frame_put 0 hash frame))))"

definition EncryptInPlace :: "sodium \<Rightarrow> aligned \<Rightarrow> aligned \<Rightarrow> aligned \<Rightarrow> byte list \<Rightarrow> byte list action" where
  "EncryptInPlace so ourSecretKey otherPubkey nonce tail frame =
     (let frame = frame_put 32 nonce (frame_put 64 (seckey_topublic ourSecretKey) frame)
      in case dh_client so otherPubkey ourSecretKey nonce of
           None \<Rightarrow> Inr (False, frame)
         | Some shared \<Rightarrow> DoEncrypt so shared None tail frame)"

text \<open>The hash is compared before the body is decrypted.\<close>

definition DoDecrypt :: "sodium \<Rightarrow> aligned \<Rightarrow> byte list \<Rightarrow> byte list action" where
  "DoDecrypt so shared tail frame =
     (let hash = take 32 (frame @ tail); nonce = take 32 (drop 32 (frame @ tail))
      in bind_res (array_bytes (frame @ tail) 32 (size_sub (length frame) 32)) (\<lambda>rest.
           case hmac so rest shared of
             None \<Rightarrow> Inr (False, frame)
           | Some digest \<Rightarrow>
               if digest \<noteq> hash then Inr (False, frame)
               else bind_res (array_bytes (frame @ tail) EncryptedFrameOverheadSize (size_sub (length frame) EncryptedFrameOverheadSize))
                      (\<lambda>body. Inr (True, take 96 frame @ xchacha20 so body shared nonce))))"

definition DecryptInPlace :: "sodium \<Rightarrow> aligned \<Rightarrow> byte list \<Rightarrow> byte list action" where
  "DecryptInPlace so ourSecretKey tail frame =
     (let nonce = take 32 (drop 32 (frame @ tail)); otherPubkey = take 32 (drop 64 (frame @ tail))
      in case dh_server so otherPubkey ourSecretKey nonce of
           None \<Rightarrow> Inr (False, frame)
         | Some shared \<Rightarrow> DoDecrypt so shared tail frame)"

text \<open>\<^verbatim>\<open>AsyncFrameDecrypter::Decrypt\<close> on a copy of the frame in a new array: the buffer given to the handler, behind the overhead.\<close>

definition AsyncFrameDecrypter_Decrypt :: "sodium \<Rightarrow> aligned \<Rightarrow> byte list \<Rightarrow> llarp_buffer option res" where
  "AsyncFrameDecrypter_Decrypt so seckey frame =
     (let tail = replicate (EncryptedFrameSize - length frame) 0
      in bind_res (DecryptInPlace so seckey tail frame) (\<lambda>(ok, target).
           Inr (if ok then Some \<lparr>mem = target @ tail, cur = EncryptedFrameOverheadSize, bsz = length target\<rparr> else None)))"

section \<open>Decryption inverts encryption\<close>

lemma frame_put_id:
  assumes "off + length bs \<le> length frame"
  shows "frame_put off bs frame = take off frame @ bs @ drop (off + length bs) frame"
proof (rule nth_equalityI)
  show "length (frame_put off bs frame) = length (take off frame @ bs @ drop (off + length bs) frame)"
    using assms by (simp add: frame_put_def)
  show "frame_put off bs frame ! i = (take off frame @ bs @ drop (off + length bs) frame) ! i"
    if "i < length (frame_put off bs frame)" for i
    using that assms by (auto simp: frame_put_def nth_append)
qed

lemma length_frame_put [simp]: "length (frame_put off bs frame) = length frame"
  by (simp add: frame_put_def)

lemma array_bytes_frame:
  assumes "off \<le> length frame"
  shows "array_bytes (frame @ tail) off (size_sub (length frame) off) = Inr (drop off frame)"
  using assms by (simp add: array_bytes_def size_sub_def)

lemma array_bytes_wrapped:
  assumes "length frame < off" and "length arr < 2 ^ 64"
  shows "array_bytes arr off (size_sub (length frame) off) = Inl OutOfBounds"
  using assms by (simp add: array_bytes_def size_sub_def)

text \<open>An encrypted frame: the hash of the rest, then nonce, key and the encrypted body.\<close>

lemma DoEncrypt_frame:
  assumes "stream_ok so" and "hash_ok so" and "length frame \<ge> 96" and "length nonce = 32" and "length pubkey = 32"
    and "take 32 (drop 32 frame) = nonce" and "take 32 (drop 64 frame) = pubkey"
  obtains hash where "length hash = 32"
    and "hmac so (nonce @ pubkey @ xchacha20 so (drop 96 frame) shared nonce) shared = Some hash"
    and "DoEncrypt so shared None tail frame = Inr (True, hash @ nonce @ pubkey @ xchacha20 so (drop 96 frame) shared nonce)"
proof -
  let ?b = "xchacha20 so (drop 96 frame) shared nonce"
  have d: "drop 32 (take 96 frame) = nonce @ pubkey"
  proof -
    have "drop 32 (take 96 frame) = take 64 (drop 32 frame)" by (simp add: drop_take)
    also have "\<dots> = take (32 + 32) (drop 32 frame)" by simp
    also have "\<dots> = take 32 (drop 32 frame) @ take 32 (drop 32 (drop 32 frame))" by (rule take_add)
    finally show ?thesis using assms(6,7) by simp
  qed
  obtain hash where h: "hmac so (nonce @ pubkey @ ?b) shared = Some hash" "length hash = 32"
    using hash_okE [OF assms(2), of "nonce @ pubkey @ ?b" shared] by blast
  have "drop 32 (take 96 frame @ ?b) = nonce @ pubkey @ ?b" using assms(3) d by simp
  moreover have "frame_put 0 hash (take 96 frame @ ?b) = hash @ nonce @ pubkey @ ?b"
    using assms(3) h(2) d by (simp add: frame_put_id)
  moreover have "array_bytes (frame @ tail) 96 (size_sub (length frame) 96) = Inr (drop 96 frame)"
    using assms(3) by (rule array_bytes_frame)
  moreover have len: "length (take 96 frame @ ?b) = length frame" using assms(1,3) by (simp add: length_xchacha20)
  moreover have "array_bytes ((take 96 frame @ ?b) @ tail) 32 (size_sub (length frame) 32) = Inr (drop 32 (take 96 frame @ ?b))"
    using array_bytes_frame [of 32 "take 96 frame @ ?b" tail] assms(3) unfolding len by simp
  ultimately have "DoEncrypt so shared None tail frame = Inr (True, hash @ nonce @ pubkey @ ?b)"
    using assms(3,6) h(1) by (simp add: DoEncrypt_def Let_def EncryptedFrameOverheadSize_def)
  with h show ?thesis by (intro that)
qed

lemma DoDecrypt_frame:
  assumes "stream_ok so" and "length hash = 32" and "length nonce = 32" and "length pubkey = 32"
    and "hmac so (nonce @ pubkey @ xchacha20 so body shared nonce) shared = Some hash"
  shows "DoDecrypt so shared tail (hash @ nonce @ pubkey @ xchacha20 so body shared nonce) = Inr (True, hash @ nonce @ pubkey @ body)"
proof -
  let ?f = "hash @ nonce @ pubkey @ xchacha20 so body shared nonce"
  have "array_bytes (?f @ tail) 32 (size_sub (length ?f) 32) = Inr (nonce @ pubkey @ xchacha20 so body shared nonce)"
    "array_bytes (?f @ tail) 96 (size_sub (length ?f) 96) = Inr (xchacha20 so body shared nonce)"
    using assms(2-4) array_bytes_frame [of 32 ?f tail] array_bytes_frame [of 96 ?f tail] by simp_all
  then show ?thesis
    using assms by (simp only: DoDecrypt_def Let_def EncryptedFrameOverheadSize_def) (simp add: xchacha20_xchacha20)
qed

text \<open>
  C11: A frame encrypted for a hop can be read by that hop: when the key exchange succeeds, the frame that \<^verbatim>\<open>EncryptInPlace\<close> leaves is
  accepted by \<^verbatim>\<open>DecryptInPlace\<close> with the secret key that belongs to the public key it was encrypted for, whatever lies behind the
  frame in the arrays of the two, and the body is the one that was encrypted.
\<close>

theorem frame_decrypts_for_its_hop:
  assumes "scalarmult_ok so" and "stream_ok so" and "hash_ok so" and "encryption_key so ours" and "encryption_key so theirs"
    and "length nonce = 32" and "length frame \<ge> EncryptedFrameOverheadSize"
    and "dh_client so (seckey_topublic theirs) ours nonce \<noteq> None"
  shows "\<exists>sent got. EncryptInPlace so ours (seckey_topublic theirs) nonce before frame = Inr (True, sent) \<and>
    length sent = length frame \<and> DecryptInPlace so theirs tail sent = Inr (True, got) \<and> drop 96 got = drop 96 frame"
proof -
  obtain shared where s: "dh_client so (seckey_topublic theirs) ours nonce = Some shared" using assms(8) by blast
  let ?pk = "seckey_topublic ours" and ?body = "drop 96 frame"
  let ?f = "frame_put 32 nonce (frame_put 64 ?pk frame)"
  have pk: "length ?pk = 32" using assms(4) by (auto simp: encryption_key_def seckey_topublic_def dest: arg_cong [where f = length])
  have len: "96 \<le> length frame" using assms(7) by (simp add: EncryptedFrameOverheadSize_def)
  have f: "?f = take 32 frame @ nonce @ ?pk @ ?body"
    using len pk assms(6) by (simp add: frame_put_id)
  obtain hash where h: "length hash = 32" "hmac so (nonce @ ?pk @ xchacha20 so ?body shared nonce) shared = Some hash"
    "DoEncrypt so shared None before ?f = Inr (True, hash @ nonce @ ?pk @ xchacha20 so ?body shared nonce)"
    by (rule DoEncrypt_frame [OF assms(2,3), of ?f nonce ?pk shared before]) (use len pk assms(6) in \<open>simp_all add: f\<close>)
  have "dh_server so ?pk theirs nonce = Some shared" using dh_agrees [OF assms(1,4,5)] s by simp
  then have "DecryptInPlace so theirs tail (hash @ nonce @ ?pk @ xchacha20 so ?body shared nonce) =
      Inr (True, hash @ nonce @ ?pk @ ?body)"
    using DoDecrypt_frame [OF assms(2) h(1) assms(6) pk h(2)] h(1) assms(6) pk by (simp add: DecryptInPlace_def Let_def)
  moreover have "EncryptInPlace so ours (seckey_topublic theirs) nonce before frame =
      Inr (True, hash @ nonce @ ?pk @ xchacha20 so ?body shared nonce)"
    using s h(3) by (simp add: EncryptInPlace_def Let_def)
  ultimately show ?thesis using len pk h(1) assms(6) length_xchacha20 [OF assms(2)] by simp
qed

text \<open>
  C33: The receiver of a frame does not check its size. Once the key exchange with the nonce and the key found in the array succeeds,
  a frame of fewer than 32 bytes makes \<^verbatim>\<open>DecryptInPlace\<close> hash memory behind the array of \<open>EncryptedFrameSize\<close> bytes, because the length it
  hashes is an unsigned difference that wraps; and a frame of 32 to 95 bytes whose hash is right makes it run the cipher over memory behind
  the array for the same reason.
\<close>

theorem short_frame_reads_out_of_bounds:
  assumes "length frame + length tail = EncryptedFrameSize"
    and "dh_server so (take 32 (drop 64 (frame @ tail))) ourSecretKey (take 32 (drop 32 (frame @ tail))) = Some shared"
    and "length frame < 32 \<or> (length frame < EncryptedFrameOverheadSize \<and> hmac so (drop 32 frame) shared = Some (take 32 frame))"
  shows "DecryptInPlace so ourSecretKey tail frame = Inl OutOfBounds"
proof -
  have len: "length (frame @ tail) < 2 ^ 64" using assms(1) by (simp add: frame_size_defs)
  have "DoDecrypt so shared tail frame = Inl OutOfBounds"
  proof (cases "length frame < 32")
    case True
    then show ?thesis unfolding DoDecrypt_def Let_def array_bytes_wrapped [OF True len] by simp
  next
    case False
    with assms(3) have f: "length frame < EncryptedFrameOverheadSize" "hmac so (drop 32 frame) shared = Some (take 32 frame)" by simp_all
    have "array_bytes (frame @ tail) 32 (size_sub (length frame) 32) = Inr (drop 32 frame)" using False by (intro array_bytes_frame) simp
    then show ?thesis unfolding DoDecrypt_def Let_def array_bytes_wrapped [OF f(1) len] using f(2) False by simp
  qed
  with assms(2) show ?thesis by (simp add: DecryptInPlace_def)
qed

section \<open>A libsodium to evaluate the theorems on\<close>

text \<open>Multiplication is addition of bytes, the cipher is the exclusive or with the key, the hash is the start of key and text.\<close>

definition toy_sodium :: sodium where
  "toy_sodium = \<lparr>so_scalarmult = (\<lambda>a b. Some (map2 (+) a b)), so_scalarmult_base = (\<lambda>a. take 32 (a @ replicate 32 0)),
     so_generichash = (\<lambda>n m k. Some (take n (k @ m @ replicate n 0))),
     so_xchacha20_xor = (\<lambda>m n k. map (\<lambda>b. xor b (hd (k @ [0]))) m),
     so_sign_detached = (\<lambda>m k. Some (take 64 (k @ replicate 64 0))), so_sign_verify = (\<lambda>s m k. take 32 (drop 32 s) = k),
     so_seed_keypair = (\<lambda>s. Some (take 32 (s @ replicate 32 0), take 32 (s @ replicate 32 0) @ take 32 (s @ replicate 32 0))),
     so_sk_to_seed = (\<lambda>k. Some (take 32 k))\<rparr>"

lemma toy_sodium_ok: "scalarmult_ok toy_sodium" "stream_ok toy_sodium" "hash_ok toy_sodium"
proof -
  have "map2 (+) a b = map2 (+) b (a :: byte list)" for a b
    by (induction a b rule: list_induct2') (simp_all add: add.commute)
  then show "scalarmult_ok toy_sodium" by (simp add: scalarmult_ok_def toy_sodium_def min_def)
qed (auto simp: stream_ok_def hash_ok_def toy_sodium_def comp_def xor.assoc min_def)

lemma toy_key: "length s = 32 \<Longrightarrow> encryption_key toy_sodium (s @ s)"
  by (simp add: encryption_key_def seckey_topublic_def toy_sodium_def)

theorem frame_decrypts_for_its_hop_witness:
  "\<exists>sent got. EncryptInPlace toy_sodium (replicate 64 1) (seckey_topublic (replicate 64 2)) (replicate 32 3) [] EncryptedFrame_init = Inr (True, sent) \<and>
    length sent = length EncryptedFrame_init \<and> DecryptInPlace toy_sodium (replicate 64 2) [] sent = Inr (True, got) \<and>
    drop 96 got = drop 96 EncryptedFrame_init"
  by (rule frame_decrypts_for_its_hop [OF toy_sodium_ok])
    (use toy_key [of "replicate 32 1"] toy_key [of "replicate 32 2"] in
      \<open>simp_all add: replicate_add [symmetric] EncryptedFrame_init_def EncryptedFrame_of_def frame_size_defs dh_client_def sodium_dh_def
        toy_sodium_def\<close>)

theorem short_frame_reads_out_of_bounds_witness:
  "DecryptInPlace toy_sodium (replicate 64 1) (replicate EncryptedFrameSize 0) [] = Inl OutOfBounds"
proof -
  obtain shared where "dh_server toy_sodium (replicate 32 0) (replicate 64 1) (replicate 32 0) = Some shared"
    by (simp add: dh_server_def sodium_dh_def toy_sodium_def)
  then show ?thesis
    using short_frame_reads_out_of_bounds [of "[]" "replicate EncryptedFrameSize 0" toy_sodium "replicate 64 1" shared]
    by (simp add: frame_size_defs)
qed

end
