(* ===== verification/Link_Messages.thy ===== *)
theory Link_Messages
  imports Encrypted_Frame Routing_Messages
begin

text \<open>
  The messages two routers exchange over a link (\<^verbatim>\<open>messages/\<close>) and their parser (\<^verbatim>\<open>messages/link_message_parser.cpp\<close>): the
  introduction that opens a session, relayed traffic of paths, path builds and their status, DHT messages and discarded padding. Like
  the parser of routing messages this one reuses one object per type, but it clears an object only after a complete message.
\<close>

section \<open>Link introduction\<close>

record LinkIntroMessage =
  lim_version :: u64
  lim_rc :: RouterContact
  lim_N :: aligned
  lim_Z :: aligned
  lim_P :: u64

definition LinkIntroMessage_init :: "aligned \<Rightarrow> LinkIntroMessage" where
  "LinkIntroMessage_init netid = \<lparr>lim_version = LLARP_PROTO_VERSION, lim_rc = RouterContact_init netid, lim_N = aligned_Zero 32,
     lim_Z = aligned_Zero 64, lim_P = 0\<rparr>"

definition LIM_MaxSize :: nat where
  "LIM_MaxSize = 1024 + 256"

text \<open>A version is stored before it is compared.\<close>

definition decode_version :: "((u64 \<Rightarrow> u64) \<Rightarrow> 'm \<Rightarrow> 'm) \<Rightarrow> ('m \<times> llarp_buffer) action" where
  "decode_version upd = (\<lambda>(m, b).
     bind_res (bencode_read_integer b) (\<lambda>(r, b').
       case r of None \<Rightarrow> Inr (False, (m, b')) | Some i \<Rightarrow> Inr (i = LLARP_PROTO_VERSION, (upd (\<lambda>_. i) m, b'))))"

definition LinkIntro_DecodeKey :: "pton \<Rightarrow> llarp_buffer \<Rightarrow> (LinkIntroMessage \<times> llarp_buffer) action" where
  "LinkIntro_DecodeKey pton key = (\<lambda>(m, b).
     if_key key (str ''a'') (read_type (ch CHR ''i''))
     (if_key key (str ''n'') (decode_field (aligned_BDecode 32) lim_N lim_N_update)
     (if_key key (str ''p'') (decode_int_if (\<lambda>_. True) (\<lambda>i. lim_P_update (\<lambda>_. i)))
     (if_key key (str ''r'') (decode_field (RouterContact_BDecode pton) lim_rc lim_rc_update)
     (if_key key (str ''v'') (decode_version lim_version_update)
     (if_key key (str ''z'') (decode_field (aligned_BDecode 64) lim_Z lim_Z_update)
     (\<lambda>(read, m, b). Inr (False, (m, b)))))))) (False, m, b))"

definition LinkIntro_BEncode :: "ntop \<Rightarrow> LinkIntroMessage \<Rightarrow> llarp_buffer action" where
  "LinkIntro_BEncode ntop m = all_steps
     (bencode_start_dict #
      [bencode_write_bytestring (str ''a''), bencode_write_bytestring (str ''i''),
       bencode_write_bytestring (str ''n''), aligned_BEncode (lim_N m),
       bencode_write_bytestring (str ''p''), bencode_write_uint64 (lim_P m),
       bencode_write_bytestring (str ''r''), RouterContact_BEncode ntop (lim_rc m),
       bencode_write_uint64_entry (str ''v'') LLARP_PROTO_VERSION,
       bencode_write_bytestring (str ''z''), aligned_BEncode (lim_Z m)] @ [bencode_end])"

definition LinkIntro_Clear :: "LinkIntroMessage \<Rightarrow> LinkIntroMessage" where
  "LinkIntro_Clear m = m\<lparr>lim_P := 0, lim_N := aligned_Zero 32, lim_rc := RouterContact_Clear (lim_rc m), lim_Z := aligned_Zero 64,
     lim_version := 0\<rparr>"

definition LinkIntro_Sign :: "ntop \<Rightarrow> (byte list \<Rightarrow> aligned option) \<Rightarrow> LinkIntroMessage action" where
  "LinkIntro_Sign ntop signer m =
     (let m = m\<lparr>lim_Z := aligned_Zero 64\<rparr> in
      bind_res (encode_in LIM_MaxSize (LinkIntro_BEncode ntop m)) (\<lambda>r.
        case r of
          None \<Rightarrow> Inr (False, m)
        | Some bs \<Rightarrow> (case signer bs of None \<Rightarrow> Inr (False, m) | Some z \<Rightarrow> Inr (True, m\<lparr>lim_Z := z\<rparr>))))"

definition LinkIntro_Verify ::
  "ntop \<Rightarrow> (aligned \<Rightarrow> byte list \<Rightarrow> aligned \<Rightarrow> bool) \<Rightarrow> aligned \<Rightarrow> bool \<Rightarrow> llarp_time \<Rightarrow> LinkIntroMessage \<Rightarrow> bool res" where
  "LinkIntro_Verify ntop verify netid BlockBogons now m =
     bind_res (encode_in LIM_MaxSize (LinkIntro_BEncode ntop (m\<lparr>lim_Z := aligned_Zero 64\<rparr>))) (\<lambda>r.
       case r of
         None \<Rightarrow> Inr False
       | Some bs \<Rightarrow>
           if \<not> verify (rc_pubkey (lim_rc m)) bs (lim_Z m) then Inr False
           else RouterContact_Verify ntop verify netid BlockBogons (lim_rc m) now True)"

section \<open>Relayed traffic\<close>

text \<open>The bound of the encrypted field, \<^verbatim>\<open>MAX_LINK_MSG_SIZE - 128\<close>.\<close>

definition MAX_LINK_MSG_SIZE :: nat where
  "MAX_LINK_MSG_SIZE = 8192"

record RelayMessage =
  rm_version :: u64
  rm_pathid :: aligned
  rm_X :: "byte list"
  rm_Y :: aligned

definition RelayMessage_init :: RelayMessage where
  "RelayMessage_init = \<lparr>rm_version = LLARP_PROTO_VERSION, rm_pathid = aligned_Zero 16, rm_X = [], rm_Y = aligned_Zero 32\<rparr>"

definition Relay_Clear :: "RelayMessage \<Rightarrow> RelayMessage" where
  "Relay_Clear m = m\<lparr>rm_pathid := aligned_Zero 16, rm_X := [], rm_Y := aligned_Zero 32, rm_version := 0\<rparr>"

definition RelayUpstream_BEncode :: "RelayMessage \<Rightarrow> llarp_buffer action" where
  "RelayUpstream_BEncode m = all_steps
     (bencode_start_dict #
      [BEncodeWriteDictMsgType (CHR ''a'') (CHR ''u''),
       BEncodeWriteDictEntry (CHR ''p'') (aligned_BEncode (rm_pathid m)),
       BEncodeWriteDictInt (CHR ''v'') LLARP_PROTO_VERSION,
       BEncodeWriteDictEntry (CHR ''x'') (encrypted_BEncode (rm_X m)),
       BEncodeWriteDictEntry (CHR ''y'') (aligned_BEncode (rm_Y m))] @ [bencode_end])"

definition RelayDownstream_BEncode :: "RelayMessage \<Rightarrow> llarp_buffer action" where
  "RelayDownstream_BEncode m = all_steps
     (bencode_start_dict #
      [BEncodeWriteDictMsgType (CHR ''a'') (CHR ''d''),
       BEncodeWriteDictEntry (CHR ''p'') (aligned_BEncode (rm_pathid m)),
       BEncodeWriteDictInt (CHR ''v'') LLARP_PROTO_VERSION,
       BEncodeWriteDictEntry (CHR ''x'') (encrypted_BEncode (rm_X m)),
       BEncodeWriteDictEntry (CHR ''y'') (aligned_BEncode (rm_Y m))] @ [bencode_end])"

definition Relay_DecodeKey :: "llarp_buffer \<Rightarrow> (RelayMessage \<times> llarp_buffer) action" where
  "Relay_DecodeKey key = decode_key_with
     [BEncodeMaybeReadDictEntry (CHR ''p'') (aligned_BDecode 16) rm_pathid rm_pathid_update key,
      BEncodeMaybeVerifyVersion (CHR ''v'') rm_version_update LLARP_PROTO_VERSION key,
      BEncodeMaybeReadDictEntry (CHR ''x'') (encrypted_BDecode (MAX_LINK_MSG_SIZE - 128)) rm_X rm_X_update key,
      BEncodeMaybeReadDictEntry (CHR ''y'') (aligned_BDecode 32) rm_Y rm_Y_update key]"

section \<open>Path builds\<close>

record LR_CommitRecord =
  lrcr_commkey :: aligned
  lrcr_nextHop :: aligned
  lrcr_tunnelNonce :: aligned
  lrcr_txid :: aligned
  lrcr_rxid :: aligned
  lrcr_nextRC :: "RouterContact option"
  lrcr_work :: "PoW option"
  lrcr_version :: u64
  lrcr_lifetime :: u64

definition LR_CommitRecord_init :: LR_CommitRecord where
  "LR_CommitRecord_init = \<lparr>lrcr_commkey = aligned_Zero 32, lrcr_nextHop = aligned_Zero 32, lrcr_tunnelNonce = aligned_Zero 32,
     lrcr_txid = aligned_Zero 16, lrcr_rxid = aligned_Zero 16, lrcr_nextRC = None, lrcr_work = None, lrcr_version = 0, lrcr_lifetime = 0\<rparr>"

text \<open>The lifetime is written under the key of the next hop.\<close>

definition LR_CommitRecord_BEncode :: "ntop \<Rightarrow> LR_CommitRecord \<Rightarrow> llarp_buffer action" where
  "LR_CommitRecord_BEncode ntop r = all_steps
     (bencode_start_dict #
      [BEncodeWriteDictEntry (CHR ''c'') (aligned_BEncode (lrcr_commkey r)),
       BEncodeWriteDictEntry (CHR ''i'') (aligned_BEncode (lrcr_nextHop r)),
       only_if (lrcr_lifetime r > 10 \<and> lrcr_lifetime r < 600) (BEncodeWriteDictInt (CHR ''i'') (lrcr_lifetime r)),
       BEncodeWriteDictEntry (CHR ''n'') (aligned_BEncode (lrcr_tunnelNonce r)),
       BEncodeWriteDictEntry (CHR ''r'') (aligned_BEncode (lrcr_rxid r)),
       BEncodeWriteDictEntry (CHR ''t'') (aligned_BEncode (lrcr_txid r)),
       (case lrcr_nextRC r of None \<Rightarrow> all_steps [] | Some rc \<Rightarrow> BEncodeWriteDictEntry (CHR ''u'') (RouterContact_BEncode ntop rc)),
       bencode_write_uint64_entry (str ''v'') LLARP_PROTO_VERSION,
       (case lrcr_work r of None \<Rightarrow> all_steps [] | Some w \<Rightarrow> BEncodeWriteDictEntry (CHR ''w'') (PoW_BEncode w))] @ [bencode_end])"

definition decode_nextRC :: "pton \<Rightarrow> aligned \<Rightarrow> (LR_CommitRecord \<times> llarp_buffer) action" where
  "decode_nextRC pton netid = (\<lambda>(r, b).
     bind_res (RouterContact_BDecode pton (RouterContact_init netid, b)) (\<lambda>(ok, (rc, b')). Inr (ok, (r\<lparr>lrcr_nextRC := Some rc\<rparr>, b'))))"

definition decode_work :: "(LR_CommitRecord \<times> llarp_buffer) action" where
  "decode_work = (\<lambda>(r, b).
     if lrcr_work r \<noteq> None then Inr (False, (r, b))
     else bind_res (decode_dict PoW_DecodeKey (PoW_init, b)) (\<lambda>(ok, (w, b')). Inr (ok, (r\<lparr>lrcr_work := Some w\<rparr>, b'))))"

definition LR_CommitRecord_OnKey :: "pton \<Rightarrow> aligned \<Rightarrow> llarp_buffer \<Rightarrow> (LR_CommitRecord \<times> llarp_buffer) action" where
  "LR_CommitRecord_OnKey pton netid key = (\<lambda>(r, b).
     entries_then
       [BEncodeMaybeReadDictEntry (CHR ''c'') (aligned_BDecode 32) lrcr_commkey lrcr_commkey_update key,
        BEncodeMaybeReadDictEntry (CHR ''i'') (aligned_BDecode 32) lrcr_nextHop lrcr_nextHop_update key,
        BEncodeMaybeReadDictInt (CHR ''l'') lrcr_lifetime_update key,
        BEncodeMaybeReadDictEntry (CHR ''n'') (aligned_BDecode 32) lrcr_tunnelNonce lrcr_tunnelNonce_update key,
        BEncodeMaybeReadDictEntry (CHR ''r'') (aligned_BDecode 16) lrcr_rxid lrcr_rxid_update key,
        BEncodeMaybeReadDictEntry (CHR ''t'') (aligned_BDecode 16) lrcr_txid lrcr_txid_update key]
     (if_key key (str ''u'') (decode_nextRC pton netid)
     (entries_then [BEncodeMaybeVerifyVersion (CHR ''v'') lrcr_version_update LLARP_PROTO_VERSION key]
     (if_key key (str ''w'') decode_work return_read))) (False, r, b))"

definition LR_CommitRecord_BDecode :: "pton \<Rightarrow> aligned \<Rightarrow> (LR_CommitRecord \<times> llarp_buffer) action" where
  "LR_CommitRecord_BDecode pton netid = decode_dict (LR_CommitRecord_OnKey pton netid)"

definition LR_CommitRecord_eq :: "LR_CommitRecord \<Rightarrow> LR_CommitRecord \<Rightarrow> bool" where
  "LR_CommitRecord_eq r other \<longleftrightarrow>
     (case (lrcr_work r, lrcr_work other) of (Some w, Some w') \<Rightarrow> w = w' | _ \<Rightarrow> True) \<and>
     lrcr_nextHop r = lrcr_nextHop other \<and> lrcr_commkey r = lrcr_commkey other \<and>
     lrcr_txid r = lrcr_txid other \<and> lrcr_rxid r = lrcr_rxid other"

text \<open>\<^verbatim>\<open>std::array<EncryptedFrame, 8>\<close> is a list of eight frames. Reading stores the frames one after the other from the first on.\<close>

record LR_CommitMessage =
  lrcm_version :: u64
  lrcm_frames :: "byte list list"

definition LR_CommitMessage_init :: LR_CommitMessage where
  "LR_CommitMessage_init = \<lparr>lrcm_version = LLARP_PROTO_VERSION, lrcm_frames = replicate 8 EncryptedFrame_init\<rparr>"

definition read_frames :: "(byte list list \<times> llarp_buffer) action" where
  "read_frames = (\<lambda>(frames, b).
     bind_res (BEncodeReadArray (Suc (size_left b)) (encrypted_BDecode EncryptedFrameSize) ((0, frames), b)) (\<lambda>(ok, ((idx, frames'), b')).
       Inr (ok, (frames', b'))))"

definition LR_Commit_DecodeKey :: "llarp_buffer \<Rightarrow> (LR_CommitMessage \<times> llarp_buffer) action" where
  "LR_Commit_DecodeKey key = (\<lambda>(m, b).
     if_key key (str ''c'') (decode_field read_frames lrcm_frames lrcm_frames_update)
     (entries_then [BEncodeMaybeVerifyVersion (CHR ''v'') lrcm_version_update LLARP_PROTO_VERSION key] return_read) (False, m, b))"

definition LR_Commit_Clear :: "LR_CommitMessage \<Rightarrow> LR_CommitMessage" where
  "LR_Commit_Clear m = m\<lparr>lrcm_frames := map (\<lambda>f. []) (lrcm_frames m), lrcm_version := 0\<rparr>"

definition LR_Commit_BEncode :: "LR_CommitMessage \<Rightarrow> llarp_buffer action" where
  "LR_Commit_BEncode m = all_steps
     (bencode_start_dict #
      [BEncodeWriteDictMsgType (CHR ''a'') (CHR ''c''),
       BEncodeWriteDictArray (CHR ''c'') encrypted_BEncode (lrcm_frames m),
       bencode_write_uint64_entry (str ''v'') LLARP_PROTO_VERSION] @ [bencode_end])"

section \<open>The status of a path build\<close>

definition LR_SUCCESS :: u64 where "LR_SUCCESS = 1"
definition LR_FAIL_TIMEOUT :: u64 where "LR_FAIL_TIMEOUT = 2"
definition LR_FAIL_CONGESTION :: u64 where "LR_FAIL_CONGESTION = 4"
definition LR_FAIL_DEST_UNKNOWN :: u64 where "LR_FAIL_DEST_UNKNOWN = 8"
definition LR_FAIL_DECRYPT_ERROR :: u64 where "LR_FAIL_DECRYPT_ERROR = 16"
definition LR_FAIL_MALFORMED_RECORD :: u64 where "LR_FAIL_MALFORMED_RECORD = 32"
definition LR_FAIL_DEST_INVALID :: u64 where "LR_FAIL_DEST_INVALID = 64"
definition LR_FAIL_CANNOT_CONNECT :: u64 where "LR_FAIL_CANNOT_CONNECT = 128"
definition LR_FAIL_DUPLICATE_HOP :: u64 where "LR_FAIL_DUPLICATE_HOP = 256"

record LR_StatusRecord =
  lrsr_status :: u64
  lrsr_version :: u64

definition LR_StatusRecord_init :: LR_StatusRecord where
  "LR_StatusRecord_init = \<lparr>lrsr_status = 0, lrsr_version = 0\<rparr>"

definition LR_StatusRecord_BEncode :: "LR_StatusRecord \<Rightarrow> llarp_buffer action" where
  "LR_StatusRecord_BEncode r = all_steps
     (bencode_start_dict #
      [BEncodeWriteDictInt (CHR ''s'') (lrsr_status r),
       bencode_write_uint64_entry (str ''v'') LLARP_PROTO_VERSION] @ [bencode_end])"

definition LR_StatusRecord_OnKey :: "llarp_buffer \<Rightarrow> (LR_StatusRecord \<times> llarp_buffer) action" where
  "LR_StatusRecord_OnKey key = decode_key_with
     [BEncodeMaybeReadDictInt (CHR ''s'') lrsr_status_update key,
      BEncodeMaybeVerifyVersion (CHR ''v'') lrsr_version_update LLARP_PROTO_VERSION key]"

definition LR_StatusRecord_BDecode :: "(LR_StatusRecord \<times> llarp_buffer) action" where
  "LR_StatusRecord_BDecode = decode_dict LR_StatusRecord_OnKey"

record LR_StatusMessage =
  lrsm_version :: u64
  lrsm_frames :: "byte list list"
  lrsm_pathid :: aligned
  lrsm_status :: u64

definition LR_StatusMessage_init :: LR_StatusMessage where
  "LR_StatusMessage_init = \<lparr>lrsm_version = LLARP_PROTO_VERSION, lrsm_frames = replicate 8 EncryptedFrame_init,
     lrsm_pathid = aligned_Zero 16, lrsm_status = 0\<rparr>"

text \<open>A key longer than the one it starts with passes the first comparison and the second one alike.\<close>

definition LR_Status_DecodeKey :: "llarp_buffer \<Rightarrow> (LR_StatusMessage \<times> llarp_buffer) action" where
  "LR_Status_DecodeKey key = (\<lambda>(m, b).
     if_key key (str ''c'') (decode_field read_frames lrsm_frames lrsm_frames_update)
     (entries_then
       [BEncodeMaybeReadDictEntry (CHR ''p'') (aligned_BDecode 16) lrsm_pathid lrsm_pathid_update key,
        BEncodeMaybeReadDictInt (CHR ''s'') lrsm_status_update key,
        BEncodeMaybeVerifyVersion (CHR ''v'') lrsm_version_update LLARP_PROTO_VERSION key] return_read) (False, m, b))"

definition LR_Status_Clear :: "LR_StatusMessage \<Rightarrow> LR_StatusMessage" where
  "LR_Status_Clear m = m\<lparr>lrsm_frames := map (\<lambda>f. []) (lrsm_frames m), lrsm_version := 0\<rparr>"

definition LR_Status_BEncode :: "LR_StatusMessage \<Rightarrow> llarp_buffer action" where
  "LR_Status_BEncode m = all_steps
     (bencode_start_dict #
      [BEncodeWriteDictMsgType (CHR ''a'') (CHR ''s''),
       BEncodeWriteDictArray (CHR ''c'') encrypted_BEncode (lrsm_frames m),
       BEncodeWriteDictEntry (CHR ''p'') (aligned_BEncode (lrsm_pathid m)),
       BEncodeWriteDictInt (CHR ''s'') (lrsm_status m),
       bencode_write_uint64_entry (str ''v'') LLARP_PROTO_VERSION] @ [bencode_end])"

text \<open>
  \<open>junk\<close> is what \<^verbatim>\<open>Randomize\<close> writes into the first frame, \<open>nonce\<close> and \<open>pubkey\<close> the random bytes that \<^verbatim>\<open>DoEncrypt\<close> draws,
  and \<open>behind\<close> the rest of the array of the frame. The record is written behind the overhead of the frame.
\<close>

record frame_random =
  fr_junk :: "nat \<Rightarrow> byte"
  fr_nonce :: aligned
  fr_pubkey :: aligned
  fr_behind :: "byte list"

definition AddFrame :: "sodium \<Rightarrow> frame_random \<Rightarrow> aligned \<Rightarrow> u64 \<Rightarrow> LR_StatusMessage action" where
  "AddFrame so rnd pathKey newStatus m =
     (let fs = lrsm_frames m;
          frame = map (fr_junk rnd) [0..<length (hd fs)];
          shifted = (\<lambda>f. m\<lparr>lrsm_frames := f # butlast fs\<rparr>);
          buf = \<lparr>mem = frame, cur = EncryptedFrameOverheadSize, bsz = length frame\<rparr>
      in bind_res (LR_StatusRecord_BEncode \<lparr>lrsr_status = newStatus, lrsr_version = LLARP_PROTO_VERSION\<rparr> buf) (\<lambda>(ok, buf).
           if \<not> ok then Inr (False, shifted (mem buf))
           else bind_res (DoEncrypt so pathKey (Some (fr_nonce rnd, fr_pubkey rnd)) (fr_behind rnd) (mem buf)) (\<lambda>(ok, frame). Inr (ok, shifted frame))))"

text \<open>\<^verbatim>\<open>CreateAndSend\<close>: the message that is handed to the router for the hop, or none when the record does not fit its frame.\<close>

definition CreateAndSend ::
  "sodium \<Rightarrow> frame_random \<Rightarrow> aligned \<Rightarrow> aligned \<Rightarrow> aligned \<Rightarrow> u64 \<Rightarrow> (aligned \<times> LR_StatusMessage) option res" where
  "CreateAndSend so rnd pathid nextHop pathKey status =
     bind_res (AddFrame so rnd pathKey status (LR_StatusMessage_init\<lparr>lrsm_status := status AND LR_SUCCESS, lrsm_pathid := pathid\<rparr>))
       (\<lambda>(ok, message). Inr (if ok then Some (nextHop, message) else None))"

section \<open>Discarded padding\<close>

record DiscardMessage =
  dis_version :: u64

definition Discard_BEncode :: "DiscardMessage \<Rightarrow> llarp_buffer action" where
  "Discard_BEncode m = all_steps
     (bencode_start_dict # [bencode_write_bytestring (str ''a''), bencode_write_bytestring (str ''x'')] @ [bencode_end])"

definition Discard_Clear :: "DiscardMessage \<Rightarrow> DiscardMessage" where
  "Discard_Clear m = m\<lparr>dis_version := 0\<rparr>"

definition Discard_DecodeKey :: "llarp_buffer \<Rightarrow> (DiscardMessage \<times> llarp_buffer) action" where
  "Discard_DecodeKey key = (\<lambda>(m, b).
     if_key key (str ''a'') (read_type (ch CHR ''x'')) (\<lambda>(read, m, b). Inr (False, (m, b))) (False, m, b))"

section \<open>Any message\<close>

datatype link_message =
    Li LinkIntroMessage | Ld RelayMessage | Lu RelayMessage | Lm DHTImmediateMessage | Lc LR_CommitMessage | Ls LR_StatusMessage
  | Lx DiscardMessage

primrec link_BEncode :: "ntop \<Rightarrow> link_message \<Rightarrow> llarp_buffer action" where
  "link_BEncode ntop (Li m) = LinkIntro_BEncode ntop m"
| "link_BEncode ntop (Ld m) = RelayDownstream_BEncode m"
| "link_BEncode ntop (Lu m) = RelayUpstream_BEncode m"
| "link_BEncode ntop (Lm m) = DHTImmediate_BEncode ntop m"
| "link_BEncode ntop (Lc m) = LR_Commit_BEncode m"
| "link_BEncode ntop (Ls m) = LR_Status_BEncode m"
| "link_BEncode ntop (Lx m) = Discard_BEncode m"

text \<open>\<open>session\<close> is the key of the router at the other end of the link.\<close>

definition link_DecodeKey ::
  "(byte list \<Rightarrow> aligned) \<Rightarrow> pton \<Rightarrow> aligned \<Rightarrow> aligned \<Rightarrow> llarp_buffer \<Rightarrow> (link_message \<times> llarp_buffer) action" where
  "link_DecodeKey hash pton netid session key = (\<lambda>(msg, b).
     case msg of
       Li m \<Rightarrow> lift_case Li (LinkIntro_DecodeKey pton key (m, b))
     | Ld m \<Rightarrow> lift_case Ld (Relay_DecodeKey key (m, b))
     | Lu m \<Rightarrow> lift_case Lu (Relay_DecodeKey key (m, b))
     | Lm m \<Rightarrow> lift_case Lm (DHTImmediate_DecodeKey hash pton netid session key (m, b))
     | Lc m \<Rightarrow> lift_case Lc (LR_Commit_DecodeKey key (m, b))
     | Ls m \<Rightarrow> lift_case Ls (LR_Status_DecodeKey key (m, b))
     | Lx m \<Rightarrow> lift_case Lx (Discard_DecodeKey key (m, b)))"

primrec link_Clear :: "link_message \<Rightarrow> link_message" where
  "link_Clear (Li m) = Li (LinkIntro_Clear m)"
| "link_Clear (Ld m) = Ld (Relay_Clear m)"
| "link_Clear (Lu m) = Lu (Relay_Clear m)"
| "link_Clear (Lm m) = Lm (DHTImmediateMessage_Clear m)"
| "link_Clear (Lc m) = Lc (LR_Commit_Clear m)"
| "link_Clear (Ls m) = Ls (LR_Status_Clear m)"
| "link_Clear (Lx m) = Lx (Discard_Clear m)"

section \<open>The parser\<close>

record msg_holder =
  lh_i :: LinkIntroMessage
  lh_d :: RelayMessage
  lh_u :: RelayMessage
  lh_m :: DHTImmediateMessage
  lh_c :: LR_CommitMessage
  lh_s :: LR_StatusMessage
  lh_x :: DiscardMessage

definition msg_holder_init :: "aligned \<Rightarrow> msg_holder" where
  "msg_holder_init netid = \<lparr>lh_i = LinkIntroMessage_init netid, lh_d = RelayMessage_init, lh_u = RelayMessage_init,
     lh_m = \<lparr>dim_msgs = [], dim_version = LLARP_PROTO_VERSION\<rparr>, lh_c = LR_CommitMessage_init, lh_s = LR_StatusMessage_init,
     lh_x = \<lparr>dis_version = LLARP_PROTO_VERSION\<rparr>\<rparr>"

definition link_holder_get :: "msg_holder \<Rightarrow> byte \<Rightarrow> link_message option" where
  "link_holder_get h c =
     (if c = ch CHR ''i'' then Some (Li (lh_i h)) else if c = ch CHR ''d'' then Some (Ld (lh_d h))
      else if c = ch CHR ''u'' then Some (Lu (lh_u h)) else if c = ch CHR ''m'' then Some (Lm (lh_m h))
      else if c = ch CHR ''c'' then Some (Lc (lh_c h)) else if c = ch CHR ''s'' then Some (Ls (lh_s h))
      else if c = ch CHR ''x'' then Some (Lx (lh_x h)) else None)"

primrec link_holder_put :: "link_message \<Rightarrow> msg_holder \<Rightarrow> msg_holder" where
  "link_holder_put (Li m) h = h\<lparr>lh_i := m\<rparr>"
| "link_holder_put (Ld m) h = h\<lparr>lh_d := m\<rparr>"
| "link_holder_put (Lu m) h = h\<lparr>lh_u := m\<rparr>"
| "link_holder_put (Lm m) h = h\<lparr>lh_m := m\<rparr>"
| "link_holder_put (Lc m) h = h\<lparr>lh_c := m\<rparr>"
| "link_holder_put (Ls m) h = h\<lparr>lh_s := m\<rparr>"
| "link_holder_put (Lx m) h = h\<lparr>lh_x := m\<rparr>"

text \<open>
  \<open>handle\<close> is \<^verbatim>\<open>HandleMessage\<close> of the message, on a state of its own. A message that ends is handled and then cleared; after a failure
  the object keeps what was read into it.
\<close>

definition MessageDone :: "(link_message \<Rightarrow> 's \<Rightarrow> bool \<times> 's) \<Rightarrow> link_message \<Rightarrow> msg_holder \<times> 's \<Rightarrow> bool \<times> msg_holder \<times> 's" where
  "MessageDone handle m = (\<lambda>(h, st). let (result, st) = handle m st in (result, (link_holder_put (link_Clear m) h, st)))"

definition ProcessFrom ::
  "(byte list \<Rightarrow> aligned) \<Rightarrow> pton \<Rightarrow> aligned \<Rightarrow> (link_message \<Rightarrow> 's \<Rightarrow> bool \<times> 's) \<Rightarrow> aligned \<Rightarrow> byte list \<Rightarrow>
     msg_holder \<times> 's \<Rightarrow> (bool \<times> msg_holder \<times> 's) res" where
  "ProcessFrom hash pton netid handle session buf = (\<lambda>(h, st).
     bind_res (typed_decode (str ''a'') (link_holder_get h) (link_DecodeKey hash pton netid session) (None, buffer_of buf))
       (\<lambda>(ok, (msg, _)).
         case msg of
           None \<Rightarrow> Inr (False, (h, st))
         | Some m \<Rightarrow> if ok then Inr (MessageDone handle m (h, st)) else Inr (False, (link_holder_put m h, st))))"

section \<open>The codecs\<close>

text \<open>Reading frames into the array from index \<open>idx\<close> on.\<close>

abbreviation frame_sink :: "bool \<Rightarrow> ((nat \<times> byte list list) \<times> llarp_buffer) action" where
  "frame_sink \<equiv> (\<lambda>has ((idx, arr), b).
     if has then
       if idx \<ge> length arr then Inr (False, ((idx, arr), b))
       else bind_res (encrypted_BDecode EncryptedFrameSize (arr ! idx, b)) (\<lambda>(ok, (x, b')). Inr (ok, ((idx + 1, arr[idx := x]), b')))
     else Inr (True, ((idx, arr), b)))"

lemma frame_loop:
  assumes "wf_buf b" and "remaining b = concat (map wire_string fs) @ 101 # rest" and "length fs < n"
    and "idx + length fs \<le> length arr" and "\<And>f. f \<in> set fs \<Longrightarrow> length f \<le> EncryptedFrameSize"
  shows "list_loop n frame_sink ((idx, arr), b) =
    Inr (True, ((idx + length fs, take idx arr @ fs @ drop (idx + length fs) arr), advance (length (concat (map wire_string fs))) b))"
  using assms
proof (induction fs arbitrary: n idx arr b)
  case Nil
  then obtain m where "n = Suc m" by (cases n) auto
  moreover have "size_left b \<noteq> 0" "deref b = Inr 101"
    using Nil by (auto simp: size_left_remaining intro: deref_remaining)
  ultimately show ?case by simp
next
  case (Cons f fs)
  let ?b = "advance (length (wire_string f)) b" and ?arr = "arr[idx := f]"
  obtain m where m: "n = Suc m" "length fs < m" using Cons.prems(3) by (cases n) auto
  obtain c cs where wx: "wire_string f = c # cs" "c \<noteq> 101"
    using hd_wire_string [of f] isdigit_not by blast
  have rem: "remaining b = wire_string f @ concat (map wire_string fs) @ 101 # rest" using Cons.prems(2) by simp
  have st: "size_left b \<noteq> 0" "deref b = Inr c"
    using Cons.prems(1) rem wx by (auto simp: size_left_remaining intro: deref_remaining)
  have d: "encrypted_BDecode EncryptedFrameSize (arr ! idx, b) = Inr (True, (f, ?b))"
    using Cons.prems(5) by (intro encrypted_decode_wire [OF _ _ Cons.prems(1) rem]) (simp_all add: frame_size_defs)
  have "list_loop m frame_sink ((idx + 1, ?arr), ?b) =
      Inr (True, ((idx + 1 + length fs, take (idx + 1) ?arr @ fs @ drop (idx + 1 + length fs) ?arr),
        advance (length (concat (map wire_string fs))) ?b))"
    using Cons.prems rem m by (intro Cons.IH) (auto intro: wf_buf_advance)
  moreover have "take (idx + 1) ?arr = take idx arr @ [f]" "drop (idx + 1 + length fs) ?arr = drop (idx + 1 + length fs) arr"
    using Cons.prems(4) by (simp_all add: take_Suc_conv_app_nth)
  ultimately show ?case
    using st d m(1) wx(2) Cons.prems(4) by (simp add: add.assoc)
qed

lemma frames_hit [key_simps]:
  assumes "wf_buf b" and "remaining b = list_wire wire_string fs @ rest" and "length fs = length arr"
    and "\<And>f. f \<in> set fs \<Longrightarrow> length f \<le> EncryptedFrameSize"
  shows "read_frames (arr, b) = Inr (True, (fs, advance (length (list_wire wire_string fs)) b))"
proof -
  let ?ws = "concat (map wire_string fs)"
  have rem: "remaining b = 108 # ?ws @ 101 # rest" using assms(2) by (simp add: list_wire_def)
  have wf1: "wf_buf (advance 1 b)" using assms(1) rem by (simp add: wf_buf_advance)
  have "length fs \<le> length ?ws" by (rule length_concat_ge) (simp add: wire_string_def)
  then have n: "length fs < Suc (size_left b)" using assms(1) rem by (simp add: size_left_remaining)
  have loop: "list_loop (Suc (size_left b)) frame_sink ((0, arr), advance 1 b) =
      Inr (True, ((length fs, fs), advance (length ?ws) (advance 1 b)))"
    using frame_loop [of "advance 1 b" fs rest "Suc (size_left b)" 0 arr] wf1 rem n assms(3,4) by simp
  have "deref (advance (length ?ws) (advance 1 b)) = Inr 101"
    using assms(1) rem by (intro deref_remaining [where cs = rest]) (auto intro: wf_buf_advance)
  moreover have "\<not> size_left b < 2" "deref b = Inr 108"
    using assms(1) rem by (auto simp: size_left_remaining intro: deref_remaining)
  ultimately show ?thesis
    using loop by (simp add: read_frames_def BEncodeReadArray_def bencode_read_list_def list_wire_def)
qed

lemma decode_version_hit [key_simps]:
  "wf_buf b \<Longrightarrow> remaining b = wire_int LLARP_PROTO_VERSION @ rest \<Longrightarrow>
   decode_version upd (m, b) = Inr (True, (upd (\<lambda>_. LLARP_PROTO_VERSION) m, advance (length (wire_int LLARP_PROTO_VERSION)) b))"
  by (simp add: decode_version_def bencode_read_integer_wire)

lemma contact_hit [key_simps]:
  assumes "wf_buf b" and "remaining b = dict_wire (RouterContact_entries ntop r) @ rest" and "inet_ok ntop pton" and "RouterContact_valid r"
  shows "RouterContact_BDecode pton (r0, b) = Inr (True, (r, advance (length (dict_wire (RouterContact_entries ntop r))) b))"
  using decode_dict_entries [OF RouterContact_decodes [OF assms(3,4)] assms(1,2)] RouterContact_apply [OF assms(4)]
  by (simp add: RouterContact_BDecode_def)

definition LinkIntro_entries :: "ntop \<Rightarrow> LinkIntroMessage \<Rightarrow> LinkIntroMessage entry list" where
  "LinkIntro_entries ntop m =
     [(CHR ''n'', wire_string (lim_N m), lim_N_update (\<lambda>_. lim_N m)),
      (CHR ''p'', wire_int (lim_P m), lim_P_update (\<lambda>_. lim_P m)),
      (CHR ''r'', dict_wire (RouterContact_entries ntop (lim_rc m)), lim_rc_update (\<lambda>_. lim_rc m)),
      (CHR ''v'', wire_int LLARP_PROTO_VERSION, lim_version_update (\<lambda>_. LLARP_PROTO_VERSION)),
      (CHR ''z'', wire_string (lim_Z m), lim_Z_update (\<lambda>_. lim_Z m))]"

definition Relay_entries :: "RelayMessage \<Rightarrow> RelayMessage entry list" where
  "Relay_entries m =
     [(CHR ''p'', wire_string (rm_pathid m), rm_pathid_update (\<lambda>_. rm_pathid m)),
      (CHR ''v'', wire_int LLARP_PROTO_VERSION, rm_version_update (\<lambda>_. LLARP_PROTO_VERSION)),
      (CHR ''x'', wire_string (rm_X m), rm_X_update (\<lambda>_. rm_X m)),
      (CHR ''y'', wire_string (rm_Y m), rm_Y_update (\<lambda>_. rm_Y m))]"

definition DHTImmediate_entries :: "ntop \<Rightarrow> aligned \<Rightarrow> DHTImmediateMessage \<Rightarrow> DHTImmediateMessage entry list" where
  "DHTImmediate_entries ntop session m =
     [(CHR ''m'', list_wire (dht_wire ntop) (dim_msgs m), dim_msgs_update (\<lambda>xs. xs @ map (dht_received session False) (dim_msgs m))),
      (CHR ''v'', wire_int LLARP_PROTO_VERSION, dim_version_update (\<lambda>_. LLARP_PROTO_VERSION))]"

definition LR_Commit_entries :: "LR_CommitMessage \<Rightarrow> LR_CommitMessage entry list" where
  "LR_Commit_entries m =
     [(CHR ''c'', list_wire wire_string (lrcm_frames m), lrcm_frames_update (\<lambda>_. lrcm_frames m)),
      (CHR ''v'', wire_int LLARP_PROTO_VERSION, lrcm_version_update (\<lambda>_. LLARP_PROTO_VERSION))]"

definition LR_Status_entries :: "LR_StatusMessage \<Rightarrow> LR_StatusMessage entry list" where
  "LR_Status_entries m =
     [(CHR ''c'', list_wire wire_string (lrsm_frames m), lrsm_frames_update (\<lambda>_. lrsm_frames m)),
      (CHR ''p'', wire_string (lrsm_pathid m), lrsm_pathid_update (\<lambda>_. lrsm_pathid m)),
      (CHR ''s'', wire_int (lrsm_status m), lrsm_status_update (\<lambda>_. lrsm_status m)),
      (CHR ''v'', wire_int LLARP_PROTO_VERSION, lrsm_version_update (\<lambda>_. LLARP_PROTO_VERSION))]"

lemmas link_entries_defs = LinkIntro_entries_def Relay_entries_def DHTImmediate_entries_def LR_Commit_entries_def LR_Status_entries_def

definition frames_ok :: "byte list list \<Rightarrow> bool" where
  "frames_ok fs \<longleftrightarrow> length fs = 8 \<and> list_all (\<lambda>f. length f \<le> EncryptedFrameSize) fs"

definition Relay_ok :: "RelayMessage \<Rightarrow> bool" where
  "Relay_ok m \<longleftrightarrow> length (rm_pathid m) = 16 \<and> length (rm_X m) \<le> MAX_LINK_MSG_SIZE - 128 \<and> length (rm_Y m) = 32"

primrec link_valid :: "(byte list \<Rightarrow> aligned) \<Rightarrow> ntop \<Rightarrow> pton \<Rightarrow> link_message \<Rightarrow> bool" where
  "link_valid hash ntop pton (Li m) \<longleftrightarrow> inet_ok ntop pton \<and> RouterContact_valid (lim_rc m) \<and> length (lim_N m) = 32 \<and> length (lim_Z m) = 64"
| "link_valid hash ntop pton (Ld m) \<longleftrightarrow> Relay_ok m"
| "link_valid hash ntop pton (Lu m) \<longleftrightarrow> Relay_ok m"
| "link_valid hash ntop pton (Lm m) \<longleftrightarrow> list_all (dht_valid hash ntop pton) (dim_msgs m)"
| "link_valid hash ntop pton (Lc m) \<longleftrightarrow> frames_ok (lrcm_frames m)"
| "link_valid hash ntop pton (Ls m) \<longleftrightarrow> frames_ok (lrsm_frames m) \<and> length (lrsm_pathid m) = 16"
| "link_valid hash ntop pton (Lx m) \<longleftrightarrow> True"

primrec link_type :: "link_message \<Rightarrow> char" where
  "link_type (Li m) = CHR ''i''" | "link_type (Ld m) = CHR ''d''" | "link_type (Lu m) = CHR ''u''" | "link_type (Lm m) = CHR ''m''"
| "link_type (Lc m) = CHR ''c''" | "link_type (Ls m) = CHR ''s''" | "link_type (Lx m) = CHR ''x''"

primrec link_entries :: "ntop \<Rightarrow> aligned \<Rightarrow> link_message \<Rightarrow> link_message entry list" where
  "link_entries ntop session (Li m) = lift_entries Li (\<lambda>x. case x of Li m \<Rightarrow> m) (LinkIntro_entries ntop m)"
| "link_entries ntop session (Ld m) = lift_entries Ld (\<lambda>x. case x of Ld m \<Rightarrow> m) (Relay_entries m)"
| "link_entries ntop session (Lu m) = lift_entries Lu (\<lambda>x. case x of Lu m \<Rightarrow> m) (Relay_entries m)"
| "link_entries ntop session (Lm m) = lift_entries Lm (\<lambda>x. case x of Lm m \<Rightarrow> m) (DHTImmediate_entries ntop session m)"
| "link_entries ntop session (Lc m) = lift_entries Lc (\<lambda>x. case x of Lc m \<Rightarrow> m) (LR_Commit_entries m)"
| "link_entries ntop session (Ls m) = lift_entries Ls (\<lambda>x. case x of Ls m \<Rightarrow> m) (LR_Status_entries m)"
| "link_entries ntop session (Lx m) = []"

definition link_wire :: "ntop \<Rightarrow> link_message \<Rightarrow> byte list" where
  "link_wire ntop m = typed_wire (CHR ''a'') (link_type m) (link_entries ntop [] m)"

text \<open>The text of a message does not depend on the session it arrives on.\<close>

lemma link_wire_session: "typed_wire (CHR ''a'') (link_type m) (link_entries ntop session m) = link_wire ntop m"
  by (cases m) (simp_all add: link_wire_def DHTImmediate_entries_def typed_wire_def dict_wire_def entry_wire_def lift_entries_def)

lemma emits_frames [emit_intros]: "emits (BEncodeWriteDictArray k encrypted_BEncode fs) (wire_string [ch k] @ list_wire wire_string fs)"
  by (rule emits_DictArray(1)) (rule emit_intros)

lemma link_emits:
  assumes "link_valid hash ntop pton m"
  shows "emits (link_BEncode ntop m) (link_wire ntop m)"
proof (cases m)
  case (Li x)
  with assms have "emits (RouterContact_BEncode ntop (lim_rc x)) (dict_wire (RouterContact_entries ntop (lim_rc x)))"
    by (intro RouterContact_emits [of ntop pton]) simp_all
  note R = this
  show ?thesis unfolding link_wire_def Li link_BEncode.simps LinkIntro_BEncode_def link_entries.simps lift_entries_wire
    by (rule emits_typed, rule emit_intros, rule emits_write_bytestring, (rule R emits_write_bytestring emits_write_uint64 emit_intros)+)
      (simp add: LinkIntro_entries_def)
next
  case (Ld x)
  show ?thesis unfolding link_wire_def Ld link_BEncode.simps RelayDownstream_BEncode_def link_entries.simps lift_entries_wire
    by (rule emits_typed, rule emit_intros, (rule emit_intros)+) (simp add: Relay_entries_def)
next
  case (Lu x)
  show ?thesis unfolding link_wire_def Lu link_BEncode.simps RelayUpstream_BEncode_def link_entries.simps lift_entries_wire
    by (rule emits_typed, rule emit_intros, (rule emit_intros)+) (simp add: Relay_entries_def)
next
  case (Lm x)
  have "list_all2 emits (map (dht_BEncode ntop) (dim_msgs x)) (map (dht_wire ntop) (dim_msgs x))"
    using assms Lm by (auto simp: list_all_iff list_all2_conv_all_nth intro: dht_emits)
  then have "list_all2 emits ([bencode_write_bytestring (str ''a''), bencode_write_bytestring (str ''m''),
        bencode_write_bytestring (str ''m''), bencode_start_list] @ map (dht_BEncode ntop) (dim_msgs x) @
        [bencode_end, bencode_write_uint64_entry (str ''v'') LLARP_PROTO_VERSION])
      ([wire_string (str ''a''), wire_string (str ''m''), wire_string (str ''m''), [108]] @ map (dht_wire ntop) (dim_msgs x) @
        [[101], wire_string (str ''v'') @ wire_int LLARP_PROTO_VERSION])"
    by (intro list_all2_appendI) (auto intro: emits_write_bytestring emit_intros)
  then show ?thesis unfolding link_wire_def Lm link_BEncode.simps DHTImmediate_BEncode_def link_entries.simps lift_entries_wire
    by (rule emits_typed) (simp add: DHTImmediate_entries_def list_wire_def)
next
  case (Lc x)
  show ?thesis unfolding link_wire_def Lc link_BEncode.simps LR_Commit_BEncode_def link_entries.simps lift_entries_wire
    by (rule emits_typed, rule emit_intros, (rule emit_intros)+) (simp add: LR_Commit_entries_def)
next
  case (Ls x)
  show ?thesis unfolding link_wire_def Ls link_BEncode.simps LR_Status_BEncode_def link_entries.simps lift_entries_wire
    by (rule emits_typed, rule emit_intros, (rule emit_intros)+) (simp add: LR_Status_entries_def)
next
  case (Lx x)
  show ?thesis unfolding link_wire_def Lx link_BEncode.simps Discard_BEncode_def link_entries.simps
    by (rule emits_typed, rule emit_intros, (rule emits_write_bytestring emit_intros)+) simp
qed

lemma LinkIntro_decodes:
  assumes "inet_ok ntop pton" and "RouterContact_valid (lim_rc m)" and "length (lim_N m) = 32" and "length (lim_Z m) = 64"
    and "e \<in> set (LinkIntro_entries ntop m)"
  shows "decodes (LinkIntro_DecodeKey pton) e"
  using assms(5) by (auto intro!: decodesI simp: LinkIntro_entries_def LinkIntro_DecodeKey_def key_simps contact_hit [OF _ _ assms(1,2)] assms(3,4))

lemma Relay_decodes:
  assumes "Relay_ok m" and "e \<in> set (Relay_entries m)"
  shows "decodes Relay_DecodeKey e"
proof -
  have v: "length (rm_pathid m) = 16" "length (rm_X m) \<le> MAX_LINK_MSG_SIZE - 128" "length (rm_Y m) = 32"
    using assms(1) by (simp_all add: Relay_ok_def)
  have sz: "MAX_LINK_MSG_SIZE - 128 < 10 ^ 9" by (simp add: MAX_LINK_MSG_SIZE_def)
  show ?thesis using assms(2)
    by (auto intro!: decodesI simp: Relay_entries_def Relay_DecodeKey_def key_simps v encrypted_hit [OF _ _ v(2) sz])
qed

lemma DHTImmediate_decodes:
  assumes "list_all (dht_valid hash ntop pton) (dim_msgs m)" and "e \<in> set (DHTImmediate_entries ntop session m)"
  shows "decodes (DHTImmediate_DecodeKey hash pton netid session) e"
proof -
  have l: "\<And>x. x \<in> set (dim_msgs m) \<Longrightarrow> dht_valid hash ntop pton x" using assms(1) by (simp add: list_all_iff)
  show ?thesis using assms(2)
    by (auto intro!: decodesI simp: DHTImmediate_entries_def DHTImmediate_DecodeKey_def key_simps dht_list_hit [OF l])
qed

lemma LR_Commit_decodes:
  assumes "frames_ok (lrcm_frames m)" and "length (lrcm_frames m0) = 8"
  shows "decodes_all LR_Commit_DecodeKey m0 (LR_Commit_entries m)"
proof -
  have v: "length (lrcm_frames m) = length (lrcm_frames m0)" "\<And>f. f \<in> set (lrcm_frames m) \<Longrightarrow> length f \<le> EncryptedFrameSize"
    using assms by (auto simp: frames_ok_def list_all_iff)
  show ?thesis
    by (auto intro!: decodes_atI simp: LR_Commit_entries_def LR_Commit_DecodeKey_def key_simps frames_hit [OF _ _ v])
qed

lemma LR_Status_decodes:
  assumes "frames_ok (lrsm_frames m)" and "length (lrsm_pathid m) = 16" and "length (lrsm_frames m0) = 8"
  shows "decodes_all LR_Status_DecodeKey m0 (LR_Status_entries m)"
proof -
  have v: "length (lrsm_frames m) = length (lrsm_frames m0)" "\<And>f. f \<in> set (lrsm_frames m) \<Longrightarrow> length f \<le> EncryptedFrameSize"
    using assms by (auto simp: frames_ok_def list_all_iff)
  show ?thesis
    by (auto intro!: decodes_atI simp: LR_Status_entries_def LR_Status_DecodeKey_def key_simps frames_hit [OF _ _ v] assms(2))
qed

section \<open>Reading what was written\<close>

text \<open>Between complete messages the arrays have their eight frames and no DHT message is left over.\<close>

definition link_holder_ok :: "msg_holder \<Rightarrow> bool" where
  "link_holder_ok h \<longleftrightarrow> length (lrcm_frames (lh_c h)) = 8 \<and> length (lrsm_frames (lh_s h)) = 8 \<and> dim_msgs (lh_m h) = []"

primrec link_received :: "aligned \<Rightarrow> msg_holder \<Rightarrow> link_message \<Rightarrow> link_message" where
  "link_received session h (Li m) = Li (m\<lparr>lim_version := LLARP_PROTO_VERSION\<rparr>)"
| "link_received session h (Ld m) = Ld (m\<lparr>rm_version := LLARP_PROTO_VERSION\<rparr>)"
| "link_received session h (Lu m) = Lu (m\<lparr>rm_version := LLARP_PROTO_VERSION\<rparr>)"
| "link_received session h (Lm m) = Lm \<lparr>dim_msgs = map (dht_received session False) (dim_msgs m), dim_version = LLARP_PROTO_VERSION\<rparr>"
| "link_received session h (Lc m) = Lc (m\<lparr>lrcm_version := LLARP_PROTO_VERSION\<rparr>)"
| "link_received session h (Ls m) = Ls (m\<lparr>lrsm_version := LLARP_PROTO_VERSION\<rparr>)"
| "link_received session h (Lx m) = Lx (lh_x h)"

primrec link_object :: "msg_holder \<Rightarrow> link_message \<Rightarrow> link_message" where
  "link_object h (Li m) = Li (lh_i h)" | "link_object h (Ld m) = Ld (lh_d h)" | "link_object h (Lu m) = Lu (lh_u h)"
| "link_object h (Lm m) = Lm (lh_m h)" | "link_object h (Lc m) = Lc (lh_c h)" | "link_object h (Ls m) = Ls (lh_s h)"
| "link_object h (Lx m) = Lx (lh_x h)"

lemma link_holder_get_type: "link_holder_get h (ch (link_type m)) = Some (link_object h m)"
  by (cases m) (simp_all add: link_holder_get_def)

lemma link_decodes:
  assumes "link_valid hash ntop pton m" and "link_holder_ok h"
  shows "decodes_all (link_DecodeKey hash pton netid session) (link_object h m) (link_entries ntop session m)"
proof -
  note L = lift_entries_decode(1) [where D' = "link_DecodeKey hash pton netid session"]
  note A = LinkIntro_decodes Relay_decodes DHTImmediate_decodes
  note all_fields = A [THEN decodes_all_decodes] LR_Commit_decodes LR_Status_decodes
  from assms show ?thesis
    by (cases m) (auto simp: link_DecodeKey_def link_holder_ok_def intro!: L all_fields)
qed

lemma link_apply:
  assumes "link_holder_ok h"
  shows "apply_entries (link_entries ntop session m) (link_object h m) = link_received session h m"
  using assms by (cases m) (auto simp: link_holder_ok_def apply_lift_entries link_entries_defs)

lemma link_holder_put_ok:
  "link_holder_ok h \<Longrightarrow> link_valid hash ntop pton m \<Longrightarrow> link_holder_ok (link_holder_put (link_Clear (link_received session h m)) h)"
  by (cases m) (simp_all add: link_holder_ok_def frames_ok_def LR_Commit_Clear_def LR_Status_Clear_def DHTImmediateMessage_Clear_def)

lemma process_wire:
  assumes "link_valid hash ntop pton m" and "link_holder_ok h" and "handle (link_received session h m) st = (result, st')"
  shows "ProcessFrom hash pton netid handle session (link_wire ntop m) (h, st) =
    Inr (result, (link_holder_put (link_Clear (link_received session h m)) h, st'))"
proof -
  let ?w = "link_wire ntop m"
  have "typed_decode [ch CHR ''a''] (link_holder_get h) (link_DecodeKey hash pton netid session) (None, buffer_of ?w) =
      Inr (True, (Some (apply_entries (link_entries ntop session m) (link_object h m)),
        advance (length (typed_wire (CHR ''a'') (link_type m) (link_entries ntop session m))) (buffer_of ?w)))"
    by (rule typed_decode_all [where rest = "[]"])
      (use assms in \<open>simp_all add: link_decodes link_holder_get_type link_wire_session\<close>)
  then show ?thesis
    using assms(3) by (simp add: ProcessFrom_def MessageDone_def link_apply [OF assms(2)])
qed

section \<open>Refused messages\<close>

text \<open>A dictionary whose first entries are read and whose next entry is refused.\<close>

lemma dict_loop_stops:
  assumes sink: "\<And>ys x zs b kb rest. xs = ys @ x # zs \<Longrightarrow> wf_buf b \<Longrightarrow> wf_buf kb \<Longrightarrow> remaining kb = key x \<Longrightarrow> remaining b = w x @ rest \<Longrightarrow>
      sink (Some kb) (fold upd ys s, b) = Inr (True, (upd x (fold upd ys s), advance (length (w x)) b))"
    and stop: "\<And>b kb. wf_buf b \<Longrightarrow> wf_buf kb \<Longrightarrow> remaining kb = k0 \<Longrightarrow> remaining b = rest \<Longrightarrow>
      \<exists>b'. sink (Some kb) (fold upd xs s, b) = Inr (False, (s', b'))"
    and k: "\<And>x. x \<in> set xs \<Longrightarrow> length (key x) < 10 ^ 9" "length k0 < 10 ^ 9"
    and wf: "wf_buf b"
    and rem: "remaining b = concat (map (\<lambda>x. wire_string (key x) @ w x) xs) @ wire_string k0 @ rest"
    and n: "length xs < n"
  shows "\<exists>b'. dict_loop n sink (s, b) = Inr (False, (s', b'))"
  using sink stop k(1) wf rem n
proof (induction xs arbitrary: n s b)
  case Nil
  obtain m where m: "n = Suc m" using Nil(6) by (cases n) auto
  obtain c cs where wx: "wire_string k0 = c # cs" "c \<noteq> 101"
    using hd_wire_string [of k0] isdigit_not by blast
  have rem: "remaining b = wire_string k0 @ rest" using Nil(5) by simp
  have st: "size_left b \<noteq> 0" "deref b = Inr c"
    using Nil(4) rem wx by (auto simp: size_left_remaining intro: deref_remaining)
  from Nil(4) rem k(2) obtain kb where kb: "bencode_read_string b = Inr (Some kb, advance (length (wire_string k0)) b)"
    "wf_buf kb" "remaining kb = k0"
    by (rule read_string_key)
  have "wf_buf (advance (length (wire_string k0)) b)" using Nil(4) rem by (simp add: wf_buf_advance)
  from Nil(2) [OF this kb(2,3)] rem show ?case
    using st kb(1) m wx(2) by (auto simp: and_then_def)
next
  case (Cons x xs)
  let ?n = "length (wire_string (key x))"
  obtain m where m: "n = Suc m" "length xs < m" using Cons.prems(6) by (cases n) auto
  obtain c cs where wx: "wire_string (key x) = c # cs" "c \<noteq> 101"
    using hd_wire_string [of "key x"] isdigit_not by blast
  let ?ws = "concat (map (\<lambda>x. wire_string (key x) @ w x) xs) @ wire_string k0 @ rest"
  have rem: "remaining b = wire_string (key x) @ w x @ ?ws" using Cons.prems(5) by simp
  have st: "size_left b \<noteq> 0" "deref b = Inr c"
    using Cons.prems(4) rem wx by (auto simp: size_left_remaining intro: deref_remaining)
  have "length (key x) < 10 ^ 9" using Cons.prems(3) by simp
  with Cons.prems(4) rem obtain kb where kb: "bencode_read_string b = Inr (Some kb, advance ?n b)"
    "wf_buf kb" "remaining kb = key x"
    by (rule read_string_key)
  have wf1: "wf_buf (advance ?n b)" using Cons.prems(4) rem by (simp add: wf_buf_advance)
  have s1: "sink (Some kb) (s, advance ?n b) = Inr (True, (upd x s, advance (length (w x)) (advance ?n b)))"
    using Cons.prems(1) [of "[]" x xs "advance ?n b" kb ?ws] wf1 kb rem by simp
  have "\<exists>b'. dict_loop m sink (upd x s, advance (length (w x)) (advance ?n b)) = Inr (False, (s', b'))"
  proof (rule Cons.IH)
    show "wf_buf (advance (length (w x)) (advance ?n b))"
      using wf_buf_advance [OF wf1, of "length (w x)"] rem by simp
    show "sink (Some kb) (fold upd ys (upd x s), b) =
        Inr (True, (upd y (fold upd ys (upd x s)), advance (length (w y)) b))"
      if "xs = ys @ y # zs" "wf_buf b" "wf_buf kb" "remaining kb = key y" "remaining b = w y @ rest'"
      for ys y zs b kb rest'
      using Cons.prems(1) [of "x # ys" y zs b kb rest'] that by simp
    show "\<exists>b'. sink (Some kb) (fold upd xs (upd x s), b) = Inr (False, (s', b'))"
      if "wf_buf b" "wf_buf kb" "remaining kb = k0" "remaining b = rest" for b kb
      using Cons.prems(2) [OF that] by simp
  qed (use Cons.prems(3) m rem in auto)
  with st kb(1) s1 m wx(2) show ?case by simp
qed

lemma read_dict_stops:
  assumes "\<exists>b'. dict_loop n sink (s, advance 1 b) = Inr (False, (s', b'))" and "wf_buf b" and "remaining b = 100 # c # rest"
  shows "\<exists>b'. bencode_read_dict n sink (s, b) = Inr (False, (s', b'))"
proof -
  have "\<not> size_left b < 2" "deref b = Inr 100"
    using assms(2,3) by (auto simp: size_left_remaining intro: deref_remaining)
  with assms(1) show ?thesis by (auto simp: bencode_read_dict_def)
qed

lemma typed_decode_stops:
  assumes d: "decodes_all DecodeKey m es" and mk: "mk (ch t) = Some m" and wf: "wf_buf b" and k0: "length k0 < 10 ^ 9"
    and rem: "remaining b = 100 # concat (map entry_wire ((k, wire_string [ch t], \<lambda>m. m) # es)) @ wire_string k0 @ rest"
    and stop: "\<And>b kb. wf_buf b \<Longrightarrow> key_is kb k0 \<Longrightarrow> remaining b = rest \<Longrightarrow> \<exists>b'. DecodeKey kb (apply_entries es m, b) = Inr (False, (m', b'))"
  shows "\<exists>b'. typed_decode [ch k] mk DecodeKey (None, b) = Inr (False, (Some m', b'))"
proof -
  let ?xs = "None # map Some es"
  let ?sink = "\<lambda>key. case key of None \<Rightarrow> (\<lambda>(s, b). Inr (s \<noteq> None, (s, b)))
      | Some kb \<Rightarrow> typed_DecodeKey [ch k] mk DecodeKey kb"
  let ?ws = "concat (map (\<lambda>x. wire_string (typed_key k x) @ typed_value t x) ?xs)"
  have rem': "remaining b = 100 # ?ws @ wire_string k0 @ rest" using rem unfolding typed_entry_wire by simp
  have "length ?xs \<le> length ?ws" by (rule length_concat_ge) (simp add: wire_string_def)
  then have sz: "length ?xs < Suc (size_left b)" using wf rem' by (simp add: size_left_remaining)
  have "\<exists>b'. dict_loop (Suc (size_left b)) ?sink (None, advance 1 b) = Inr (False, (Some m', b'))"
  proof (rule dict_loop_stops [where upd = "typed_update (Some m)" and key = "typed_key k" and w = "typed_value t" and xs = ?xs and rest = rest])
    fix ys x zs b kb rest
    assume "?xs = ys @ x # zs" "wf_buf b" "wf_buf kb" "remaining kb = typed_key k x" "remaining b = typed_value t x @ rest"
    then show "?sink (Some kb) (fold (typed_update (Some m)) ys None, b) =
      Inr (True, (typed_update (Some m) x (fold (typed_update (Some m)) ys None), advance (length (typed_value t x)) b))"
      using typed_sink_entry [of DecodeKey m es mk t ys x zs b kb k rest] d mk by simp
  next
    fix b kb assume "wf_buf b" "wf_buf kb" "remaining kb = k0" "remaining b = rest"
    with stop [of b kb] show "\<exists>b'. ?sink (Some kb) (fold (typed_update (Some m)) ?xs None, b) = Inr (False, (Some m', b'))"
      by (auto simp: fold_typed_update typed_DecodeKey_def key_is_def)
  next
    show "wf_buf (advance 1 b)" using wf rem' by (simp add: wf_buf_advance)
    show "length k0 < 10 ^ 9" by (rule k0)
    show "length (typed_key k x) < 10 ^ 9" for x by (simp split: option.split)
    show "length ?xs < Suc (size_left b)" by (rule sz)
    show "remaining (advance 1 b) = ?ws @ wire_string k0 @ rest" using rem' by simp
  qed
  moreover obtain c cs where "?ws @ wire_string k0 @ rest = c # cs" by (cases "?ws @ wire_string k0 @ rest") (auto simp: wire_string_def)
  with rem' have "remaining b = 100 # c # cs" by simp
  ultimately show ?thesis
    unfolding typed_decode_def snd_conv by (rule read_dict_stops [OF _ wf])
qed

lemma decode_dict_stops:
  assumes d: "decodes_all DecodeKey m es" and wf: "wf_buf b" and k0: "length k0 < 10 ^ 9"
    and rem: "remaining b = 100 # concat (map entry_wire es) @ wire_string k0 @ rest"
    and stop: "\<And>b kb. wf_buf b \<Longrightarrow> key_is kb k0 \<Longrightarrow> remaining b = rest \<Longrightarrow> \<exists>b'. DecodeKey kb (apply_entries es m, b) = Inr (False, (m', b'))"
  shows "\<exists>b'. decode_dict DecodeKey (m, b) = Inr (False, (m', b'))"
proof -
  let ?sink = "\<lambda>key. case key of None \<Rightarrow> (\<lambda>sb. Inr (True, sb)) | Some k \<Rightarrow> DecodeKey k"
  let ?ws = "concat (map (\<lambda>e. wire_string [ch (fst e)] @ fst (snd e)) es)"
  have rem': "remaining b = 100 # ?ws @ wire_string k0 @ rest" using rem by (simp add: entry_wire_def split_def)
  have "length es \<le> length ?ws" by (rule length_concat_ge) (simp add: wire_string_def)
  then have sz: "length es < Suc (size_left b)" using wf rem' by (simp add: size_left_remaining)
  have "\<exists>b'. dict_loop (Suc (size_left b)) ?sink (m, advance 1 b) = Inr (False, (m', b'))"
  proof (rule dict_loop_stops [where upd = "\<lambda>e. snd (snd e)" and key = "\<lambda>e. [ch (fst e)]" and w = "\<lambda>e. fst (snd e)" and xs = es and rest = rest])
    fix ys e zs b kb rest
    assume "es = ys @ e # zs" "wf_buf b" "wf_buf kb" "remaining kb = [ch (fst e)]" "remaining b = fst (snd e) @ rest"
    then show "?sink (Some kb) (fold (\<lambda>e. snd (snd e)) ys m, b) =
        Inr (True, (snd (snd e) (fold (\<lambda>e. snd (snd e)) ys m), advance (length (fst (snd e))) b))"
      using d decodes_all_nth [of DecodeKey m ys e zs] by (simp add: decodes_at_def key_is_def)
  next
    fix b kb assume "wf_buf b" "wf_buf kb" "remaining kb = k0" "remaining b = rest"
    with stop [of b kb] show "\<exists>b'. ?sink (Some kb) (fold (\<lambda>e. snd (snd e)) es m, b) = Inr (False, (m', b'))"
      by (simp add: apply_entries_def split_def key_is_def)
  next
    show "wf_buf (advance 1 b)" using wf rem' by (simp add: wf_buf_advance)
    show "length k0 < 10 ^ 9" by (rule k0)
    show "length [ch (fst e)] < 10 ^ 9" for e :: "'a entry" by simp
    show "length es < Suc (size_left b)" by (rule sz)
    show "remaining (advance 1 b) = ?ws @ wire_string k0 @ rest" using rem' by simp
  qed
  moreover obtain c cs where "?ws @ wire_string k0 @ rest = c # cs" by (cases "?ws @ wire_string k0 @ rest") (auto simp: wire_string_def)
  with rem' have "remaining b = 100 # c # cs" by simp
  ultimately show ?thesis
    unfolding decode_dict_def bencode_decode_dict_def snd_conv by (rule read_dict_stops [OF _ wf])
qed

section \<open>Commit records\<close>

definition CommitRecord_entries :: "ntop \<Rightarrow> LR_CommitRecord \<Rightarrow> LR_CommitRecord entry list" where
  "CommitRecord_entries ntop r =
     [(CHR ''n'', wire_string (lrcr_tunnelNonce r), lrcr_tunnelNonce_update (\<lambda>_. lrcr_tunnelNonce r)),
      (CHR ''r'', wire_string (lrcr_rxid r), lrcr_rxid_update (\<lambda>_. lrcr_rxid r)),
      (CHR ''t'', wire_string (lrcr_txid r), lrcr_txid_update (\<lambda>_. lrcr_txid r))] @
     (case lrcr_nextRC r of None \<Rightarrow> [] | Some rc \<Rightarrow>
       [(CHR ''u'', dict_wire (RouterContact_entries ntop rc), lrcr_nextRC_update (\<lambda>_. Some rc))]) @
     [(CHR ''v'', wire_int LLARP_PROTO_VERSION, lrcr_version_update (\<lambda>_. LLARP_PROTO_VERSION))] @
     (case lrcr_work r of None \<Rightarrow> [] | Some w \<Rightarrow>
       [(CHR ''w'', dict_wire ([] :: PoW entry list), lrcr_work_update (\<lambda>_. Some PoW_init))])"

definition CommitRecord_keys :: "LR_CommitRecord \<Rightarrow> LR_CommitRecord entry list" where
  "CommitRecord_keys r =
     [(CHR ''c'', wire_string (lrcr_commkey r), lrcr_commkey_update (\<lambda>_. lrcr_commkey r)),
      (CHR ''i'', wire_string (lrcr_nextHop r), lrcr_nextHop_update (\<lambda>_. lrcr_nextHop r))]"

definition CommitRecord_valid :: "ntop \<Rightarrow> pton \<Rightarrow> LR_CommitRecord \<Rightarrow> bool" where
  "CommitRecord_valid ntop pton r \<longleftrightarrow> length (lrcr_commkey r) = 32 \<and> length (lrcr_nextHop r) = 32 \<and> length (lrcr_tunnelNonce r) = 32 \<and>
     length (lrcr_txid r) = 16 \<and> length (lrcr_rxid r) = 16 \<and> (lrcr_work r = None \<or> lrcr_work r = Some PoW_init) \<and>
     (case lrcr_nextRC r of None \<Rightarrow> True | Some rc \<Rightarrow> inet_ok ntop pton \<and> RouterContact_valid rc)"

definition CommitRecord_wire :: "ntop \<Rightarrow> LR_CommitRecord \<Rightarrow> byte list" where
  "CommitRecord_wire ntop r = dict_wire (CommitRecord_keys r @
     (if lrcr_lifetime r > 10 \<and> lrcr_lifetime r < 600 then [(CHR ''i'', wire_int (lrcr_lifetime r), \<lambda>r. r)] else []) @
     CommitRecord_entries ntop r)"

lemma CommitRecord_emits:
  assumes "CommitRecord_valid ntop pton r"
  shows "emits (LR_CommitRecord_BEncode ntop r) (CommitRecord_wire ntop r)"
proof -
  have R: "emits (case lrcr_nextRC r of None \<Rightarrow> all_steps [] | Some rc \<Rightarrow> BEncodeWriteDictEntry (CHR ''u'') (RouterContact_BEncode ntop rc))
      (case lrcr_nextRC r of None \<Rightarrow> [] | Some rc \<Rightarrow> wire_string [ch CHR ''u''] @ dict_wire (RouterContact_entries ntop rc))"
  proof (cases "lrcr_nextRC r")
    case (Some rc)
    with assms have "emits (RouterContact_BEncode ntop rc) (dict_wire (RouterContact_entries ntop rc))"
      by (auto simp: CommitRecord_valid_def intro: RouterContact_emits)
    from emits_dict_entries(1) [OF this] show ?thesis unfolding Some option.case .
  qed (simp add: emits_all_steps_Nil)
  have W: "emits (case lrcr_work r of None \<Rightarrow> all_steps [] | Some w \<Rightarrow> BEncodeWriteDictEntry (CHR ''w'') (PoW_BEncode w))
      (case lrcr_work r of None \<Rightarrow> [] | Some w \<Rightarrow> wire_string [ch CHR ''w''] @ dict_wire ([] :: PoW entry list))"
  proof (cases "lrcr_work r")
    case (Some w)
    show ?thesis unfolding Some option.case by (rule emits_dict_entries(1) [OF emits_PoW])
  qed (simp add: emits_all_steps_Nil)
  show ?thesis unfolding LR_CommitRecord_BEncode_def CommitRecord_wire_def
    by (rule emits_dict, rule emit_intros, rule emit_intros, rule emit_intros, (rule R W emit_intros)+)
      (auto simp: CommitRecord_entries_def CommitRecord_keys_def split: option.split)
qed

end
