(* ===== verification/Link_Properties.thy ===== *)
theory Link_Properties imports Link_Messages
begin

text \<open>
  What the link messages guarantee: the parser hands on what the other end wrote, a refused message leaves its entries for the next one,
  and the record of a path build survives its codec unless it asks for a short lifetime.
\<close>

declare buffer_eq.simps [simp del]

section \<open>Commit records\<close>

lemma decode_work_hit [key_simps]:
  "wf_buf b \<Longrightarrow> remaining b = dict_wire ([] :: PoW entry list) @ rest \<Longrightarrow> lrcr_work r = None \<Longrightarrow>
   decode_work (r, b) = Inr (True, (r\<lparr>lrcr_work := Some PoW_init\<rparr>, advance (length (dict_wire ([] :: PoW entry list))) b))"
  using decode_dict_all [of PoW_DecodeKey PoW_init "[]" b rest] by (simp add: decode_work_def)

lemma decode_nextRC_hit:
  assumes "wf_buf b" and "remaining b = dict_wire (RouterContact_entries ntop rc) @ rest" and "inet_ok ntop pton" and "RouterContact_valid rc"
  shows "decode_nextRC pton netid (r, b) =
    Inr (True, (r\<lparr>lrcr_nextRC := Some rc\<rparr>, advance (length (dict_wire (RouterContact_entries ntop rc))) b))"
  using contact_hit [OF assms] by (simp add: decode_nextRC_def)

lemma CommitRecord_keys_decode:
  assumes "CommitRecord_valid ntop pton r" and "e \<in> set (CommitRecord_keys r)"
  shows "decodes (LR_CommitRecord_OnKey pton netid) e"
  using assms by (auto intro!: decodesI simp: CommitRecord_valid_def CommitRecord_keys_def LR_CommitRecord_OnKey_def key_simps)

lemma CommitRecord_entries_decode:
  assumes "CommitRecord_valid ntop pton r" and "lrcr_work r0 = None"
  shows "decodes_all (LR_CommitRecord_OnKey pton netid) r0 (CommitRecord_keys r @ CommitRecord_entries ntop r)"
  using assms
  by (auto intro!: decodes_atI simp: CommitRecord_valid_def CommitRecord_keys_def CommitRecord_entries_def LR_CommitRecord_OnKey_def key_simps
      decode_nextRC_hit split: option.splits)

lemma CommitRecord_apply:
  assumes "CommitRecord_valid ntop pton r" and "lrcr_work r0 = None" and "lrcr_nextRC r0 = None"
  shows "apply_entries (CommitRecord_keys r @ CommitRecord_entries ntop r) r0 =
    r\<lparr>lrcr_lifetime := lrcr_lifetime r0, lrcr_version := LLARP_PROTO_VERSION\<rparr>"
  using assms by (auto simp: apply_entries_def CommitRecord_valid_def CommitRecord_keys_def CommitRecord_entries_def split: option.splits)

lemma number_parts_letter: "number_parts (105 # cs) = (False, 0)"
  by (simp add: number_parts_def isspace_def digits_value_def isdigit_def)

lemma aligned_BDecode_int:
  assumes "wf_buf b" and "remaining b = wire_int i @ rest" and "sz \<noteq> 0"
  shows "\<exists>b'. aligned_BDecode sz (x, b) = Inr (False, (x, b'))"
proof -
  have rem: "remaining b = 105 # dec (unat i) @ [ch CHR ''e''] @ rest" using assms(2) by (simp add: wire_int_def)
  have st: "cur b \<noteq> bsz b" "deref b = Inr 105"
    using assms(1) rem by (auto simp: remaining_def intro: deref_remaining)
  have wf: "wf_buf (advance 1 b)" using assms(1) rem by (simp add: wf_buf_advance)
  from read_until_loop_safe [OF wf, of 58 8] obtain cs b1 where "read_until_loop 58 8 (advance 1 b) = Inr (cs, b1)" by blast
  with st have "read_until_loop 58 (Suc 8) b = Inr (105 # cs, b1)" by (subst read_until_loop.simps) simp
  with assms(3) show ?thesis
    by (simp add: aligned_BDecode_def bencode_read_string_def read_until_def atoi_def number_parts_letter Let_def)
qed

lemma Entry_refused:
  "key_is kb [ch k] \<Longrightarrow> BDecode (get m, b) = Inr (False, (x, b')) \<Longrightarrow>
   BEncodeMaybeReadDictEntry k BDecode get upd kb (read, m, b) = Inr (False, (read, upd (\<lambda>_. x) m, b'))"
  by (simp add: BEncodeMaybeReadDictEntry_def)

lemma lifetime_refused:
  assumes "wf_buf b" and "key_is kb [ch CHR ''i'']" and "remaining b = wire_int i @ rest"
  shows "\<exists>b'. LR_CommitRecord_OnKey pton netid kb (r, b) = Inr (False, (r, b'))"
proof -
  obtain b' where "aligned_BDecode 32 (lrcr_nextHop r, b) = Inr (False, (lrcr_nextHop r, b'))"
    using aligned_BDecode_int [OF assms(1,3), of 32] by auto
  with assms(2) show ?thesis by (simp add: LR_CommitRecord_OnKey_def entries_then_def key_simps Entry_refused)
qed

lemma init_record_valid: "CommitRecord_valid ntop pton (LR_CommitRecord_init\<lparr>lrcr_lifetime := t\<rparr>)"
  by (simp add: CommitRecord_valid_def LR_CommitRecord_init_def aligned_Zero_def)

text \<open>
  C34: A commit record does not keep its lifetime. One with a lifetime between 11 and 599 is written with the lifetime under the key of the
  next hop, and a reader that starts from a new record refuses it. Any other is read back with every field as it was written, except that
  its lifetime is zero, whatever it was, and its version is that of the protocol; a path builder gives every record the lifetime 600000.
\<close>

theorem commit_record_loses_its_lifetime:
  assumes "CommitRecord_valid ntop pton r" and "length (CommitRecord_wire ntop r) < n"
  shows "\<exists>w. encode_in n (LR_CommitRecord_BEncode ntop r) = Inr (Some w) \<and>
    (if 10 < lrcr_lifetime r \<and> lrcr_lifetime r < 600
     then \<exists>r' b. LR_CommitRecord_BDecode pton netid (LR_CommitRecord_init, buffer_of w) = Inr (False, (r', b))
     else \<exists>b. LR_CommitRecord_BDecode pton netid (LR_CommitRecord_init, buffer_of w) =
       Inr (True, (r\<lparr>lrcr_lifetime := 0, lrcr_version := LLARP_PROTO_VERSION\<rparr>, b)))"
proof (intro exI conjI)
  let ?w = "CommitRecord_wire ntop r" and ?b = "buffer_of (CommitRecord_wire ntop r)"
  show "encode_in n (LR_CommitRecord_BEncode ntop r) = Inr (Some ?w)"
    using CommitRecord_emits [OF assms(1)] assms(2) by (rule encode_in_emits)
  have init: "lrcr_work LR_CommitRecord_init = None" "lrcr_nextRC LR_CommitRecord_init = None" "lrcr_lifetime LR_CommitRecord_init = 0"
    by (simp_all add: LR_CommitRecord_init_def)
  show "if 10 < lrcr_lifetime r \<and> lrcr_lifetime r < 600
     then \<exists>r' b. LR_CommitRecord_BDecode pton netid (LR_CommitRecord_init, ?b) = Inr (False, (r', b))
     else \<exists>b. LR_CommitRecord_BDecode pton netid (LR_CommitRecord_init, ?b) =
       Inr (True, (r\<lparr>lrcr_lifetime := 0, lrcr_version := LLARP_PROTO_VERSION\<rparr>, b))"
  proof (cases "10 < lrcr_lifetime r \<and> lrcr_lifetime r < 600")
    case True
    let ?rest = "wire_int (lrcr_lifetime r) @ concat (map entry_wire (CommitRecord_entries ntop r)) @ [101]"
    have rem: "remaining ?b = 100 # concat (map entry_wire (CommitRecord_keys r)) @ wire_string [ch CHR ''i''] @ ?rest"
      using True by (simp add: CommitRecord_wire_def dict_wire_def entry_wire_def)
    have k: "length [ch CHR ''i''] < 10 ^ 9" by simp
    have "\<exists>b'. LR_CommitRecord_BDecode pton netid (LR_CommitRecord_init, ?b) =
        Inr (False, (apply_entries (CommitRecord_keys r) LR_CommitRecord_init, b'))"
      unfolding LR_CommitRecord_BDecode_def
      by (rule decode_dict_stops [OF decodes_all_decodes [OF CommitRecord_keys_decode [OF assms(1)]] _ k rem])
        (use lifetime_refused in simp_all)
    then show ?thesis using True by auto
  next
    case False
    then have rem: "remaining ?b = dict_wire (CommitRecord_keys r @ CommitRecord_entries ntop r) @ []"
      by (auto simp: CommitRecord_wire_def)
    from decode_dict_all [OF CommitRecord_entries_decode [OF assms(1) init(1)] _ rem] CommitRecord_apply [OF assms(1) init(1,2)] init(3)
    show ?thesis using False by (simp add: LR_CommitRecord_BDecode_def)
  qed
qed

theorem commit_record_loses_its_lifetime_witness:
  "let r = LR_CommitRecord_init\<lparr>lrcr_lifetime := 60\<rparr>; n = Suc (length (CommitRecord_wire (\<lambda>_. None) r)) in
   \<exists>w. encode_in n (LR_CommitRecord_BEncode (\<lambda>_. None) r) = Inr (Some w) \<and>
     (\<exists>r' b. LR_CommitRecord_BDecode (\<lambda>_. None) [] (LR_CommitRecord_init, buffer_of w) = Inr (False, (r', b)))"
  using commit_record_loses_its_lifetime [of "\<lambda>_. None" "\<lambda>_. None" "LR_CommitRecord_init\<lparr>lrcr_lifetime := 60\<rparr>"
      "Suc (length (CommitRecord_wire (\<lambda>_. None) (LR_CommitRecord_init\<lparr>lrcr_lifetime := 60\<rparr>)))" "[]"]
  by (simp add: Let_def init_record_valid)

section \<open>The parser\<close>

lemma msg_holder_init_ok: "link_holder_ok (msg_holder_init netid)"
  by (simp add: link_holder_ok_def msg_holder_init_def LR_CommitMessage_init_def LR_StatusMessage_init_def)

lemma relay_ok_init: "length x \<le> 8064 \<Longrightarrow> Relay_ok (RelayMessage_init\<lparr>rm_X := x\<rparr>)"
  by (simp add: Relay_ok_def RelayMessage_init_def MAX_LINK_MSG_SIZE_def aligned_Zero_def)

text \<open>
  C10: A link message that one router writes is read by the parser of the router at the other end as the message that was sent, with the
  sender of the link filled in, and handed to the handler exactly once. The parser is ready for the next message afterwards, so a sequence
  of messages is delivered one after the other.
\<close>

theorem link_parser_delivers_what_was_sent:
  assumes "link_valid hash ntop pton m" and "link_holder_ok h" and "length (link_wire ntop m) < n"
  shows "\<exists>w. encode_in n (link_BEncode ntop m) = Inr (Some w) \<and>
    (let (result, st') = handle (link_received session h m) st; h' = link_holder_put (link_Clear (link_received session h m)) h
     in ProcessFrom hash pton netid handle session w (h, st) = Inr (result, (h', st')) \<and> link_holder_ok h')"
  using encode_in_emits [OF link_emits [OF assms(1)] assms(3)] link_holder_put_ok [OF assms(2,1)]
    process_wire [OF assms(1,2), of handle session st _ _ netid]
  by (auto split: prod.split)

theorem link_parser_delivers_what_was_sent_witness:
  "let h = msg_holder_init (replicate 8 0); m = Lu (RelayMessage_init\<lparr>rm_X := [1, 2, 3]\<rparr>) in
   \<exists>w. encode_in (Suc (length (link_wire (\<lambda>_. None) m))) (link_BEncode (\<lambda>_. None) m) = Inr (Some w) \<and>
     ProcessFrom (\<lambda>_. []) (\<lambda>_. None) [] (\<lambda>m st. (True, m # st)) [] w (h, []) =
       Inr (True, (link_holder_put (link_Clear (link_received [] h m)) h, [link_received [] h m]))"
  using link_parser_delivers_what_was_sent [of "\<lambda>_. []" "\<lambda>_. None" "\<lambda>_. None" "Lu (RelayMessage_init\<lparr>rm_X := [1, 2, 3]\<rparr>)"
      "msg_holder_init (replicate 8 0)" "Suc (length (link_wire (\<lambda>_. None) (Lu (RelayMessage_init\<lparr>rm_X := [1, 2, 3]\<rparr>))))"
      "\<lambda>m st. (True, m # st)" "[]" "[]" "[]"]
  by (auto simp: Let_def msg_holder_init_ok relay_ok_init)

text \<open>The text of a message to the DHT that ends in a key the reader does not know.\<close>

definition refused_wire :: "ntop \<Rightarrow> DHTImmediateMessage \<Rightarrow> byte list \<Rightarrow> byte list" where
  "refused_wire ntop m rest = 100 # concat (map entry_wire
     [(CHR ''a'', wire_string [ch CHR ''m''], \<lambda>m :: DHTImmediateMessage. m), (CHR ''m'', list_wire (dht_wire ntop) (dim_msgs m), \<lambda>m. m)]) @
     wire_string [ch CHR ''q''] @ rest"

lemma refused_process:
  assumes "list_all (dht_valid hash ntop pton) (dim_msgs m)" and "dim_msgs (lh_m h) = []"
  shows "ProcessFrom hash pton netid handle session (refused_wire ntop m rest) (h, st) =
    Inr (False, (h\<lparr>lh_m := (lh_m h)\<lparr>dim_msgs := map (dht_received session False) (dim_msgs m)\<rparr>\<rparr>, st))"
proof -
  let ?D = "link_DecodeKey hash pton netid session"
  let ?es = "lift_entries Lm (\<lambda>x. case x of Lm m \<Rightarrow> m) [hd (DHTImmediate_entries ntop session m)]"
  let ?m = "Lm ((lh_m h)\<lparr>dim_msgs := map (dht_received session False) (dim_msgs m)\<rparr>)"
  have "decodes (DHTImmediate_DecodeKey hash pton netid session) (hd (DHTImmediate_entries ntop session m))"
    by (rule DHTImmediate_decodes [OF assms(1)]) (simp add: DHTImmediate_entries_def)
  then have d: "decodes_all ?D (Lm (lh_m h)) ?es"
    by (intro lift_entries_decode(1) decodes_all_decodes) (auto simp: link_DecodeKey_def)
  have a: "apply_entries ?es (Lm (lh_m h)) = ?m"
    using assms(2) by (simp add: apply_lift_entries DHTImmediate_entries_def)
  have q: "?D kb (?m, b) = Inr (False, (?m, b))" if "key_is kb [ch CHR ''q'']" for kb b
    using that by (simp add: link_DecodeKey_def DHTImmediate_DecodeKey_def key_simps return_read_def entries_then_def lift_case_def)
  have rem: "remaining (buffer_of (refused_wire ntop m rest)) =
      100 # concat (map entry_wire ((CHR ''a'', wire_string [ch CHR ''m''], \<lambda>m. m) # ?es)) @ wire_string [ch CHR ''q''] @ rest"
    by (simp add: refused_wire_def lift_entries_def DHTImmediate_entries_def entry_wire_def)
  have "\<exists>b'. typed_decode [ch CHR ''a''] (link_holder_get h) ?D (None, buffer_of (refused_wire ntop m rest)) = Inr (False, (Some ?m, b'))"
    by (rule typed_decode_stops [OF d _ _ _ rem]) (use q in \<open>auto simp: link_holder_get_def a\<close>)
  then show ?thesis by (auto simp: ProcessFrom_def)
qed

lemma leftover_process:
  assumes "list_all (dht_valid hash ntop pton) (dim_msgs m)"
  shows "ProcessFrom hash pton netid handle session (link_wire ntop (Lm m)) (h, st) =
    Inr (MessageDone handle (Lm \<lparr>dim_msgs = dim_msgs (lh_m h) @ map (dht_received session False) (dim_msgs m), dim_version = LLARP_PROTO_VERSION\<rparr>) (h, st))"
proof -
  let ?D = "link_DecodeKey hash pton netid session" and ?w = "link_wire ntop (Lm m)"
  let ?es = "link_entries ntop session (Lm m)"
  have d: "decodes_all ?D (Lm (lh_m h)) ?es"
    using assms unfolding link_entries.simps
    by (intro lift_entries_decode(1) decodes_all_decodes) (auto simp: link_DecodeKey_def intro: DHTImmediate_decodes)
  have a: "apply_entries ?es (Lm (lh_m h)) =
      Lm \<lparr>dim_msgs = dim_msgs (lh_m h) @ map (dht_received session False) (dim_msgs m), dim_version = LLARP_PROTO_VERSION\<rparr>"
    by (simp add: apply_lift_entries DHTImmediate_entries_def)
  have "typed_decode [ch CHR ''a''] (link_holder_get h) ?D (None, buffer_of ?w) =
      Inr (True, (Some (apply_entries ?es (Lm (lh_m h))), advance (length (typed_wire (CHR ''a'') (link_type (Lm m)) ?es)) (buffer_of ?w)))"
    by (rule typed_decode_all [OF d, where rest = "[]"])
      (use link_holder_get_type [of h "Lm m"] in \<open>simp_all add: link_wire_session del: link_entries.simps link_type.simps\<close>)
  then show ?thesis unfolding a by (simp add: ProcessFrom_def)
qed

lemma find_router_valid: "length (frm_K (FindRouterMessage_from from)) = 32"
  by (simp add: FindRouterMessage_from_def aligned_Zero_def)

text \<open>
  C35: The parser does not reset the object of a message it refuses. The DHT messages of a refused message stay in the object, and the next
  message to the DHT that any other session delivers is handled with them in front of its own.
\<close>

theorem refused_messages_are_handled_later:
  assumes "list_all (dht_valid hash ntop pton) (dim_msgs m)" and "list_all (dht_valid hash ntop pton) (dim_msgs m')"
    and "link_holder_ok h"
  shows "\<exists>h'. ProcessFrom hash pton netid handle session (refused_wire ntop m rest) (h, st) = Inr (False, (h', st)) \<and>
    ProcessFrom hash pton netid handle session' (link_wire ntop (Lm m')) (h', st) =
      Inr (MessageDone handle (Lm \<lparr>dim_msgs = map (dht_received session False) (dim_msgs m) @ map (dht_received session' False) (dim_msgs m'),
        dim_version = LLARP_PROTO_VERSION\<rparr>) (h', st))"
proof -
  have "dim_msgs (lh_m h) = []" using assms(3) by (simp add: link_holder_ok_def)
  note refused = refused_process [OF assms(1) this]
  let ?h = "h\<lparr>lh_m := (lh_m h)\<lparr>dim_msgs := map (dht_received session False) (dim_msgs m)\<rparr>\<rparr>"
  have "dim_msgs (lh_m ?h) = map (dht_received session False) (dim_msgs m)" by simp
  with leftover_process [OF assms(2), of netid handle session' ?h st] show ?thesis by (intro exI conjI) (rule refused, simp only:)
qed

theorem refused_messages_are_handled_later_witness:
  "let h = msg_holder_init (replicate 8 0); frm = FindRouterMessage_from [];
       refused = refused_wire (\<lambda>_. None) \<lparr>dim_msgs = [FRM frm], dim_version = 0\<rparr> [];
       text = link_wire (\<lambda>_. None) (Lm \<lparr>dim_msgs = [], dim_version = 0\<rparr>); handle = \<lambda>m st. (True, m # st) in
   \<exists>h' h''. ProcessFrom (\<lambda>_. []) (\<lambda>_. None) [] handle [1] refused (h, []) = Inr (False, (h', [])) \<and>
     ProcessFrom (\<lambda>_. []) (\<lambda>_. None) [] handle [2] text (h', []) =
       Inr (True, (h'', [Lm \<lparr>dim_msgs = [dht_received [1] False (FRM frm)], dim_version = LLARP_PROTO_VERSION\<rparr>]))"
  using refused_messages_are_handled_later [of "\<lambda>_. []" "\<lambda>_. None" "\<lambda>_. None"
      "\<lparr>dim_msgs = [FRM (FindRouterMessage_from [])], dim_version = 0\<rparr>"
      "\<lparr>dim_msgs = [], dim_version = 0\<rparr>" "msg_holder_init (replicate 8 0)" "[]" "\<lambda>m st. (True, m # st)" "[1]" "[]" "[]" "[2]"]
  by (auto simp: Let_def msg_holder_init_ok MessageDone_def find_router_valid)

end
