(* ===== verification/Iwp_Message.thy ===== *)
theory Iwp_Message
  imports Link_Messages Std_Map
begin

text \<open>
  The messages of a link session in transit (\<^verbatim>\<open>iwp/message_buffer.cpp\<close>) and the packets they are sent in (\<^verbatim>\<open>CreatePacket\<close> of
  \<^verbatim>\<open>iwp/session.cpp\<close>). A message is announced with an \<^verbatim>\<open>XMIT\<close> packet and sent in fragments of 1024 bytes; the receiver acknowledges
  fragments with a bit mask. A packet is the list of its bytes: 32 of keyed hash, 32 of nonce, then the protocol version, the
  command and its arguments.
\<close>

unbundle bit_operations_syntax

section \<open>Packets\<close>

datatype Command = ePING | eXMIT | eDATA | eACKS | eNACK | eMACK | eCLOS

primrec command_byte :: "Command \<Rightarrow> byte" where
  "command_byte ePING = 0" | "command_byte eXMIT = 1" | "command_byte eDATA = 2" | "command_byte eACKS = 3"
| "command_byte eNACK = 4" | "command_byte eMACK = 5" | "command_byte eCLOS = 0xff"

definition FragmentSize :: nat where "FragmentSize = 1024"
definition CommandOverhead :: nat where "CommandOverhead = 2"
definition PacketOverhead :: nat where "PacketOverhead = 32 + 32"

definition DeliveryTimeout :: llarp_time where "DeliveryTimeout = 500"
definition ReceivalTimeout :: llarp_time where "ReceivalTimeout = (DeliveryTimeout * 8) div 5"
definition ReplayWindow :: llarp_time where "ReplayWindow = (ReceivalTimeout * 3) div 2"
definition ACKResendInterval :: llarp_time where "ACKResendInterval = DeliveryTimeout div 2"
definition TXFlushInterval :: llarp_time where "TXFlushInterval = (DeliveryTimeout div 5) * 4"

text \<open>
  The random generator: \<open>rn_int k\<close> and \<open>rn_byte k\<close> are the number and the bytes of the \<open>k\<close>-th draw. Functions that draw take the number
  of draws so far and return the new one.
\<close>

record random =
  rn_int :: "nat \<Rightarrow> u64"
  rn_byte :: "nat \<Rightarrow> nat \<Rightarrow> byte"

definition randbytes :: "random \<Rightarrow> nat \<Rightarrow> nat \<Rightarrow> byte list" where
  "randbytes rnd k n = map (rn_byte rnd k) [0..<n]"

text \<open>
  The memory of a new packet is not initialised. The model fills it with zeros; the caller overwrites all of it but the hash, which
  is computed when the packet is encrypted.
\<close>

definition CreatePacket :: "random \<Rightarrow> Command \<Rightarrow> nat \<Rightarrow> nat \<Rightarrow> nat \<Rightarrow> nat \<Rightarrow> byte list \<times> nat" where
  "CreatePacket rnd cmd plainsize minpad variance k =
     (let pad = (if minpad > 0 then minpad + (if variance > 0 then unat (rn_int rnd k) mod variance else 0) else 0)
      in (replicate 32 0 @ randbytes rnd (k + 2) 32 @ [ucast LLARP_PROTO_VERSION, command_byte cmd] @ replicate plainsize 0 @
            randbytes rnd (k + 1) pad, k + 3))"

definition packet_put :: "nat \<Rightarrow> byte list \<Rightarrow> byte list \<Rightarrow> byte list" where
  "packet_put off bs pkt = take off pkt @ bs @ drop (off + length bs) pkt"

section \<open>Outbound messages\<close>

text \<open>
  A completion handler is a closure of the caller, identified by a number, or the one with which the session sends its own introduction.
\<close>

datatype completion = Notify nat | LimSent

datatype DeliveryStatus = eDeliverySuccess | eDeliveryDropped

record OutboundMessage =
  om_Data :: "byte list"
  om_MsgID :: u64
  om_Acks :: byte
  om_Completed :: "completion option"
  om_LastFlush :: llarp_time
  om_Digest :: aligned
  om_StartedAt :: llarp_time

definition message_digest :: "sodium \<Rightarrow> byte list \<Rightarrow> aligned" where
  "message_digest so data = (case shorthash so data of None \<Rightarrow> aligned_Zero 32 | Some h \<Rightarrow> h)"

definition OutboundMessage_new :: "sodium \<Rightarrow> u64 \<Rightarrow> byte list \<Rightarrow> llarp_time \<Rightarrow> completion option \<Rightarrow> OutboundMessage" where
  "OutboundMessage_new so msgid msg now handler =
     \<lparr>om_Data = msg, om_MsgID = msgid, om_Acks = 0, om_Completed = handler, om_LastFlush = 0, om_Digest = message_digest so msg,
      om_StartedAt = now\<rparr>"

definition XMIT :: "random \<Rightarrow> OutboundMessage \<Rightarrow> nat \<Rightarrow> byte list \<times> nat" where
  "XMIT rnd m k =
     (let extra = min (length (om_Data m)) FragmentSize; (xmit, k) = CreatePacket rnd eXMIT (10 + 32 + extra) 0 0 k;
          xmit = packet_put (CommandOverhead + PacketOverhead) (htobe16buf (of_nat (length (om_Data m)))) xmit;
          xmit = packet_put (2 + CommandOverhead + PacketOverhead) (htobe64buf (om_MsgID m)) xmit;
          xmit = packet_put (10 + CommandOverhead + PacketOverhead) (om_Digest m) xmit;
          xmit = packet_put (10 + CommandOverhead + PacketOverhead + 32) (take extra (om_Data m)) xmit
      in (xmit, k))"

definition Outbound_ShouldFlush :: "OutboundMessage \<Rightarrow> llarp_time \<Rightarrow> bool" where
  "Outbound_ShouldFlush m now \<longleftrightarrow> now - om_LastFlush m \<ge> TXFlushInterval"

definition Outbound_Ack :: "byte \<Rightarrow> OutboundMessage \<Rightarrow> OutboundMessage" where
  "Outbound_Ack bitmask m = m\<lparr>om_Acks := bitmask\<rparr>"

definition DATA_packet :: "random \<Rightarrow> OutboundMessage \<Rightarrow> nat \<Rightarrow> nat \<Rightarrow> byte list \<times> nat" where
  "DATA_packet rnd m idx k =
     (let datasz = length (om_Data m); fragsz = (if idx + FragmentSize < datasz then FragmentSize else datasz - idx);
          (frag, k) = CreatePacket rnd eDATA (fragsz + 10) 0 0 k;
          frag = packet_put (2 + PacketOverhead) (htobe16buf (of_nat idx)) frag;
          frag = packet_put (4 + PacketOverhead) (htobe64buf (om_MsgID m)) frag;
          frag = packet_put (PacketOverhead + 10 + 2) (take fragsz (drop idx (om_Data m))) frag
      in (frag, k))"

text \<open>
  The bit set of a message has eight bits, for the 8192 bytes of the largest message. \<^verbatim>\<open>operator[]\<close> is undefined behind them, \<^verbatim>\<open>test\<close> and
  \<^verbatim>\<open>set\<close> throw. The index therefore never reaches the values where its 16 bits wrap.
\<close>

function flush_loop :: "random \<Rightarrow> OutboundMessage \<Rightarrow> nat \<Rightarrow> nat \<Rightarrow> (byte list list \<times> nat) res" where
  "flush_loop rnd m idx k =
     (if idx < length (om_Data m) then
        if idx div FragmentSize \<ge> 8 then Inl OutOfBounds
        else let (pkts, k) = (if bit (om_Acks m) (idx div FragmentSize) then ([], k) else map_prod (\<lambda>p. [p]) id (DATA_packet rnd m idx k))
             in bind_res (flush_loop rnd m (idx + 1024) k) (\<lambda>(rest, k). Inr (pkts @ rest, k))
      else Inr ([], k))"
  by pat_completeness auto
termination flush_loop by (relation "measure (\<lambda>(rnd, m, idx, k). length (om_Data m) - idx)") auto

text \<open>The packets, the draws and the message after the flush.\<close>

definition FlushUnAcked :: "random \<Rightarrow> OutboundMessage \<Rightarrow> llarp_time \<Rightarrow> nat \<Rightarrow> (byte list list \<times> nat \<times> OutboundMessage) res" where
  "FlushUnAcked rnd m now k = bind_res (flush_loop rnd m 0 k) (\<lambda>(pkts, k). Inr (pkts, k, m\<lparr>om_LastFlush := now\<rparr>))"

function acks_loop :: "byte \<Rightarrow> nat \<Rightarrow> nat \<Rightarrow> bool res" where
  "acks_loop acks sz idx =
     (if idx < sz then
        if idx div FragmentSize \<ge> 8 then Inl Terminated
        else if \<not> bit acks (idx div FragmentSize) then Inr False
        else acks_loop acks sz (idx + 1024)
      else Inr True)"
  by pat_completeness auto
termination acks_loop by (relation "measure (\<lambda>(acks, sz, idx). sz - idx)") auto

declare flush_loop.simps [simp del] acks_loop.simps [simp del]

definition IsTransmitted :: "OutboundMessage \<Rightarrow> bool res" where
  "IsTransmitted m = acks_loop (om_Acks m) (length (om_Data m)) 0"

definition Outbound_IsTimedOut :: "OutboundMessage \<Rightarrow> llarp_time \<Rightarrow> bool" where
  "Outbound_IsTimedOut m now \<longleftrightarrow> now > om_StartedAt m \<and> now - om_StartedAt m > DeliveryTimeout"

section \<open>Inbound messages\<close>

record InboundMessage =
  im_Data :: "byte list"
  im_Digset :: aligned
  im_MsgID :: u64
  im_LastACKSent :: llarp_time
  im_LastActiveAt :: llarp_time
  im_Acks :: byte

definition InboundMessage_new :: "u64 \<Rightarrow> u16 \<Rightarrow> aligned \<Rightarrow> llarp_time \<Rightarrow> InboundMessage" where
  "InboundMessage_new msgid sz h now =
     \<lparr>im_Data = replicate (unat sz) 0, im_Digset = h, im_MsgID = msgid, im_LastACKSent = 0, im_LastActiveAt = now, im_Acks = 0\<rparr>"

definition HandleData :: "u16 \<Rightarrow> byte list \<Rightarrow> llarp_time \<Rightarrow> InboundMessage \<Rightarrow> InboundMessage res" where
  "HandleData idx buf now m =
     (if unat idx + length buf > length (im_Data m) then Inr m
      else if unat idx div FragmentSize \<ge> 8 then Inl Terminated
      else Inr (m\<lparr>im_Data := packet_put (unat idx) buf (im_Data m), im_Acks := im_Acks m OR push_bit (unat idx div FragmentSize) 1,
                  im_LastActiveAt := now\<rparr>))"

definition AcksBitmask :: "InboundMessage \<Rightarrow> byte" where
  "AcksBitmask m = im_Acks m"

definition ACKS :: "random \<Rightarrow> InboundMessage \<Rightarrow> nat \<Rightarrow> byte list \<times> nat" where
  "ACKS rnd m k =
     (let (acks, k) = CreatePacket rnd eACKS 9 16 16 k;
          acks = packet_put (CommandOverhead + PacketOverhead) (htobe64buf (im_MsgID m)) acks;
          acks = packet_put (PacketOverhead + 10) [AcksBitmask m] acks
      in (acks, k))"

definition IsCompleted :: "InboundMessage \<Rightarrow> bool res" where
  "IsCompleted m = acks_loop (im_Acks m) (length (im_Data m)) 0"

definition ShouldSendACKS :: "InboundMessage \<Rightarrow> llarp_time \<Rightarrow> bool" where
  "ShouldSendACKS m now \<longleftrightarrow> now > im_LastACKSent m + ACKResendInterval"

definition Inbound_IsTimedOut :: "InboundMessage \<Rightarrow> llarp_time \<Rightarrow> bool" where
  "Inbound_IsTimedOut m now \<longleftrightarrow> now > im_LastActiveAt m \<and> now - im_LastActiveAt m > DeliveryTimeout"

definition Inbound_Verify :: "sodium \<Rightarrow> InboundMessage \<Rightarrow> bool" where
  "Inbound_Verify so m \<longleftrightarrow> message_digest so (im_Data m) = im_Digset m"

end
