(* ===== verification/Iwp_Session.thy ===== *)
theory Iwp_Session
  imports Iwp_Message
begin

text \<open>
  A link session (\<^verbatim>\<open>iwp/session.cpp\<close>). A session is a record; what it does to the rest of the router is appended to a log in the order
  of the calls: packets to the socket, work for the crypto threads, messages for the router, results for completion handlers. Work that
  is queued (\<^verbatim>\<open>EncryptWorker\<close>, \<^verbatim>\<open>DecryptWorker\<close>, \<^verbatim>\<open>HandlePlaintext\<close>) is an operation of its own, so any interleaving of the threads is a
  sequence of operations. What is called does not come back into the session before it returns, with two exceptions that are modelled: the
  introduction that the router reads from a message, and the completion handler of the session's own introduction.
\<close>

section \<open>Sessions\<close>

type_synonym Addr = "aligned \<times> u16"

definition addr_of :: "AddressInfo \<Rightarrow> Addr" where
  "addr_of ai = (ai_ip ai, ai_port ai)"

datatype link_effect =
    SendTo_LL Addr "byte list" | QueueEncrypt "byte list list" | QueueDecrypt "byte list list" | CallHandlePlaintext "byte list list"
  | HandleMessage "byte list" | Inform nat DeliveryStatus | MapAddr aligned | UnmapAddr Addr | SessionEstablished
  | SessionRenegotiate RouterContact RouterContact | PumpDone

datatype session_state = Initial | Introducing | LinkIntro | Ready | Closed

datatype lim_handler = GotOutbound | GotInbound | GotReneg

record LinkSession =
  se_State :: session_state
  se_Inbound :: bool
  se_CreatedAt :: llarp_time
  se_RemoteAddr :: Addr
  se_ChosenAI :: AddressInfo
  se_RemoteRC :: RouterContact
  se_SessionKey :: aligned
  se_token :: aligned
  se_ExpectedIdent :: aligned
  se_RemoteOnionKey :: aligned
  se_LastTX :: llarp_time
  se_LastRX :: llarp_time
  se_TXRate :: u64
  se_RXRate :: u64
  se_CurrentTX :: u64
  se_CurrentRX :: u64
  se_ResetRatesAt :: llarp_time
  se_TXID :: u64
  se_RXMsgs :: "(u64 \<times> InboundMessage) list"
  se_TXMsgs :: "(u64 \<times> OutboundMessage) list"
  se_ReplayFilter :: "(u64 \<times> llarp_time) list"
  se_SendMACKs :: "u64 list"
  se_EncryptNext :: "byte list list option"
  se_DecryptNext :: "byte list list option"
  se_GotLIM :: lim_handler
  se_draws :: nat
  se_log :: "link_effect list"

text \<open>
  What an operation reads from outside. \<open>le_now\<close> is the time of the event loop, \<open>le_time_now_ms\<close> the wall clock. \<open>le_lim\<close> is the
  introduction that the parser of the router reads from a message and that verifies, when the message is one (\<^verbatim>\<open>LinkIntroMessage::HandleMessage\<close>
  then calls back). \<open>le_too_many\<close> tells whether \<^verbatim>\<open>MapAddr\<close> closes the session because its router has too many.
\<close>

record link_env =
  le_now :: llarp_time
  le_time_now_ms :: llarp_time
  le_random :: random
  le_sodium :: sodium
  le_OurRC :: RouterContact
  le_Sign :: "byte list \<Rightarrow> aligned option"
  le_EncryptionSecret :: aligned
  le_TransportSecret :: aligned
  le_ntop :: ntop
  le_netid :: aligned
  le_lim :: "byte list \<Rightarrow> LinkIntroMessage option"
  le_established :: bool
  le_renegotiate :: "RouterContact \<Rightarrow> RouterContact \<Rightarrow> bool"
  le_too_many :: "aligned \<Rightarrow> bool"

definition PingInterval :: llarp_time where "PingInterval = 5000"
definition SessionAliveTimeout :: llarp_time where "SessionAliveTimeout = PingInterval * 5"
definition MaxACKSInMACK :: nat where "MaxACKSInMACK = 1024 div 8"
definition MaxSendQueueSize :: nat where "MaxSendQueueSize = 1024"

definition session_key :: "link_env \<Rightarrow> aligned \<Rightarrow> aligned" where
  "session_key env pk = message_digest (le_sodium env) pk"

definition Session_blank :: "link_env \<Rightarrow> bool \<Rightarrow> Addr \<Rightarrow> LinkSession" where
  "Session_blank env inbound addr = \<lparr>se_State = Initial, se_Inbound = inbound, se_CreatedAt = le_now env, se_RemoteAddr = addr,
     se_ChosenAI = AddressInfo_init, se_RemoteRC = RouterContact_init (le_netid env), se_SessionKey = aligned_Zero 32,
     se_token = aligned_Zero 24, se_ExpectedIdent = aligned_Zero 32, se_RemoteOnionKey = aligned_Zero 32, se_LastTX = 0, se_LastRX = 0,
     se_TXRate = 0, se_RXRate = 0, se_CurrentTX = 0, se_CurrentRX = 0, se_ResetRatesAt = 0, se_TXID = 0, se_RXMsgs = [],
     se_TXMsgs = [], se_ReplayFilter = [], se_SendMACKs = [], se_EncryptNext = None, se_DecryptNext = None, se_GotLIM = GotInbound,
     se_draws = 0, se_log = []\<rparr>"

definition Session_outbound :: "link_env \<Rightarrow> RouterContact \<Rightarrow> AddressInfo \<Rightarrow> LinkSession" where
  "Session_outbound env rc ai = (Session_blank env False (addr_of ai))
     \<lparr>se_ChosenAI := ai, se_RemoteRC := rc, se_GotLIM := GotOutbound, se_SessionKey := session_key env (rc_pubkey rc)\<rparr>"

definition Session_inbound :: "link_env \<Rightarrow> Addr \<Rightarrow> LinkSession" where
  "Session_inbound env addr = (Session_blank env True addr)
     \<lparr>se_token := randbytes (le_random env) 0 24, se_draws := 1, se_GotLIM := GotInbound,
      se_SessionKey := session_key env (rc_pubkey (le_OurRC env))\<rparr>"

definition emit :: "link_effect \<Rightarrow> LinkSession \<Rightarrow> LinkSession" where
  "emit e s = s\<lparr>se_log := se_log s @ [e]\<rparr>"

fun each :: "('a \<Rightarrow> 's \<Rightarrow> 's res) \<Rightarrow> 'a list \<Rightarrow> 's \<Rightarrow> 's res" where
  "each f [] s = Inr s"
| "each f (x # xs) s = bind_res (f x s) (each f xs)"

definition IsEstablished :: "LinkSession \<Rightarrow> bool" where
  "IsEstablished s \<longleftrightarrow> se_State s = Ready"

section \<open>Sending packets\<close>

definition Send_LL :: "link_env \<Rightarrow> byte list \<Rightarrow> LinkSession \<Rightarrow> LinkSession" where
  "Send_LL env pkt s = (emit (SendTo_LL (se_RemoteAddr s) pkt) s)
     \<lparr>se_LastTX := le_time_now_ms env, se_TXRate := se_TXRate s + of_nat (length pkt)\<rparr>"

definition encrypt_packet :: "sodium \<Rightarrow> aligned \<Rightarrow> byte list \<Rightarrow> byte list" where
  "encrypt_packet so key pkt =
     (let nonce = take 32 (drop 32 pkt); pkt = take PacketOverhead pkt @ xchacha20 so (drop PacketOverhead pkt) key nonce
      in case hmac so (drop 32 pkt) key of None \<Rightarrow> pkt | Some h \<Rightarrow> packet_put 0 h pkt)"

definition EncryptWorker :: "link_env \<Rightarrow> byte list list \<Rightarrow> LinkSession \<Rightarrow> LinkSession" where
  "EncryptWorker env msgs s = fold (\<lambda>pkt s. Send_LL env (encrypt_packet (le_sodium env) (se_SessionKey s) pkt) s) msgs s"

definition EncryptAndSend :: "link_env \<Rightarrow> byte list \<Rightarrow> LinkSession \<Rightarrow> LinkSession" where
  "EncryptAndSend env data s =
     (let queue = (case se_EncryptNext s of None \<Rightarrow> [] | Some q \<Rightarrow> q) @ [data]
      in if \<not> IsEstablished s then EncryptWorker env queue (s\<lparr>se_EncryptNext := None\<rparr>)
         else s\<lparr>se_EncryptNext := Some queue\<rparr>)"

text \<open>A packet that is made with the random generator of the session and sent.\<close>

definition send_new :: "link_env \<Rightarrow> (nat \<Rightarrow> byte list \<times> nat) \<Rightarrow> LinkSession \<Rightarrow> LinkSession" where
  "send_new env mk s = (let (pkt, k) = mk (se_draws s) in EncryptAndSend env pkt (s\<lparr>se_draws := k\<rparr>))"

definition Session_Close :: "link_env \<Rightarrow> LinkSession \<Rightarrow> LinkSession" where
  "Session_Close env s =
     (if se_State s = Closed then s
      else let s = (if se_State s = Ready then emit (UnmapAddr (se_RemoteAddr s)) s else s)
           in send_new env (CreatePacket (le_random env) eCLOS 0 16 16) (s\<lparr>se_State := Closed\<rparr>))"

text \<open>
  The vector of the message is moved into the stored message, so the test of its size that follows in the code sees an empty vector
  and the fragments are not flushed here.
\<close>

definition SendMessageBuffer :: "link_env \<Rightarrow> byte list \<Rightarrow> completion option \<Rightarrow> LinkSession \<Rightarrow> bool \<times> LinkSession" where
  "SendMessageBuffer env buf completed s =
     (if length (se_TXMsgs s) \<ge> MaxSendQueueSize then (False, s)
      else let msgid = se_TXID s; new = OutboundMessage_new (le_sodium env) msgid buf (le_now env) completed;
               msg = (case map_of (se_TXMsgs s) msgid of None \<Rightarrow> new | Some old \<Rightarrow> old)
           in (True, send_new env (XMIT (le_random env) msg) (s\<lparr>se_TXID := msgid + 1, se_TXMsgs := emplace msgid new (se_TXMsgs s)\<rparr>)))"

definition MACK_packet :: "random \<Rightarrow> u64 list \<Rightarrow> nat \<Rightarrow> byte list \<times> nat" where
  "MACK_packet rnd acks k =
     (let (mack, k) = CreatePacket rnd eMACK (1 + length acks * 8) 16 16 k;
          mack = packet_put (PacketOverhead + CommandOverhead) [of_nat (length acks)] mack
      in (packet_put (3 + PacketOverhead) (concat (map htobe64buf acks)) mack, k))"

lemma Send_LL_SendMACKs [simp]: "se_SendMACKs (Send_LL env pkt s) = se_SendMACKs s"
  by (simp add: Send_LL_def emit_def)

lemma EncryptWorker_SendMACKs [simp]: "se_SendMACKs (EncryptWorker env msgs s) = se_SendMACKs s"
  unfolding EncryptWorker_def by (induction msgs arbitrary: s) simp_all

lemma send_new_SendMACKs [simp]: "se_SendMACKs (send_new env mk s) = se_SendMACKs s"
  by (simp add: send_new_def EncryptAndSend_def Let_def split: prod.split)

function SendMACK :: "link_env \<Rightarrow> LinkSession \<Rightarrow> LinkSession" where
  "SendMACK env s =
     (if se_SendMACKs s \<noteq> [] then
        let acks = take MaxACKSInMACK (se_SendMACKs s)
        in SendMACK env (send_new env (MACK_packet (le_random env) acks) (s\<lparr>se_SendMACKs := drop MaxACKSInMACK (se_SendMACKs s)\<rparr>))
      else s)"
  by pat_completeness auto
termination SendMACK
  by (relation "measure (\<lambda>(env, s). length (se_SendMACKs s))") (auto simp: MaxACKSInMACK_def)

declare SendMACK.simps [simp del]

definition SendKeepAlive :: "link_env \<Rightarrow> LinkSession \<Rightarrow> bool \<times> LinkSession" where
  "SendKeepAlive env s =
     (if se_State s = Ready then (True, send_new env (CreatePacket (le_random env) ePING 0 16 16) s) else (False, s))"

definition ShouldPing :: "link_env \<Rightarrow> LinkSession \<Rightarrow> bool" where
  "ShouldPing env s \<longleftrightarrow> se_State s = Ready \<and> le_now env - se_LastTX s > PingInterval"

section \<open>Introductions\<close>

definition SendOurLIM :: "link_env \<Rightarrow> completion option \<Rightarrow> LinkSession \<Rightarrow> LinkSession res" where
  "SendOurLIM env h s =
     (let msg = (LinkIntroMessage_init (le_netid env))\<lparr>lim_rc := le_OurRC env, lim_N := randbytes (le_random env) (se_draws s) 32, lim_P := 60000\<rparr>;
          s = s\<lparr>se_draws := se_draws s + 1\<rparr>
      in bind_res (LinkIntro_Sign (le_ntop env) (le_Sign env) msg) (\<lambda>(ok, msg).
           if \<not> ok then Inr s
           else bind_res (LinkIntro_BEncode (le_ntop env) msg (buffer_of (replicate (LIM_MaxSize + PacketOverhead) 0))) (\<lambda>(ok, buf).
             Inr (snd (SendMessageBuffer env (mem buf) h s)))))"

text \<open>\<open>MapAddr\<close> of the parent, which closes the session when its router has too many.\<close>

definition map_addr :: "link_env \<Rightarrow> LinkSession \<Rightarrow> LinkSession" where
  "map_addr env s =
     (let pk = rc_pubkey (se_RemoteRC s); s = emit (MapAddr pk) s in if le_too_many env pk then Session_Close env s else s)"

definition GotInboundLIM :: "link_env \<Rightarrow> LinkIntroMessage \<Rightarrow> LinkSession action" where
  "GotInboundLIM env msg s =
     (if rc_pubkey (lim_rc msg) \<noteq> se_ExpectedIdent s then Inr (False, s)
      else let s = map_addr env (s\<lparr>se_State := Ready, se_GotLIM := GotReneg, se_RemoteRC := lim_rc msg\<rparr>)
           in Inr (le_established env, emit SessionEstablished s))"

definition GotOutboundLIM :: "link_env \<Rightarrow> LinkIntroMessage \<Rightarrow> LinkSession action" where
  "GotOutboundLIM env msg s =
     (if rc_pubkey (lim_rc msg) \<noteq> rc_pubkey (se_RemoteRC s) then Inr (False, s)
      else bind_res (SendOurLIM env (Some LimSent) (s\<lparr>se_RemoteRC := lim_rc msg, se_GotLIM := GotReneg\<rparr>)) (\<lambda>s. Inr (True, s)))"

definition GotRenegLIM :: "link_env \<Rightarrow> LinkIntroMessage \<Rightarrow> LinkSession action" where
  "GotRenegLIM env msg s =
     Inr (le_renegotiate env (lim_rc msg) (se_RemoteRC s), emit (SessionRenegotiate (lim_rc msg) (se_RemoteRC s)) s)"

definition GotLIM :: "link_env \<Rightarrow> LinkIntroMessage \<Rightarrow> LinkSession action" where
  "GotLIM env msg s =
     (case se_GotLIM s of GotOutbound \<Rightarrow> GotOutboundLIM env msg s | GotInbound \<Rightarrow> GotInboundLIM env msg s | GotReneg \<Rightarrow> GotRenegLIM env msg s)"

definition RenegotiateSession :: "link_env \<Rightarrow> LinkSession action" where
  "RenegotiateSession env s = bind_res (SendOurLIM env None s) (\<lambda>s. Inr (True, s))"

text \<open>The result of a message is given to its handler; the one of \<^verbatim>\<open>GotOutboundLIM\<close> ends the handshake.\<close>

definition inform :: "link_env \<Rightarrow> DeliveryStatus \<Rightarrow> completion option \<Rightarrow> LinkSession \<Rightarrow> LinkSession" where
  "inform env st h s =
     (case h of
        None \<Rightarrow> s
      | Some (Notify n) \<Rightarrow> emit (Inform n st) s
      | Some LimSent \<Rightarrow> if st = eDeliverySuccess then emit SessionEstablished (map_addr env (s\<lparr>se_State := Ready\<rparr>)) else s)"

text \<open>The router is given a received message; an introduction comes back to the session.\<close>

definition handle_message :: "link_env \<Rightarrow> byte list \<Rightarrow> LinkSession \<Rightarrow> LinkSession res" where
  "handle_message env buf s =
     (let s = emit (HandleMessage buf) s
      in case le_lim env buf of None \<Rightarrow> Inr s | Some msg \<Rightarrow> bind_res (GotLIM env msg s) (\<lambda>(_, s). Inr s))"

section \<open>Timers\<close>

definition pump_rx :: "link_env \<Rightarrow> u64 \<times> InboundMessage \<Rightarrow> LinkSession \<Rightarrow> LinkSession" where
  "pump_rx env = (\<lambda>(rxid, m) s.
     if ShouldSendACKS m (le_now env)
     then let s = send_new env (ACKS (le_random env) m) s in s\<lparr>se_RXMsgs := put_at rxid (m\<lparr>im_LastACKSent := le_now env\<rparr>) (se_RXMsgs s)\<rparr>
     else s)"

definition flush_message :: "link_env \<Rightarrow> u64 \<Rightarrow> OutboundMessage \<Rightarrow> LinkSession \<Rightarrow> LinkSession res" where
  "flush_message env txid m s =
     bind_res (FlushUnAcked (le_random env) m (le_now env) (se_draws s)) (\<lambda>(pkts, k, m).
       let s = fold (EncryptAndSend env) pkts (s\<lparr>se_draws := k\<rparr>) in Inr (s\<lparr>se_TXMsgs := put_at txid m (se_TXMsgs s)\<rparr>))"

definition pump_tx :: "link_env \<Rightarrow> u64 \<times> OutboundMessage \<Rightarrow> LinkSession \<Rightarrow> LinkSession res" where
  "pump_tx env = (\<lambda>(txid, m) s. if Outbound_ShouldFlush m (le_now env) then flush_message env txid m s else Inr s)"

definition Session_Pump :: "link_env \<Rightarrow> LinkSession \<Rightarrow> LinkSession res" where
  "Session_Pump env s =
     bind_res
       (if se_State s = Ready \<or> se_State s = LinkIntro
        then let s = (if ShouldPing env s then snd (SendKeepAlive env s) else s); s = fold (pump_rx env) (se_RXMsgs s) s
             in each (pump_tx env) (se_TXMsgs s) s
        else Inr s)
       (\<lambda>s. let s = (case se_EncryptNext s of Some (p # ps) \<Rightarrow> (emit (QueueEncrypt (p # ps)) s)\<lparr>se_EncryptNext := None\<rparr> | _ \<Rightarrow> s)
            in Inr (case se_DecryptNext s of Some (p # ps) \<Rightarrow> (emit (QueueDecrypt (p # ps)) s)\<lparr>se_DecryptNext := None\<rparr> | _ \<Rightarrow> s))"

definition Session_TimedOut :: "LinkSession \<Rightarrow> llarp_time \<Rightarrow> bool" where
  "Session_TimedOut s now =
     (if se_State s = Ready \<or> se_State s = LinkIntro then now > se_LastRX s \<and> now - se_LastRX s > SessionAliveTimeout
      else now - se_CreatedAt s > SessionAliveTimeout)"

definition ShouldResetRates :: "LinkSession \<Rightarrow> llarp_time \<Rightarrow> bool" where
  "ShouldResetRates s now \<longleftrightarrow> now \<ge> se_ResetRatesAt s"

definition ResetRates :: "LinkSession \<Rightarrow> LinkSession" where
  "ResetRates s = s\<lparr>se_CurrentTX := se_TXRate s, se_CurrentRX := se_RXRate s, se_RXRate := 0, se_TXRate := 0\<rparr>"

definition tick_tx :: "link_env \<Rightarrow> llarp_time \<Rightarrow> u64 \<times> OutboundMessage \<Rightarrow> LinkSession \<Rightarrow> LinkSession" where
  "tick_tx env now = (\<lambda>(txid, m) s.
     if Outbound_IsTimedOut m now
     then let s = inform env eDeliveryDropped (om_Completed m) s in s\<lparr>se_TXMsgs := erase_key txid (se_TXMsgs s)\<rparr>
     else s)"

definition tick_rx :: "llarp_time \<Rightarrow> u64 \<times> InboundMessage \<Rightarrow> LinkSession \<Rightarrow> LinkSession" where
  "tick_rx now = (\<lambda>(rxid, m) s.
     if Inbound_IsTimedOut m now
     then s\<lparr>se_ReplayFilter := emplace rxid now (se_ReplayFilter s), se_RXMsgs := erase_key rxid (se_RXMsgs s)\<rparr> else s)"

definition Session_Tick :: "link_env \<Rightarrow> llarp_time \<Rightarrow> LinkSession \<Rightarrow> LinkSession" where
  "Session_Tick env now s =
     (let s = (if ShouldResetRates s now then (ResetRates s)\<lparr>se_ResetRatesAt := now + 1000\<rparr> else s);
          s = fold (tick_tx env now) (se_TXMsgs s) s;
          s = fold (tick_rx now) (se_RXMsgs s) s
      in s\<lparr>se_ReplayFilter := filter (\<lambda>(rxid, t). \<not> t + ReplayWindow \<le> now) (se_ReplayFilter s)\<rparr>)"

section \<open>The handshake\<close>

definition IntroductionSize :: nat where "IntroductionSize = 32 + 32 + 32 + 64"

definition DecryptMessageInPlace :: "sodium \<Rightarrow> aligned \<Rightarrow> byte list \<Rightarrow> byte list option" where
  "DecryptMessageInPlace so key pkt =
     (if length pkt \<le> PacketOverhead then None
      else case hmac so (drop 32 pkt) key of
             None \<Rightarrow> None
           | Some h \<Rightarrow>
               if h \<noteq> take 32 pkt then None
               else let n = take 32 (drop 32 pkt) in Some (take 64 pkt @ xchacha20 so (drop 64 pkt) key n))"

definition GenerateAndSendIntro :: "link_env \<Rightarrow> LinkSession \<Rightarrow> LinkSession" where
  "GenerateAndSendIntro env s =
     (let n = randbytes (le_random env) (se_draws s) 32; pk = rc_pubkey (le_OurRC env); e_pk = seckey_topublic (le_EncryptionSecret env);
          signbuf = pk @ e_pk @ n; z = (case le_Sign env signbuf of None \<Rightarrow> aligned_Zero 64 | Some z \<Rightarrow> z);
          req = replicate 32 0 @ randbytes (le_random env) (se_draws s + 1) 32 @ signbuf @ z;
          s = EncryptAndSend env req (s\<lparr>se_draws := se_draws s + 2\<rparr>);
          s = s\<lparr>se_State := Introducing\<rparr>
      in case transport_dh_client (le_sodium env) (ai_pubkey (se_ChosenAI s)) (le_EncryptionSecret env) n of
           None \<Rightarrow> s
         | Some key \<Rightarrow> s\<lparr>se_SessionKey := key\<rparr>)"

definition Session_Start :: "link_env \<Rightarrow> LinkSession \<Rightarrow> LinkSession" where
  "Session_Start env s = (if se_Inbound s then s else GenerateAndSendIntro env s)"

definition token_packet :: "link_env \<Rightarrow> aligned \<Rightarrow> nat \<Rightarrow> byte list \<times> nat" where
  "token_packet env token k = (replicate 32 0 @ randbytes (le_random env) k 32 @ token, k + 1)"

definition HandleCreateSessionRequest :: "link_env \<Rightarrow> byte list \<Rightarrow> LinkSession \<Rightarrow> LinkSession res" where
  "HandleCreateSessionRequest env pkt s =
     (case DecryptMessageInPlace (le_sodium env) (se_SessionKey s) pkt of
        None \<Rightarrow> Inr s
      | Some pkt \<Rightarrow>
          if length pkt < length (se_token s) + PacketOverhead then Inr s
          else if take (length (se_token s)) (drop PacketOverhead pkt) \<noteq> se_token s then Inr s
          else SendOurLIM env None (s\<lparr>se_LastRX := le_now env, se_State := LinkIntro\<rparr>))"

definition HandleGotIntro :: "link_env \<Rightarrow> byte list \<Rightarrow> LinkSession \<Rightarrow> LinkSession" where
  "HandleGotIntro env pkt s =
     (if length pkt < IntroductionSize + PacketOverhead then s
      else let ident = take 32 (drop PacketOverhead pkt); onion = take 32 (drop (PacketOverhead + 32) pkt);
               n = take 32 (drop (PacketOverhead + 64) pkt); z = take 64 (drop (PacketOverhead + 96) pkt);
               verifybuf = take 96 (drop PacketOverhead pkt);
               s = s\<lparr>se_ExpectedIdent := ident, se_RemoteOnionKey := onion\<rparr>
           in if \<not> crypto_verify (le_sodium env) ident verifybuf z then s
              else case transport_dh_server (le_sodium env) onion (le_TransportSecret env) n of
                     None \<Rightarrow> s
                   | Some key \<Rightarrow>
                       (send_new env (token_packet env (se_token s)) (s\<lparr>se_SessionKey := key, se_LastRX := le_now env\<rparr>))
                         \<lparr>se_State := Introducing\<rparr>)"

definition HandleGotIntroAck :: "link_env \<Rightarrow> byte list \<Rightarrow> LinkSession \<Rightarrow> LinkSession" where
  "HandleGotIntroAck env pkt s =
     (if length pkt < length (se_token s) + PacketOverhead then s
      else case DecryptMessageInPlace (le_sodium env) (se_SessionKey s) pkt of
             None \<Rightarrow> s
           | Some pkt \<Rightarrow>
               let token = take (length (se_token s)) (drop PacketOverhead pkt)
               in (send_new env (token_packet env token) (s\<lparr>se_LastRX := le_now env, se_token := token\<rparr>))\<lparr>se_State := LinkIntro\<rparr>)"

definition HandleSessionData :: "byte list \<Rightarrow> LinkSession \<Rightarrow> LinkSession" where
  "HandleSessionData pkt s = s\<lparr>se_DecryptNext := Some ((case se_DecryptNext s of None \<Rightarrow> [] | Some q \<Rightarrow> q) @ [pkt])\<rparr>"

text \<open>An outbound session that receives a packet before it was started calls \<^verbatim>\<open>abort\<close>.\<close>

definition Recv_LL :: "link_env \<Rightarrow> byte list \<Rightarrow> LinkSession action" where
  "Recv_LL env data s =
     (let s = s\<lparr>se_RXRate := se_RXRate s + of_nat (length data)\<rparr>
      in case se_State s of
           Initial \<Rightarrow>
             if se_Inbound s
             then case DecryptMessageInPlace (le_sodium env) (se_SessionKey s) data of
                    None \<Rightarrow> Inr (False, s)
                  | Some pkt \<Rightarrow> Inr (True, HandleGotIntro env pkt s)
             else Inl Terminated
         | Introducing \<Rightarrow>
             if se_Inbound s then bind_res (HandleCreateSessionRequest env data s) (\<lambda>s. Inr (True, s))
             else Inr (True, HandleGotIntroAck env data s)
         | _ \<Rightarrow> Inr (True, HandleSessionData data s))"

section \<open>Received packets\<close>

definition packet_u64 :: "nat \<Rightarrow> byte list \<Rightarrow> u64" where
  "packet_u64 off pkt = bufbe64toh (take 8 (drop off pkt))"

definition packet_u16 :: "nat \<Rightarrow> byte list \<Rightarrow> u16" where
  "packet_u16 off pkt = bufbe16toh (take 2 (drop off pkt))"

definition complete_tx :: "link_env \<Rightarrow> u64 \<Rightarrow> LinkSession \<Rightarrow> LinkSession" where
  "complete_tx env txid s =
     (case map_of (se_TXMsgs s) txid of
        None \<Rightarrow> s
      | Some m \<Rightarrow> let s = inform env eDeliverySuccess (om_Completed m) s in s\<lparr>se_TXMsgs := erase_key txid (se_TXMsgs s)\<rparr>)"

definition HandleMACK :: "link_env \<Rightarrow> byte list \<Rightarrow> LinkSession \<Rightarrow> LinkSession" where
  "HandleMACK env data s =
     (if length data < 3 + PacketOverhead then s
      else let numAcks = unat (data ! (CommandOverhead + PacketOverhead))
           in if length data < 1 + CommandOverhead + PacketOverhead + numAcks * 8 then s
              else fold (\<lambda>i. complete_tx env (packet_u64 (CommandOverhead + PacketOverhead + 1 + 8 * i) data)) [0..<numAcks] s)"

definition HandleNACK :: "link_env \<Rightarrow> byte list \<Rightarrow> LinkSession \<Rightarrow> LinkSession" where
  "HandleNACK env data s =
     (if length data < CommandOverhead + 8 + PacketOverhead then s
      else let s = (case map_of (se_TXMsgs s) (packet_u64 (CommandOverhead + PacketOverhead) data) of
                      None \<Rightarrow> s
                    | Some m \<Rightarrow> send_new env (XMIT (le_random env) m) s)
           in s\<lparr>se_LastRX := le_now env\<rparr>)"

definition add_mack :: "u64 \<Rightarrow> LinkSession \<Rightarrow> LinkSession" where
  "add_mack rxid s = s\<lparr>se_SendMACKs := (if rxid \<in> set (se_SendMACKs s) then se_SendMACKs s else se_SendMACKs s @ [rxid])\<rparr>"

text \<open>A complete message goes to the router; then its id enters the replay filter and is acknowledged.\<close>

definition deliver :: "link_env \<Rightarrow> u64 \<Rightarrow> InboundMessage \<Rightarrow> LinkSession \<Rightarrow> LinkSession res" where
  "deliver env rxid m s =
     bind_res (handle_message env (im_Data m) s) (\<lambda>s.
       Inr (add_mack rxid (s\<lparr>se_ReplayFilter := emplace rxid (le_now env) (se_ReplayFilter s)\<rparr>)))"

text \<open>
  The fragment in an \<^verbatim>\<open>XMIT\<close> packet is looked at only when the packet has no bytes behind its header (\<^verbatim>\<open>_sizeDelta == 0\<close>), and then its last
  \<^verbatim>\<open>sz\<close> bytes are read. They start before the packet when \<^verbatim>\<open>sz\<close> is larger than the packet.
\<close>

definition xmit_fragment :: "link_env \<Rightarrow> byte list \<Rightarrow> nat \<Rightarrow> u64 \<Rightarrow> InboundMessage \<Rightarrow> LinkSession \<Rightarrow> LinkSession res" where
  "xmit_fragment env data sz rxid m s =
     (if sz > length data then Inl OutOfBounds
      else bind_res (HandleData 0 (drop (length data - sz) data) (le_now env) m) (\<lambda>m.
           let s = s\<lparr>se_RXMsgs := put_at rxid m (se_RXMsgs s)\<rparr>
           in bind_res (IsCompleted m) (\<lambda>completed.
                if \<not> completed then Inr s
                else if \<not> Inbound_Verify (le_sodium env) m then Inr s
                else bind_res (deliver env rxid m s) (\<lambda>s. Inr (s\<lparr>se_RXMsgs := erase_key rxid (se_RXMsgs s)\<rparr>)))))"

definition HandleXMIT :: "link_env \<Rightarrow> byte list \<Rightarrow> LinkSession \<Rightarrow> LinkSession res" where
  "HandleXMIT env data s =
     (if length data < CommandOverhead + PacketOverhead + 2 + 8 + 32 then Inr s
      else let sz = packet_u16 (CommandOverhead + PacketOverhead) data; rxid = packet_u64 (CommandOverhead + 2 + PacketOverhead) data;
               h = take 32 (drop (CommandOverhead + 2 + 8 + PacketOverhead) data);
               s = s\<lparr>se_LastRX := le_now env\<rparr>
           in if map_of (se_ReplayFilter s) rxid \<noteq> None then Inr (add_mack rxid s)
              else if map_of (se_RXMsgs s) rxid \<noteq> None then Inr s
              else let m = InboundMessage_new rxid sz h (le_now env); s = s\<lparr>se_RXMsgs := emplace rxid m (se_RXMsgs s)\<rparr>;
                       sizeDelta = length data - (CommandOverhead + 2 + 8 + PacketOverhead + 32)
                   in if sizeDelta = 0 then xmit_fragment env data (min (unat sz) FragmentSize) rxid m s else Inr s)"

definition NACK_packet :: "random \<Rightarrow> u64 \<Rightarrow> nat \<Rightarrow> byte list \<times> nat" where
  "NACK_packet rnd rxid k =
     (let (nack, k) = CreatePacket rnd eNACK 8 16 16 k in (packet_put (PacketOverhead + CommandOverhead) (htobe64buf rxid) nack, k))"

definition data_fragment :: "link_env \<Rightarrow> u16 \<Rightarrow> byte list \<Rightarrow> u64 \<Rightarrow> InboundMessage \<Rightarrow> LinkSession \<Rightarrow> LinkSession res" where
  "data_fragment env sz buf rxid m s =
     bind_res (HandleData sz buf (le_now env) m) (\<lambda>m.
       let s = s\<lparr>se_RXMsgs := put_at rxid m (se_RXMsgs s)\<rparr>
       in bind_res (IsCompleted m) (\<lambda>completed.
            if \<not> completed then Inr s
            else bind_res (if Inbound_Verify (le_sodium env) m then deliver env rxid m s else Inr s) (\<lambda>s.
                 Inr (s\<lparr>se_RXMsgs := erase_key rxid (se_RXMsgs s)\<rparr>))))"

definition HandleDATA :: "link_env \<Rightarrow> byte list \<Rightarrow> LinkSession \<Rightarrow> LinkSession res" where
  "HandleDATA env data s =
     (if length data < CommandOverhead + 2 + 8 + PacketOverhead then Inr s
      else let s = s\<lparr>se_LastRX := le_now env\<rparr>; sz = packet_u16 (CommandOverhead + PacketOverhead) data;
               rxid = packet_u64 (CommandOverhead + 2 + PacketOverhead) data
           in case map_of (se_RXMsgs s) rxid of
                None \<Rightarrow>
                  if map_of (se_ReplayFilter s) rxid = None then Inr (send_new env (NACK_packet (le_random env) rxid) s)
                  else Inr (add_mack rxid s)
              | Some m \<Rightarrow> data_fragment env sz (drop (PacketOverhead + 12) data) rxid m s)"

definition HandleACKS :: "link_env \<Rightarrow> byte list \<Rightarrow> LinkSession \<Rightarrow> LinkSession res" where
  "HandleACKS env data s =
     (if length data < 11 + PacketOverhead then Inr s
      else let s = s\<lparr>se_LastRX := le_now env\<rparr>; txid = packet_u64 (2 + PacketOverhead) data
           in case map_of (se_TXMsgs s) txid of
                None \<Rightarrow> Inr s
              | Some m \<Rightarrow>
                  let m = Outbound_Ack (data ! (10 + PacketOverhead)) m; s = s\<lparr>se_TXMsgs := put_at txid m (se_TXMsgs s)\<rparr>
                  in bind_res (IsTransmitted m) (\<lambda>transmitted. if transmitted then Inr (complete_tx env txid s) else flush_message env txid m s))"

definition HandlePING :: "link_env \<Rightarrow> LinkSession \<Rightarrow> LinkSession" where
  "HandlePING env s = s\<lparr>se_LastRX := le_now env\<rparr>"

definition HandleCLOS :: "link_env \<Rightarrow> LinkSession \<Rightarrow> LinkSession" where
  "HandleCLOS env s = Session_Close env s"

text \<open>The worker keeps the packets that decrypt and have the protocol version; the router thread handles them.\<close>

definition DecryptWorker :: "link_env \<Rightarrow> byte list list \<Rightarrow> LinkSession \<Rightarrow> LinkSession" where
  "DecryptWorker env msgs s = emit (CallHandlePlaintext
     [pkt \<leftarrow> List.map_filter (DecryptMessageInPlace (le_sodium env) (se_SessionKey s)) msgs. pkt ! PacketOverhead = ucast LLARP_PROTO_VERSION]) s"

definition handle_plain :: "link_env \<Rightarrow> byte list \<Rightarrow> LinkSession \<Rightarrow> LinkSession res" where
  "handle_plain env data s =
     (if length data \<le> PacketOverhead + 1 then Inl OutOfBounds
      else let cmd = data ! (PacketOverhead + 1)
           in if cmd = command_byte eXMIT then HandleXMIT env data s
              else if cmd = command_byte eDATA then HandleDATA env data s
              else if cmd = command_byte eACKS then HandleACKS env data s
              else if cmd = command_byte ePING then Inr (HandlePING env s)
              else if cmd = command_byte eNACK then Inr (HandleNACK env data s)
              else if cmd = command_byte eCLOS then Inr (HandleCLOS env s)
              else if cmd = command_byte eMACK then Inr (HandleMACK env data s)
              else Inr s)"

definition HandlePlaintext :: "link_env \<Rightarrow> byte list list \<Rightarrow> LinkSession \<Rightarrow> LinkSession res" where
  "HandlePlaintext env msgs s =
     bind_res (each (handle_plain env) msgs s) (\<lambda>s. bind_res (Session_Pump env (SendMACK env s)) (\<lambda>s. Inr (emit PumpDone s)))"

end
