(* ===== verification/Iwp_Delivery.thy ===== *)
theory Iwp_Delivery
  imports Iwp_Session
begin

text \<open>
  The way of one message over a link session: the fragments the sender makes of it, in any order and with repetitions, are put
  together by the receiver, which hands the message to the router once.
\<close>

section \<open>The packets of a message\<close>

lemmas iwp_sizes = PacketOverhead_def CommandOverhead_def FragmentSize_def

definition packet_header :: "random \<Rightarrow> Command \<Rightarrow> nat \<Rightarrow> byte list" where
  "packet_header rnd cmd k = replicate 32 0 @ randbytes rnd (k + 2) 32 @ [ucast LLARP_PROTO_VERSION, command_byte cmd]"

lemma length_randbytes [simp]: "length (randbytes rnd k n) = n"
  by (simp add: randbytes_def)

lemma length_packet_header [simp]: "length (packet_header rnd cmd k) = 66"
  by (simp add: packet_header_def)

lemma length_htobe [simp]: "length (htobe16buf x) = 2" "length (htobe64buf y) = 8"
  by (simp_all add: htobe16buf_def htobe64buf_def)

lemma CreatePacket_unpadded: "CreatePacket rnd cmd n 0 v k = (packet_header rnd cmd k @ replicate n 0, k + 3)"
  by (simp add: CreatePacket_def packet_header_def randbytes_def)

lemma packet_put_next:
  "length xs = off \<Longrightarrow> n = length bs + n' \<Longrightarrow> packet_put off bs (xs @ replicate n 0 @ ys) = xs @ bs @ replicate n' 0 @ ys"
  by (simp add: packet_put_def replicate_add)

lemma XMIT_shape:
  assumes "length (om_Digest m) = 32"
  shows "XMIT rnd m k = (packet_header rnd eXMIT k @ htobe16buf (of_nat (length (om_Data m))) @ htobe64buf (om_MsgID m) @ om_Digest m @
    take 1024 (om_Data m), k + 3)"
proof -
  let ?h = "packet_header rnd eXMIT k" and ?n = "min (length (om_Data m)) 1024"
  let ?a = "htobe16buf (of_nat (length (om_Data m)))" and ?b = "htobe64buf (om_MsgID m)" and ?x = "take 1024 (om_Data m)"
  have "packet_put 66 ?a (?h @ replicate (42 + ?n) 0 @ []) = ?h @ ?a @ replicate (40 + ?n) 0 @ []"
    by (rule packet_put_next) simp_all
  moreover have "packet_put 68 ?b ((?h @ ?a) @ replicate (40 + ?n) 0 @ []) = (?h @ ?a) @ ?b @ replicate (32 + ?n) 0 @ []"
    by (rule packet_put_next) simp_all
  moreover have "packet_put 76 (om_Digest m) ((?h @ ?a @ ?b) @ replicate (32 + ?n) 0 @ []) = (?h @ ?a @ ?b) @ om_Digest m @ replicate ?n 0 @ []"
    using assms by (intro packet_put_next) simp_all
  moreover have "packet_put 108 ?x ((?h @ ?a @ ?b @ om_Digest m) @ replicate ?n 0 @ []) = (?h @ ?a @ ?b @ om_Digest m) @ ?x @ replicate 0 0 @ []"
    using assms by (intro packet_put_next) simp_all
  moreover have "take ?n (om_Data m) = ?x" by (simp add: min_def)
  ultimately show ?thesis
    by (simp add: XMIT_def CreatePacket_unpadded iwp_sizes Let_def)
qed

lemma DATA_shape:
  assumes "idx < length (om_Data m)"
  shows "DATA_packet rnd m idx k = (packet_header rnd eDATA k @ htobe16buf (of_nat idx) @ htobe64buf (om_MsgID m) @ take 1024 (drop idx (om_Data m)), k + 3)"
proof -
  define n where "n = (if idx + 1024 < length (om_Data m) then 1024 else length (om_Data m) - idx)"
  let ?h = "packet_header rnd eDATA k" and ?a = "htobe16buf (of_nat idx)" and ?b = "htobe64buf (om_MsgID m)" and ?x = "take 1024 (drop idx (om_Data m))"
  have x: "take n (drop idx (om_Data m)) = ?x" "length ?x = n" using assms by (auto simp: n_def)
  have "packet_put 66 ?a (?h @ replicate (n + 10) 0 @ []) = ?h @ ?a @ replicate (n + 8) 0 @ []"
    by (rule packet_put_next) simp_all
  moreover have "packet_put 68 ?b ((?h @ ?a) @ replicate (n + 8) 0 @ []) = (?h @ ?a) @ ?b @ replicate n 0 @ []"
    by (rule packet_put_next) simp_all
  moreover have "packet_put 76 ?x ((?h @ ?a @ ?b) @ replicate n 0 @ []) = (?h @ ?a @ ?b) @ ?x @ replicate 0 0 @ []"
    by (rule packet_put_next) (use x in simp_all)
  ultimately show ?thesis
    using x(1) unfolding DATA_packet_def iwp_sizes Let_def n_def [symmetric] CreatePacket_unpadded by simp
qed

lemma unat_of_nat_u16: "i < 65536 \<Longrightarrow> unat (of_nat i :: u16) = i"
  by (simp add: unat_of_nat take_bit_nat_eq_self)

lemma packet_u16_at: "length xs = off \<Longrightarrow> packet_u16 off (xs @ htobe16buf i @ ys) = i"
  by (simp add: packet_u16_def bufbe16toh_def htobe16buf_def be_value_be_bytes)

lemma packet_u64_at: "length xs = off \<Longrightarrow> packet_u64 off (xs @ htobe64buf i @ ys) = i"
  by (simp add: packet_u64_def bufbe64toh_def htobe64buf_def be_value_be_bytes)

section \<open>Acknowledged fragments\<close>

lemma acks_loop_from:
  assumes "sz \<le> 8192"
  shows "acks_loop acks sz (1024 * i) = Inr (\<forall>j\<ge>i. 1024 * j < sz \<longrightarrow> bit acks j)"
proof (induction "sz - 1024 * i" arbitrary: i rule: less_induct)
  case less
  show ?case
  proof (cases "1024 * i < sz")
    case True
    then have "i < 8" using assms by simp
    moreover have "acks_loop acks sz (1024 * Suc i) = Inr (\<forall>j\<ge>Suc i. 1024 * j < sz \<longrightarrow> bit acks j)"
      using True by (intro less) simp
    moreover have "(\<forall>j\<ge>i. 1024 * j < sz \<longrightarrow> bit acks j) \<longleftrightarrow> bit acks i \<and> (\<forall>j\<ge>Suc i. 1024 * j < sz \<longrightarrow> bit acks j)"
      using True by (metis Suc_leD le_refl not_less_eq_eq le_antisym)
    ultimately show ?thesis
      using True by (subst acks_loop.simps) (simp add: FragmentSize_def add.commute)
  next
    case False
    then have "\<not> 1024 * j < sz" if "j \<ge> i" for j using that by (meson le_trans mult_le_mono2 not_le)
    with False show ?thesis by (subst acks_loop.simps) auto
  qed
qed

lemma acks_loop_all: "sz \<le> 8192 \<Longrightarrow> acks_loop acks sz 0 = Inr (\<forall>j. 1024 * j < sz \<longrightarrow> bit acks j)"
  using acks_loop_from [of sz acks 0] by simp

text \<open>An inbound message that has the fragments \<open>R\<close> of \<open>d\<close>.\<close>

definition assembled :: "byte list \<Rightarrow> nat set \<Rightarrow> InboundMessage \<Rightarrow> bool" where
  "assembled d R m \<longleftrightarrow> length (im_Data m) = length d \<and> (\<forall>j<length d. j div 1024 \<in> R \<longrightarrow> im_Data m ! j = d ! j) \<and>
     (\<forall>i<8. bit (im_Acks m) i \<longleftrightarrow> i \<in> R)"

definition fragments :: "byte list \<Rightarrow> nat set" where
  "fragments d = {i. 1024 * i < length d}"

lemma assembled_IsCompleted:
  assumes "assembled d R m" and "length d \<le> 8192"
  shows "IsCompleted m = Inr (fragments d \<subseteq> R)"
proof -
  have "\<And>j. 1024 * j < length d \<Longrightarrow> j < 8" using assms(2) by simp
  then show ?thesis using assms acks_loop_all [of "length d" "im_Acks m"] by (auto simp: IsCompleted_def assembled_def fragments_def)
qed

lemma assembled_complete:
  assumes "assembled d R m" and "fragments d \<subseteq> R"
  shows "im_Data m = d"
proof (rule nth_equalityI)
  show "length (im_Data m) = length d" using assms(1) by (simp add: assembled_def)
  show "im_Data m ! j = d ! j" if "j < length (im_Data m)" for j
  proof -
    have "j < length d" using that assms(1) by (simp add: assembled_def)
    moreover have "1024 * (j div 1024) \<le> j" by simp
    ultimately have "j div 1024 \<in> fragments d" unfolding fragments_def by simp
    with assms \<open>j < length d\<close> show ?thesis by (auto simp: assembled_def)
  qed
qed

lemma packet_put_nth:
  assumes "off + length bs \<le> length xs" and "j < length xs"
  shows "packet_put off bs xs ! j = (if off \<le> j \<and> j < off + length bs then bs ! (j - off) else xs ! j)"
  using assms by (auto simp: packet_put_def nth_append)

lemma length_packet_put [simp]: "off + length bs \<le> length xs \<Longrightarrow> length (packet_put off bs xs) = length xs"
  by (simp add: packet_put_def)

lemma assembled_HandleData:
  assumes a: "assembled d R m" and d: "length d \<le> 8192" and i: "i \<in> fragments d"
  shows "\<exists>m'. HandleData (of_nat (1024 * i)) (take 1024 (drop (1024 * i) d)) now m = Inr m' \<and> assembled d (insert i R) m' \<and> im_Digset m' = im_Digset m"
proof -
  let ?f = "take 1024 (drop (1024 * i) d)"
  let ?m = "m\<lparr>im_Data := packet_put (1024 * i) ?f (im_Data m), im_Acks := im_Acks m OR push_bit i 1, im_LastActiveAt := now\<rparr>"
  have lt: "1024 * i < length d" using i by (simp add: fragments_def)
  then have i8: "i < 8" using d by simp
  have u: "unat (of_nat (1024 * i) :: u16) = 1024 * i" by (rule unat_of_nat_u16) (use lt d in simp)
  have len: "length (im_Data m) = length d" using a by (simp add: assembled_def)
  have fit: "1024 * i + length ?f \<le> length d" using lt by simp
  have "HandleData (of_nat (1024 * i)) ?f now m = Inr ?m"
    using i8 fit len unfolding HandleData_def u by (simp add: FragmentSize_def)
  moreover have "assembled d (insert i R) ?m"
    unfolding assembled_def
  proof (intro conjI allI impI)
    show "length (im_Data ?m) = length d" using fit len by simp
    show "im_Data ?m ! j = d ! j" if "j < length d" "j div 1024 \<in> insert i R" for j
    proof (cases "1024 * i \<le> j \<and> j < 1024 * i + length ?f")
      case True
      then have "j - 1024 * i < 1024" by auto
      with True show ?thesis using fit len that(1) by (simp add: packet_put_nth)
    next
      case False
      have "j div 1024 \<noteq> i"
      proof
        assume "j div 1024 = i"
        then have "1024 * i \<le> j" "j < 1024 * i + 1024" by auto
        with False that(1) show False by simp
      qed
      moreover have "im_Data ?m ! j = im_Data m ! j"
        using packet_put_nth [of "1024 * i" ?f "im_Data m" j] fit len that(1) unfolding if_not_P [OF False] by simp
      ultimately show ?thesis using that a by (simp add: assembled_def)
    qed
    show "bit (im_Acks ?m) j \<longleftrightarrow> j \<in> insert i R" if "j < 8" for j
      using a that i8 by (auto simp: assembled_def bit_or_iff bit_exp_iff possible_bit_def)
  qed
  ultimately show ?thesis by auto
qed

section \<open>Receiving the packets\<close>

lemma handle_plain_DATA:
  assumes "idx < length (om_Data m)"
  shows "handle_plain env (fst (DATA_packet rnd m idx k)) s = HandleDATA env (fst (DATA_packet rnd m idx k)) s"
  unfolding DATA_shape [OF assms] by (simp add: handle_plain_def packet_header_def iwp_sizes nth_append)

lemma handle_plain_XMIT:
  assumes "length (om_Digest m) = 32"
  shows "handle_plain env (fst (XMIT rnd m k)) s = HandleXMIT env (fst (XMIT rnd m k)) s"
  unfolding XMIT_shape [OF assms] by (simp add: handle_plain_def packet_header_def iwp_sizes nth_append)

lemma HandleDATA_fragment:
  assumes "idx < length (om_Data m)" and "length (om_Data m) \<le> 8192"
  shows "HandleDATA env (fst (DATA_packet rnd m idx k)) s =
    (let s = s\<lparr>se_LastRX := le_now env\<rparr>; rxid = om_MsgID m
     in case map_of (se_RXMsgs s) rxid of
          None \<Rightarrow> if map_of (se_ReplayFilter s) rxid = None then Inr (send_new env (NACK_packet (le_random env) rxid) s) else Inr (add_mack rxid s)
        | Some im \<Rightarrow> data_fragment env (of_nat idx) (take 1024 (drop idx (om_Data m))) rxid im s)"
proof -
  let ?h = "packet_header rnd eDATA k" and ?a = "htobe16buf (of_nat idx)" and ?b = "htobe64buf (om_MsgID m)" and ?x = "take 1024 (drop idx (om_Data m))"
  have r: "packet_u16 66 (?h @ ?a @ ?b @ ?x) = of_nat idx" "packet_u64 68 (?h @ ?a @ ?b @ ?x) = om_MsgID m"
    using packet_u16_at [of ?h 66 "of_nat idx" "?b @ ?x"] packet_u64_at [of "?h @ ?a" 68 "om_MsgID m" ?x] by simp_all
  show ?thesis unfolding DATA_shape [OF assms(1)] HandleDATA_def iwp_sizes fst_conv by (simp add: r Let_def split: option.split)
qed

lemma HandleXMIT_announced:
  assumes "length (om_Digest m) = 32" and "0 < length (om_Data m)" and "length (om_Data m) \<le> 8192"
  shows "HandleXMIT env (fst (XMIT rnd m k)) s =
    (let s = s\<lparr>se_LastRX := le_now env\<rparr>; rxid = om_MsgID m
     in if map_of (se_ReplayFilter s) rxid \<noteq> None then Inr (add_mack rxid s)
        else if map_of (se_RXMsgs s) rxid \<noteq> None then Inr s
        else Inr (s\<lparr>se_RXMsgs := emplace rxid (InboundMessage_new rxid (of_nat (length (om_Data m))) (om_Digest m) (le_now env)) (se_RXMsgs s)\<rparr>))"
proof -
  let ?h = "packet_header rnd eXMIT k" and ?a = "htobe16buf (of_nat (length (om_Data m)))" and ?b = "htobe64buf (om_MsgID m)" and ?x = "take 1024 (om_Data m)"
  have r: "packet_u16 66 (?h @ ?a @ ?b @ om_Digest m @ ?x) = of_nat (length (om_Data m))" "packet_u64 68 (?h @ ?a @ ?b @ om_Digest m @ ?x) = om_MsgID m"
    using packet_u16_at [of ?h 66 "of_nat (length (om_Data m))" "?b @ om_Digest m @ ?x"] packet_u64_at [of "?h @ ?a" 68 "om_MsgID m" "om_Digest m @ ?x"] by simp_all
  have "min (length (om_Data m)) 1024 = 0 \<longleftrightarrow> False" using assms(2) by (simp add: min_def)
  note z = this
  show ?thesis unfolding XMIT_shape [OF assms(1)] HandleXMIT_def iwp_sizes fst_conv using assms by (simp add: r z Let_def)
qed

definition receiving :: "sodium \<Rightarrow> byte list \<Rightarrow> u64 \<Rightarrow> nat set \<Rightarrow> LinkSession \<Rightarrow> bool" where
  "receiving so d rxid R s \<longleftrightarrow> \<not> fragments d \<subseteq> R \<and> map_of (se_ReplayFilter s) rxid = None \<and>
     (\<exists>m. map_of (se_RXMsgs s) rxid = Some m \<and> assembled d R m \<and> im_Digset m = message_digest so d)"

definition received :: "u64 \<Rightarrow> LinkSession \<Rightarrow> bool" where
  "received rxid s \<longleftrightarrow> map_of (se_RXMsgs s) rxid = None \<and> map_of (se_ReplayFilter s) rxid \<noteq> None \<and> rxid \<in> set (se_SendMACKs s)"

lemma add_mack_simps [simp]:
  "se_RXMsgs (add_mack x s) = se_RXMsgs s" "se_ReplayFilter (add_mack x s) = se_ReplayFilter s" "se_log (add_mack x s) = se_log s"
  "set (se_SendMACKs (add_mack x s)) = insert x (set (se_SendMACKs s))"
  by (auto simp: add_mack_def)

text \<open>Exactly what the sender knows of the receiver: the same hash, and a message that is no introduction.\<close>

definition peer_of :: "sodium \<Rightarrow> byte list \<Rightarrow> link_env \<Rightarrow> bool" where
  "peer_of so d env \<longleftrightarrow> le_sodium env = so \<and> le_lim env d = None"

lemma receive_fragment:
  assumes r: "receiving so (om_Data m) (om_MsgID m) R s" and d: "length (om_Data m) \<le> 8192" and i: "i \<in> fragments (om_Data m)"
    and env: "peer_of so (om_Data m) env"
  shows "\<exists>s'. handle_plain env (fst (DATA_packet rnd m (1024 * i) k)) s = Inr s' \<and>
    (if fragments (om_Data m) \<subseteq> insert i R then received (om_MsgID m) s' \<and> se_log s' = se_log s @ [HandleMessage (om_Data m)]
     else receiving so (om_Data m) (om_MsgID m) (insert i R) s' \<and> se_log s' = se_log s)"
proof -
  let ?d = "om_Data m" and ?id = "om_MsgID m"
  obtain im where im: "map_of (se_RXMsgs s) ?id = Some im" "assembled ?d R im" "im_Digset im = message_digest so ?d"
    and rp: "map_of (se_ReplayFilter s) ?id = None" using r by (auto simp: receiving_def)
  have lt: "1024 * i < length ?d" using i by (simp add: fragments_def)
  from assembled_HandleData [OF im(2) d i, of "le_now env"] obtain im' where
    im': "HandleData (of_nat (1024 * i)) (take 1024 (drop (1024 * i) ?d)) (le_now env) im = Inr im'" "assembled ?d (insert i R) im'"
    "im_Digset im' = message_digest so ?d" using im(3) by auto
  note step = handle_plain_DATA [OF lt, of env rnd k s] HandleDATA_fragment [OF lt d, of env rnd k s]
  show ?thesis
  proof (cases "fragments ?d \<subseteq> insert i R")
    case True
    then have c: "IsCompleted im' = Inr True" "im_Data im' = ?d"
      using assembled_IsCompleted [OF im'(2) d] assembled_complete [OF im'(2)] by simp_all
    then have "Inbound_Verify (le_sodium env) im'" using im'(3) env by (simp add: Inbound_Verify_def peer_of_def)
    with True c step im im'(1) env rp show ?thesis
      by (auto simp: Let_def data_fragment_def deliver_def handle_message_def emit_def peer_of_def received_def map_of_erase_key map_of_emplace)
  next
    case False
    then have "IsCompleted im' = Inr False" using assembled_IsCompleted [OF im'(2) d] by simp
    with False step im im' rp show ?thesis by (auto simp: Let_def data_fragment_def receiving_def map_of_put_at)
  qed
qed

lemma receive_again:
  assumes "received (om_MsgID m) s" and "length (om_Data m) \<le> 8192" and "i \<in> fragments (om_Data m)"
  shows "\<exists>s'. handle_plain env (fst (DATA_packet rnd m (1024 * i) k)) s = Inr s' \<and> received (om_MsgID m) s' \<and> se_log s' = se_log s"
proof -
  have lt: "1024 * i < length (om_Data m)" using assms(3) by (simp add: fragments_def)
  show ?thesis using assms(1) handle_plain_DATA [OF lt, of env rnd k s] HandleDATA_fragment [OF lt assms(2), of env rnd k s]
    by (auto simp: Let_def received_def)
qed

text \<open>Arrivals: the environment at that moment, the number of the fragment, and the state of the random generator of the sender.\<close>

definition arrive :: "random \<Rightarrow> OutboundMessage \<Rightarrow> link_env \<times> nat \<times> nat \<Rightarrow> LinkSession \<Rightarrow> LinkSession res" where
  "arrive rnd m = (\<lambda>(env, i, k). handle_plain env (fst (DATA_packet rnd m (1024 * i) k)))"

lemma arrivals_again:
  assumes "received (om_MsgID m) s" and "length (om_Data m) \<le> 8192" and "(\<lambda>a. fst (snd a)) ` set as \<subseteq> fragments (om_Data m)"
  shows "\<exists>s'. each (arrive rnd m) as s = Inr s' \<and> received (om_MsgID m) s' \<and> se_log s' = se_log s"
  using assms(1,3)
proof (induction as arbitrary: s)
  case (Cons a as)
  obtain env i k where a: "a = (env, i, k)" by (cases a)
  with Cons.prems receive_again [OF Cons.prems(1) assms(2), of i env rnd k] obtain s' where
    s': "arrive rnd m a s = Inr s'" "received (om_MsgID m) s'" "se_log s' = se_log s" by (auto simp: arrive_def)
  with Cons.IH [OF s'(2)] Cons.prems(2) show ?case by auto
qed simp

lemma arrivals_deliver:
  assumes "receiving so (om_Data m) (om_MsgID m) R s" and "length (om_Data m) \<le> 8192"
    and "(\<lambda>a. fst (snd a)) ` set as \<subseteq> fragments (om_Data m)" and "fragments (om_Data m) \<subseteq> R \<union> (\<lambda>a. fst (snd a)) ` set as"
    and "list_all (\<lambda>a. peer_of so (om_Data m) (fst a)) as"
  shows "\<exists>s'. each (arrive rnd m) as s = Inr s' \<and> received (om_MsgID m) s' \<and> se_log s' = se_log s @ [HandleMessage (om_Data m)]"
  using assms(1,3,4,5)
proof (induction as arbitrary: s R)
  case Nil
  then show ?case by (simp add: receiving_def)
next
  case (Cons a as)
  obtain env i k where a: "a = (env, i, k)" by (cases a)
  have i: "i \<in> fragments (om_Data m)" and env: "peer_of so (om_Data m) env" using Cons.prems(2,4) a by simp_all
  from receive_fragment [OF Cons.prems(1) assms(2) i env, of rnd k] obtain s' where
    s': "arrive rnd m a s = Inr s'" and c: "if fragments (om_Data m) \<subseteq> insert i R then received (om_MsgID m) s' \<and> se_log s' = se_log s @ [HandleMessage (om_Data m)]
     else receiving so (om_Data m) (om_MsgID m) (insert i R) s' \<and> se_log s' = se_log s" by (auto simp: arrive_def a)
  have as: "(\<lambda>a. fst (snd a)) ` set as \<subseteq> fragments (om_Data m)" "fragments (om_Data m) \<subseteq> insert i R \<union> (\<lambda>a. fst (snd a)) ` set as"
    "list_all (\<lambda>a. peer_of so (om_Data m) (fst a)) as" using Cons.prems(2,3,4) a by auto
  show ?case
  proof (cases "fragments (om_Data m) \<subseteq> insert i R")
    case True
    with c arrivals_again [OF _ assms(2) as(1), of s' rnd] s' show ?thesis by auto
  next
    case False
    with c Cons.IH [OF _ as, of s'] s' show ?thesis by auto
  qed
qed

section \<open>What is sent is delivered once\<close>

lemma fragments_upto: "fragments d = {0..<(length d + 1023) div 1024}"
  unfolding fragments_def by auto

lemma flush_from:
  assumes "om_Acks m = 0" and "length (om_Data m) \<le> 8192" and "i \<le> n" and n: "n = (length (om_Data m) + 1023) div 1024"
  shows "flush_loop rnd m (1024 * i) k = Inr (map (\<lambda>j. fst (DATA_packet rnd m (1024 * j) (k + 3 * (j - i)))) [i..<n], k + 3 * (n - i))"
  using assms(3)
proof (induction "n - i" arbitrary: i k)
  case 0
  then have "\<not> 1024 * i < length (om_Data m)" using n by simp
  with 0 show ?case by (subst flush_loop.simps) simp
next
  case (Suc x)
  then have lt: "1024 * i < length (om_Data m)" and i8: "i < 8" using n assms(2) by simp_all
  have "flush_loop rnd m (1024 * Suc i) (k + 3) =
      Inr (map (\<lambda>j. fst (DATA_packet rnd m (1024 * j) (k + 3 + 3 * (j - Suc i)))) [Suc i..<n], k + 3 + 3 * (n - Suc i))"
    using Suc.hyps(2) Suc.prems by (intro Suc.hyps(1)) simp_all
  moreover have "map (\<lambda>j. fst (DATA_packet rnd m (1024 * j) (k + 3 + 3 * (j - Suc i)))) [Suc i..<n] =
      map (\<lambda>j. fst (DATA_packet rnd m (1024 * j) (k + 3 * (j - i)))) [Suc i..<n]"
    by (rule map_cong) (auto simp: Suc_diff_le numeral_eq_Suc intro!: arg_cong [where f = "\<lambda>k. fst (DATA_packet rnd m _ k)"])
  moreover have "[i..<n] = i # [Suc i..<n]" "k + 3 + 3 * (n - Suc i) = k + 3 * (n - i)"
    using Suc.hyps(2) Suc.prems by (simp_all add: upt_conv_Cons)
  ultimately show ?case
    using lt i8 assms(1) by (subst flush_loop.simps) (simp add: FragmentSize_def DATA_shape [OF lt] add.commute)
qed

lemma OutboundMessage_new_simps [simp]:
  "om_Data (OutboundMessage_new so i d t h) = d" "om_MsgID (OutboundMessage_new so i d t h) = i" "om_Acks (OutboundMessage_new so i d t h) = 0"
  "om_Digest (OutboundMessage_new so i d t h) = message_digest so d" "om_StartedAt (OutboundMessage_new so i d t h) = t"
  "om_Completed (OutboundMessage_new so i d t h) = h"
  by (simp_all add: OutboundMessage_new_def)

lemma length_message_digest: "hash_ok so \<Longrightarrow> length (message_digest so d) = 32"
  unfolding message_digest_def by (erule shorthash_okE [of so d]) simp

lemma announced_receiving:
  assumes "0 < length d" and "length d \<le> 8192" and "map_of (se_RXMsgs s) rxid = None" and "map_of (se_ReplayFilter s) rxid = None"
  shows "receiving so d rxid {} (s\<lparr>se_LastRX := t, se_RXMsgs := emplace rxid (InboundMessage_new rxid (of_nat (length d)) (message_digest so d) t') (se_RXMsgs s)\<rparr>)"
proof -
  have "unat (of_nat (length d) :: u16) = length d" by (rule unat_of_nat_u16) (use assms(2) in simp)
  moreover have "0 \<in> fragments d" using assms(1) by (simp add: fragments_def)
  ultimately show ?thesis using assms(3,4) by (auto simp: receiving_def assembled_def InboundMessage_new_def map_of_emplace)
qed

text \<open>
  C5: A message of up to 8192 bytes is sent as one announcement and one packet per 1024 bytes. When the receiver gets the announcement
  and then every fragment, in any order, at any times and any number of times, it hands exactly this message to the router, exactly
  once, and acknowledges it.
\<close>

theorem fragments_in_any_order_are_delivered_once:
  assumes "hash_ok so" and "0 < length d" and "length d \<le> 8192" and m: "m = OutboundMessage_new so txid d started h"
    and "map_of (se_RXMsgs s) txid = None" and "map_of (se_ReplayFilter s) txid = None"
    and "(\<lambda>a. fst (snd a)) ` set arrivals = fragments d" and "list_all (\<lambda>a. peer_of so d (fst a)) arrivals"
  shows "FlushUnAcked rnd m now k = Inr (map (\<lambda>i. fst (DATA_packet rnd m (1024 * i) (k + 3 * i))) [0..<(length d + 1023) div 1024],
      k + 3 * ((length d + 1023) div 1024), m\<lparr>om_LastFlush := now\<rparr>) \<and>
    (\<exists>s' s''. handle_plain env (fst (XMIT rnd m k')) s = Inr s' \<and> each (arrive rnd m) arrivals s' = Inr s'' \<and>
       se_log s'' = se_log s @ [HandleMessage d] \<and> txid \<in> set (se_SendMACKs s''))"
proof (intro conjI)
  have "flush_loop rnd m (1024 * 0) k = Inr (map (\<lambda>j. fst (DATA_packet rnd m (1024 * j) (k + 3 * (j - 0)))) [0..<(length d + 1023) div 1024],
      k + 3 * ((length d + 1023) div 1024 - 0))"
    by (rule flush_from) (use m assms(3) in simp_all)
  then show "FlushUnAcked rnd m now k = Inr (map (\<lambda>i. fst (DATA_packet rnd m (1024 * i) (k + 3 * i))) [0..<(length d + 1023) div 1024],
      k + 3 * ((length d + 1023) div 1024), m\<lparr>om_LastFlush := now\<rparr>)" by (simp add: FlushUnAcked_def)
  have dg: "length (om_Digest m) = 32" using m length_message_digest [OF assms(1)] by simp
  let ?s = "s\<lparr>se_LastRX := le_now env, se_RXMsgs := emplace txid (InboundMessage_new txid (of_nat (length d)) (message_digest so d) (le_now env)) (se_RXMsgs s)\<rparr>"
  have x: "handle_plain env (fst (XMIT rnd m k')) s = Inr ?s"
    using handle_plain_XMIT [OF dg] HandleXMIT_announced [OF dg, of env rnd k' s] assms(2,3,5,6) m by simp
  from arrivals_deliver [of so m "{}" ?s arrivals rnd] announced_receiving [OF assms(2,3,5,6)] assms(3,7,8) m obtain s'' where
    "each (arrive rnd m) arrivals ?s = Inr s''" "received txid s''" "se_log s'' = se_log ?s @ [HandleMessage d]" by auto
  with x show "\<exists>s' s''. handle_plain env (fst (XMIT rnd m k')) s = Inr s' \<and> each (arrive rnd m) arrivals s' = Inr s'' \<and>
       se_log s'' = se_log s @ [HandleMessage d] \<and> txid \<in> set (se_SendMACKs s'')" by (auto simp: received_def)
qed

definition demo_env :: link_env where
  "demo_env = \<lparr>le_now = 1000, le_time_now_ms = 1000, le_random = \<lparr>rn_int = \<lambda>_. 0, rn_byte = \<lambda>k i. 0\<rparr>, le_sodium = toy_sodium,
     le_OurRC = RouterContact_init (replicate 8 0), le_Sign = \<lambda>m. Some (replicate 64 0), le_EncryptionSecret = replicate 64 1,
     le_TransportSecret = replicate 64 2, le_ntop = \<lambda>_. None, le_netid = replicate 8 0, le_lim = \<lambda>_. None, le_established = True,
     le_renegotiate = \<lambda>_ _. True, le_too_many = \<lambda>_. False\<rparr>"

lemma demo_env_simps: "le_sodium demo_env = toy_sodium" "le_lim demo_env d = None"
  by (simp_all add: demo_env_def)

lemma demo_session: "se_RXMsgs (Session_inbound env a) = []" "se_ReplayFilter (Session_inbound env a) = []"
  by (simp_all add: Session_inbound_def Session_blank_def)

lemma demo_fragments: "fragments (replicate 1500 (7 :: byte)) = {0, 1}"
  by (auto simp: fragments_def)

theorem fragments_in_any_order_are_delivered_once_witness:
  "let m = OutboundMessage_new toy_sodium 5 (replicate 1500 7) 0 None; s = Session_inbound demo_env ([], 1090) in
   \<exists>s' s''. handle_plain demo_env (fst (XMIT (le_random demo_env) m 0)) s = Inr s' \<and>
     each (arrive (le_random demo_env) m) [(demo_env, 1, 9), (demo_env, 0, 3), (demo_env, 1, 6)] s' = Inr s'' \<and>
     se_log s'' = se_log s @ [HandleMessage (replicate 1500 7)] \<and> 5 \<in> set (se_SendMACKs s'')"
  using fragments_in_any_order_are_delivered_once [OF toy_sodium_ok(3), of "replicate 1500 7" "OutboundMessage_new toy_sodium 5 (replicate 1500 7) 0 None" 5 0 None
      "Session_inbound demo_env ([], 1090)" "[(demo_env, 1, 9), (demo_env, 0, 3), (demo_env, 1, 6)]" "le_random demo_env" 0 0 demo_env 0]
  by (simp add: Let_def demo_fragments demo_session peer_of_def demo_env_simps insert_commute)

section \<open>Packets that end the router\<close>

text \<open>
  An announcement without data makes the receiver read in front of the packet: when it has no byte behind its header and the
  announced size is larger than the packet, the fragment is taken from the bytes before it.
\<close>

theorem announcement_without_data_reads_out_of_bounds:
  assumes "length data = 108" and "data ! 65 = command_byte eXMIT" and "108 < unat (packet_u16 66 data)"
    and "map_of (se_RXMsgs s) (packet_u64 68 data) = None" and "map_of (se_ReplayFilter s) (packet_u64 68 data) = None"
  shows "handle_plain env data s = Inl OutOfBounds"
  using assms by (simp add: handle_plain_def HandleXMIT_def xmit_fragment_def iwp_sizes Let_def)

theorem announcement_without_data_reads_out_of_bounds_witness:
  "handle_plain demo_env (packet_header (le_random demo_env) eXMIT 0 @ htobe16buf 1024 @ htobe64buf 3 @ replicate 32 0) (Session_inbound demo_env ([], 1090)) = Inl OutOfBounds"
proof (rule announcement_without_data_reads_out_of_bounds)
  let ?h = "packet_header (le_random demo_env) eXMIT 0"
  show "108 < unat (packet_u16 66 (?h @ htobe16buf 1024 @ htobe64buf 3 @ replicate 32 0))"
    using packet_u16_at [of ?h 66 1024 "htobe64buf 3 @ replicate 32 0"] by simp
qed (simp_all add: demo_session packet_header_def nth_append)

text \<open>
  C40: The announced size is not checked against the eight fragments that a message can have. After an announcement of more than 8192
  bytes, a fragment behind the first 8192 bytes sets a bit that does not exist; the exception ends the process.
\<close>

theorem oversized_announcement_ends_the_process:
  assumes "108 < length xmit" and "xmit ! 65 = command_byte eXMIT" and "packet_u64 68 xmit = rxid"
    and "map_of (se_RXMsgs s) rxid = None" and "map_of (se_ReplayFilter s) rxid = None"
    and "76 \<le> length data" and "data ! 65 = command_byte eDATA" and "packet_u64 68 data = rxid"
    and "8192 \<le> unat (packet_u16 66 data)" and "unat (packet_u16 66 data) + (length data - 76) \<le> unat (packet_u16 66 xmit)"
  shows "each (handle_plain env) [xmit, data] s = Inl Terminated"
proof -
  let ?m = "InboundMessage_new rxid (packet_u16 66 xmit) (take 32 (drop 76 xmit)) (le_now env)"
  have "handle_plain env xmit s = Inr (s\<lparr>se_LastRX := le_now env, se_RXMsgs := emplace rxid ?m (se_RXMsgs s)\<rparr>)"
    using assms(1-5) by (simp add: handle_plain_def HandleXMIT_def iwp_sizes Let_def)
  moreover have "HandleData (packet_u16 66 data) (drop 76 data) (le_now env) ?m = Inl Terminated"
    using assms(9,10) by (simp add: HandleData_def InboundMessage_new_def FragmentSize_def)
  ultimately show ?thesis
    using assms(4,6-8) by (simp add: handle_plain_def HandleDATA_def data_fragment_def iwp_sizes Let_def map_of_emplace)
qed

theorem oversized_announcement_ends_the_process_witness:
  "each (handle_plain demo_env)
     [packet_header (le_random demo_env) eXMIT 0 @ htobe16buf 9000 @ htobe64buf 3 @ replicate 33 0, packet_header (le_random demo_env) eDATA 0 @ htobe16buf 8192 @ htobe64buf 3 @ [0]]
     (Session_inbound demo_env ([], 1090)) = Inl Terminated"
proof (rule oversized_announcement_ends_the_process [where rxid = 3])
  let ?x = "packet_header (le_random demo_env) eXMIT 0" and ?d = "packet_header (le_random demo_env) eDATA 0"
  note r = packet_u16_at [of ?x 66 9000 "htobe64buf 3 @ replicate 33 0"] packet_u64_at [of "?x @ htobe16buf 9000" 68 3 "replicate 33 0"]
    packet_u16_at [of ?d 66 8192 "htobe64buf 3 @ [0]"] packet_u64_at [of "?d @ htobe16buf 8192" 68 3 "[0]"]
  show "packet_u64 68 (?x @ htobe16buf 9000 @ htobe64buf 3 @ replicate 33 0) = 3" "packet_u64 68 (?d @ htobe16buf 8192 @ htobe64buf 3 @ [0]) = 3"
    "8192 \<le> unat (packet_u16 66 (?d @ htobe16buf 8192 @ htobe64buf 3 @ [0]))"
    "unat (packet_u16 66 (?d @ htobe16buf 8192 @ htobe64buf 3 @ [0])) + (length (?d @ htobe16buf 8192 @ htobe64buf 3 @ [0]) - 76)
      \<le> unat (packet_u16 66 (?x @ htobe16buf 9000 @ htobe64buf 3 @ replicate 33 0))" using r by simp_all
qed (simp_all add: demo_session packet_header_def nth_append)

end
