(* ===== verification/Iwp_Run.thy ===== *)
theory Iwp_Run
  imports Iwp_Delivery "HOL-Library.Multiset"
begin

text \<open>
  A link session over time: a run is a sequence of operations, each with what it reads from outside. Work of the crypto threads runs
  when it was queued; the packets of \<^verbatim>\<open>HandlePlaintext\<close> are operations of their own.
\<close>

section \<open>Runs\<close>

datatype session_op =
    OpSend "byte list" "completion option" | OpStart | OpRecv "byte list" | OpEncrypt "byte list list" | OpDecrypt "byte list list"
  | OpPlain "byte list" | OpMACK | OpPump | OpPumpDone | OpTick | OpClose | OpRenegotiate | OpKeepAlive

fun session_do :: "link_env \<Rightarrow> session_op \<Rightarrow> LinkSession \<Rightarrow> LinkSession res" where
  "session_do env (OpSend buf h) s = Inr (snd (SendMessageBuffer env buf h s))"
| "session_do env OpStart s = Inr (Session_Start env s)"
| "session_do env (OpRecv data) s = bind_res (Recv_LL env data s) (\<lambda>(ok, s). Inr s)"
| "session_do env (OpEncrypt msgs) s = Inr (if QueueEncrypt msgs \<in> set (se_log s) then EncryptWorker env msgs s else s)"
| "session_do env (OpDecrypt msgs) s = Inr (if QueueDecrypt msgs \<in> set (se_log s) then DecryptWorker env msgs s else s)"
| "session_do env (OpPlain pkt) s =
     (if list_ex (\<lambda>e. case e of CallHandlePlaintext msgs \<Rightarrow> pkt \<in> set msgs | _ \<Rightarrow> False) (se_log s) then handle_plain env pkt s else Inr s)"
| "session_do env OpMACK s = Inr (SendMACK env s)"
| "session_do env OpPump s = Session_Pump env s"
| "session_do env OpPumpDone s = Inr (emit PumpDone s)"
| "session_do env OpTick s = Inr (Session_Tick env (le_now env) s)"
| "session_do env OpClose s = Inr (Session_Close env s)"
| "session_do env OpRenegotiate s = bind_res (RenegotiateSession env s) (\<lambda>(ok, s). Inr s)"
| "session_do env OpKeepAlive s = Inr (snd (SendKeepAlive env s))"

definition session_run :: "(link_env \<times> session_op) list \<Rightarrow> LinkSession \<Rightarrow> LinkSession res" where
  "session_run = each (\<lambda>(env, op). session_do env op)"

lemma each_append: "each f (xs @ ys) s = bind_res (each f xs s) (each f ys)"
  by (induction xs arbitrary: s) (auto simp: bind_res_def split: sum.split)

lemma each_induct:
  assumes "each f xs s = Inr s'" and "P s" and "\<And>x s s'. x \<in> set xs \<Longrightarrow> P s \<Longrightarrow> f x s = Inr s' \<Longrightarrow> P s'"
  shows "P s'"
  using assms
proof (induction xs arbitrary: s)
  case (Cons x xs)
  from Cons.prems(1) obtain s1 where s1: "f x s = Inr s1" "each f xs s1 = Inr s'" by (auto simp: bind_res_eq_Inr_iff)
  have "P s1" using Cons.prems(2) s1(1) by (rule Cons.prems(3) [rotated]) simp
  with s1(2) show ?case by (rule Cons.IH) (use Cons.prems(3) in auto)
qed simp

section \<open>What sending leaves alone\<close>

lemma Send_LL_fields [simp]:
  "se_State (Send_LL env p s) = se_State s" "se_Inbound (Send_LL env p s) = se_Inbound s" "se_RemoteAddr (Send_LL env p s) = se_RemoteAddr s"
  "se_ChosenAI (Send_LL env p s) = se_ChosenAI s" "se_RemoteRC (Send_LL env p s) = se_RemoteRC s"
  "se_SessionKey (Send_LL env p s) = se_SessionKey s" "se_token (Send_LL env p s) = se_token s"
  "se_ExpectedIdent (Send_LL env p s) = se_ExpectedIdent s" "se_RemoteOnionKey (Send_LL env p s) = se_RemoteOnionKey s"
  "se_TXID (Send_LL env p s) = se_TXID s" "se_RXMsgs (Send_LL env p s) = se_RXMsgs s" "se_TXMsgs (Send_LL env p s) = se_TXMsgs s"
  "se_ReplayFilter (Send_LL env p s) = se_ReplayFilter s" "se_EncryptNext (Send_LL env p s) = se_EncryptNext s"
  "se_DecryptNext (Send_LL env p s) = se_DecryptNext s" "se_GotLIM (Send_LL env p s) = se_GotLIM s" "se_draws (Send_LL env p s) = se_draws s"
  "se_log (Send_LL env p s) = se_log s @ [SendTo_LL (se_RemoteAddr s) p]"
  by (simp_all add: Send_LL_def emit_def)

lemma EncryptWorker_Cons:
  "EncryptWorker env (p # ps) s = EncryptWorker env ps (Send_LL env (encrypt_packet (le_sodium env) (se_SessionKey s) p) s)"
  by (simp add: EncryptWorker_def)

lemma EncryptWorker_Nil [simp]: "EncryptWorker env [] s = s"
  by (simp add: EncryptWorker_def)

lemma EncryptWorker_fields [simp]:
  "se_State (EncryptWorker env ps s) = se_State s \<and> se_Inbound (EncryptWorker env ps s) = se_Inbound s \<and>
   se_RemoteAddr (EncryptWorker env ps s) = se_RemoteAddr s \<and>
   se_ChosenAI (EncryptWorker env ps s) = se_ChosenAI s \<and> se_RemoteRC (EncryptWorker env ps s) = se_RemoteRC s \<and>
   se_SessionKey (EncryptWorker env ps s) = se_SessionKey s \<and> se_token (EncryptWorker env ps s) = se_token s \<and>
   se_ExpectedIdent (EncryptWorker env ps s) = se_ExpectedIdent s \<and> se_RemoteOnionKey (EncryptWorker env ps s) = se_RemoteOnionKey s \<and>
   se_TXID (EncryptWorker env ps s) = se_TXID s \<and> se_RXMsgs (EncryptWorker env ps s) = se_RXMsgs s \<and> se_TXMsgs (EncryptWorker env ps s) = se_TXMsgs s \<and>
   se_ReplayFilter (EncryptWorker env ps s) = se_ReplayFilter s \<and> se_EncryptNext (EncryptWorker env ps s) = se_EncryptNext s \<and>
   se_DecryptNext (EncryptWorker env ps s) = se_DecryptNext s \<and> se_GotLIM (EncryptWorker env ps s) = se_GotLIM s \<and>
   se_draws (EncryptWorker env ps s) = se_draws s \<and>
   se_log (EncryptWorker env ps s) = se_log s @ map (\<lambda>p. SendTo_LL (se_RemoteAddr s) (encrypt_packet (le_sodium env) (se_SessionKey s) p)) ps"
  by (induction ps arbitrary: s) (simp_all add: EncryptWorker_Cons)

lemma EncryptAndSend_fields [simp]:
  "se_State (EncryptAndSend env p s) = se_State s" "se_Inbound (EncryptAndSend env p s) = se_Inbound s"
  "se_RemoteAddr (EncryptAndSend env p s) = se_RemoteAddr s"
  "se_ChosenAI (EncryptAndSend env p s) = se_ChosenAI s" "se_RemoteRC (EncryptAndSend env p s) = se_RemoteRC s"
  "se_SessionKey (EncryptAndSend env p s) = se_SessionKey s" "se_token (EncryptAndSend env p s) = se_token s"
  "se_ExpectedIdent (EncryptAndSend env p s) = se_ExpectedIdent s" "se_RemoteOnionKey (EncryptAndSend env p s) = se_RemoteOnionKey s"
  "se_TXID (EncryptAndSend env p s) = se_TXID s" "se_RXMsgs (EncryptAndSend env p s) = se_RXMsgs s" "se_TXMsgs (EncryptAndSend env p s) = se_TXMsgs s"
  "se_ReplayFilter (EncryptAndSend env p s) = se_ReplayFilter s" "se_SendMACKs (EncryptAndSend env p s) = se_SendMACKs s"
  "se_DecryptNext (EncryptAndSend env p s) = se_DecryptNext s" "se_GotLIM (EncryptAndSend env p s) = se_GotLIM s"
  "se_draws (EncryptAndSend env p s) = se_draws s"
  by (simp_all add: EncryptAndSend_def Let_def)

lemma send_new_fields [simp]:
  "se_State (send_new env mk s) = se_State s" "se_Inbound (send_new env mk s) = se_Inbound s" "se_RemoteAddr (send_new env mk s) = se_RemoteAddr s"
  "se_ChosenAI (send_new env mk s) = se_ChosenAI s" "se_RemoteRC (send_new env mk s) = se_RemoteRC s"
  "se_SessionKey (send_new env mk s) = se_SessionKey s" "se_token (send_new env mk s) = se_token s"
  "se_ExpectedIdent (send_new env mk s) = se_ExpectedIdent s" "se_RemoteOnionKey (send_new env mk s) = se_RemoteOnionKey s"
  "se_TXID (send_new env mk s) = se_TXID s" "se_RXMsgs (send_new env mk s) = se_RXMsgs s" "se_TXMsgs (send_new env mk s) = se_TXMsgs s"
  "se_ReplayFilter (send_new env mk s) = se_ReplayFilter s" "se_DecryptNext (send_new env mk s) = se_DecryptNext s"
  "se_GotLIM (send_new env mk s) = se_GotLIM s"
  by (simp_all add: send_new_def split: prod.split)

section \<open>The size of packets\<close>

text \<open>What an operation reads from outside has the sizes it has in the code.\<close>

definition env_ok :: "link_env \<Rightarrow> bool" where
  "env_ok env \<longleftrightarrow> hash_ok (le_sodium env) \<and> stream_ok (le_sodium env) \<and> length (rc_pubkey (le_OurRC env)) = 32 \<and>
     length (le_EncryptionSecret env) = 64 \<and> (\<forall>m z. le_Sign env m = Some z \<longrightarrow> length z = 64)"

definition packet_ok :: "byte list \<Rightarrow> bool" where
  "packet_ok p \<longleftrightarrow> 64 \<le> length p \<and> length p \<le> 1132"

lemma length_encrypt_packet:
  assumes "env_ok env" and "64 \<le> length p"
  shows "length (encrypt_packet (le_sodium env) key p) = length p"
proof -
  let ?q = "take 64 p @ xchacha20 (le_sodium env) (drop 64 p) key (take 32 (drop 32 p))"
  have "length ?q = length p" using assms by (simp add: env_ok_def length_xchacha20)
  moreover obtain h where "hmac (le_sodium env) (drop 32 ?q) key = Some h" "length h = 32"
    using assms(1) hash_okE [of "le_sodium env" "drop 32 ?q" key] by (auto simp: env_ok_def)
  ultimately show ?thesis using assms(2) by (simp add: encrypt_packet_def PacketOverhead_def Let_def packet_put_def)
qed

lemma CreatePacket_padded:
  obtains pad where "CreatePacket rnd cmd n 16 16 k = (packet_header rnd cmd k @ replicate n 0 @ pad, k + 3)" and "length pad < 32"
proof
  show "CreatePacket rnd cmd n 16 16 k = (packet_header rnd cmd k @ replicate n 0 @ randbytes rnd (k + 1) (16 + unat (rn_int rnd k) mod 16), k + 3)"
    by (simp add: CreatePacket_def packet_header_def)
  show "length (randbytes rnd (k + 1) (16 + unat (rn_int rnd k) mod 16)) < 32" by simp
qed

lemma packet_ok_padded:
  assumes "n \<le> 1034"
  shows "packet_ok (fst (CreatePacket rnd cmd n 16 16 k))" and "length (fst (CreatePacket rnd cmd n 16 16 k)) \<ge> 66 + n"
proof -
  obtain pad where p: "CreatePacket rnd cmd n 16 16 k = (packet_header rnd cmd k @ replicate n 0 @ pad, k + 3)" "length pad < 32"
    by (rule CreatePacket_padded)
  from p assms show "packet_ok (fst (CreatePacket rnd cmd n 16 16 k))" "length (fst (CreatePacket rnd cmd n 16 16 k)) \<ge> 66 + n"
    by (simp_all add: packet_ok_def)
qed

lemma packet_ok_put: "packet_ok p \<Longrightarrow> off + length bs \<le> length p \<Longrightarrow> packet_ok (packet_put off bs p)"
  by (simp add: packet_ok_def)

lemma packet_ok_ACKS: "packet_ok (fst (ACKS rnd im k))"
  using packet_ok_padded [of 9 rnd eACKS k] by (auto simp: ACKS_def iwp_sizes split_def Let_def intro!: packet_ok_put)

lemma packet_ok_NACK: "packet_ok (fst (NACK_packet rnd rxid k))"
  using packet_ok_padded [of 8 rnd eNACK k] by (auto simp: NACK_packet_def iwp_sizes split_def Let_def intro!: packet_ok_put)

lemma packet_ok_MACK:
  assumes "length acks \<le> MaxACKSInMACK"
  shows "packet_ok (fst (MACK_packet rnd acks k))"
proof -
  have "length (concat (map htobe64buf acks)) = 8 * length acks" by (induction acks) simp_all
  moreover have "1 + length acks * 8 \<le> 1034" using assms by (simp add: MaxACKSInMACK_def)
  ultimately show ?thesis using packet_ok_padded [of "1 + length acks * 8" rnd eMACK k]
    unfolding MACK_packet_def iwp_sizes split_def Let_def by (auto intro!: packet_ok_put)
qed

lemma packet_ok_XMIT: "length (om_Digest m) = 32 \<Longrightarrow> packet_ok (fst (XMIT rnd m k))"
  unfolding XMIT_shape by (simp add: packet_ok_def)

lemma packet_ok_DATA: "idx < length (om_Data m) \<Longrightarrow> packet_ok (fst (DATA_packet rnd m idx k))"
  unfolding DATA_shape by (simp add: packet_ok_def)

lemmas packets_ok_new = packet_ok_padded(1) [of 0] packet_ok_ACKS packet_ok_NACK packet_ok_MACK packet_ok_XMIT packet_ok_DATA

definition effect_ok :: "link_effect \<Rightarrow> bool" where
  "effect_ok e = (case e of SendTo_LL a p \<Rightarrow> packet_ok p | QueueEncrypt ps \<Rightarrow> list_all packet_ok ps
     | CallHandlePlaintext ps \<Rightarrow> list_all (\<lambda>p. 64 < length p) ps | _ \<Rightarrow> True)"

text \<open>The queue of a session and everything it has sent or handed to other threads.\<close>

definition queues_ok :: "LinkSession \<Rightarrow> bool" where
  "queues_ok s \<longleftrightarrow> list_all effect_ok (se_log s) \<and> list_all packet_ok (case se_EncryptNext s of None \<Rightarrow> [] | Some q \<Rightarrow> q)"

lemma EncryptWorker_queues:
  assumes "env_ok env" and "queues_ok s" and "list_all packet_ok ps"
  shows "queues_ok (EncryptWorker env ps s)"
proof -
  have "packet_ok (encrypt_packet (le_sodium env) key p)" if "p \<in> set ps" for p key
    using that assms(1,3) length_encrypt_packet [OF assms(1), of p] by (auto simp: packet_ok_def list_all_iff)
  then show ?thesis using assms(2) by (auto simp: queues_ok_def effect_ok_def list_all_iff)
qed

lemma EncryptAndSend_queues:
  assumes "env_ok env" and "queues_ok s" and "packet_ok p"
  shows "queues_ok (EncryptAndSend env p s)"
proof -
  let ?q = "(case se_EncryptNext s of None \<Rightarrow> [] | Some q \<Rightarrow> q) @ [p]"
  have "list_all packet_ok ?q" using assms(2,3) by (simp add: queues_ok_def)
  moreover have "queues_ok (s\<lparr>se_EncryptNext := None\<rparr>)" using assms(2) by (simp add: queues_ok_def)
  ultimately have "queues_ok (EncryptWorker env ?q (s\<lparr>se_EncryptNext := None\<rparr>))" by (intro EncryptWorker_queues [OF assms(1)])
  moreover have "queues_ok (s\<lparr>se_EncryptNext := Some ?q\<rparr>)" using assms(2,3) by (simp add: queues_ok_def)
  ultimately show ?thesis unfolding EncryptAndSend_def Let_def by simp
qed

lemma send_new_queues:
  assumes "env_ok env" and "queues_ok s" and "\<And>k. packet_ok (fst (mk k))"
  shows "queues_ok (send_new env mk s)"
proof -
  have "queues_ok (s\<lparr>se_draws := k\<rparr>)" for k using assms(2) by (simp add: queues_ok_def)
  then show ?thesis unfolding send_new_def split_def Let_def by (intro EncryptAndSend_queues assms(1,3))
qed

section \<open>Well-formed sessions\<close>

text \<open>
  The sizes of the keys, the containers without repeated keys, no message that is received and in the replay filter at once, and the
  queues of packets.
\<close>

definition session_typed :: "LinkSession \<Rightarrow> bool" where
  "session_typed s \<longleftrightarrow> length (se_SessionKey s) = 32 \<and> length (se_token s) = 24 \<and> length (se_ExpectedIdent s) = 32 \<and>
     length (se_RemoteOnionKey s) = 32 \<and> distinct (map fst (se_RXMsgs s)) \<and> distinct (map fst (se_TXMsgs s)) \<and>
     distinct (map fst (se_ReplayFilter s)) \<and> distinct (se_SendMACKs s) \<and> fst ` set (se_RXMsgs s) \<inter> fst ` set (se_ReplayFilter s) = {} \<and>
     list_all (\<lambda>m. length (om_Digest (snd m)) = 32) (se_TXMsgs s)"

definition session_wf :: "LinkSession \<Rightarrow> bool" where
  "session_wf s \<longleftrightarrow> session_typed s \<and> queues_ok s"

named_theorems wf_intros \<open>operations that keep a session well-formed\<close>

lemma wf_send_new [wf_intros]: "env_ok env \<Longrightarrow> session_wf s \<Longrightarrow> (\<And>k. packet_ok (fst (mk k))) \<Longrightarrow> session_wf (send_new env mk s)"
  using send_new_queues [of env s mk] by (simp add: session_wf_def session_typed_def)

lemma wf_emit [wf_intros]: "session_wf s \<Longrightarrow> effect_ok e \<Longrightarrow> session_wf (emit e s)"
  by (simp add: session_wf_def session_typed_def queues_ok_def emit_def)

lemma wf_fields [wf_intros]:
  "session_wf s \<Longrightarrow> session_wf (s\<lparr>se_State := st\<rparr>)" "session_wf s \<Longrightarrow> session_wf (s\<lparr>se_LastRX := t\<rparr>)"
  "session_wf s \<Longrightarrow> session_wf (s\<lparr>se_RemoteRC := rc\<rparr>)" "session_wf s \<Longrightarrow> session_wf (s\<lparr>se_GotLIM := g\<rparr>)"
  "session_wf s \<Longrightarrow> session_wf (s\<lparr>se_draws := n\<rparr>)" "session_wf s \<Longrightarrow> session_wf (s\<lparr>se_RXRate := r\<rparr>)"
  "session_wf s \<Longrightarrow> session_wf (s\<lparr>se_DecryptNext := q\<rparr>)" "session_wf s \<Longrightarrow> session_wf (s\<lparr>se_ResetRatesAt := t\<rparr>)"
  "session_wf s \<Longrightarrow> session_wf (s\<lparr>se_TXID := i\<rparr>)" "session_wf s \<Longrightarrow> session_wf (ResetRates s)"
  "session_wf s \<Longrightarrow> length key = 32 \<Longrightarrow> session_wf (s\<lparr>se_SessionKey := key\<rparr>)"
  "session_wf s \<Longrightarrow> length tk = 24 \<Longrightarrow> session_wf (s\<lparr>se_token := tk\<rparr>)"
  "session_wf s \<Longrightarrow> length k = 32 \<Longrightarrow> session_wf (s\<lparr>se_ExpectedIdent := k\<rparr>)"
  "session_wf s \<Longrightarrow> length k = 32 \<Longrightarrow> session_wf (s\<lparr>se_RemoteOnionKey := k\<rparr>)"
  "session_wf s \<Longrightarrow> distinct acks \<Longrightarrow> session_wf (s\<lparr>se_SendMACKs := acks\<rparr>)"
  by (simp_all add: session_wf_def session_typed_def queues_ok_def ResetRates_def)

lemma wf_TXMsgs [wf_intros]:
  "session_wf s \<Longrightarrow> distinct (map fst tx) \<Longrightarrow> list_all (\<lambda>m. length (om_Digest (snd m)) = 32) tx \<Longrightarrow> session_wf (s\<lparr>se_TXMsgs := tx\<rparr>)"
  by (simp add: session_wf_def session_typed_def queues_ok_def)

lemma wfD:
  assumes "session_wf s"
  shows "distinct (map fst (se_TXMsgs s))" "list_all (\<lambda>m. length (om_Digest (snd m)) = 32) (se_TXMsgs s)" "distinct (map fst (se_RXMsgs s))"
    "distinct (map fst (se_ReplayFilter s))" "fst ` set (se_RXMsgs s) \<inter> fst ` set (se_ReplayFilter s) = {}" "distinct (se_SendMACKs s)"
    "length (se_token s) = 24" "length (se_SessionKey s) = 32" "queues_ok s"
  using assms by (simp_all add: session_wf_def session_typed_def)

lemma wf_Close [wf_intros]: "env_ok env \<Longrightarrow> session_wf s \<Longrightarrow> session_wf (Session_Close env s)"
  unfolding Session_Close_def Let_def by (auto simp: effect_ok_def intro!: wf_intros packets_ok_new)

lemma wf_map_addr [wf_intros]: "env_ok env \<Longrightarrow> session_wf s \<Longrightarrow> session_wf (map_addr env s)"
  unfolding map_addr_def Let_def by (auto simp: effect_ok_def intro!: wf_intros)

lemma wf_inform [wf_intros]: "env_ok env \<Longrightarrow> session_wf s \<Longrightarrow> session_wf (inform env st h s)"
  unfolding inform_def by (auto simp: effect_ok_def intro!: wf_intros split: option.split completion.split)

lemma wf_SendKeepAlive [wf_intros]: "env_ok env \<Longrightarrow> session_wf s \<Longrightarrow> session_wf (snd (SendKeepAlive env s))"
  unfolding SendKeepAlive_def by (auto intro!: wf_intros packets_ok_new)

lemma env_digest: "env_ok env \<Longrightarrow> length (message_digest (le_sodium env) d) = 32"
  by (simp add: env_ok_def length_message_digest)

lemma wf_SendMessageBuffer [wf_intros]:
  assumes "env_ok env" and "session_wf s"
  shows "session_wf (snd (SendMessageBuffer env buf h s))"
proof -
  let ?new = "OutboundMessage_new (le_sodium env) (se_TXID s) buf (le_now env) h"
  let ?msg = "case map_of (se_TXMsgs s) (se_TXID s) of None \<Rightarrow> ?new | Some old \<Rightarrow> old"
  have "length (om_Digest ?msg) = 32"
    using wfD(2) [OF assms(2)] env_digest [OF assms(1)] by (auto simp: list_all_iff dest!: map_of_SomeD split: option.split)
  moreover have "list_all (\<lambda>m. length (om_Digest (snd m)) = 32) (emplace (se_TXID s) ?new (se_TXMsgs s))"
    using wfD(2) [OF assms(2)] env_digest [OF assms(1)] by (auto simp: list_all_iff dest!: set_emplace)
  ultimately show ?thesis
    using assms unfolding SendMessageBuffer_def Let_def
    by (auto intro!: wf_intros packet_ok_XMIT distinct_emplace wfD(1))
qed

lemma wf_SendMACK [wf_intros]: "env_ok env \<Longrightarrow> session_wf s \<Longrightarrow> session_wf (SendMACK env s)"
proof (induction env s rule: SendMACK.induct)
  case (1 env s)
  show ?case
  proof (cases "se_SendMACKs s = []")
    case False
    have "session_wf (send_new env (MACK_packet (le_random env) (take MaxACKSInMACK (se_SendMACKs s))) (s\<lparr>se_SendMACKs := drop MaxACKSInMACK (se_SendMACKs s)\<rparr>))"
      using 1(2,3) wfD(6) [OF 1(3)] by (auto intro!: wf_intros packet_ok_MACK)
    with 1 False show ?thesis by (subst SendMACK.simps) simp
  qed (use 1 in \<open>subst SendMACK.simps, simp\<close>)
qed

lemma wf_SendOurLIM: "env_ok env \<Longrightarrow> session_wf s \<Longrightarrow> SendOurLIM env h s = Inr s' \<Longrightarrow> session_wf s'"
  unfolding SendOurLIM_def Let_def by (auto simp: bind_res_eq_Inr_iff split: if_splits intro!: wf_intros)

lemma wf_GotLIM:
  assumes "env_ok env" and "session_wf s" and "GotLIM env msg s = Inr (ok, s')"
  shows "session_wf s'"
  using assms unfolding GotLIM_def GotOutboundLIM_def GotInboundLIM_def GotRenegLIM_def Let_def
  by (auto simp: effect_ok_def bind_res_eq_Inr_iff split: lim_handler.splits if_splits intro!: wf_intros elim!: wf_SendOurLIM [rotated 2])

lemma wf_handle_message:
  assumes "env_ok env" and "session_wf s" and "handle_message env buf s = Inr s'"
  shows "session_wf s'"
proof -
  have "session_wf (emit (HandleMessage buf) s)" using assms(2) by (auto simp: effect_ok_def intro!: wf_intros)
  with assms(1,3) wf_GotLIM show ?thesis
    unfolding handle_message_def Let_def by (auto simp: bind_res_eq_Inr_iff split: option.splits)
qed

lemma put_at_key_set [simp]: "fst ` set (put_at k v xs) = fst ` set xs"
  by (metis list.set_map put_at_keys)

lemma wf_pump_rx [wf_intros]:
  assumes "env_ok env" and "session_wf s"
  shows "session_wf (pump_rx env m s)"
proof -
  have put: "session_wf (s\<lparr>se_RXMsgs := put_at i x (se_RXMsgs s)\<rparr>)" if "session_wf s" for i x s
    using that by (simp add: session_wf_def session_typed_def queues_ok_def)
  have "session_wf (send_new env (ACKS (le_random env) (snd m)) s)" using assms by (auto intro!: wf_intros packets_ok_new)
  from put [OF this] show ?thesis using assms(2) by (simp add: pump_rx_def split_def Let_def)
qed

lemma flush_loop_ok: "flush_loop rnd m idx k = Inr (pkts, k') \<Longrightarrow> list_all packet_ok pkts"
proof (induction rnd m idx k arbitrary: pkts k' rule: flush_loop.induct)
  case (1 rnd m idx k)
  show ?case
  proof (cases "idx < length (om_Data m)")
    case True
    define f where "f = (if bit (om_Acks m) (idx div FragmentSize) then ([], k) else map_prod (\<lambda>p. [p]) id (DATA_packet rnd m idx k))"
    have f: "list_all packet_ok (fst f)" using packet_ok_DATA [OF True, of rnd k] by (auto simp: f_def map_prod_def split: prod.split)
    from 1(2) True obtain rest where r: "idx div FragmentSize < 8" "flush_loop rnd m (idx + 1024) (snd f) = Inr (rest, k')" "pkts = fst f @ rest"
      by (subst (asm) flush_loop.simps) (auto simp: f_def [symmetric] bind_res_eq_Inr_iff split_def Let_def split: if_splits)
    have "list_all packet_ok rest" by (rule 1(1) [OF True, of f "fst f" "snd f"]) (use r in \<open>simp_all add: f_def\<close>)
    with f r(3) show ?thesis by simp
  next
    case False
    with 1(2) show ?thesis by (subst (asm) flush_loop.simps) simp
  qed
qed

lemma wf_sends: "env_ok env \<Longrightarrow> session_wf s \<Longrightarrow> list_all packet_ok pkts \<Longrightarrow> session_wf (fold (EncryptAndSend env) pkts s)"
  using EncryptAndSend_queues [of env]
  by (induction pkts arbitrary: s) (simp_all add: session_wf_def session_typed_def)

lemma put_at_list_all: "list_all P xs \<Longrightarrow> P (k, v) \<Longrightarrow> list_all P (put_at k v xs)"
  by (auto simp: put_at_def list_all_iff)

lemma wf_flush_message:
  assumes "env_ok env" and "session_wf s" and "flush_message env txid m s = Inr s'" and "length (om_Digest m) = 32"
  shows "session_wf s'"
proof -
  from assms(3) obtain pkts k where f: "flush_loop (le_random env) m 0 (se_draws s) = Inr (pkts, k)"
    and s': "s' = (let s = fold (EncryptAndSend env) pkts (s\<lparr>se_draws := k\<rparr>) in s\<lparr>se_TXMsgs := put_at txid (m\<lparr>om_LastFlush := le_now env\<rparr>) (se_TXMsgs s)\<rparr>)"
    by (auto simp: flush_message_def FlushUnAcked_def bind_res_eq_Inr_iff Let_def)
  have wf: "session_wf (fold (EncryptAndSend env) pkts (s\<lparr>se_draws := k\<rparr>))" (is "session_wf ?s")
    using assms(1,2) flush_loop_ok [OF f] by (intro wf_sends) (auto intro!: wf_intros)
  then have "session_wf (?s\<lparr>se_TXMsgs := put_at txid (m\<lparr>om_LastFlush := le_now env\<rparr>) (se_TXMsgs ?s)\<rparr>)"
    using wfD(1,2) [OF wf] assms(4) by (intro wf_TXMsgs put_at_list_all) simp_all
  then show ?thesis by (simp add: s' Let_def)
qed

lemma wf_Pump:
  assumes "env_ok env" and "session_wf s" and "Session_Pump env s = Inr s'"
  shows "session_wf s'"
proof -
  let ?k = "if ShouldPing env s then snd (SendKeepAlive env s) else s"
  let ?s = "fold (pump_rx env) (se_RXMsgs ?k) ?k"
  have "session_wf (fold (pump_rx env) ms s)" if "session_wf s" for ms s
    using that by (induction ms arbitrary: s) (auto intro!: wf_intros assms(1))
  moreover have "session_wf ?k" using assms(1,2) by (auto intro!: wf_intros)
  ultimately have wf: "session_wf ?s" by blast
  have tx: "session_wf s2" if "each (pump_tx env) ms s1 = Inr s2" "session_wf s1" "list_all (\<lambda>m. length (om_Digest (snd m)) = 32) ms" for ms s1 s2
    using that(1,2)
  proof (rule each_induct)
    fix m s s' assume "m \<in> set ms" "session_wf s" "pump_tx env m s = Inr s'"
    with that(3) show "session_wf s'" using wf_flush_message [OF assms(1), of s "fst m" "snd m" s']
      by (auto simp: pump_tx_def split_def list_all_iff split: if_splits)
  qed
  define q where "q = (\<lambda>s. case se_EncryptNext s of Some (p # ps) \<Rightarrow> (emit (QueueEncrypt (p # ps)) s)\<lparr>se_EncryptNext := None\<rparr> | _ \<Rightarrow> s)"
  from assms(3) obtain s1 where s1: "(if se_State s = Ready \<or> se_State s = LinkIntro then each (pump_tx env) (se_TXMsgs ?s) ?s else Inr s) = Inr s1"
    and s': "s' = (case se_DecryptNext (q s1) of Some (p # ps) \<Rightarrow> (emit (QueueDecrypt (p # ps)) (q s1))\<lparr>se_DecryptNext := None\<rparr> | _ \<Rightarrow> q s1)"
    unfolding Session_Pump_def Let_def q_def by (auto simp: bind_res_eq_Inr_iff)
  have "session_wf s1" using s1 tx [OF _ wf wfD(2) [OF wf]] assms(2) by (auto split: if_splits)
  then have "session_wf (q s1)"
    by (auto simp: q_def session_wf_def session_typed_def queues_ok_def emit_def effect_ok_def split: option.split list.split)
  then show ?thesis unfolding s' by (auto simp: effect_ok_def intro!: wf_intros split: option.split list.split)
qed

lemma wf_Tick:
  assumes "env_ok env" and "session_wf s"
  shows "session_wf (Session_Tick env now s)"
proof -
  have tx: "session_wf (fold (tick_tx env now) ms s)" if "session_wf s" for ms s
    using that
  proof (induction ms arbitrary: s)
    case (Cons m ms)
    have i: "session_wf (inform env eDeliveryDropped (om_Completed (snd m)) s)" (is "session_wf ?i") using Cons.prems assms(1) by (auto intro!: wf_intros)
    have "session_wf (?i\<lparr>se_TXMsgs := erase_key (fst m) (se_TXMsgs ?i)\<rparr>)"
      using wfD(1,2) [OF i] by (intro wf_TXMsgs [OF i]) (auto simp: distinct_erase_key list_all_iff)
    then have "session_wf (tick_tx env now m s)" using Cons.prems by (simp add: tick_tx_def split_def Let_def)
    with Cons.IH show ?case by simp
  qed simp
  have rx1: "session_wf (tick_rx now m s)" if "session_wf s" for m s
    using that by (auto simp: tick_rx_def split_def session_wf_def session_typed_def queues_ok_def distinct_erase_key distinct_emplace emplace_keys)
  have rx: "session_wf (fold (tick_rx now) ms s)" if "session_wf s" for ms s
    using that by (induction ms arbitrary: s) (auto intro: rx1)
  have fl: "session_wf (s\<lparr>se_ReplayFilter := filter P (se_ReplayFilter s)\<rparr>)" if "session_wf s" for P s
    using that by (auto simp: session_wf_def session_typed_def queues_ok_def distinct_map_filter)
  show ?thesis unfolding Session_Tick_def Let_def using assms(2) by (auto intro!: fl rx tx wf_intros)
qed

lemma dh_length:
  assumes "hash_ok so"
  shows "dh_client so pk sk n = Some key \<Longrightarrow> length key = 32" and "dh_server so pk sk n = Some key \<Longrightarrow> length key = 32"
proof -
  have h: "so_generichash so 32 m k = Some h \<Longrightarrow> length h = 32" for m k h using assms by (metis hash_ok_def option.inject)
  show "dh_client so pk sk n = Some key \<Longrightarrow> length key = 32" "dh_server so pk sk n = Some key \<Longrightarrow> length key = 32"
    by (auto simp: dh_client_def dh_server_def split: option.splits intro: h)
qed

lemma wf_EncryptAndSend [wf_intros]: "env_ok env \<Longrightarrow> session_wf s \<Longrightarrow> packet_ok p \<Longrightarrow> session_wf (EncryptAndSend env p s)"
  using EncryptAndSend_queues [of env s p] by (simp add: session_wf_def session_typed_def)

lemma wf_Start:
  assumes "env_ok env" and "session_wf s"
  shows "session_wf (Session_Start env s)"
proof -
  have e: "hash_ok (le_sodium env)" "length (rc_pubkey (le_OurRC env)) = 32" "length (le_EncryptionSecret env) = 64"
    "\<And>m z. le_Sign env m = Some z \<Longrightarrow> length z = 64" using assms(1) by (simp_all add: env_ok_def)
  show ?thesis
    unfolding Session_Start_def GenerateAndSendIntro_def Let_def transport_dh_client_def
    using assms e(2,3) by (auto simp: packet_ok_def seckey_topublic_def aligned_Zero_def dest!: e(4) dh_length(1) [OF e(1)] split: option.split intro!: wf_intros)
qed

lemma DecryptMessageInPlace_length:
  assumes "env_ok env" and "DecryptMessageInPlace (le_sodium env) key pkt = Some p"
  shows "length p = length pkt \<and> 64 < length pkt"
  using assms by (auto simp: DecryptMessageInPlace_def env_ok_def length_xchacha20 PacketOverhead_def Let_def split: if_splits option.splits)

lemma packet_ok_token: "length tk = 24 \<Longrightarrow> packet_ok (fst (token_packet env tk k))"
  by (simp add: token_packet_def packet_ok_def)

lemma wf_Recv_LL:
  assumes "env_ok env" and "session_wf s" and "Recv_LL env data s = Inr (ok, s')"
  shows "session_wf s'"
proof -
  have h: "hash_ok (le_sodium env)" using assms(1) by (simp add: env_ok_def)
  define s0 where "s0 = s\<lparr>se_RXRate := se_RXRate s + of_nat (length data)\<rparr>"
  have s0: "session_wf s0" unfolding s0_def using assms(2) by (auto intro!: wf_intros)
  have i: "session_wf (HandleGotIntro env p s0)" for p
    unfolding HandleGotIntro_def Let_def transport_dh_server_def using s0 wfD(7) [OF s0] assms(1)
    by (auto simp: iwp_sizes IntroductionSize_def dest!: dh_length(2) [OF h] split: option.split intro!: wf_intros packet_ok_token)
  have a: "session_wf (HandleGotIntroAck env data s0)"
    unfolding HandleGotIntroAck_def Let_def using s0 wfD(7) [OF s0] assms(1)
    by (auto simp: iwp_sizes dest!: DecryptMessageInPlace_length [OF assms(1)] split: option.split intro!: wf_intros packet_ok_token)
  have c: "HandleCreateSessionRequest env data s0 = Inr s1 \<Longrightarrow> session_wf s1" for s1
    unfolding HandleCreateSessionRequest_def using s0 assms(1)
    by (auto split: option.splits if_splits elim!: wf_SendOurLIM [rotated 2] intro!: wf_intros)
  have d: "session_wf (HandleSessionData data s0)" unfolding HandleSessionData_def using s0 by (auto intro!: wf_intros)
  show ?thesis using assms(3) i a c d s0 unfolding Recv_LL_def s0_def [symmetric] Let_def
    by (auto simp: bind_res_eq_Inr_iff split: session_state.splits if_splits option.splits)
qed

lemma wf_add_mack [wf_intros]: "session_wf s \<Longrightarrow> session_wf (add_mack rxid s)"
  unfolding add_mack_def using wfD(6) by (auto intro!: wf_intros)

lemma wf_complete_tx [wf_intros]:
  assumes "env_ok env" and "session_wf s"
  shows "session_wf (complete_tx env txid s)"
proof -
  have "session_wf (s\<lparr>se_TXMsgs := erase_key txid (se_TXMsgs s)\<rparr>)" if "session_wf s" for s
    using wfD(1,2) [OF that] by (intro wf_TXMsgs [OF that]) (auto simp: distinct_erase_key list_all_iff)
  then show ?thesis unfolding complete_tx_def Let_def using assms by (auto split: option.split intro!: wf_inform)
qed

lemma wf_RX:
  assumes "session_wf s" and "map_of (se_ReplayFilter s) rxid = None"
  shows "session_wf (s\<lparr>se_RXMsgs := emplace rxid m (se_RXMsgs s)\<rparr>)"
  using assms by (auto simp: session_wf_def session_typed_def queues_ok_def distinct_emplace emplace_keys map_of_eq_None_iff)

lemma wf_RX_put [wf_intros]: "session_wf s \<Longrightarrow> session_wf (s\<lparr>se_RXMsgs := put_at rxid m (se_RXMsgs s)\<rparr>)"
  by (simp add: session_wf_def session_typed_def queues_ok_def)

lemma wf_RX_erase [wf_intros]: "session_wf s \<Longrightarrow> session_wf (s\<lparr>se_RXMsgs := erase_key rxid (se_RXMsgs s)\<rparr>)"
  by (auto simp: session_wf_def session_typed_def queues_ok_def distinct_erase_key)

lemma wf_deliver:
  assumes "env_ok env" and "session_wf s" and "deliver env rxid m s = Inr s'"
  shows "session_wf (s'\<lparr>se_RXMsgs := erase_key rxid (se_RXMsgs s')\<rparr>)"
proof -
  from assms(3) obtain s0 where s0: "handle_message env (im_Data m) s = Inr s0"
    and s': "s' = add_mack rxid (s0\<lparr>se_ReplayFilter := emplace rxid (le_now env) (se_ReplayFilter s0)\<rparr>)"
    by (auto simp: deliver_def bind_res_eq_Inr_iff)
  have "session_wf s0" by (rule wf_handle_message [OF assms(1,2) s0])
  then show ?thesis unfolding s'
    by (auto simp: add_mack_def session_wf_def session_typed_def queues_ok_def distinct_erase_key distinct_emplace emplace_keys)
qed

lemma wf_xmit_fragment:
  assumes "env_ok env" and "session_wf s" and "xmit_fragment env data sz rxid m s = Inr s'"
  shows "session_wf s'"
proof -
  from assms(3) obtain m' where m': "let s = s\<lparr>se_RXMsgs := put_at rxid m' (se_RXMsgs s)\<rparr> in s' = s \<or>
      (\<exists>s1. deliver env rxid m' s = Inr s1 \<and> s' = s1\<lparr>se_RXMsgs := erase_key rxid (se_RXMsgs s1)\<rparr>)"
    unfolding xmit_fragment_def Let_def by (auto simp: bind_res_eq_Inr_iff split: if_splits)
  have "session_wf (s\<lparr>se_RXMsgs := put_at rxid m' (se_RXMsgs s)\<rparr>)" using assms(2) by (rule wf_RX_put)
  with m' wf_deliver [OF assms(1) this] show ?thesis by (auto simp: Let_def)
qed

lemma wf_data_fragment:
  assumes "env_ok env" and "session_wf s" and "data_fragment env sz buf rxid m s = Inr s'"
  shows "session_wf s'"
proof -
  from assms(3) obtain m' where m': "let s = s\<lparr>se_RXMsgs := put_at rxid m' (se_RXMsgs s)\<rparr> in s' = s \<or> s' = s\<lparr>se_RXMsgs := erase_key rxid (se_RXMsgs s)\<rparr> \<or>
      (\<exists>s1. deliver env rxid m' s = Inr s1 \<and> s' = s1\<lparr>se_RXMsgs := erase_key rxid (se_RXMsgs s1)\<rparr>)"
    unfolding data_fragment_def Let_def by (auto simp: bind_res_eq_Inr_iff split: if_splits)
  have wf: "session_wf (s\<lparr>se_RXMsgs := put_at rxid m' (se_RXMsgs s)\<rparr>)" using assms(2) by (rule wf_RX_put)
  from m' wf wf_RX_erase [OF wf] wf_deliver [OF assms(1) wf] show ?thesis by (auto simp: Let_def)
qed

lemma wf_HandleXMIT:
  assumes "env_ok env" and "session_wf s" and "HandleXMIT env data s = Inr s'"
  shows "session_wf s'"
proof -
  have t: "session_wf (s\<lparr>se_LastRX := le_now env\<rparr>)" using assms(2) by (rule wf_intros)
  have n: "session_wf (s\<lparr>se_LastRX := le_now env, se_RXMsgs := emplace rxid m (se_RXMsgs s)\<rparr>)" if "map_of (se_ReplayFilter s) rxid = None" for rxid m
    using wf_RX [OF t, of rxid m] that by simp
  show ?thesis using assms(2,3) t n unfolding HandleXMIT_def Let_def
    by (auto split: if_splits intro: wf_add_mack wf_xmit_fragment [OF assms(1)])
qed

lemma wf_HandleDATA:
  assumes "env_ok env" and "session_wf s" and "HandleDATA env data s = Inr s'"
  shows "session_wf s'"
proof -
  have t: "session_wf (s\<lparr>se_LastRX := le_now env\<rparr>)" using assms(2) by (rule wf_intros)
  show ?thesis using assms t unfolding HandleDATA_def Let_def
    by (auto split: if_splits option.splits intro: wf_add_mack wf_data_fragment [OF assms(1)] wf_send_new packets_ok_new)
qed

lemma wf_HandleACKS:
  assumes "env_ok env" and "session_wf s" and "HandleACKS env data s = Inr s'"
  shows "session_wf s'"
proof -
  have t: "session_wf (s\<lparr>se_LastRX := le_now env\<rparr>)" (is "session_wf ?t") using assms(2) by (rule wf_intros)
  have a: "session_wf (?t\<lparr>se_TXMsgs := put_at txid (Outbound_Ack b m) (se_TXMsgs ?t)\<rparr>) \<and> length (om_Digest (Outbound_Ack b m)) = 32"
    if "map_of (se_TXMsgs s) txid = Some m" for txid m b
  proof -
    have "length (om_Digest m) = 32" using wfD(2) [OF assms(2)] map_of_SomeD [OF that] by (auto simp: list_all_iff)
    then show ?thesis using wfD(1,2) [OF t] by (auto simp: Outbound_Ack_def intro!: wf_TXMsgs t put_at_list_all)
  qed
  show ?thesis using assms(2,3) t a unfolding HandleACKS_def Let_def
    by (auto simp: bind_res_eq_Inr_iff split: if_splits option.splits intro: wf_complete_tx [OF assms(1)] wf_flush_message [OF assms(1)])
qed

lemma wf_HandleMACK: "env_ok env \<Longrightarrow> session_wf s \<Longrightarrow> session_wf (HandleMACK env data s)"
proof -
  assume e: "env_ok env" and s: "session_wf s"
  have "session_wf (fold (\<lambda>i. complete_tx env (f i)) is s)" if "session_wf s" for f and "is" :: "nat list" and s
    using that by (induction "is" arbitrary: s) (auto intro!: wf_complete_tx e)
  with s show ?thesis by (simp add: HandleMACK_def Let_def)
qed

lemma wf_HandleNACK:
  assumes "env_ok env" and "session_wf s"
  shows "session_wf (HandleNACK env data s)"
proof -
  have "session_wf (send_new env (XMIT (le_random env) m) s)" if "map_of (se_TXMsgs s) txid = Some m" for txid m
    using wfD(2) [OF assms(2)] map_of_SomeD [OF that] by (auto simp: list_all_iff intro!: wf_send_new assms packet_ok_XMIT)
  with assms(2) show ?thesis by (auto simp: HandleNACK_def Let_def split: option.split intro!: wf_fields(2))
qed

lemma wf_handle_plain:
  assumes "env_ok env" and "session_wf s" and "handle_plain env data s = Inr s'"
  shows "session_wf s'"
proof -
  have t: "session_wf (HandlePING env s)" "session_wf (HandleCLOS env s)" "session_wf (HandleNACK env data s)" "session_wf (HandleMACK env data s)"
    using assms(1,2) wf_HandleNACK wf_HandleMACK by (auto simp: HandlePING_def HandleCLOS_def intro!: wf_intros)
  show ?thesis using assms(2,3) t unfolding handle_plain_def Let_def
    by (auto split: if_splits intro: wf_HandleXMIT [OF assms(1,2)] wf_HandleDATA [OF assms(1,2)] wf_HandleACKS [OF assms(1,2)])
qed

lemma wf_DecryptWorker:
  assumes "env_ok env" and "session_wf s"
  shows "session_wf (DecryptWorker env msgs s)"
proof -
  have "64 < length p" if "p \<in> set (List.map_filter (DecryptMessageInPlace (le_sodium env) (se_SessionKey s)) msgs)" for p
    using that DecryptMessageInPlace_length [OF assms(1), of "se_SessionKey s" _ p] by (auto simp: List.map_filter_def)
  then show ?thesis unfolding DecryptWorker_def
    by (intro wf_emit assms(2)) (auto simp: effect_ok_def list_all_iff)
qed

lemma wf_session_do:
  assumes "env_ok env" and "session_wf s" and "session_do env op s = Inr s'"
  shows "session_wf s'"
proof (cases op)
  case (OpEncrypt msgs)
  have "session_wf (EncryptWorker env msgs s)" if "QueueEncrypt msgs \<in> set (se_log s)"
  proof -
    have "effect_ok (QueueEncrypt msgs)" using that wfD(9) [OF assms(2)] by (auto simp: queues_ok_def list_all_iff)
    then have "queues_ok (EncryptWorker env msgs s)"
      by (intro EncryptWorker_queues [OF assms(1) wfD(9) [OF assms(2)]]) (simp add: effect_ok_def)
    with assms(2) show ?thesis by (simp add: session_wf_def session_typed_def)
  qed
  with assms OpEncrypt show ?thesis by auto
next
  case (OpRecv data)
  with assms(3) show ?thesis by (auto simp: bind_res_eq_Inr_iff intro: wf_Recv_LL [OF assms(1,2)])
next
  case (OpPlain pkt)
  with assms(2,3) show ?thesis by (auto split: if_splits intro: wf_handle_plain [OF assms(1,2)])
next
  case OpPump
  with assms(3) show ?thesis by (auto intro: wf_Pump [OF assms(1,2)])
next
  case OpRenegotiate
  with assms(3) show ?thesis by (auto simp: bind_res_eq_Inr_iff RenegotiateSession_def intro: wf_SendOurLIM [OF assms(1,2)])
next
  case OpPumpDone
  with assms(2,3) show ?thesis by (auto simp: effect_ok_def intro!: wf_emit)
qed (use assms(2,3) wf_SendMessageBuffer [OF assms(1,2)] wf_Start [OF assms(1,2)] wf_DecryptWorker [OF assms(1,2)] wf_SendMACK [OF assms(1,2)]
    wf_Tick [OF assms(1,2)] wf_Close [OF assms(1,2)] wf_SendKeepAlive [OF assms(1,2)] in \<open>auto split: if_splits\<close>)

lemma wf_session_run:
  assumes "session_run ops s = Inr s'" and "session_wf s" and "list_all (\<lambda>x. env_ok (fst x)) ops"
  shows "session_wf s'"
  using assms(1,2) unfolding session_run_def
  by (rule each_induct) (use assms(3) wf_session_do in \<open>auto simp: list_all_iff\<close>)

lemma wf_new:
  assumes "env_ok env" 
  shows "session_wf (Session_inbound env a)" and "session_wf (Session_outbound env rc ai)"
  using env_digest [OF assms]
  by (simp_all add: Session_inbound_def Session_outbound_def Session_blank_def session_wf_def session_typed_def queues_ok_def session_key_def aligned_Zero_def)

end
