(* ===== verification/Iwp_Properties.thy ===== *)
theory Iwp_Properties
  imports Iwp_Run
begin

text \<open>
  What a link session promises over any run: its state and its packets keep their sizes, and a message is not delivered again within the
  replay window.
\<close>

section \<open>Sizes\<close>

text \<open>
  C13: Whatever a session is told to do and whatever arrives, its keys keep their sizes, its containers have no repeated keys, and no
  message is at once being received and in the replay filter.
\<close>

theorem sessions_stay_typed:
  assumes "s = Session_inbound env a \<or> s = Session_outbound env rc ai" and "env_ok env" and "list_all (\<lambda>x. env_ok (fst x)) ops"
    and "session_run ops s = Inr s'"
  shows "session_typed s'"
proof -
  have "session_wf s" using assms(1) wf_new [OF assms(2)] by blast
  from wf_session_run [OF assms(4) this assms(3)] show ?thesis by (simp add: session_wf_def)
qed

text \<open>
  C14: Every packet that a session gives to the socket has at least the 64 bytes of its overhead and at most 1132 bytes, so it fits a
  datagram of the smallest IPv6 path.
\<close>

theorem packets_fit_a_datagram:
  assumes "s = Session_inbound env a \<or> s = Session_outbound env rc ai" and "env_ok env" and "list_all (\<lambda>x. env_ok (fst x)) ops"
    and "session_run ops s = Inr s'" and "SendTo_LL addr pkt \<in> set (se_log s')"
  shows "64 \<le> length pkt \<and> length pkt \<le> 1132"
proof -
  have "session_wf s" using assms(1) wf_new [OF assms(2)] by blast
  from wf_session_run [OF assms(4) this assms(3)] have "queues_ok s'" by (simp add: session_wf_def)
  with assms(5) show ?thesis by (auto simp: queues_ok_def list_all_iff effect_ok_def packet_ok_def split: link_effect.splits)
qed

lemma demo_env_ok: "env_ok demo_env"
  using toy_sodium_ok by (simp add: env_ok_def demo_env_def RouterContact_init_def aligned_Zero_def)

theorem sessions_stay_typed_witness:
  "\<exists>s'. session_run [(demo_env, OpSend [1, 2, 3] None), (demo_env, OpTick)] (Session_inbound demo_env ([], 1090)) = Inr s' \<and> session_typed s'"
  using sessions_stay_typed [of "Session_inbound demo_env ([], 1090)" demo_env "([], 1090)" _ _ "[(demo_env, OpSend [1, 2, 3] None), (demo_env, OpTick)]", OF _ demo_env_ok]
  by (simp add: demo_env_ok session_run_def)

theorem packets_fit_a_datagram_witness:
  "\<exists>s' pkt. session_run [(demo_env, OpClose)] (Session_inbound demo_env ([], 1090)) = Inr s' \<and>
     SendTo_LL ([], 1090) pkt \<in> set (se_log s') \<and> 64 \<le> length pkt \<and> length pkt \<le> 1132"
proof -
  let ?s = "Session_inbound demo_env ([], 1090)"
  have r: "session_run [(demo_env, OpClose)] ?s = Inr (Session_Close demo_env ?s)" by (simp add: session_run_def)
  obtain pkt where p: "SendTo_LL ([], 1090) pkt \<in> set (se_log (Session_Close demo_env ?s))"
    by (auto simp: Session_Close_def Session_inbound_def Session_blank_def send_new_def EncryptAndSend_def IsEstablished_def Let_def split_def)
  from packets_fit_a_datagram [OF _ demo_env_ok _ r p, of "([], 1090)"] r p show ?thesis by (auto simp: demo_env_ok)
qed

section \<open>Replays\<close>

definition guarded :: "u64 \<Rightarrow> llarp_time \<Rightarrow> LinkSession \<Rightarrow> bool" where
  "guarded rxid t s \<longleftrightarrow> map_of (se_ReplayFilter s) rxid = Some t \<and> map_of (se_RXMsgs s) rxid = None"

lemma guarded_same: "guarded rxid t s \<Longrightarrow> se_RXMsgs s' = se_RXMsgs s \<Longrightarrow> se_ReplayFilter s' = se_ReplayFilter s \<Longrightarrow> guarded rxid t s'"
  by (simp add: guarded_def)

lemma emit_fields [simp]:
  "se_RXMsgs (emit e s) = se_RXMsgs s" "se_ReplayFilter (emit e s) = se_ReplayFilter s" "se_TXMsgs (emit e s) = se_TXMsgs s" "se_TXID (emit e s) = se_TXID s"
  "se_log (emit e s) = se_log s @ [e]"
  by (simp_all add: emit_def)

lemma Close_fields [simp]:
  "se_RXMsgs (Session_Close env s) = se_RXMsgs s" "se_ReplayFilter (Session_Close env s) = se_ReplayFilter s"
  "se_TXMsgs (Session_Close env s) = se_TXMsgs s" "se_TXID (Session_Close env s) = se_TXID s"
  by (simp_all add: Session_Close_def Let_def)

lemma map_addr_fields [simp]:
  "se_RXMsgs (map_addr env s) = se_RXMsgs s" "se_ReplayFilter (map_addr env s) = se_ReplayFilter s"
  "se_TXMsgs (map_addr env s) = se_TXMsgs s" "se_TXID (map_addr env s) = se_TXID s"
  by (simp_all add: map_addr_def Let_def)

lemma inform_fields [simp]:
  "se_RXMsgs (inform env st h s) = se_RXMsgs s" "se_ReplayFilter (inform env st h s) = se_ReplayFilter s"
  "se_TXMsgs (inform env st h s) = se_TXMsgs s" "se_TXID (inform env st h s) = se_TXID s"
  by (simp_all add: inform_def split: option.split completion.split)

lemma SendMessageBuffer_rx [simp]:
  "se_RXMsgs (snd (SendMessageBuffer env buf h s)) = se_RXMsgs s" "se_ReplayFilter (snd (SendMessageBuffer env buf h s)) = se_ReplayFilter s"
  by (simp_all add: SendMessageBuffer_def Let_def)

lemma SendMACK_fields [simp]:
  "se_RXMsgs (SendMACK env s) = se_RXMsgs s \<and> se_ReplayFilter (SendMACK env s) = se_ReplayFilter s \<and>
   se_TXMsgs (SendMACK env s) = se_TXMsgs s \<and> se_TXID (SendMACK env s) = se_TXID s"
proof (induction env s rule: SendMACK.induct)
  case (1 env s)
  then show ?case by (subst (1 2 3 4) SendMACK.simps) (simp add: Let_def)
qed

lemma SendKeepAlive_fields [simp]:
  "se_RXMsgs (snd (SendKeepAlive env s)) = se_RXMsgs s" "se_ReplayFilter (snd (SendKeepAlive env s)) = se_ReplayFilter s"
  "se_TXMsgs (snd (SendKeepAlive env s)) = se_TXMsgs s" "se_TXID (snd (SendKeepAlive env s)) = se_TXID s"
  by (simp_all add: SendKeepAlive_def)

lemma SendOurLIM_rx: "SendOurLIM env h s = Inr s' \<Longrightarrow> se_RXMsgs s' = se_RXMsgs s \<and> se_ReplayFilter s' = se_ReplayFilter s"
  unfolding SendOurLIM_def Let_def by (auto simp: bind_res_eq_Inr_iff split: if_splits)

lemma GotLIM_rx: "GotLIM env msg s = Inr (ok, s') \<Longrightarrow> se_RXMsgs s' = se_RXMsgs s \<and> se_ReplayFilter s' = se_ReplayFilter s"
  unfolding GotLIM_def GotOutboundLIM_def GotInboundLIM_def GotRenegLIM_def Let_def
  by (auto simp: bind_res_eq_Inr_iff split: lim_handler.splits if_splits dest!: SendOurLIM_rx)

lemma handle_message_rx: "handle_message env buf s = Inr s' \<Longrightarrow> se_RXMsgs s' = se_RXMsgs s \<and> se_ReplayFilter s' = se_ReplayFilter s"
  unfolding handle_message_def Let_def by (auto simp: bind_res_eq_Inr_iff split: option.splits dest!: GotLIM_rx)

lemma sends_fields [simp]:
  "se_RXMsgs (fold (EncryptAndSend env) pkts s) = se_RXMsgs s \<and> se_ReplayFilter (fold (EncryptAndSend env) pkts s) = se_ReplayFilter s \<and>
   se_TXMsgs (fold (EncryptAndSend env) pkts s) = se_TXMsgs s \<and> se_TXID (fold (EncryptAndSend env) pkts s) = se_TXID s"
  by (induction pkts arbitrary: s) simp_all

lemma flush_message_rx: "flush_message env txid m s = Inr s' \<Longrightarrow> se_RXMsgs s' = se_RXMsgs s \<and> se_ReplayFilter s' = se_ReplayFilter s"
  by (auto simp: flush_message_def bind_res_eq_Inr_iff Let_def)

lemma complete_tx_rx [simp]: "se_RXMsgs (complete_tx env txid s) = se_RXMsgs s" "se_ReplayFilter (complete_tx env txid s) = se_ReplayFilter s"
  by (simp_all add: complete_tx_def Let_def split: option.split)

lemma HandleMACK_rx [simp]: "se_RXMsgs (HandleMACK env data s) = se_RXMsgs s \<and> se_ReplayFilter (HandleMACK env data s) = se_ReplayFilter s"
proof -
  have "se_RXMsgs (fold (\<lambda>i. complete_tx env (f i)) is s) = se_RXMsgs s \<and> se_ReplayFilter (fold (\<lambda>i. complete_tx env (f i)) is s) = se_ReplayFilter s"
    for f and "is" :: "nat list"
    by (induction "is" arbitrary: s) simp_all
  then show ?thesis by (simp add: HandleMACK_def Let_def)
qed

lemma HandleNACK_rx [simp]: "se_RXMsgs (HandleNACK env data s) = se_RXMsgs s" "se_ReplayFilter (HandleNACK env data s) = se_ReplayFilter s"
  by (simp_all add: HandleNACK_def Let_def split: option.split)

lemma HandleACKS_rx: "HandleACKS env data s = Inr s' \<Longrightarrow> se_RXMsgs s' = se_RXMsgs s \<and> se_ReplayFilter s' = se_ReplayFilter s"
  unfolding HandleACKS_def Let_def by (auto simp: bind_res_eq_Inr_iff split: if_splits option.splits dest!: flush_message_rx)

lemma Start_rx [simp]: "se_RXMsgs (Session_Start env s) = se_RXMsgs s" "se_ReplayFilter (Session_Start env s) = se_ReplayFilter s"
  by (simp_all add: Session_Start_def GenerateAndSendIntro_def Let_def split: option.split)

lemma Recv_LL_rx: "Recv_LL env data s = Inr (ok, s') \<Longrightarrow> se_RXMsgs s' = se_RXMsgs s \<and> se_ReplayFilter s' = se_ReplayFilter s"
  unfolding Recv_LL_def HandleGotIntro_def HandleGotIntroAck_def HandleCreateSessionRequest_def HandleSessionData_def Let_def
  by (auto simp: bind_res_eq_Inr_iff split: session_state.splits if_splits option.splits dest!: SendOurLIM_rx)

lemma guarded_put: "guarded rxid t s \<Longrightarrow> guarded rxid t (s\<lparr>se_RXMsgs := put_at i m (se_RXMsgs s)\<rparr>)"
  by (auto simp: guarded_def map_of_put_at)

lemma guarded_deliver:
  assumes "guarded rxid t s" and "deliver env i m s = Inr s'"
  shows "guarded rxid t (s'\<lparr>se_RXMsgs := erase_key i (se_RXMsgs s')\<rparr>)"
  using assms unfolding deliver_def
  by (auto simp: bind_res_eq_Inr_iff guarded_def map_of_emplace map_of_erase_key dest!: handle_message_rx)

lemma guarded_xmit_fragment:
  assumes "guarded rxid t s" and "xmit_fragment env data sz i m s = Inr s'"
  shows "guarded rxid t s'"
  using assms(2) unfolding xmit_fragment_def Let_def
  by (auto simp: bind_res_eq_Inr_iff split: if_splits intro: guarded_put [OF assms(1)] guarded_deliver [OF guarded_put [OF assms(1)]])

lemma guarded_data_fragment:
  assumes "guarded rxid t s" and "data_fragment env sz buf i m s = Inr s'"
  shows "guarded rxid t s'"
proof -
  have e: "guarded rxid t (s\<lparr>se_RXMsgs := erase_key i (put_at i m' (se_RXMsgs s))\<rparr>)" for m'
    using assms(1) by (simp add: guarded_def map_of_put_at map_of_erase_key)
  from assms(2) show ?thesis unfolding data_fragment_def Let_def
    by (auto simp: bind_res_eq_Inr_iff split: if_splits intro: e guarded_put [OF assms(1)] guarded_deliver [OF guarded_put [OF assms(1)]])
qed

lemma guarded_handle_plain:
  assumes g: "guarded rxid t s" and "handle_plain env data s = Inr s'"
  shows "guarded rxid t s'"
proof -
  have l: "guarded rxid t (s\<lparr>se_LastRX := le_now env\<rparr>)" (is "guarded rxid t ?s") using g by (simp add: guarded_def)
  have x: "guarded rxid t s'" if "HandleXMIT env data s = Inr s'"
  proof -
    have "guarded rxid t (?s\<lparr>se_RXMsgs := emplace i m (se_RXMsgs ?s)\<rparr>)" if "map_of (se_ReplayFilter s) i = None" for i m
      using g that by (auto simp: guarded_def map_of_emplace)
    with that g l show ?thesis unfolding HandleXMIT_def Let_def
      by (auto split: if_splits intro: guarded_xmit_fragment guarded_same [OF l])
  qed
  have d: "guarded rxid t s'" if "HandleDATA env data s = Inr s'"
    using that g unfolding HandleDATA_def Let_def
    by (auto split: if_splits option.splits intro: guarded_data_fragment [OF l] guarded_same [OF l])
  from assms(2) x d g show ?thesis unfolding handle_plain_def Let_def
    by (auto simp: HandlePING_def HandleCLOS_def split: if_splits dest!: HandleACKS_rx intro: guarded_same [OF g])
qed

text \<open>Pumping works through the messages and then hands the queued packets to the workers.\<close>

definition queue_effect :: "link_effect \<Rightarrow> bool" where
  "queue_effect e = (case e of QueueEncrypt msgs \<Rightarrow> True | QueueDecrypt msgs \<Rightarrow> True | _ \<Rightarrow> False)"

lemma Pump_stages:
  assumes "Session_Pump env s = Inr s'"
  shows "\<exists>s1 es. (if se_State s = Ready \<or> se_State s = LinkIntro
     then let k = (if ShouldPing env s then snd (SendKeepAlive env s) else s); r = fold (pump_rx env) (se_RXMsgs k) k in each (pump_tx env) (se_TXMsgs r) r
     else Inr s) = Inr s1 \<and> se_RXMsgs s' = se_RXMsgs s1 \<and> se_ReplayFilter s' = se_ReplayFilter s1 \<and> se_TXMsgs s' = se_TXMsgs s1 \<and>
     se_TXID s' = se_TXID s1 \<and> se_log s' = se_log s1 @ es \<and> list_all queue_effect es"
proof -
  define q where "q = (\<lambda>s. case se_EncryptNext s of Some (p # ps) \<Rightarrow> (emit (QueueEncrypt (p # ps)) s)\<lparr>se_EncryptNext := None\<rparr> | _ \<Rightarrow> s)"
  define r where "r = (\<lambda>s. case se_DecryptNext s of Some (p # ps) \<Rightarrow> (emit (QueueDecrypt (p # ps)) s)\<lparr>se_DecryptNext := None\<rparr> | _ \<Rightarrow> s)"
  have same: "\<exists>es. se_RXMsgs (f s) = se_RXMsgs s \<and> se_ReplayFilter (f s) = se_ReplayFilter s \<and> se_TXMsgs (f s) = se_TXMsgs s \<and>
     se_TXID (f s) = se_TXID s \<and> se_log (f s) = se_log s @ es \<and> list_all queue_effect es" if "f = q \<or> f = r" for f s
    using that by (auto simp: q_def r_def queue_effect_def split: option.split list.split)
  from assms obtain s1 where s1: "(if se_State s = Ready \<or> se_State s = LinkIntro
     then let k = (if ShouldPing env s then snd (SendKeepAlive env s) else s); r = fold (pump_rx env) (se_RXMsgs k) k in each (pump_tx env) (se_TXMsgs r) r
     else Inr s) = Inr s1" and s': "s' = r (q s1)"
    unfolding Session_Pump_def Let_def q_def r_def by (auto simp: bind_res_eq_Inr_iff)
  from same [of q s1] same [of r "q s1"] obtain as bs where
      "se_log (q s1) = se_log s1 @ as" "list_all queue_effect as" "se_log (r (q s1)) = se_log (q s1) @ bs" "list_all queue_effect bs" by auto
  with same [of q s1] same [of r "q s1"] have "se_RXMsgs s' = se_RXMsgs s1 \<and> se_ReplayFilter s' = se_ReplayFilter s1 \<and> se_TXMsgs s' = se_TXMsgs s1 \<and>
     se_TXID s' = se_TXID s1 \<and> se_log s' = se_log s1 @ (as @ bs) \<and> list_all queue_effect (as @ bs)" unfolding s' by auto
  with s1 show ?thesis by blast
qed

lemma guarded_Pump:
  assumes g: "guarded rxid t s" and "Session_Pump env s = Inr s'"
  shows "guarded rxid t s'"
proof -
  let ?k = "if ShouldPing env s then snd (SendKeepAlive env s) else s"
  let ?s = "fold (pump_rx env) (se_RXMsgs ?k) ?k"
  have p: "guarded rxid t (pump_rx env m s)" if "guarded rxid t s" for m s
    using that by (auto simp: pump_rx_def split_def Let_def guarded_def map_of_put_at)
  have "guarded rxid t (fold (pump_rx env) ms s)" if "guarded rxid t s" for ms s
    using that by (induction ms arbitrary: s) (auto intro: p)
  moreover have "guarded rxid t ?k" using g by (auto simp: guarded_def)
  ultimately have rx: "guarded rxid t ?s" by blast
  have tx: "guarded rxid t s2" if "each (pump_tx env) ms s1 = Inr s2" "guarded rxid t s1" for ms s1 s2
    using that by (rule each_induct) (auto simp: pump_tx_def split_def split: if_splits dest!: flush_message_rx intro: guarded_same)
  from Pump_stages [OF assms(2)] obtain s1 where
      "(if se_State s = Ready \<or> se_State s = LinkIntro then each (pump_tx env) (se_TXMsgs ?s) ?s else Inr s) = Inr s1"
    and s': "se_RXMsgs s' = se_RXMsgs s1" "se_ReplayFilter s' = se_ReplayFilter s1"
    unfolding Let_def by blast
  then have "guarded rxid t s1" using tx [OF _ rx] g by (auto split: if_splits)
  then show ?thesis using s' by (rule guarded_same)
qed

lemma map_of_filter_Some: "map_of xs k = Some v \<Longrightarrow> P (k, v) \<Longrightarrow> map_of (filter P xs) k = Some v"
  by (induction xs) (auto split: if_splits)

lemma guarded_Tick:
  assumes "guarded rxid t s" and "\<not> t + ReplayWindow \<le> now"
  shows "guarded rxid t (Session_Tick env now s)"
proof -
  have tx: "se_RXMsgs (fold (tick_tx env now) ms s) = se_RXMsgs s \<and> se_ReplayFilter (fold (tick_tx env now) ms s) = se_ReplayFilter s" for ms s
    by (induction ms arbitrary: s) (auto simp: tick_tx_def split_def Let_def)
  have rx1: "guarded rxid t (tick_rx now m s)" if "guarded rxid t s" for m s
    using that by (auto simp: tick_rx_def split_def guarded_def map_of_emplace map_of_erase_key)
  have rx: "guarded rxid t (fold (tick_rx now) ms s)" if "guarded rxid t s" for ms s
    using that by (induction ms arbitrary: s) (auto intro: rx1)
  define s0 where "s0 = (if ShouldResetRates s now then (ResetRates s)\<lparr>se_ResetRatesAt := now + 1000\<rparr> else s)"
  have "guarded rxid t s0" using assms(1) by (simp add: s0_def guarded_def ResetRates_def)
  then have "guarded rxid t (fold (tick_tx env now) (se_TXMsgs s0) s0)" using tx [of "se_TXMsgs s0" s0] by (auto intro: guarded_same)
  from rx [OF this] assms(2) show ?thesis unfolding Session_Tick_def s0_def [symmetric] Let_def
    by (auto simp: guarded_def intro!: map_of_filter_Some)
qed

lemma guarded_session_do:
  assumes g: "guarded rxid t s" and "session_do env op s = Inr s'" and "\<not> t + ReplayWindow \<le> le_now env"
  shows "guarded rxid t s'"
proof (cases op)
  case (OpPlain pkt)
  with assms show ?thesis by (auto split: if_splits intro: guarded_handle_plain)
next
  case OpPump
  with assms show ?thesis by (auto intro: guarded_Pump)
next
  case OpTick
  with assms show ?thesis by (auto intro: guarded_Tick)
next
  case (OpRecv data)
  with assms(2) show ?thesis by (auto simp: bind_res_eq_Inr_iff dest!: Recv_LL_rx intro: guarded_same [OF g])
next
  case OpRenegotiate
  with assms(2) show ?thesis by (auto simp: bind_res_eq_Inr_iff RenegotiateSession_def dest!: SendOurLIM_rx intro: guarded_same [OF g])
qed (use assms(2) g in \<open>auto simp: DecryptWorker_def split: if_splits intro: guarded_same [OF g]\<close>)

subsection \<open>Deliveries\<close>

text \<open>The messages that a session has handed to the router, in their order.\<close>

definition handed :: "LinkSession \<Rightarrow> byte list list" where
  "handed s = List.map_filter (\<lambda>e. case e of HandleMessage d \<Rightarrow> Some d | _ \<Rightarrow> None) (se_log s)"

lemma handed_same: "se_log s' = se_log s \<Longrightarrow> handed s' = handed s"
  by (simp add: handed_def)

lemma handed_emit [simp]: "handed (emit e s) = handed s @ (case e of HandleMessage d \<Rightarrow> [d] | _ \<Rightarrow> [])"
  by (simp add: handed_def List.map_filter_def split: link_effect.split)

lemma handed_update [simp]:
  "handed (s\<lparr>se_RXMsgs := a\<rparr>) = handed s" "handed (s\<lparr>se_TXMsgs := b\<rparr>) = handed s" "handed (s\<lparr>se_LastRX := t\<rparr>) = handed s"
  "handed (s\<lparr>se_State := st\<rparr>) = handed s" "handed (s\<lparr>se_EncryptNext := q\<rparr>) = handed s" "handed (s\<lparr>se_draws := k\<rparr>) = handed s"
  "handed (s\<lparr>se_LastTX := t, se_TXRate := r\<rparr>) = handed s" "handed (add_mack rxid s) = handed s"
  by (simp_all add: handed_def add_mack_def)

lemma handed_Send_LL [simp]: "handed (Send_LL env p s) = handed s"
  by (simp add: Send_LL_def)

lemma handed_EncryptWorker [simp]: "handed (EncryptWorker env ps s) = handed s"
  by (induction ps arbitrary: s) (simp_all add: EncryptWorker_Cons)

lemma handed_EncryptAndSend [simp]: "handed (EncryptAndSend env p s) = handed s"
  by (simp add: EncryptAndSend_def Let_def)

lemma handed_sends [simp]: "handed (fold (EncryptAndSend env) ps s) = handed s"
  by (induction ps arbitrary: s) simp_all

lemma handed_send_new [simp]: "handed (send_new env mk s) = handed s"
  by (simp add: send_new_def split_def Let_def)

lemma handed_Close [simp]: "handed (Session_Close env s) = handed s"
  by (simp add: Session_Close_def Let_def)

lemma handed_map_addr [simp]: "handed (map_addr env s) = handed s"
  by (simp add: map_addr_def Let_def)

lemma handed_inform [simp]: "handed (inform env st h s) = handed s"
  by (simp add: inform_def split: option.split completion.split)

lemma handed_complete_tx [simp]: "handed (complete_tx env txid s) = handed s"
  by (simp add: complete_tx_def Let_def split: option.split)

lemma handed_HandleMACK [simp]: "handed (HandleMACK env data s) = handed s"
proof -
  have "handed (fold (\<lambda>i. complete_tx env (f i)) is s) = handed s" for f and "is" :: "nat list"
    by (induction "is" arbitrary: s) simp_all
  then show ?thesis by (simp add: HandleMACK_def Let_def)
qed

lemma handed_HandleNACK [simp]: "handed (HandleNACK env data s) = handed s"
  by (simp add: HandleNACK_def Let_def split: option.split)

lemma handed_HandleACKS: "HandleACKS env data s = Inr s' \<Longrightarrow> handed s' = handed s"
  unfolding HandleACKS_def flush_message_def Let_def by (auto simp: bind_res_eq_Inr_iff split: if_splits option.splits)

text \<open>A delivery puts the id into the replay filter with its time, and the message leaves the table.\<close>

lemma deliver_guards:
  assumes "map_of (se_ReplayFilter s) rxid = None" and "deliver env rxid m s = Inr s'"
  shows "guarded rxid (le_now env) (s'\<lparr>se_RXMsgs := erase_key rxid (se_RXMsgs s')\<rparr>)"
  using assms unfolding deliver_def
  by (auto simp: bind_res_eq_Inr_iff guarded_def map_of_emplace map_of_erase_key dest!: handle_message_rx)

lemma xmit_fragment_guards:
  assumes "map_of (se_ReplayFilter s) rxid = None" and "xmit_fragment env data sz rxid m s = Inr s'" and "handed s' \<noteq> handed s"
  shows "guarded rxid (le_now env) s'"
proof -
  from assms(2,3) obtain m' s1 where "deliver env rxid m' (s\<lparr>se_RXMsgs := put_at rxid m' (se_RXMsgs s)\<rparr>) = Inr s1"
    and s': "s' = s1\<lparr>se_RXMsgs := erase_key rxid (se_RXMsgs s1)\<rparr>"
    unfolding xmit_fragment_def Let_def by (auto simp: bind_res_eq_Inr_iff split: if_splits)
  from deliver_guards [OF _ this(1)] assms(1) show ?thesis by (simp add: s')
qed

lemma data_fragment_guards:
  assumes "map_of (se_ReplayFilter s) rxid = None" and "data_fragment env sz buf rxid m s = Inr s'" and "handed s' \<noteq> handed s"
  shows "guarded rxid (le_now env) s'"
proof -
  from assms(2) obtain m' where m': "let s = s\<lparr>se_RXMsgs := put_at rxid m' (se_RXMsgs s)\<rparr> in s' = s \<or> s' = s\<lparr>se_RXMsgs := erase_key rxid (se_RXMsgs s)\<rparr> \<or>
      (\<exists>s1. deliver env rxid m' s = Inr s1 \<and> s' = s1\<lparr>se_RXMsgs := erase_key rxid (se_RXMsgs s1)\<rparr>)"
    unfolding data_fragment_def Let_def by (auto simp: bind_res_eq_Inr_iff split: if_splits)
  with assms(3) obtain s1 where "deliver env rxid m' (s\<lparr>se_RXMsgs := put_at rxid m' (se_RXMsgs s)\<rparr>) = Inr s1"
    and s': "s' = s1\<lparr>se_RXMsgs := erase_key rxid (se_RXMsgs s1)\<rparr>"
    unfolding Let_def by (elim disjE exE conjE) simp_all
  from deliver_guards [OF _ this(1)] assms(1) show ?thesis by (simp add: s')
qed

lemma delivery_guards:
  assumes wf: "session_wf s" and h: "handle_plain env data s = Inr s'" and new: "handed s' \<noteq> handed s"
  shows "guarded (packet_u64 68 data) (le_now env) s'"
proof -
  let ?s = "s\<lparr>se_LastRX := le_now env\<rparr>" and ?id = "packet_u64 68 data"
  have "HandleXMIT env data s = Inr s' \<or> HandleDATA env data s = Inr s'"
    using h new unfolding handle_plain_def Let_def
    by (auto simp: HandlePING_def HandleCLOS_def split: if_splits dest: handed_HandleACKS)
  then show ?thesis
  proof
    assume x: "HandleXMIT env data s = Inr s'"
    then obtain m where f: "map_of (se_ReplayFilter s) ?id = None"
      and m: "xmit_fragment env data (min (unat (packet_u16 66 data)) FragmentSize) ?id m (?s\<lparr>se_RXMsgs := emplace ?id m (se_RXMsgs s)\<rparr>) = Inr s'"
      using new unfolding HandleXMIT_def Let_def by (auto simp: iwp_sizes split: if_splits)
    show ?thesis by (rule xmit_fragment_guards [OF _ m]) (use f new in simp_all)
  next
    assume d: "HandleDATA env data s = Inr s'"
    then obtain m where f: "map_of (se_RXMsgs s) ?id = Some m"
      and m: "data_fragment env (packet_u16 66 data) (drop (PacketOverhead + 12) data) ?id m ?s = Inr s'"
      using new unfolding HandleDATA_def Let_def by (auto simp: iwp_sizes split: if_splits option.splits)
    have "?id \<in> fst ` set (se_RXMsgs s)" using map_of_SomeD [OF f] by force
    with wfD(5) [OF wf] have "map_of (se_ReplayFilter s) ?id = None" by (auto simp: map_of_eq_None_iff)
    then show ?thesis by (intro data_fragment_guards [OF _ m]) (use new in simp_all)
  qed
qed

lemma guarded_run:
  assumes "session_run ops s = Inr s'" and "guarded rxid t s" and "list_all (\<lambda>x. \<not> t + ReplayWindow \<le> le_now (fst x)) ops"
  shows "guarded rxid t s'"
  using assms(1) unfolding session_run_def
proof (rule each_induct)
  show "guarded rxid t s" by fact
  fix x s s' assume "x \<in> set ops" "guarded rxid t s" "(case x of (env, op) \<Rightarrow> session_do env op) s = Inr s'"
  with assms(3) show "guarded rxid t s'" by (auto simp: list_all_iff split_def intro: guarded_session_do [of rxid t s "fst x" "snd x"])
qed

lemma guarded_ignores:
  assumes "guarded rxid t s" and "66 \<le> length pkt" and "packet_u64 68 pkt = rxid"
  shows "pkt ! 65 = command_byte eXMIT \<Longrightarrow>
      handle_plain env pkt s = Inr (if length pkt < 108 then s else add_mack rxid (s\<lparr>se_LastRX := le_now env\<rparr>))"
    and "pkt ! 65 = command_byte eDATA \<Longrightarrow>
      handle_plain env pkt s = Inr (if length pkt < 76 then s else add_mack rxid (s\<lparr>se_LastRX := le_now env\<rparr>))"
  using assms by (simp_all add: guarded_def handle_plain_def HandleXMIT_def HandleDATA_def iwp_sizes Let_def)

text \<open>
  C9: A message that was handed to the router is not handed to it again within the replay window of 1200 milliseconds. When handling a
  packet at time \<open>t\<close> handed a message to the router, then after any run before \<open>t\<close> plus the window, an announcement or a fragment with the
  same id only sets the time of the last packet and queues the acknowledgement of the message; one that is too short to have an id does
  nothing.
\<close>

theorem delivered_messages_are_not_replayed:
  assumes "s = Session_inbound env a \<or> s = Session_outbound env rc ai" and "env_ok env" and "list_all (\<lambda>x. env_ok (fst x)) before"
    and "session_run before s = Inr s0"
    and "handle_plain env0 pkt0 s0 = Inr s1" and "handed s1 \<noteq> handed s0"
    and "session_run ops s1 = Inr s2" and "list_all (\<lambda>x. \<not> le_now env0 + ReplayWindow \<le> le_now (fst x)) ops"
    and "66 \<le> length pkt" and "packet_u64 68 pkt = packet_u64 68 pkt0"
  shows "(pkt ! 65 = command_byte eXMIT \<longrightarrow> handle_plain env2 pkt s2 =
      Inr (if length pkt < 108 then s2 else add_mack (packet_u64 68 pkt0) (s2\<lparr>se_LastRX := le_now env2\<rparr>))) \<and>
    (pkt ! 65 = command_byte eDATA \<longrightarrow> handle_plain env2 pkt s2 =
      Inr (if length pkt < 76 then s2 else add_mack (packet_u64 68 pkt0) (s2\<lparr>se_LastRX := le_now env2\<rparr>)))"
proof -
  have "session_wf s" using assms(1) wf_new [OF assms(2)] by blast
  from wf_session_run [OF assms(4) this assms(3)] have "guarded (packet_u64 68 pkt0) (le_now env0) s1"
    by (rule delivery_guards [OF _ assms(5,6)])
  from guarded_run [OF assms(7) this assms(8)] have "guarded (packet_u64 68 pkt0) (le_now env0) s2" .
  from guarded_ignores [OF this assms(9,10)] show ?thesis by blast
qed

text \<open>A message of one byte, which is taken from the announcement.\<close>

definition demo_xmit :: "byte list" where
  "demo_xmit = packet_header (le_random demo_env) eXMIT 0 @ htobe16buf 1 @ htobe64buf 3 @ replicate 32 0"

lemma demo_xmit_simps: "length demo_xmit = 108" "packet_u16 66 demo_xmit = 1" "packet_u64 68 demo_xmit = 3" "demo_xmit ! 65 = command_byte eXMIT"
  "take 32 (drop 76 demo_xmit) = replicate 32 0" "drop 107 demo_xmit = [0]"
proof -
  let ?h = "packet_header (le_random demo_env) eXMIT 0"
  show "packet_u16 66 demo_xmit = 1" unfolding demo_xmit_def by (rule packet_u16_at) simp
  show "packet_u64 68 demo_xmit = 3" unfolding demo_xmit_def using packet_u64_at [of "?h @ htobe16buf 1" 68 3] by simp
  show "demo_xmit ! 65 = command_byte eXMIT" by (simp add: demo_xmit_def packet_header_def nth_append)
qed (simp_all add: demo_xmit_def)

lemma demo_delivery:
  "\<exists>s1. handle_plain demo_env demo_xmit (Session_inbound demo_env ([], 1090)) = Inr s1 \<and> handed s1 = [[0]]"
proof -
  have d: "message_digest toy_sodium [0] = replicate 32 0" by (simp add: message_digest_def shorthash_def toy_sodium_def numeral_eq_Suc)
  have c: "acks_loop 1 (Suc 0) 0 = Inr True" by (simp add: acks_loop.simps FragmentSize_def)
  show ?thesis
    by (simp add: handle_plain_def HandleXMIT_def demo_xmit_simps iwp_sizes demo_session xmit_fragment_def InboundMessage_new_def HandleData_def
        packet_put_def IsCompleted_def c Inbound_Verify_def demo_env_simps d deliver_def handle_message_def Let_def)
      (simp add: handed_def Session_inbound_def Session_blank_def emit_def add_mack_def)
qed

theorem delivered_messages_are_not_replayed_witness:
  "\<exists>s1 s2. handle_plain demo_env demo_xmit (Session_inbound demo_env ([], 1090)) = Inr s1 \<and> handed s1 = [[0]] \<and>
     session_run [(demo_env, OpTick)] s1 = Inr s2 \<and> handle_plain demo_env demo_xmit s2 = Inr (add_mack 3 (s2\<lparr>se_LastRX := 1000\<rparr>))"
proof -
  obtain s1 where s1: "handle_plain demo_env demo_xmit (Session_inbound demo_env ([], 1090)) = Inr s1" "handed s1 = [[0]]"
    using demo_delivery by blast
  have h0: "handed (Session_inbound demo_env ([], 1090)) = []" by (simp add: handed_def Session_inbound_def Session_blank_def)
  have w: "\<not> le_now demo_env + ReplayWindow \<le> le_now demo_env" "le_now demo_env = 1000"
    by (simp_all add: demo_env_def ReplayWindow_def ReceivalTimeout_def DeliveryTimeout_def)
  have r: "session_run [] (Session_inbound demo_env ([], 1090)) = Inr (Session_inbound demo_env ([], 1090))" by (simp add: session_run_def)
  obtain s2 where s2: "session_run [(demo_env, OpTick)] s1 = Inr s2" by (simp add: session_run_def)
  from delivered_messages_are_not_replayed [of "Session_inbound demo_env ([], 1090)" demo_env "([], 1090)" _ _ "[]", OF _ demo_env_ok _ r s1(1) _ s2,
      where pkt = demo_xmit and ?env2.0 = demo_env] s1 s2 h0 w show ?thesis by (auto simp: demo_xmit_simps)
qed

end
