(* ===== verification/Iwp_Completion.thy ===== *)
theory Iwp_Completion
  imports Iwp_Properties
begin

text \<open>
  Completion handlers. A handler that is given to a session with a message is called once: when the message is acknowledged, or by the
  first tick after its timeout. The view of a session is what this depends on: the messages being sent, the next id and the calls.
\<close>

section \<open>The view\<close>

type_synonym call = "nat \<times> DeliveryStatus"

type_synonym tx_view = "(u64 \<times> OutboundMessage) list \<times> u64 \<times> call list"

definition calls :: "link_effect list \<Rightarrow> call list" where
  "calls es = concat (map (\<lambda>e. case e of Inform n st \<Rightarrow> [(n, st)] | _ \<Rightarrow> []) es)"

lemma calls_simps [simp]: "calls [] = []" "calls (as @ bs) = calls as @ calls bs"
  "calls (e # es) = (case e of Inform n st \<Rightarrow> [(n, st)] | _ \<Rightarrow> []) @ calls es"
  by (simp_all add: calls_def)

definition view :: "LinkSession \<Rightarrow> tx_view" where
  "view s = (se_TXMsgs s, se_TXID s, calls (se_log s))"

lemma view_update [simp]:
  "view (s\<lparr>se_State := a1\<rparr>) = view s" "view (s\<lparr>se_RemoteRC := a2\<rparr>) = view s" "view (s\<lparr>se_SessionKey := a3\<rparr>) = view s"
  "view (s\<lparr>se_token := a4\<rparr>) = view s" "view (s\<lparr>se_ExpectedIdent := a5\<rparr>) = view s" "view (s\<lparr>se_RemoteOnionKey := a6\<rparr>) = view s"
  "view (s\<lparr>se_LastTX := a7\<rparr>) = view s" "view (s\<lparr>se_LastRX := a8\<rparr>) = view s" "view (s\<lparr>se_TXRate := a9\<rparr>) = view s"
  "view (s\<lparr>se_RXRate := b1\<rparr>) = view s" "view (s\<lparr>se_CurrentTX := b2\<rparr>) = view s" "view (s\<lparr>se_CurrentRX := b3\<rparr>) = view s"
  "view (s\<lparr>se_ResetRatesAt := b4\<rparr>) = view s" "view (s\<lparr>se_RXMsgs := b5\<rparr>) = view s" "view (s\<lparr>se_ReplayFilter := b6\<rparr>) = view s"
  "view (s\<lparr>se_SendMACKs := b7\<rparr>) = view s" "view (s\<lparr>se_EncryptNext := b8\<rparr>) = view s" "view (s\<lparr>se_DecryptNext := b9\<rparr>) = view s"
  "view (s\<lparr>se_GotLIM := c1\<rparr>) = view s" "view (s\<lparr>se_draws := c2\<rparr>) = view s"
  "view (s\<lparr>se_TXMsgs := ms\<rparr>) = (ms, snd (view s))" "view (s\<lparr>se_TXID := txid\<rparr>) = (fst (view s), txid, snd (snd (view s)))"
  by (simp_all add: view_def)

lemma view_simps: "se_TXMsgs s = fst (view s)" "se_TXID s = fst (snd (view s))" "calls (se_log s) = snd (snd (view s))"
  by (simp_all add: view_def)

lemma view_emit [simp]: "view (emit e s) = (fst (view s), fst (snd (view s)), snd (snd (view s)) @ (case e of Inform n st \<Rightarrow> [(n, st)] | _ \<Rightarrow> []))"
  by (simp add: view_def)

text \<open>Packets do not touch the view.\<close>

lemma view_Send_LL [simp]: "view (Send_LL env p s) = view s"
  by (simp add: Send_LL_def)

lemma view_EncryptWorker [simp]: "view (EncryptWorker env ps s) = view s"
  by (induction ps arbitrary: s) (simp_all add: EncryptWorker_Cons)

lemma view_EncryptAndSend [simp]: "view (EncryptAndSend env p s) = view s"
  by (simp add: EncryptAndSend_def Let_def)

lemma view_sends [simp]: "view (fold (EncryptAndSend env) ps s) = view s"
  by (induction ps arbitrary: s) simp_all

lemma view_send_new [simp]: "view (send_new env mk s) = view s"
  by (simp add: send_new_def split_def Let_def)

lemma view_Close [simp]: "view (Session_Close env s) = view s"
  by (simp add: Session_Close_def Let_def)

lemma view_SendMACK [simp]: "view (SendMACK env s) = view s"
proof (induction env s rule: SendMACK.induct)
  case (1 env s)
  then show ?case by (subst SendMACK.simps) (simp add: Let_def)
qed

lemma view_SendKeepAlive [simp]: "view (snd (SendKeepAlive env s)) = view s"
  by (simp add: SendKeepAlive_def)

lemma view_map_addr [simp]: "view (map_addr env s) = view s"
  by (simp add: map_addr_def Let_def)

lemma view_Start [simp]: "view (Session_Start env s) = view s"
  by (simp add: Session_Start_def GenerateAndSendIntro_def Let_def split: option.split)

lemma view_add_mack [simp]: "view (add_mack rxid s) = view s"
  by (simp add: add_mack_def)

lemma view_HandleNACK [simp]: "view (HandleNACK env data s) = view s"
  by (simp add: HandleNACK_def Let_def split: option.split)

lemma view_DecryptWorker [simp]: "view (DecryptWorker env msgs s) = view s"
  by (simp add: DecryptWorker_def)

lemma view_pump_rx [simp]: "view (fold (pump_rx env) ms s) = view s"
proof -
  have "view (pump_rx env m s) = view s" for m s by (simp add: pump_rx_def split_def Let_def)
  then show ?thesis by (induction ms arbitrary: s) simp_all
qed

lemma view_tick_rx [simp]: "view (fold (tick_rx now) ms s) = view s"
proof -
  have "view (tick_rx now m s) = view s" for m s by (simp add: tick_rx_def split_def)
  then show ?thesis by (induction ms arbitrary: s) simp_all
qed

definition called :: "completion option \<Rightarrow> DeliveryStatus \<Rightarrow> call list" where
  "called h st = (case h of Some (Notify n) \<Rightarrow> [(n, st)] | _ \<Rightarrow> [])"

lemma view_inform [simp]: "view (inform env st h s) = (fst (view s), fst (snd (view s)), snd (snd (view s)) @ called h st)"
  by (simp add: inform_def called_def split: option.split completion.split)

section \<open>Steps\<close>

definition handler_of :: "completion option \<Rightarrow> nat multiset" where
  "handler_of h = (case h of Some (Notify n) \<Rightarrow> {#n#} | _ \<Rightarrow> {#})"

definition waiting :: "(u64 \<times> OutboundMessage) list \<Rightarrow> nat multiset" where
  "waiting ms = (\<Sum>h\<leftarrow>map (om_Completed \<circ> snd) ms. handler_of h)"

fun handlers :: "tx_view \<Rightarrow> nat multiset" where
  "handlers (ms, txid, cs) = waiting ms + mset (map fst cs)"

fun view_ok :: "nat \<Rightarrow> tx_view \<Rightarrow> bool" where
  "view_ok b (ms, txid, cs) \<longleftrightarrow> distinct (map fst ms) \<and> list_all (\<lambda>x. fst x < txid) ms \<and> unat txid \<le> b"

text \<open>A message stays with its handler and its time, or its handler is called.\<close>

fun kept :: "tx_view \<Rightarrow> tx_view \<Rightarrow> bool" where
  "kept (ms, txid, cs) (ms', txid', cs') \<longleftrightarrow> set cs \<subseteq> set cs' \<and>
     list_all (\<lambda>(k, m). (\<exists>m'. (k, m') \<in> set ms' \<and> om_Completed m' = om_Completed m \<and> om_StartedAt m' = om_StartedAt m) \<or>
       (\<forall>n. om_Completed m = Some (Notify n) \<longrightarrow> (\<exists>st. (n, st) \<in> set cs'))) ms"

definition tx_step :: "nat \<Rightarrow> nat multiset \<Rightarrow> tx_view \<Rightarrow> tx_view \<Rightarrow> bool" where
  "tx_step n new v w \<longleftrightarrow> (\<forall>b. view_ok b v \<longrightarrow> b + n < 2 ^ 64 \<longrightarrow> view_ok (b + n) w \<and> handlers w = handlers v + new \<and> kept v w)"

lemma kept_refl: "kept v v"
  by (cases v) (auto simp: list_all_iff)

lemma kept_trans: "kept u v \<Longrightarrow> kept v w \<Longrightarrow> kept u w"
proof (cases u; cases v; cases w)
  fix ms i cs ms' i' cs' ms'' i'' cs''
  assume k: "kept u v" "kept v w" and u: "u = (ms, i, cs)" and v: "v = (ms', i', cs')" and w: "w = (ms'', i'', cs'')"
  have "(\<exists>m'. (k, m') \<in> set ms'' \<and> om_Completed m' = om_Completed m \<and> om_StartedAt m' = om_StartedAt m) \<or>
       (\<forall>n. om_Completed m = Some (Notify n) \<longrightarrow> (\<exists>st. (n, st) \<in> set cs''))" if "(k, m) \<in> set ms" for k m
  proof -
    from k(1) that consider m' where "(k, m') \<in> set ms'" "om_Completed m' = om_Completed m" "om_StartedAt m' = om_StartedAt m"
      | "\<forall>n. om_Completed m = Some (Notify n) \<longrightarrow> (\<exists>st. (n, st) \<in> set cs')" unfolding u v by (auto simp: list_all_iff)
    then show ?thesis
    proof cases
      case 1
      from k(2) 1(1) have "(\<exists>m''. (k, m'') \<in> set ms'' \<and> om_Completed m'' = om_Completed m' \<and> om_StartedAt m'' = om_StartedAt m') \<or>
        (\<forall>n. om_Completed m' = Some (Notify n) \<longrightarrow> (\<exists>st. (n, st) \<in> set cs''))" unfolding v w by (auto simp: list_all_iff)
      with 1(2,3) show ?thesis by simp
    next
      case 2
      moreover have "set cs' \<subseteq> set cs''" using k(2) unfolding v w by simp
      ultimately show ?thesis by blast
    qed
  qed
  moreover have "set cs \<subseteq> set cs''" using k unfolding u v w by auto
  ultimately show "kept u w" unfolding u w by (auto simp: list_all_iff)
qed

lemma tx_step_refl [simp]: "tx_step 0 {#} v v"
  by (simp add: tx_step_def kept_refl)

lemma tx_step_trans: "tx_step n as u v \<Longrightarrow> tx_step m bs v w \<Longrightarrow> tx_step (n + m) (as + bs) u w"
  unfolding tx_step_def
proof (intro allI impI)
  fix b
  assume a: "\<forall>b. view_ok b u \<longrightarrow> b + n < 2 ^ 64 \<longrightarrow> view_ok (b + n) v \<and> handlers v = handlers u + as \<and> kept u v"
    and b: "\<forall>b. view_ok b v \<longrightarrow> b + m < 2 ^ 64 \<longrightarrow> view_ok (b + m) w \<and> handlers w = handlers v + bs \<and> kept v w"
    and "view_ok b u" and l: "b + (n + m) < 2 ^ 64"
  then have 1: "view_ok (b + n) v \<and> handlers v = handlers u + as \<and> kept u v" by simp
  with b [rule_format, of "b + n"] l have "view_ok (b + n + m) w \<and> handlers w = handlers v + bs \<and> kept v w" by simp
  with 1 show "view_ok (b + (n + m)) w \<and> handlers w = handlers u + (as + bs) \<and> kept u w" using kept_trans [of u v w] by (simp add: add.assoc)
qed

lemma tx_step_trans0: "tx_step 0 {#} u v \<Longrightarrow> tx_step 0 {#} v w \<Longrightarrow> tx_step 0 {#} u w"
  using tx_step_trans [of 0 "{#}" u v 0 "{#}" w] by simp

lemma view_ok_mono: "view_ok b v \<Longrightarrow> b \<le> c \<Longrightarrow> view_ok c v"
  by (cases v) auto

lemma tx_step_mono: "tx_step n as v w \<Longrightarrow> n \<le> m \<Longrightarrow> tx_step m as v w"
  unfolding tx_step_def
proof (intro allI impI)
  fix b assume "\<forall>b. view_ok b v \<longrightarrow> b + n < 2 ^ 64 \<longrightarrow> view_ok (b + n) w \<and> handlers w = handlers v + as \<and> kept v w"
    and "view_ok b v" and l: "n \<le> m" "b + m < 2 ^ 64"
  then have "view_ok (b + n) w \<and> handlers w = handlers v + as \<and> kept v w" by simp
  with view_ok_mono [of "b + n" w "b + m"] l show "view_ok (b + m) w \<and> handlers w = handlers v + as \<and> kept v w" by simp
qed

lemma tx_stepI: "(\<And>b. view_ok b v \<Longrightarrow> tx_step n as v w) \<Longrightarrow> tx_step n as v w"
  by (auto simp: tx_step_def)

lemma waiting_simps [simp]: "waiting [] = {#}" "waiting (x # xs) = handler_of (om_Completed (snd x)) + waiting xs"
  by (simp_all add: waiting_def)

lemma waiting_same: "map (om_Completed \<circ> snd) xs = map (om_Completed \<circ> snd) ys \<Longrightarrow> waiting xs = waiting ys"
  by (simp only: waiting_def)

lemma handlers_called [simp]: "image_mset fst (mset (called h st)) = handler_of h"
  by (simp add: called_def handler_of_def split: option.split completion.split)

lemma step_put:
  assumes "map_of ms k = Some m" and "om_Completed m' = om_Completed m" and "om_StartedAt m' = om_StartedAt m"
  shows "tx_step 0 {#} (ms, r) (put_at k m' ms, r)"
proof (rule tx_stepI)
  fix b assume "view_ok b (ms, r)"
  then have d: "distinct (map fst ms)" by (cases r) simp
  have e: "m0 = m" if "(k, m0) \<in> set ms" for m0 using that d assms(1) by (simp add: map_of_eq_Some_iff)
  have "map (om_Completed \<circ> snd) (put_at k m' ms) = map (om_Completed \<circ> snd) ms"
    using e assms(2) by (auto simp: put_at_def split_def)
  then have w: "waiting (put_at k m' ms) = waiting ms" by (rule waiting_same)
  have "kept (ms, r) (put_at k m' ms, r)"
  proof -
    have "(j, if j = k then m' else m0) \<in> set (put_at k m' ms)" if "(j, m0) \<in> set ms" for j m0
      using that by (force simp: put_at_def)
    then show ?thesis using e assms(2,3) by (cases r) (fastforce simp: list_all_iff)
  qed
  moreover have "list_all (\<lambda>x. fst x < t) (put_at k m' ms) = list_all (\<lambda>x. fst x < t) ms" for t
  proof -
    have "list_all (\<lambda>x. fst x < t) zs = list_all (\<lambda>k. k < t) (map fst zs)" for zs :: "(u64 \<times> OutboundMessage) list"
      by (simp add: list_all_iff)
    then show ?thesis by simp
  qed
  ultimately show "tx_step 0 {#} (ms, r) (put_at k m' ms, r)" using w by (cases r) (simp add: tx_step_def)
qed

lemma waiting_append [simp]: "waiting (xs @ ys) = waiting xs + waiting ys"
  by (simp add: waiting_def)

lemma waiting_erase:
  "distinct (map fst ms) \<Longrightarrow> map_of ms k = Some m \<Longrightarrow> waiting ms = waiting (erase_key k ms) + handler_of (om_Completed m)"
proof (induction ms)
  case (Cons x ms)
  have "erase_key k ms = ms" if "fst x = k"
  proof -
    have "k \<notin> fst ` set ms" using Cons.prems(1) that by simp
    then have "\<forall>y\<in>set ms. fst y \<noteq> k" by blast
    then show ?thesis by (simp add: erase_key_def)
  qed
  with Cons show ?case by (auto simp: erase_key_def add_ac split: if_splits)
qed simp

lemma step_call:
  assumes "map_of ms k = Some m"
  shows "tx_step 0 {#} (ms, txid, cs) (erase_key k ms, txid, cs @ called (om_Completed m) st)"
proof (rule tx_stepI)
  fix b assume b: "view_ok b (ms, txid, cs)"
  then have d: "distinct (map fst ms)" by simp
  have e: "m' = m" if "(k, m') \<in> set ms" for m' using that d assms by (simp add: map_of_eq_Some_iff)
  have "kept (ms, txid, cs) (erase_key k ms, txid, cs @ called (om_Completed m) st)"
  proof -
    have "(\<exists>m'. (j, m') \<in> set (erase_key k ms) \<and> om_Completed m' = om_Completed m0 \<and> om_StartedAt m' = om_StartedAt m0) \<or>
       (\<forall>n. om_Completed m0 = Some (Notify n) \<longrightarrow> (\<exists>st'. (n, st') \<in> set (cs @ called (om_Completed m) st)))" if "(j, m0) \<in> set ms" for j m0
    proof (cases "j = k")
      case True
      with e that have "m0 = m" by blast
      then show ?thesis by (auto simp: called_def)
    next
      case False
      with that have "(j, m0) \<in> set (erase_key k ms)" by simp
      then show ?thesis by blast
    qed
    then show ?thesis by (auto simp: list_all_iff)
  qed
  with b d show "tx_step 0 {#} (ms, txid, cs) (erase_key k ms, txid, cs @ called (om_Completed m) st)"
    using waiting_erase [OF d assms] by (auto simp: tx_step_def distinct_erase_key list_all_iff)
qed

lemma step_send:
  assumes "om_Completed m = h"
  shows "tx_step (Suc 0) (handler_of h) (ms, txid, cs) (emplace txid m ms, txid + 1, cs)"
  unfolding tx_step_def
proof (intro allI impI)
  fix b assume b: "view_ok b (ms, txid, cs)" "b + Suc 0 < 2 ^ 64"
  then have "unat txid + 1 < 2 ^ 64" by simp
  then have u: "unat (txid + 1) = unat txid + 1" by (simp add: unat_word_ariths)
  have "k < txid + 1" if "k < txid" for k using that u by (simp add: word_less_nat_alt)
  moreover have "txid < txid + 1" using u by (simp add: word_less_nat_alt)
  moreover have "map_of ms txid = None" using b(1) by (force simp: map_of_eq_None_iff list_all_iff)
  ultimately show "view_ok (b + Suc 0) (emplace txid m ms, txid + 1, cs) \<and> handlers (emplace txid m ms, txid + 1, cs) = handlers (ms, txid, cs) + handler_of h \<and>
      kept (ms, txid, cs) (emplace txid m ms, txid + 1, cs)"
    using b u assms by (auto simp: emplace_def list_all_iff map_of_eq_None_iff)
qed

section \<open>The operations\<close>

lemma bind_resE: "bind_res m f = Inr y \<Longrightarrow> (\<And>x. m = Inr x \<Longrightarrow> f x = Inr y \<Longrightarrow> R) \<Longrightarrow> R"
  by (auto simp: bind_res_eq_Inr_iff)

text \<open>The handler that an operation gives to the session, when the session takes it.\<close>

definition accepted :: "link_env \<Rightarrow> session_op \<Rightarrow> LinkSession \<Rightarrow> nat multiset" where
  "accepted env op s = (case op of OpSend buf h \<Rightarrow> if fst (SendMessageBuffer env buf h s) then handler_of h else {#} | _ \<Rightarrow> {#})"

lemma step_Send:
  "tx_step (Suc 0) (if fst (SendMessageBuffer env buf h s) then handler_of h else {#}) (view s) (view (snd (SendMessageBuffer env buf h s)))"
proof (cases "length (se_TXMsgs s) \<ge> MaxSendQueueSize")
  case True
  then show ?thesis using tx_step_mono [OF tx_step_refl, of "Suc 0" "view s"] by (simp add: SendMessageBuffer_def)
next
  case False
  let ?m = "OutboundMessage_new (le_sodium env) (se_TXID s) buf (le_now env) h"
  have "view (snd (SendMessageBuffer env buf h s)) = (emplace (se_TXID s) ?m (se_TXMsgs s), se_TXID s + 1, calls (se_log s))"
    using False by (simp add: SendMessageBuffer_def Let_def) (simp add: view_def)
  with False show ?thesis using step_send [of ?m h "se_TXMsgs s" "se_TXID s" "calls (se_log s)"]
    by (simp add: SendMessageBuffer_def Let_def OutboundMessage_new_def view_def [of s])
qed

lemma step_Lim:
  assumes "SendOurLIM env h s = Inr s'" and "h = None \<or> h = Some LimSent"
  shows "tx_step (Suc 0) {#} (view s) (view s')"
proof -
  let ?s = "s\<lparr>se_draws := se_draws s + 1\<rparr>"
  have 0: "tx_step (Suc 0) {#} (view s) (view s)" by (rule tx_step_mono [OF tx_step_refl]) simp
  have "tx_step (Suc 0) {#} (view s) (view (snd (SendMessageBuffer env buf h ?s)))" for buf
    using step_Send [of env buf h ?s] assms(2) by (auto simp: handler_of_def split: if_splits)
  with assms(1) 0 show ?thesis unfolding SendOurLIM_def Let_def
    by (auto simp: bind_res_eq_Inr_iff split: if_splits)
qed

lemma step_GotLIM: "GotLIM env msg s = Inr (ok, s') \<Longrightarrow> tx_step (Suc 0) {#} (view s) (view s')"
proof -
  assume g: "GotLIM env msg s = Inr (ok, s')"
  have 0: "tx_step (Suc 0) {#} (view s) (view s)" by (rule tx_step_mono [OF tx_step_refl]) simp
  let ?s = "s\<lparr>se_RemoteRC := lim_rc msg, se_GotLIM := GotReneg\<rparr>"
  have 1: "tx_step (Suc 0) {#} (view s) (view s')" if "SendOurLIM env (Some LimSent) ?s = Inr s'" using step_Lim [OF that] by simp
  from g 0 1 show ?thesis unfolding GotLIM_def GotOutboundLIM_def GotInboundLIM_def GotRenegLIM_def Let_def
    by (auto simp: bind_res_eq_Inr_iff split: lim_handler.splits if_splits)
qed

lemma step_handle_message: "handle_message env buf s = Inr s' \<Longrightarrow> tx_step (Suc 0) {#} (view s) (view s')"
proof -
  assume h: "handle_message env buf s = Inr s'"
  have 0: "tx_step (Suc 0) {#} (view s) (view s)" by (rule tx_step_mono [OF tx_step_refl]) simp
  have 1: "tx_step (Suc 0) {#} (view s) (view s')" if "GotLIM env msg (emit (HandleMessage buf) s) = Inr (ok, s')" for msg ok
    using step_GotLIM [OF that] by simp
  from h 0 1 show ?thesis unfolding handle_message_def Let_def by (auto simp: bind_res_eq_Inr_iff split: option.splits)
qed

lemma step_complete_tx: "tx_step 0 {#} (view s) (view (complete_tx env txid s))"
proof (cases "map_of (se_TXMsgs s) txid")
  case (Some m)
  with step_call [OF Some, of "se_TXID s" "calls (se_log s)" eDeliverySuccess] show ?thesis
    by (simp add: complete_tx_def Let_def) (simp add: view_def)
qed (simp add: complete_tx_def)

lemma step_MACK: "tx_step 0 {#} (view s) (view (HandleMACK env data s))"
proof -
  have "tx_step 0 {#} (view s) (view (fold (\<lambda>i. complete_tx env (f i)) xs s))" for f and xs :: "nat list"
    by (induction xs arbitrary: s) (auto intro: tx_step_trans0 [OF step_complete_tx])
  then show ?thesis by (simp add: HandleMACK_def Let_def)
qed

lemma step_flush:
  assumes "flush_message env txid m s = Inr s'" and "map_of (se_TXMsgs s) txid = Some m"
  shows "tx_step 0 {#} (view s) (view s')"
    and "se_TXMsgs s' = put_at txid (m\<lparr>om_LastFlush := le_now env\<rparr>) (se_TXMsgs s)"
proof -
  from assms(1) have v: "view s' = (put_at txid (m\<lparr>om_LastFlush := le_now env\<rparr>) (se_TXMsgs s), snd (view s))"
    by (auto simp: flush_message_def FlushUnAcked_def bind_res_eq_Inr_iff Let_def split_def view_simps)
  with step_put [OF assms(2), of "m\<lparr>om_LastFlush := le_now env\<rparr>" "snd (view s)"] show "tx_step 0 {#} (view s) (view s')"
    by (simp add: view_simps)
  from v show "se_TXMsgs s' = put_at txid (m\<lparr>om_LastFlush := le_now env\<rparr>) (se_TXMsgs s)" by (simp add: view_simps)
qed

lemma step_ACKS:
  assumes "HandleACKS env data s = Inr s'"
  shows "tx_step 0 {#} (view s) (view s')"
proof (cases "map_of (se_TXMsgs s) (packet_u64 (2 + PacketOverhead) data)")
  case None
  with assms show ?thesis by (auto simp: HandleACKS_def Let_def split: if_splits)
next
  case (Some m)
  define txid where "txid = packet_u64 (2 + PacketOverhead) data"
  define a where "a = Outbound_Ack (data ! (10 + PacketOverhead)) m"
  define t where "t = s\<lparr>se_LastRX := le_now env, se_TXMsgs := put_at txid a (se_TXMsgs (s\<lparr>se_LastRX := le_now env\<rparr>))\<rparr>"
  have 1: "tx_step 0 {#} (view s) (view t)"
    using step_put [OF Some, of a "snd (view s)"] by (simp add: t_def a_def txid_def Outbound_Ack_def view_simps)
  have a: "map_of (se_TXMsgs t) txid = Some a" using Some by (simp add: t_def txid_def map_of_put_at)
  have "(if length data < 11 + PacketOverhead then Inr s
    else bind_res (IsTransmitted a) (\<lambda>transmitted. if transmitted then Inr (complete_tx env txid t) else flush_message env txid a t)) = Inr s'"
  proof -
    have "map_of (se_TXMsgs (s\<lparr>se_LastRX := le_now env\<rparr>)) txid = Some m" using Some by (simp add: txid_def)
    then show ?thesis using assms unfolding HandleACKS_def Let_def txid_def [symmetric] by (simp only: option.case a_def [symmetric] t_def [symmetric])
  qed
  then consider "s' = s" | "s' = complete_tx env txid t" | "flush_message env txid a t = Inr s'"
  proof (cases "length data < 11 + PacketOverhead")
    case False
    assume "(if length data < 11 + PacketOverhead then Inr s else bind_res (IsTransmitted a)
      (\<lambda>transmitted. if transmitted then Inr (complete_tx env txid t) else flush_message env txid a t)) = Inr s'"
    with False have "bind_res (IsTransmitted a) (\<lambda>transmitted. if transmitted then Inr (complete_tx env txid t) else flush_message env txid a t) = Inr s'"
      by (simp only: if_False)
    then obtain transmitted where "(if transmitted then Inr (complete_tx env txid t) else flush_message env txid a t) = Inr s'"
      unfolding bind_res_eq_Inr_iff by blast
    then show thesis using that(2,3) by (cases transmitted) (simp_all only: if_True if_False sum.inject)
  qed (use that(1) in \<open>simp only: if_True sum.inject\<close>)
  then show ?thesis
  proof cases
    case 2
    show ?thesis unfolding 2 by (rule tx_step_trans0 [OF 1 step_complete_tx])
  next
    case 3
    show ?thesis by (rule tx_step_trans0 [OF 1 step_flush(1) [OF 3 a]])
  qed simp
qed

lemma step_pump_tx:
  assumes "each (pump_tx env) xs s = Inr s'" and "distinct (map fst xs)" and "list_all (\<lambda>(k, m). map_of (se_TXMsgs s) k = Some m) xs"
  shows "tx_step 0 {#} (view s) (view s')"
  using assms
proof (induction xs arbitrary: s)
  case (Cons x xs)
  obtain k m where x: "x = (k, m)" by (cases x)
  from Cons.prems(1) obtain t where t: "pump_tx env (k, m) s = Inr t" "each (pump_tx env) xs t = Inr s'" by (auto simp: x bind_res_eq_Inr_iff)
  have m: "map_of (se_TXMsgs s) k = Some m" using Cons.prems(3) by (simp add: x)
  have st: "tx_step 0 {#} (view s) (view t)" and same: "\<forall>j. j \<noteq> k \<longrightarrow> map_of (se_TXMsgs t) j = map_of (se_TXMsgs s) j"
    using t(1) step_flush [OF _ m] by (auto simp: pump_tx_def map_of_put_at split: if_splits)
  have "list_all (\<lambda>(k, m). map_of (se_TXMsgs t) k = Some m) xs"
    using Cons.prems(2,3) same by (force simp: x list_all_iff)
  with Cons.IH [OF t(2)] Cons.prems(2) have "tx_step 0 {#} (view t) (view s')" by simp
  with st show ?case by (rule tx_step_trans0)
qed simp

lemma step_tick_tx:
  assumes "distinct (map fst xs)" and "list_all (\<lambda>(k, m). map_of (se_TXMsgs s) k = Some m) xs"
  shows "tx_step 0 {#} (view s) (view (fold (tick_tx env now) xs s))"
  using assms
proof (induction xs arbitrary: s)
  case (Cons x xs)
  obtain k m where x: "x = (k, m)" by (cases x)
  let ?t = "tick_tx env now (k, m) s"
  have m: "map_of (se_TXMsgs s) k = Some m" using Cons.prems(2) by (simp add: x)
  have st: "tx_step 0 {#} (view s) (view ?t)"
    using step_call [OF m, of "se_TXID s" "calls (se_log s)" eDeliveryDropped] by (simp add: tick_tx_def Let_def) (simp add: view_def)
  have same: "\<forall>j. j \<noteq> k \<longrightarrow> map_of (se_TXMsgs ?t) j = map_of (se_TXMsgs s) j" by (simp add: tick_tx_def map_of_erase_key Let_def)
  have "list_all (\<lambda>(k, m). map_of (se_TXMsgs ?t) k = Some m) xs"
    using Cons.prems same by (force simp: x list_all_iff)
  with Cons.IH [of ?t] Cons.prems(1) have "tx_step 0 {#} (view ?t) (view (fold (tick_tx env now) xs ?t))" by simp
  from tx_step_trans0 [OF st this] show ?case by (simp add: x)
qed simp

lemma step_Pump:
  assumes "Session_Pump env s = Inr s'"
  shows "tx_step 0 {#} (view s) (view s')"
proof (rule tx_stepI)
  fix b assume "view_ok b (view s)"
  then have d: "distinct (map fst (se_TXMsgs s))" by (simp add: view_def)
  from Pump_stages [OF assms] obtain s1 es where
      s1: "(if se_State s = Ready \<or> se_State s = LinkIntro
     then let k = (if ShouldPing env s then snd (SendKeepAlive env s) else s); r = fold (pump_rx env) (se_RXMsgs k) k in each (pump_tx env) (se_TXMsgs r) r
     else Inr s) = Inr s1" and s': "se_TXMsgs s' = se_TXMsgs s1" "se_TXID s' = se_TXID s1" "se_log s' = se_log s1 @ es" "list_all queue_effect es" by blast
  have "calls es = []" using s'(4) by (induction es) (auto simp: queue_effect_def split: link_effect.splits)
  then have v: "view s' = view s1" by (simp add: view_def s')
  define k where "k = (if ShouldPing env s then snd (SendKeepAlive env s) else s)"
  define r where "r = fold (pump_rx env) (se_RXMsgs k) k"
  have vr: "view r = view s" by (simp add: r_def k_def)
  then have t: "se_TXMsgs r = se_TXMsgs s" by (simp add: view_def)
  have "list_all (\<lambda>(k, m). map_of (se_TXMsgs r) k = Some m) (se_TXMsgs r)" using d unfolding t by (auto simp: list_all_iff)
  then have "tx_step 0 {#} (view r) (view s1)" if "each (pump_tx env) (se_TXMsgs r) r = Inr s1"
    using step_pump_tx [OF that] d unfolding t by blast
  with s1 show "tx_step 0 {#} (view s) (view s')" unfolding v Let_def k_def [symmetric] r_def [symmetric]
    by (auto simp: vr split: if_splits)
qed

lemma Tick_stages:
  obtains r where "view r = view s" "view (Session_Tick env now s) = view (fold (tick_tx env now) (se_TXMsgs s) r)"
proof -
  define r where "r = (if ShouldResetRates s now then (ResetRates s)\<lparr>se_ResetRatesAt := now + 1000\<rparr> else s)"
  have v: "view r = view s" by (simp add: r_def ResetRates_def)
  then have "se_TXMsgs r = se_TXMsgs s" by (simp add: view_def)
  then have "view (Session_Tick env now s) = view (fold (tick_tx env now) (se_TXMsgs s) r)"
    unfolding Session_Tick_def r_def [symmetric] Let_def by simp
  with v show thesis by (rule that)
qed

lemma step_Tick: "tx_step 0 {#} (view s) (view (Session_Tick env now s))"
proof (rule tx_stepI)
  fix b assume "view_ok b (view s)"
  then have d: "distinct (map fst (se_TXMsgs s))" by (simp add: view_def)
  obtain r where r: "view r = view s" "view (Session_Tick env now s) = view (fold (tick_tx env now) (se_TXMsgs s) r)" by (rule Tick_stages)
  from r(1) have "se_TXMsgs r = se_TXMsgs s" by (simp add: view_def)
  with d have "tx_step 0 {#} (view r) (view (fold (tick_tx env now) (se_TXMsgs s) r))" by (intro step_tick_tx) (auto simp: list_all_iff)
  then show "tx_step 0 {#} (view s) (view (Session_Tick env now s))" by (simp only: r)
qed

lemma step_deliver: "deliver env rxid m s = Inr s' \<Longrightarrow> tx_step (Suc 0) {#} (view s) (view s')"
  by (auto simp: deliver_def bind_res_eq_Inr_iff dest: step_handle_message)

lemma step_fragment:
  assumes "xmit_fragment env data n rxid m s = Inr s' \<or> data_fragment env sz buf rxid m s = Inr s'"
  shows "tx_step (Suc 0) {#} (view s) (view s')"
proof -
  define put where "put x = s\<lparr>se_RXMsgs := put_at rxid x (se_RXMsgs s)\<rparr>" for x
  have v: "view (put x) = view s" for x by (simp add: put_def)
  have 0: "tx_step (Suc 0) {#} (view s) (view s)" by (rule tx_step_mono [OF tx_step_refl]) simp
  have d: "tx_step (Suc 0) {#} (view s) (view t)" if "deliver env rxid x (put x) = Inr t" for x t using step_deliver [OF that] by (simp add: v)
  from assms 0 show ?thesis unfolding xmit_fragment_def data_fragment_def Let_def put_def [symmetric]
    by (auto elim!: bind_resE simp: v split: if_splits dest!: d)
qed

lemma step_weaken: "tx_step 0 {#} v w \<Longrightarrow> tx_step (Suc 0) {#} v w"
  by (erule tx_step_mono) simp

lemma step_XMIT:
  assumes "HandleXMIT env data s = Inr s'"
  shows "tx_step (Suc 0) {#} (view s) (view s')"
proof -
  have 1: "tx_step (Suc 0) {#} (view s) (view s')"
    if "xmit_fragment env d n rxid m (s\<lparr>se_LastRX := t, se_RXMsgs := ms\<rparr>) = Inr s'" for d n rxid m t ms
    using step_fragment [OF disjI1 [OF that]] by simp
  have 0: "tx_step (Suc 0) {#} (view s) (view s)" by (rule step_weaken) simp
  from assms 0 show ?thesis unfolding HandleXMIT_def Let_def
    by (auto split: if_splits intro: 1)
qed

lemma step_DATA:
  assumes "HandleDATA env data s = Inr s'"
  shows "tx_step (Suc 0) {#} (view s) (view s')"
proof -
  have 1: "tx_step (Suc 0) {#} (view s) (view s')" if "data_fragment env n buf rxid m (s\<lparr>se_LastRX := t\<rparr>) = Inr s'" for n buf rxid m t
    using step_fragment [OF disjI2 [OF that]] by simp
  have 0: "tx_step (Suc 0) {#} (view s) (view s)" by (rule step_weaken) simp
  from assms 0 show ?thesis unfolding HandleDATA_def Let_def
    by (auto split: if_splits option.splits intro: 1)
qed

lemma step_plain:
  assumes "handle_plain env data s = Inr s'"
  shows "tx_step (Suc 0) {#} (view s) (view s')"
  using assms step_XMIT [of env data s s'] step_DATA [of env data s s'] step_ACKS [of env data s s', THEN step_weaken]
    step_MACK [of s env data, THEN step_weaken] step_weaken [OF tx_step_refl, of "view s"]
  unfolding handle_plain_def Let_def by (auto simp: HandlePING_def HandleCLOS_def split: if_splits)

lemma step_Recv:
  assumes "Recv_LL env data s = Inr (ok, s')"
  shows "tx_step (Suc 0) {#} (view s) (view s')"
proof -
  have 0: "tx_step (Suc 0) {#} (view s) (view s)" by (rule step_weaken) simp
  have 1: "tx_step (Suc 0) {#} (view s) (view s')"
    if "SendOurLIM env None (s\<lparr>se_RXRate := x, se_LastRX := t, se_State := st\<rparr>) = Inr s'" for x t st
    using step_Lim [OF that] by simp
  from assms 0 show ?thesis
    unfolding Recv_LL_def HandleGotIntro_def HandleGotIntroAck_def HandleCreateSessionRequest_def HandleSessionData_def Let_def
    by (auto simp: bind_res_eq_Inr_iff split: session_state.splits if_splits option.splits intro: 1)
qed

lemma step_do:
  assumes "session_do env op s = Inr s'"
  shows "tx_step (Suc 0) (accepted env op s) (view s) (view s')"
proof -
  have 0: "tx_step (Suc 0) {#} (view s) (view s)" by (rule step_weaken) simp
  show ?thesis
  proof (cases op)
    case (OpSend buf h)
    with assms step_Send [of env buf h s] show ?thesis by (auto simp: accepted_def)
  next
    case (OpRecv data)
    with assms show ?thesis by (auto simp: accepted_def bind_res_eq_Inr_iff intro: step_Recv)
  next
    case (OpPlain pkt)
    with assms 0 show ?thesis by (auto simp: accepted_def split: if_splits intro: step_plain)
  next
    case OpPump
    with assms show ?thesis by (auto simp: accepted_def intro: step_weaken step_Pump)
  next
    case OpTick
    with assms show ?thesis by (auto simp: accepted_def intro: step_weaken step_Tick)
  next
    case OpRenegotiate
    with assms show ?thesis by (auto simp: accepted_def RenegotiateSession_def bind_res_eq_Inr_iff intro: step_Lim)
  qed (use assms 0 in \<open>auto simp: accepted_def split: if_splits\<close>)
qed

section \<open>Runs\<close>

text \<open>The handlers that a session takes over during a run.\<close>

fun all_accepted :: "(link_env \<times> session_op) list \<Rightarrow> LinkSession \<Rightarrow> nat multiset" where
  "all_accepted [] s = {#}"
| "all_accepted ((env, op) # ops) s = accepted env op s + (case session_do env op s of Inl e \<Rightarrow> {#} | Inr s' \<Rightarrow> all_accepted ops s')"

lemma step_run: "session_run ops s = Inr s' \<Longrightarrow> tx_step (length ops) (all_accepted ops s) (view s) (view s')"
  unfolding session_run_def
proof (induction ops arbitrary: s)
  case (Cons x ops)
  obtain env op where x: "x = (env, op)" by (cases x)
  from Cons.prems obtain t where t: "session_do env op s = Inr t" "each (\<lambda>(env, op). session_do env op) ops t = Inr s'"
    by (auto simp: x elim: bind_resE)
  from tx_step_trans [OF step_do [OF t(1)] Cons.IH [OF t(2)]] show ?case by (simp add: x t(1))
qed simp

lemma view_new:
  assumes "s = Session_inbound env a \<or> s = Session_outbound env rc ai"
  shows "view s = ([], 0, [])"
  using assms by (auto simp: Session_inbound_def Session_outbound_def Session_blank_def view_def)

text \<open>
  C6: Over any run of a new session of fewer than 2 to the power of 64 operations, every completion handler that the session took with a message is either
  still waiting with its message or was called exactly once; no other handler is called.
\<close>

theorem handlers_are_called_once:
  assumes "s = Session_inbound env a \<or> s = Session_outbound env rc ai" and "length ops < 2 ^ 64" and "session_run ops s = Inr s'"
  shows "waiting (se_TXMsgs s') + mset (map fst (calls (se_log s'))) = all_accepted ops s"
proof -
  from step_run [OF assms(3)] have "tx_step (length ops) (all_accepted ops s) ([], 0, []) (view s')" unfolding view_new [OF assms(1)] .
  then have "handlers (view s') = all_accepted ops s" using assms(2) by (auto simp: tx_step_def dest: spec [of _ 0])
  then show ?thesis by (simp add: view_def)
qed

lemma tick_tx_mono: "set (snd (snd (view s))) \<subseteq> set (snd (snd (view (fold (tick_tx env now) xs s))))"
proof (induction xs arbitrary: s)
  case (Cons x xs)
  have "set (snd (snd (view s))) \<subseteq> set (snd (snd (view (tick_tx env now x s))))" by (auto simp: tick_tx_def split_def Let_def)
  with Cons [of "tick_tx env now x s"] show ?case by auto
qed simp

lemma tick_tx_calls:
  assumes "(k, m) \<in> set xs" and "Outbound_IsTimedOut m now" and "om_Completed m = Some (Notify n)"
  shows "(n, eDeliveryDropped) \<in> set (snd (snd (view (fold (tick_tx env now) xs s))))"
  using assms(1)
proof (induction xs arbitrary: s)
  case (Cons x xs)
  show ?case
  proof (cases "x = (k, m)")
    case True
    have "(n, eDeliveryDropped) \<in> set (snd (snd (view (tick_tx env now x s))))"
      using assms(2,3) True by (simp add: tick_tx_def called_def Let_def)
    with tick_tx_mono [of "tick_tx env now x s" env now xs] show ?thesis by auto
  qed (use Cons in auto)
qed simp

text \<open>
  C7: A message that a session accepted does not wait for ever: whatever happens in between, the first tick more than 500 milliseconds after it
  was sent finds its handler called or calls it.
\<close>

theorem every_handler_is_called:
  assumes "s = Session_inbound env0 a \<or> s = Session_outbound env0 rc ai" and "session_run before s = Inr t"
    and "SendMessageBuffer env buf (Some (Notify n)) t = (True, u)" and "session_run after u = Inr w"
    and "length before + length after + 1 < 2 ^ 64" and "le_now env < now" and "DeliveryTimeout < now - le_now env"
  shows "\<exists>st. Inform n st \<in> set (se_log (Session_Tick tick now w))"
proof -
  let ?m = "OutboundMessage_new (le_sodium env) (se_TXID t) buf (le_now env) (Some (Notify n))"
  have "view_ok 0 (view s)" unfolding view_new [OF assms(1)] by simp
  with step_run [OF assms(2)] assms(5) have t: "view_ok (length before) (view t)" by (force simp: tx_step_def)
  then have "map_of (se_TXMsgs t) (se_TXID t) = None" by (force simp: view_def map_of_eq_None_iff list_all_iff)
  then have in_u: "(se_TXID t, ?m) \<in> set (se_TXMsgs u)"
    using assms(3) by (auto simp: SendMessageBuffer_def Let_def emplace_def split: if_splits)
  have "view_ok (length before + 1) (view u)"
    using step_Send [of env buf "Some (Notify n)" t] t assms(3,5) by (force simp: tx_step_def)
  with step_run [OF assms(4)] assms(5) have "kept (view u) (view w)" by (force simp: tx_step_def)
  with in_u consider m where "(se_TXID t, m) \<in> set (se_TXMsgs w)" "om_Completed m = Some (Notify n)" "om_StartedAt m = le_now env"
    | st where "(n, st) \<in> set (calls (se_log w))"
    by (force simp: view_def list_all_iff OutboundMessage_new_def)
  moreover obtain r where r: "view r = view w" "view (Session_Tick tick now w) = view (fold (tick_tx tick now) (se_TXMsgs w) r)" by (rule Tick_stages)
  ultimately have "\<exists>st. (n, st) \<in> set (calls (se_log (Session_Tick tick now w)))"
  proof cases
    case 1
    then have "Outbound_IsTimedOut m now" using assms(6,7) by (simp add: Outbound_IsTimedOut_def)
    from tick_tx_calls [OF 1(1) this 1(2), of tick r] r show ?thesis by (auto simp: view_simps)
  next
    case 2
    with tick_tx_mono [of r tick now "se_TXMsgs w"] r show ?thesis by (auto simp: view_simps)
  qed
  then show ?thesis by (auto simp: calls_def split: link_effect.splits)
qed

section \<open>Examples\<close>

theorem handlers_are_called_once_witness:
  "\<exists>s'. session_run [(demo_env, OpSend [1, 2, 3] (Some (Notify 7))), (demo_env\<lparr>le_now := 2000\<rparr>, OpTick)] (Session_inbound demo_env ([], 1090)) = Inr s' \<and>
     waiting (se_TXMsgs s') + mset (map fst (calls (se_log s'))) = {#7#}"
proof -
  let ?s = "Session_inbound demo_env ([], 1090)"
  let ?ops = "[(demo_env, OpSend [1, 2, 3] (Some (Notify 7))), (demo_env\<lparr>le_now := 2000\<rparr>, OpTick)]"
  have "all_accepted ?ops ?s = {#7#}"
    by (simp add: accepted_def SendMessageBuffer_def MaxSendQueueSize_def Session_inbound_def Session_blank_def handler_of_def Let_def)
  then show ?thesis using handlers_are_called_once [of ?s demo_env "([], 1090)" _ _ ?ops] by (simp add: session_run_def)
qed

theorem every_handler_is_called_witness:
  "\<exists>u w st. SendMessageBuffer demo_env [1, 2, 3] (Some (Notify 7)) (Session_inbound demo_env ([], 1090)) = (True, u) \<and>
     session_run [(demo_env, OpKeepAlive)] u = Inr w \<and> Inform 7 st \<in> set (se_log (Session_Tick demo_env 2000 w))"
proof -
  let ?s = "Session_inbound demo_env ([], 1090)"
  let ?u = "snd (SendMessageBuffer demo_env [1, 2, 3] (Some (Notify 7)) ?s)"
  have u: "SendMessageBuffer demo_env [1, 2, 3] (Some (Notify 7)) ?s = (True, ?u)"
    by (simp add: SendMessageBuffer_def MaxSendQueueSize_def Session_inbound_def Session_blank_def Let_def)
  have w: "session_run [(demo_env, OpKeepAlive)] ?u = Inr (snd (SendKeepAlive demo_env ?u))" by (simp add: session_run_def)
  have n: "le_now demo_env < 2000" "DeliveryTimeout < 2000 - le_now demo_env" by (simp_all add: demo_env_def DeliveryTimeout_def)
  obtain st where "Inform 7 st \<in> set (se_log (Session_Tick demo_env 2000 (snd (SendKeepAlive demo_env ?u))))"
    using every_handler_is_called [of ?s demo_env "([], 1090)" _ _ "[]" ?s, OF _ _ u w _ n, where tick = demo_env] by (auto simp: session_run_def)
  with u w show ?thesis by blast
qed

end
