(* ===== verification/Iwp_Handshake.thy ===== *)
theory Iwp_Handshake
  imports Iwp_Properties
begin

text \<open>
  The handshake of a link. The caller sends an introduction, encrypted under the hash of the identity it expects; the other side checks
  its signature, makes the session key and answers with a token; the caller repeats the token. Then both sides have the same key.
\<close>

section \<open>One packet\<close>

lemma decrypt_encrypt:
  assumes "hash_ok so" and "stream_ok so" and "64 < length p"
  obtains h where "length h = 32" and "DecryptMessageInPlace so key (encrypt_packet so key p) = Some (h @ drop 32 p)"
    and "length (encrypt_packet so key p) = length p"
proof -
  define n where "n = take 32 (drop 32 p)"
  define c where "c = xchacha20 so (drop 64 p) key n"
  have len: "length n = 32" "length c = length p - 64" using assms by (simp_all add: n_def c_def length_xchacha20)
  obtain h where h: "hmac so (n @ c) key = Some h" "length h = 32" using hash_okE [OF assms(1)] by blast
  have "drop 32 (take 64 p @ c) = n @ c" using assms(3) by (simp add: n_def drop_take)
  then have e: "encrypt_packet so key p = h @ n @ c"
    using h by (simp add: encrypt_packet_def PacketOverhead_def Let_def packet_put_def n_def [symmetric] c_def [symmetric])
  have p: "n @ drop 64 p = drop 32 p" using append_take_drop_id [of 32 "drop 32 p"] by (simp add: n_def)
  have "DecryptMessageInPlace so key (h @ n @ c) = Some ((h @ n) @ xchacha20 so c key n)"
    using h len assms(3) by (simp add: DecryptMessageInPlace_def PacketOverhead_def Let_def)
  also have "\<dots> = Some (h @ drop 32 p)" using assms(2) by (simp add: c_def xchacha20_xchacha20 p [symmetric])
  finally show thesis using that h(2) e len assms(3) by simp
qed

lemma send_unestablished:
  assumes "se_State s \<noteq> Ready" and "se_EncryptNext s = None"
  shows "EncryptAndSend env p s = Send_LL env (encrypt_packet (le_sodium env) (se_SessionKey s) p) s"
proof -
  have "s\<lparr>se_EncryptNext := None\<rparr> = s" using assms(2) by (cases s) simp
  moreover have "EncryptAndSend env p s = Send_LL env (encrypt_packet (le_sodium env) (se_SessionKey s) p) (s\<lparr>se_EncryptNext := None\<rparr>)"
    using assms by (simp add: EncryptAndSend_def IsEstablished_def EncryptWorker_Cons)
  ultimately show ?thesis by (simp only:)
qed

section \<open>The steps\<close>

definition handshaking :: "LinkSession \<Rightarrow> bool" where
  "handshaking s \<longleftrightarrow> (se_State s = Initial \<or> se_State s = Introducing) \<and> se_EncryptNext s = None"

lemma token_sent:
  assumes "handshaking s"
  obtains hdr where "length hdr = 64"
    and "send_new env (token_packet env token) s = Send_LL env (encrypt_packet (le_sodium env) (se_SessionKey s) (hdr @ token)) (s\<lparr>se_draws := se_draws s + 1\<rparr>)"
proof
  let ?hdr = "replicate 32 0 @ randbytes (le_random env) (se_draws s) 32"
  show "length ?hdr = 64" by (simp add: randbytes_def)
  show "send_new env (token_packet env token) s = Send_LL env (encrypt_packet (le_sodium env) (se_SessionKey s) (?hdr @ token)) (s\<lparr>se_draws := se_draws s + 1\<rparr>)"
    using assms by (auto simp: send_new_def token_packet_def handshaking_def send_unestablished)
qed

lemma server_gets_intro:
  assumes "hash_ok (le_sodium env)" and "stream_ok (le_sodium env)" and "handshaking s" and "se_State s = Initial" and "se_Inbound s"
    and "length hdr = 64" and "length ident = 32" and "length onion = 32" and "length n = 32" and "length z = 64"
    and "crypto_verify (le_sodium env) ident (ident @ onion @ n) z" and "transport_dh_server (le_sodium env) onion (le_TransportSecret env) n = Some key"
    and "pkt = encrypt_packet (le_sodium env) (se_SessionKey s) (hdr @ ident @ onion @ n @ z)"
  obtains s' hdr' where "Recv_LL env pkt s = Inr (True, s')" and "length hdr' = 64"
    and "se_log s' = se_log s @ [SendTo_LL (se_RemoteAddr s) (encrypt_packet (le_sodium env) key (hdr' @ se_token s))]"
    and "handshaking s'" and "se_State s' = Introducing" and "se_Inbound s'" and "se_SessionKey s' = key" and "se_token s' = se_token s"
    and "se_ExpectedIdent s' = ident" and "se_RemoteAddr s' = se_RemoteAddr s"
proof -
  let ?p = "hdr @ ident @ onion @ n @ z"
  have "64 < length ?p" using assms(6-10) by simp
  from decrypt_encrypt [OF assms(1,2) this] obtain h where h: "length h = 32"
    "DecryptMessageInPlace (le_sodium env) (se_SessionKey s) pkt = Some (h @ drop 32 ?p)" unfolding assms(13) by blast
  define q where "q = h @ drop 32 ?p"
  have q: "length q = 224" "take 32 (drop 64 q) = ident" "take 32 (drop 96 q) = onion" "take 32 (drop 128 q) = n" "take 64 (drop 160 q) = z"
    "take 96 (drop 64 q) = ident @ onion @ n" using h(1) assms(6-10) by (simp_all add: q_def)
  define r where "r = s\<lparr>se_RXRate := se_RXRate s + of_nat (length pkt), se_ExpectedIdent := ident, se_RemoteOnionKey := onion,
    se_SessionKey := key, se_LastRX := le_now env\<rparr>"
  have hs: "handshaking r" using assms(3) by (simp add: r_def handshaking_def)
  from token_sent [OF this] obtain hdr' where hdr': "length hdr' = 64"
    "send_new env (token_packet env (se_token s)) r = Send_LL env (encrypt_packet (le_sodium env) (se_SessionKey r) (hdr' @ se_token s)) (r\<lparr>se_draws := se_draws r + 1\<rparr>)"
    by blast
  have "HandleGotIntro env q (s\<lparr>se_RXRate := se_RXRate s + of_nat (length pkt)\<rparr>) = (send_new env (token_packet env (se_token s)) r)\<lparr>se_State := Introducing\<rparr>"
    using q assms(10-12) by (simp add: HandleGotIntro_def IntroductionSize_def PacketOverhead_def Let_def r_def)
  then have e: "Recv_LL env pkt s = Inr (True, (send_new env (token_packet env (se_token s)) r)\<lparr>se_State := Introducing\<rparr>)"
    using assms(4,5) h(2) [folded q_def] by (simp add: Recv_LL_def Let_def)
  show thesis by (rule that [OF e [unfolded hdr'(2)] hdr'(1)]) (use assms(3,5) in \<open>simp_all add: r_def handshaking_def\<close>)
qed

lemma client_gets_token:
  assumes "hash_ok (le_sodium env)" and "stream_ok (le_sodium env)" and "handshaking s" and "se_State s = Introducing" and "\<not> se_Inbound s"
    and "length hdr = 64" and "length token = length (se_token s)" and "token \<noteq> []"
    and "pkt = encrypt_packet (le_sodium env) (se_SessionKey s) (hdr @ token)"
  obtains s' hdr' where "Recv_LL env pkt s = Inr (True, s')" and "length hdr' = 64"
    and "se_log s' = se_log s @ [SendTo_LL (se_RemoteAddr s) (encrypt_packet (le_sodium env) (se_SessionKey s) (hdr' @ token))]"
    and "se_State s' = LinkIntro" and "se_SessionKey s' = se_SessionKey s" and "se_token s' = token"
proof -
  have "64 < length (hdr @ token)" using assms(6,8) by simp
  from decrypt_encrypt [OF assms(1,2) this] obtain h where h: "length h = 32"
    "DecryptMessageInPlace (le_sodium env) (se_SessionKey s) pkt = Some (h @ drop 32 (hdr @ token))"
    "length pkt = length (hdr @ token)" unfolding assms(9) by blast
  define q where "q = h @ drop 32 (hdr @ token)"
  have q: "length q = 64 + length token" "drop 64 q = token" using h(1) assms(6) by (simp_all add: q_def)
  define r where "r = s\<lparr>se_RXRate := se_RXRate s + of_nat (length pkt), se_LastRX := le_now env, se_token := token\<rparr>"
  have "handshaking r" using assms(3) by (simp add: r_def handshaking_def)
  from token_sent [OF this] obtain hdr' where hdr': "length hdr' = 64"
    "send_new env (token_packet env token) r = Send_LL env (encrypt_packet (le_sodium env) (se_SessionKey r) (hdr' @ token)) (r\<lparr>se_draws := se_draws r + 1\<rparr>)"
    by blast
  have e: "Recv_LL env pkt s = Inr (True, (send_new env (token_packet env token) r)\<lparr>se_State := LinkIntro\<rparr>)"
    using assms(4-7) h(2,3) [folded q_def] q by (simp add: Recv_LL_def HandleGotIntroAck_def PacketOverhead_def Let_def r_def)
  show thesis by (rule that [OF e [unfolded hdr'(2)] hdr'(1)]) (simp_all add: r_def)
qed

lemma server_gets_token:
  assumes "hash_ok (le_sodium env)" and "stream_ok (le_sodium env)" and "se_State s = Introducing" and "se_Inbound s"
    and "length hdr = 64" and "se_token s \<noteq> []"
    and "pkt = encrypt_packet (le_sodium env) (se_SessionKey s) (hdr @ se_token s)"
  shows "Recv_LL env pkt s = bind_res (SendOurLIM env None (s\<lparr>se_RXRate := se_RXRate s + of_nat (length pkt), se_LastRX := le_now env, se_State := LinkIntro\<rparr>)) (\<lambda>s. Inr (True, s))"
proof -
  have "64 < length (hdr @ se_token s)" using assms(5,6) by simp
  from decrypt_encrypt [OF assms(1,2) this] obtain h where h: "length h = 32"
    "DecryptMessageInPlace (le_sodium env) (se_SessionKey s) pkt = Some (h @ drop 32 (hdr @ se_token s))" unfolding assms(7) by blast
  define q where "q = h @ drop 32 (hdr @ se_token s)"
  have q: "length q = 64 + length (se_token s)" "drop 64 q = se_token s" using h(1) assms(5) by (simp_all add: q_def)
  show ?thesis using assms(3,4) h(2) [folded q_def] q by (simp add: Recv_LL_def HandleCreateSessionRequest_def PacketOverhead_def Let_def)
qed

section \<open>Agreement\<close>

text \<open>The caller knows the keys that the other side uses; its own key signs for the identity in its contact.\<close>

definition peers :: "link_env \<Rightarrow> link_env \<Rightarrow> RouterContact \<Rightarrow> AddressInfo \<Rightarrow> bool" where
  "peers ours theirs rc ai \<longleftrightarrow> env_ok ours \<and> env_ok theirs \<and> le_sodium ours = le_sodium theirs \<and> scalarmult_ok (le_sodium ours) \<and>
     encryption_key (le_sodium ours) (le_EncryptionSecret ours) \<and> encryption_key (le_sodium ours) (le_TransportSecret theirs) \<and>
     rc_pubkey rc = rc_pubkey (le_OurRC theirs) \<and> ai_pubkey ai = seckey_topublic (le_TransportSecret theirs)"

lemma caller_starts:
  assumes "env_ok env" and "le_Sign env m = Some z" and "m = rc_pubkey (le_OurRC env) @ seckey_topublic (le_EncryptionSecret env) @ n"
    and "n = randbytes (le_random env) 0 32" and "transport_dh_client (le_sodium env) (ai_pubkey ai) (le_EncryptionSecret env) n = Some key"
    and "s = Session_Start env (Session_outbound env rc ai)"
  obtains hdr where "length hdr = 64"
    and "se_log s = [SendTo_LL (addr_of ai) (encrypt_packet (le_sodium env) (session_key env (rc_pubkey rc)) (hdr @ m @ z))]"
    and "handshaking s" and "se_State s = Introducing" and "\<not> se_Inbound s" and "se_SessionKey s = key" and "length (se_token s) = 24"
    and "se_RemoteAddr s = addr_of ai"
proof
  let ?hdr = "replicate 32 0 @ randbytes (le_random env) 1 32"
  show "length ?hdr = 64" by (simp add: randbytes_def)
qed (use assms(2,5) in \<open>simp_all add: assms(3,4,6) Session_outbound_def Session_blank_def Session_Start_def GenerateAndSendIntro_def
    send_unestablished handshaking_def aligned_Zero_def Let_def\<close>)

text \<open>
  A decrypted introduction: the identity, the key and the nonce of the caller, and the signature of the three by that identity.
\<close>

definition signed_intro :: "sodium \<Rightarrow> aligned \<Rightarrow> byte list \<Rightarrow> bool" where
  "signed_intro so ident q \<longleftrightarrow> IntroductionSize + PacketOverhead \<le> length q \<and> take 32 (drop 64 q) = ident \<and>
     crypto_verify so ident (take 96 (drop 64 q)) (take 64 (drop 160 q))"

lemma intro_authenticates:
  assumes "Recv_LL env pkt s = Inr (ok, s')" and "se_State s = Initial" and "se_Inbound s" and "se_State s' \<noteq> Initial"
  shows "\<exists>q. DecryptMessageInPlace (le_sodium env) (se_SessionKey s) pkt = Some q \<and> signed_intro (le_sodium env) (se_ExpectedIdent s') q \<and>
    transport_dh_server (le_sodium env) (take 32 (drop 96 q)) (le_TransportSecret env) (take 32 (drop 128 q)) = Some (se_SessionKey s')"
proof -
  let ?s = "s\<lparr>se_RXRate := se_RXRate s + of_nat (length pkt)\<rparr>"
  from assms obtain q where q: "DecryptMessageInPlace (le_sodium env) (se_SessionKey s) pkt = Some q" and s': "s' = HandleGotIntro env q ?s"
    by (auto simp: Recv_LL_def Let_def split: option.splits)
  from assms(2,4) have "signed_intro (le_sodium env) (se_ExpectedIdent s') q \<and>
    transport_dh_server (le_sodium env) (take 32 (drop 96 q)) (le_TransportSecret env) (take 32 (drop 128 q)) = Some (se_SessionKey s')"
    unfolding s' HandleGotIntro_def Let_def by (auto simp: signed_intro_def PacketOverhead_def split: if_splits option.splits)
  with q show ?thesis by blast
qed

text \<open>
  C8: When the first three packets of the handshake arrive, both sides of the link hold the same session key, the one of the key exchange,
  and the same token; the called side holds the identity of the caller, the caller waits for the introduction, and the next thing that the
  called side does is to send it. The identity is authenticated: whatever packet a waiting inbound session receives, it leaves its initial state
  only for an introduction that is signed by the identity it then holds, and its key is then the one of the key exchange with the key and the
  nonce under that signature.
\<close>

theorem handshake_agrees:
  assumes "peers ours theirs rc ai" and "\<forall>m. \<exists>z. le_Sign ours m = Some z \<and> crypto_verify (le_sodium ours) (rc_pubkey (le_OurRC ours)) m z"
    and "transport_dh_client (le_sodium ours) (ai_pubkey ai) (le_EncryptionSecret ours) (randbytes (le_random ours) 0 32) = Some key"
    and "caller = Session_Start ours (Session_outbound ours rc ai)"
  shows "\<exists>intro ack request called caller'.
    se_log caller = [SendTo_LL (addr_of ai) intro] \<and>
    Recv_LL theirs intro (Session_inbound theirs addr) = Inr (True, called) \<and> se_log called = [SendTo_LL addr ack] \<and>
    Recv_LL ours ack caller = Inr (True, caller') \<and> se_log caller' = [SendTo_LL (addr_of ai) intro, SendTo_LL (addr_of ai) request] \<and>
    se_SessionKey caller' = key \<and> se_SessionKey called = key \<and> se_token caller' = se_token called \<and>
    se_ExpectedIdent called = rc_pubkey (le_OurRC ours) \<and> se_State caller' = LinkIntro \<and>
    Recv_LL theirs request called =
      bind_res (SendOurLIM theirs None (called\<lparr>se_RXRate := se_RXRate called + of_nat (length request), se_LastRX := le_now theirs, se_State := LinkIntro\<rparr>))
        (\<lambda>s. Inr (True, s)) \<and>
    (\<forall>pkt s ok s'. Recv_LL theirs pkt s = Inr (ok, s') \<longrightarrow> se_State s = Initial \<longrightarrow> se_Inbound s \<longrightarrow> se_State s' \<noteq> Initial \<longrightarrow>
      (\<exists>q. DecryptMessageInPlace (le_sodium theirs) (se_SessionKey s) pkt = Some q \<and> signed_intro (le_sodium theirs) (se_ExpectedIdent s') q \<and>
        transport_dh_server (le_sodium theirs) (take 32 (drop 96 q)) (le_TransportSecret theirs) (take 32 (drop 128 q)) = Some (se_SessionKey s')))"
proof -
  define so where "so = le_sodium ours"
  define n where "n = randbytes (le_random ours) 0 32"
  define pk where "pk = rc_pubkey (le_OurRC ours)"
  define onion where "onion = seckey_topublic (le_EncryptionSecret ours)"
  have p: "env_ok ours" "le_sodium theirs = so" "scalarmult_ok so" "encryption_key so (le_EncryptionSecret ours)"
    "encryption_key so (le_TransportSecret theirs)" "rc_pubkey rc = rc_pubkey (le_OurRC theirs)" "ai_pubkey ai = seckey_topublic (le_TransportSecret theirs)"
    using assms(1) by (auto simp: peers_def so_def)
  have ok: "hash_ok so" "stream_ok so" using p(1) by (simp_all add: env_ok_def so_def)
  obtain z where z: "le_Sign ours (pk @ onion @ n) = Some z" "crypto_verify so pk (pk @ onion @ n) z" "length z = 64"
    using assms(2) p(1) unfolding so_def pk_def env_ok_def by blast
  have len: "length pk = 32" "length n = 32" "length onion = 32"
    using p(1,4) by (simp_all add: env_ok_def pk_def n_def onion_def randbytes_def seckey_topublic_def)
  have server: "transport_dh_server so onion (le_TransportSecret theirs) n = Some key"
    using assms(3) dh_agrees [OF p(3-5), of n]
    by (simp add: transport_dh_client_def transport_dh_server_def p(7) so_def [symmetric] n_def [symmetric] onion_def)
  obtain hdr where caller: "length hdr = 64" "handshaking caller" "se_State caller = Introducing" "\<not> se_Inbound caller" "se_SessionKey caller = key"
    "length (se_token caller) = 24" "se_RemoteAddr caller = addr_of ai"
    and sent: "se_log caller = [SendTo_LL (addr_of ai) (encrypt_packet so (session_key ours (rc_pubkey rc)) (hdr @ (pk @ onion @ n) @ z))]"
    by (rule caller_starts [OF p(1) z(1) _ n_def assms(3) [folded n_def] assms(4)]) (simp_all add: pk_def onion_def so_def)
  define intro where "intro = encrypt_packet so (session_key ours (rc_pubkey rc)) (hdr @ (pk @ onion @ n) @ z)"
  define inb where "inb = Session_inbound theirs addr"
  have inb: "se_State inb = Initial" "se_Inbound inb" "se_SessionKey inb = session_key ours (rc_pubkey rc)" "handshaking inb" "length (se_token inb) = 24"
    "se_log inb = []" "se_RemoteAddr inb = addr"
    using p(2,6) by (simp_all add: inb_def Session_inbound_def Session_blank_def session_key_def so_def randbytes_def handshaking_def)
  obtain called hdr1 where called: "Recv_LL theirs intro inb = Inr (True, called)" "length hdr1 = 64"
    "se_log called = se_log inb @ [SendTo_LL (se_RemoteAddr inb) (encrypt_packet so key (hdr1 @ se_token inb))]" "handshaking called"
    "se_State called = Introducing" "se_Inbound called" "se_SessionKey called = key" "se_token called = se_token inb" "se_ExpectedIdent called = pk"
    by (rule server_gets_intro [of theirs inb hdr pk onion n z key intro, unfolded p(2),
          OF ok inb(4,1,2) caller(1) len(1,3,2) z(3,2) server]) (simp add: intro_def inb(3))
  have "se_token inb \<noteq> []" using inb(5) by auto
  then obtain caller' hdr2 where caller': "Recv_LL ours (encrypt_packet so key (hdr1 @ se_token inb)) caller = Inr (True, caller')" "length hdr2 = 64"
    "se_log caller' = se_log caller @ [SendTo_LL (se_RemoteAddr caller) (encrypt_packet so key (hdr2 @ se_token inb))]"
    "se_State caller' = LinkIntro" "se_SessionKey caller' = key" "se_token caller' = se_token inb"
    using client_gets_token [of ours caller hdr1 "se_token inb" "encrypt_packet so key (hdr1 @ se_token inb)",
        folded so_def, OF ok caller(2-4) called(2)] caller(5,6) inb(5) by auto
  note server_gets_token [of theirs called hdr2 "encrypt_packet so key (hdr2 @ se_token inb)", unfolded p(2), OF ok called(5,6) caller'(2)]
  with caller sent called caller' inb \<open>se_token inb \<noteq> []\<close>
  have "\<exists>ack request called caller'. se_log caller = [SendTo_LL (addr_of ai) intro] \<and>
    Recv_LL theirs intro inb = Inr (True, called) \<and> se_log called = [SendTo_LL addr ack] \<and>
    Recv_LL ours ack caller = Inr (True, caller') \<and> se_log caller' = [SendTo_LL (addr_of ai) intro, SendTo_LL (addr_of ai) request] \<and>
    se_SessionKey caller' = key \<and> se_SessionKey called = key \<and> se_token caller' = se_token called \<and>
    se_ExpectedIdent called = pk \<and> se_State caller' = LinkIntro \<and>
    Recv_LL theirs request called =
      bind_res (SendOurLIM theirs None (called\<lparr>se_RXRate := se_RXRate called + of_nat (length request), se_LastRX := le_now theirs, se_State := LinkIntro\<rparr>))
        (\<lambda>s. Inr (True, s))"
    unfolding intro_def [symmetric] by auto
  with intro_authenticates [of theirs] show ?thesis unfolding inb_def [symmetric] pk_def [symmetric] by blast
qed

theorem handshake_agrees_witness:
  "\<exists>caller intro ack request called caller'.
    caller = Session_Start demo_env (Session_outbound demo_env (le_OurRC demo_env) (AddressInfo_init\<lparr>ai_pubkey := replicate 32 2\<rparr>)) \<and>
    Recv_LL demo_env intro (Session_inbound demo_env ([], 1090)) = Inr (True, called) \<and> Recv_LL demo_env ack caller = Inr (True, caller') \<and>
    se_SessionKey caller' = se_SessionKey called \<and> se_token caller' = se_token called \<and>
    Recv_LL demo_env request called =
      bind_res (SendOurLIM demo_env None (called\<lparr>se_RXRate := se_RXRate called + of_nat (length request), se_LastRX := le_now demo_env, se_State := LinkIntro\<rparr>))
        (\<lambda>s. Inr (True, s))"
proof -
  let ?ai = "AddressInfo_init\<lparr>ai_pubkey := replicate 32 2\<rparr>"
  have keys: "replicate 64 x = replicate 32 x @ replicate 32 x" for x :: byte by (simp add: replicate_add [symmetric])
  have p: "peers demo_env demo_env (le_OurRC demo_env) ?ai"
    using demo_env_ok toy_sodium_ok(1) toy_key [of "replicate 32 1"] toy_key [of "replicate 32 2"]
    by (simp add: peers_def demo_env_def seckey_topublic_def keys)
  have v: "\<forall>m. \<exists>z. le_Sign demo_env m = Some z \<and> crypto_verify (le_sodium demo_env) (rc_pubkey (le_OurRC demo_env)) m z"
    by (simp add: demo_env_def crypto_verify_def toy_sodium_def RouterContact_init_def aligned_Zero_def)
  obtain key where k: "transport_dh_client (le_sodium demo_env) (ai_pubkey ?ai) (le_EncryptionSecret demo_env) (randbytes (le_random demo_env) 0 32) = Some key"
    by (simp add: transport_dh_client_def dh_client_def sodium_dh_def demo_env_def toy_sodium_def)
  from handshake_agrees [OF p v k refl, of "([], 1090)"] show ?thesis
    by (elim exE conjE, intro exI conjI) (rule refl, assumption+, simp only:, assumption+)
qed

end
