(* ===== verification/Spec2Isabelle.thy ===== *)
theory Spec2Isabelle
  imports Wire_Properties Encode Dht_Bucket Introset Net Ip Contact Dht_Context Routing_Messages Link_Properties Iwp_Completion Iwp_Handshake
begin

text \<open>
  This library models bittoro-network, an onion router of the LLARP family (C++ sources under \<^verbatim>\<open>src/llarp\<close>), and proves what its
  components promise. A router talks to other routers over link sessions. Over a session travel link messages, and inside them either
  messages of a Kademlia DHT, the frames of a path build, or encrypted traffic of a path. At the end of a path routing messages are read;
  hidden services exchange protocol frames inside them, exits exchange IP packets. Everything that crosses the network is a bencoded
  dictionary.

  \<^bold>\<open>Conventions.\<close> A C++ function that takes a mutable object and returns \<^verbatim>\<open>bool\<close> is an action: it maps the state to the flag and the new
  state. The result type \<open>'a res\<close> (\<open>Prelude\<close>) has a left summand for what the language leaves undefined or what ends the process: an
  access outside an object, a use of a freed object, a conversion without a value, fuel that ran out. A theorem that gives \<open>Inr\<close> therefore also says
  that no such fault happens. Machine integers are words of their width. A class is a record, a virtual family of messages is a datatype
  with one constructor per class, a \<^verbatim>\<open>std::map\<close> is a sorted association list with the comparator of the source. What the code reads from
  outside (the clock, random bytes, libsodium, \<^verbatim>\<open>inet_ntop\<close> and \<^verbatim>\<open>inet_pton\<close>, the node database, callbacks of the router) is an argument;
  where a theorem needs a law of such an argument, the law is a named hypothesis, as \<open>inet_ok\<close>, \<open>scalarmult_ok\<close>, \<open>stream_ok\<close> and \<open>hash_ok\<close>.

  \<^bold>\<open>The wire.\<close>
  \<^item> \<open>Buffer\<close>: \<^verbatim>\<open>llarp_buffer_t\<close> (\<^verbatim>\<open>util/buffer.*\<close>, \<^verbatim>\<open>util/endian.hpp\<close>) as memory, cursor and size.
  \<^item> \<open>Bencode\<close>, \<open>Bencode_Laws\<close>, \<open>Wire_Properties\<close>: readers, writers and the dictionary helpers of \<^verbatim>\<open>util/bencode.*\<close>. Writers stay in
    bounds, readers invert writers, an unknown value is skipped exactly, the recursive skip returns. The loops take fuel: one more than the
    bytes left in the buffer, which is enough because each round consumes a byte. The locale \<open>bencode_codec\<close> is the contract of a class
    with \<^verbatim>\<open>BEncode\<close> and \<^verbatim>\<open>BDecode\<close>; lists and dictionary entries of such a class are proved there once, and every class of the program that
    is used this way interprets it.
  \<^item> \<open>Codec\<close>: the shape that all messages share, a dictionary read key by key with \<^verbatim>\<open>DecodeKey\<close>. An entry list describes what is
    written, \<open>decodes_all\<close> that the keys are read back, and the two meet in one round trip lemma.
  \<^item> \<open>Encode\<close>, \<open>Aligned\<close>: base 32 and hexadecimal text, fixed-size and encrypted byte arrays.
  \<^item> \<open>Crypto\<close>, \<open>Encrypted_Frame\<close>: \<^verbatim>\<open>crypto/crypto_libsodium.cpp\<close> over the functions of libsodium, and the frames of a path build.
    Both ends of a key exchange compute the same secret, and a frame is readable by the hop it was encrypted for. The lengths that the
    code computes from the size of a frame wrap as \<^verbatim>\<open>size_t\<close> does, and what they make it read is checked against the array of the frame.

  \<^bold>\<open>Records.\<close> \<open>Contact\<close> holds router contacts (\<^verbatim>\<open>router_contact.*\<close>, \<^verbatim>\<open>net/address_info.*\<close>, \<^verbatim>\<open>net/exit_info.*\<close>), \<open>Introset\<close> what a hidden
  service publishes (\<^verbatim>\<open>service/intro*.*\<close>, \<^verbatim>\<open>service/info.*\<close>, \<^verbatim>\<open>pow.*\<close>): codecs, signatures, expiry. \<open>Net\<close> holds address ranges and bogons,
  \<open>Ip\<close> the packets of an exit and the incremental update of their checksums; every access at an offset that comes from the packet is checked
  against its array.

  \<^bold>\<open>The DHT.\<close> \<open>Std_Map\<close> gives ordered containers over a locale for comparators. \<open>Dht_Bucket\<close> is the bucket and refines a finite map;
  \<open>Dht_Messages\<close> the messages and their two carriers; \<open>Dht_Tx\<close> the pending lookups, which a result answers exactly and which
  otherwise stay pending until they expire, over any run of the holder; \<open>Dht_Context\<close> the jobs, the handlers of every message
  and the timers, as one transition system \<open>dht_step\<close> whose reachable states keep the invariant. Calls into the router are a log of
  effects in the order the code makes them.

  \<^bold>\<open>Traffic.\<close> \<open>Protocol\<close> models frames between hidden services and the sessions of an endpoint (\<^verbatim>\<open>service/protocol.*\<close>, parts of
  \<^verbatim>\<open>service/endpoint.cpp\<close>): a frame is read as it was sealed, and only a signed frame changes a conversation or queues a message. \<open>Routing_Messages\<close> models the
  messages inside a path and the parser at its end; \<open>Link_Messages\<close> and \<open>Link_Properties\<close> the messages between routers and their parser.
  Both parsers reuse one object per message type, so their theorems say what the object keeps between two messages.

  \<^bold>\<open>Link sessions.\<close> \<open>Iwp_Message\<close> models the packets of a link and the messages in transit (\<^verbatim>\<open>iwp/message_buffer.*\<close>), \<open>Iwp_Session\<close> the session
  (\<^verbatim>\<open>iwp/session.*\<close>): handshake, encryption, announcements, fragments, acknowledgements and timers, with the calls into the link layer as a
  log of effects. \<open>Iwp_Delivery\<close> shows that fragments in any order are put together and delivered once. \<open>Iwp_Run\<close> defines a run as any
  sequence of operations, the work of the crypto threads included, and keeps the invariant over it; \<open>Iwp_Properties\<close> draws from it the sizes
  of all packets and that delivered messages are not replayed. \<open>Iwp_Completion\<close> looks at a session through its view, the messages being sent and
  the calls of completion handlers, and shows that every handler is called exactly once and in time. \<open>Iwp_Handshake\<close> follows the first
  packets of a link on both sides, up to the common key, and shows that an inbound session accepts only a signed introduction. The loops over fragments end because their index grows by 1024; no fuel is needed.

  \<^bold>\<open>Where the code does not do what it means to.\<close> Theorems whose text says so state the behaviour of the code as it is, for example that a
  truncated dictionary is read past its end, that an exit update can not be read by the peer it is sent to, or that a commit
  record does not keep its lifetime.

  \<^bold>\<open>Not modelled.\<close> Event loops, sockets, threads and locks, logging and metrics, files (the node database, configuration, keys), JSON-RPC
  and the bundled HTTP library, NTRU Prime, the platform layers and the entry points: these are I/O, glue or third-party code, and the
  components above take what they need of them as arguments. Status extraction and printing of records has no effect on the protocol.
  Outside of the library are also the tables around the modelled parts: the sessions of the link layer (\<^verbatim>\<open>link/server.cpp\<close>), hops and path
  sets (\<^verbatim>\<open>path\<close>), the queues of exits and of the tunnel interface (\<^verbatim>\<open>exit\<close>, \<^verbatim>\<open>handlers\<close>), the management of hidden service endpoints, the outgoing
  queues and profiles of the router, and the DNS resolver. What the modelled parts get from them is an argument, and what they give to them
  is in a log of effects.
\<close>

end
